(* ===== verification/Pangolin_Prelude.thy ===== *)
theory Pangolin_Prelude
  imports Main "HOL-Library.Word" "HOL-Library.List_Lexorder" "HOL-Library.Product_Lexorder"
    "HOL-Library.Multiset"
begin

text \<open>
  Shared vocabulary of the development: machine integers and byte strings as the Rust
  sources use them, the checked conversions of the standard library, results as sums, and
  the generic lemmas on sorting, permutations and sums that the component theories share.
\<close>

section \<open>Machine integers and bytes\<close>

type_synonym u8 = "8 word"
type_synonym u16 = "16 word"
type_synonym u32 = "32 word"
type_synonym u64 = "64 word"
type_synonym u128 = "128 word"
type_synonym u256 = "256 word"
type_synonym bytes = "u8 list"

text \<open>
  A signed 64-bit column or variable is an \<open>int\<close>; the bounds are named where a conversion
  checks them.
\<close>

abbreviation i64_max :: int where
  "i64_max \<equiv> 2 ^ 63 - 1"

text \<open>Rust's \<open>i64::try_from(u64)\<close> and \<open>u64::try_from(i64)\<close>.\<close>

definition i64_try_from :: "u64 \<Rightarrow> int option" where
  "i64_try_from w = (if uint w \<le> i64_max then Some (uint w) else None)"

definition u64_try_from :: "int \<Rightarrow> u64 option" where
  "u64_try_from v = (if 0 \<le> v \<and> v \<le> i64_max then Some (word_of_int v) else None)"

text \<open>Rust's \<open>saturating_add\<close> and \<open>saturating_sub\<close> on an unsigned word.\<close>

definition sat_add :: "'a::len word \<Rightarrow> 'a word \<Rightarrow> 'a word" where
  "sat_add a b = (if unat a + unat b < 2 ^ LENGTH('a) then a + b else - 1)"

definition sat_sub :: "'a::len word \<Rightarrow> 'a word \<Rightarrow> 'a word" where
  "sat_sub a b = (if b \<le> a then a - b else 0)"

lemma i64_try_from_roundtrip [simp]:
  "i64_try_from w = Some v \<Longrightarrow> u64_try_from v = Some w"
  by (auto simp: i64_try_from_def u64_try_from_def split: if_splits)

lemma i64_try_from_Some:
  "i64_try_from w = Some v \<longleftrightarrow> v = uint w \<and> uint w \<le> i64_max"
  by (auto simp: i64_try_from_def)

lemma i64_try_from_nonneg: "i64_try_from w = Some v \<Longrightarrow> 0 \<le> v"
  by (auto simp: i64_try_from_def split: if_splits)

lemma unat_sat_sub: "unat (sat_sub a b) = unat a - unat b"
  by (auto simp: sat_sub_def unat_sub word_le_nat_alt)

lemma sat_sub_le: "sat_sub a b \<le> a"
  by (simp add: word_le_nat_alt unat_sat_sub)

section \<open>Results\<close>

text \<open>
  A fallible operation returns \<open>'e + 'a\<close>: \<open>Inl\<close> the error, \<open>Inr\<close> the value. The Rust
  operator \<open>?\<close> is \<open>and_then\<close>.
\<close>

definition and_then :: "'e + 'a \<Rightarrow> ('a \<Rightarrow> 'e + 'b) \<Rightarrow> 'e + 'b" where
  "and_then r f = (case r of Inl e \<Rightarrow> Inl e | Inr a \<Rightarrow> f a)"

definition ok_or :: "'a option \<Rightarrow> 'e \<Rightarrow> 'e + 'a" where
  "ok_or x e = (case x of None \<Rightarrow> Inl e | Some a \<Rightarrow> Inr a)"

lemma and_then_simps [simp]:
  "and_then (Inl e) f = Inl e" "and_then (Inr a) f = f a"
  by (simp_all add: and_then_def)

lemma and_then_Inr:
  "and_then r f = Inr b \<longleftrightarrow> (\<exists>a. r = Inr a \<and> f a = Inr b)"
  by (cases r) auto

lemma and_then_Inl:
  "and_then r f = Inl e \<longleftrightarrow> r = Inl e \<or> (\<exists>a. r = Inr a \<and> f a = Inl e)"
  by (cases r) auto

lemma ok_or_simps [simp]:
  "ok_or None e = Inl e" "ok_or (Some a) e = Inr a"
  "ok_or x e = Inr a \<longleftrightarrow> x = Some a" "ok_or x e = Inl e' \<longleftrightarrow> x = None \<and> e' = e"
  by (auto simp: ok_or_def split: option.splits)

text \<open>Collecting an iterator of results, \<open>collect::<Result<Vec<_>, _>>()\<close>: it stops at the first error.\<close>

fun collect_results :: "('a \<Rightarrow> 'e + 'b) \<Rightarrow> 'a list \<Rightarrow> 'e + 'b list" where
  "collect_results f [] = Inr []"
| "collect_results f (x # xs) = and_then (f x) (\<lambda>y. and_then (collect_results f xs) (\<lambda>ys. Inr (y # ys)))"

lemma collect_results_ok:
  "collect_results f xs = Inr ys \<longleftrightarrow> list_all2 (\<lambda>x y. f x = Inr y) xs ys"
  by (induction xs arbitrary: ys) (auto simp: and_then_Inr list_all2_Cons1)

lemma collect_results_ok_map:
  "(\<And>x. x \<in> set xs \<Longrightarrow> f x = Inr (g x)) \<Longrightarrow> collect_results f xs = Inr (map g xs)"
  by (induction xs) simp_all

definition is_ok :: "'e + 'a \<Rightarrow> bool" where
  "is_ok r = (case r of Inl _ \<Rightarrow> False | Inr _ \<Rightarrow> True)"

lemma is_ok_simps [simp]: "\<not> is_ok (Inl e)" "is_ok (Inr a)"
  by (simp_all add: is_ok_def)

section \<open>Codecs\<close>

text \<open>
  A codec interface: an encoder, a strict decoder and the law that decoding returns exactly the
  encoded value. Its consequences are injectivity of the encoding and that the decoder accepts
  canonical encodings only.
\<close>

locale strict_codec =
  fixes enc :: "'a \<Rightarrow> 'b" and dec :: "'b \<Rightarrow> 'a option"
  assumes dec_enc: "dec b = Some a \<longleftrightarrow> b = enc a"
begin

lemma round_trip: "dec (enc a) = Some a"
  by (simp add: dec_enc)

lemma enc_inj: "enc a = enc a' \<longleftrightarrow> a = a'"
  by (metis dec_enc option.inject)

lemma dec_canonical: "dec b \<noteq> None \<longleftrightarrow> b \<in> range enc"
  by (auto simp: dec_enc image_iff)

lemma dec_inj: "dec b = Some a \<Longrightarrow> dec b' = Some a \<Longrightarrow> b = b'"
  by (simp add: dec_enc)

end

text \<open>The same contract for a code whose values satisfy a validity condition.\<close>

locale codec_on =
  fixes valid :: "'a \<Rightarrow> bool" and enc :: "'a \<Rightarrow> 'b" and dec :: "'b \<Rightarrow> 'a option"
  assumes dec_exact: "dec b = Some a \<longleftrightarrow> valid a \<and> b = enc a"
begin

lemma round_trip_on: "valid a \<Longrightarrow> dec (enc a) = Some a"
  by (simp add: dec_exact)

lemma enc_inj_on: "inj_on enc (Collect valid)"
  by (intro inj_onI) (metis dec_exact mem_Collect_eq option.inject)

lemma dec_accepts: "dec b \<noteq> None \<longleftrightarrow> b \<in> enc ` Collect valid"
  by (auto simp: dec_exact image_iff)

end

sublocale strict_codec \<subseteq> all: codec_on "\<lambda>_. True" enc dec
  by unfold_locales (simp add: dec_enc)

definition ok_option :: "'e + 'a \<Rightarrow> 'a option" where
  "ok_option r = (case r of Inl _ \<Rightarrow> None | Inr a \<Rightarrow> Some a)"

lemma ok_option_Some [simp]: "ok_option r = Some a \<longleftrightarrow> r = Inr a"
  by (auto simp: ok_option_def split: sum.splits)

section \<open>Stateful operations\<close>

text \<open>
  A method on \<open>&mut self\<close> that returns a \<open>Result\<close> is a function from the state to the result
  and the new state. State changes made before an error persist, as in the source; a
  transaction that fails leaves the state as it was because the model writes the tables in
  one step, on the success branch. \<open>op_bind\<close> is sequencing with \<open>?\<close>, \<open>op_try\<close> a fallible
  \<open>&self\<close> method and \<open>op_modify\<close> an infallible \<open>&mut self\<close> one.
\<close>

type_synonym ('s, 'e, 'a) op = "'s \<Rightarrow> ('e + 'a) \<times> 's"

definition op_ret :: "'a \<Rightarrow> ('s, 'e, 'a) op" where
  "op_ret a s = (Inr a, s)"

definition op_fail :: "'e \<Rightarrow> ('s, 'e, 'a) op" where
  "op_fail e s = (Inl e, s)"

definition op_bind :: "('s, 'e, 'a) op \<Rightarrow> ('a \<Rightarrow> ('s, 'e, 'b) op) \<Rightarrow> ('s, 'e, 'b) op" where
  "op_bind m f s = (case m s of (Inl e, s') \<Rightarrow> (Inl e, s') | (Inr a, s') \<Rightarrow> f a s')"

definition op_try :: "('s \<Rightarrow> 'e + 'a) \<Rightarrow> ('s, 'e, 'a) op" where
  "op_try g s = (g s, s)"

definition op_read :: "('s \<Rightarrow> 'a) \<Rightarrow> ('s, 'e, 'a) op" where
  "op_read g s = (Inr (g s), s)"

definition op_modify :: "('s \<Rightarrow> 's) \<Rightarrow> ('s, 'e, unit) op" where
  "op_modify f s = (Inr (), f s)"

definition op_guard :: "bool \<Rightarrow> 'e \<Rightarrow> ('s, 'e, unit) op" where
  "op_guard b e s = (if b then Inr () else Inl e, s)"

definition op_seq :: "('s, 'e, 'a) op \<Rightarrow> ('s, 'e, 'b) op \<Rightarrow> ('s, 'e, 'b) op" where
  "op_seq m m' = op_bind m (\<lambda>_. m')"

text \<open>\<open>let _ = self.op(..)\<close>: the result is dropped, the state change stays.\<close>

definition op_ignore :: "('s, 'e, 'a) op \<Rightarrow> ('s, 'e, unit) op" where
  "op_ignore m s = (Inr (), snd (m s))"

text \<open>A transaction: it commits the new state or fails and leaves the state alone.\<close>

definition op_update :: "('s \<Rightarrow> 'e + 's) \<Rightarrow> ('s, 'e, unit) op" where
  "op_update f s = (case f s of Inl e \<Rightarrow> (Inl e, s) | Inr s' \<Rightarrow> (Inr (), s'))"

named_theorems op_defs \<open>the operation combinators\<close>
named_theorems op_keeps \<open>preservation of a state predicate, one rule per combinator and operation\<close>

lemmas op_combinators [op_defs] =
  op_ret_def op_fail_def op_try_def op_read_def op_modify_def op_guard_def op_ignore_def op_update_def

lemma op_bind_Inr:
  "op_bind m f s = (Inr b, s'') \<longleftrightarrow> (\<exists>a s'. m s = (Inr a, s') \<and> f a s' = (Inr b, s''))"
  by (auto simp: op_bind_def split: prod.splits sum.splits)

lemma op_bind_Inl:
  "op_bind m f s = (Inl e, s'') \<longleftrightarrow>
     m s = (Inl e, s'') \<or> (\<exists>a s'. m s = (Inr a, s') \<and> f a s' = (Inl e, s''))"
  by (auto simp: op_bind_def split: prod.splits sum.splits)

lemma op_seq_Inr:
  "op_seq m m' s = (Inr b, s'') \<longleftrightarrow> (\<exists>a s'. m s = (Inr a, s') \<and> m' s' = (Inr b, s''))"
  by (simp add: op_seq_def op_bind_Inr)

lemma op_seq_Inl:
  "op_seq m m' s = (Inl e, s'') \<longleftrightarrow>
     m s = (Inl e, s'') \<or> (\<exists>a s'. m s = (Inr a, s') \<and> m' s' = (Inl e, s''))"
  by (simp add: op_seq_def op_bind_Inl)

lemma op_guard_Inr: "op_guard b e s = (Inr u, s') \<longleftrightarrow> b \<and> s' = s"
  by (auto simp: op_guard_def)

lemma op_guard_Inl: "op_guard b e s = (Inl e', s') \<longleftrightarrow> \<not> b \<and> e' = e \<and> s' = s"
  by (auto simp: op_guard_def)

lemma op_try_Inr: "op_try g s = (Inr a, s') \<longleftrightarrow> g s = Inr a \<and> s' = s"
  by (auto simp: op_try_def)

lemma op_try_Inl: "op_try g s = (Inl e, s') \<longleftrightarrow> g s = Inl e \<and> s' = s"
  by (auto simp: op_try_def)

lemma op_update_Inr: "op_update f s = (Inr u, s') \<longleftrightarrow> f s = Inr s'"
  by (auto simp: op_update_def split: sum.splits)

lemma op_update_Inl: "op_update f s = (Inl e, s') \<longleftrightarrow> f s = Inl e \<and> s' = s"
  by (auto simp: op_update_def split: sum.splits)

lemma op_read_run [simp]: "op_read g s = (Inr (g s), s)"
  by (simp add: op_read_def)

lemma op_modify_run [simp]: "op_modify f s = (Inr (), f s)"
  by (simp add: op_modify_def)

lemma op_ret_run [simp]: "op_ret a s = (Inr a, s)"
  by (simp add: op_ret_def)

lemma op_fail_run [simp]: "op_fail e s = (Inl e, s)"
  by (simp add: op_fail_def)

lemma op_ignore_run [simp]: "op_ignore m s = (Inr (), snd (m s))"
  by (simp add: op_ignore_def)

lemmas op_run = op_bind_Inr op_bind_Inl op_seq_Inr op_seq_Inl op_guard_Inr op_guard_Inl
  op_try_Inr op_try_Inl op_update_Inr op_update_Inl

text \<open>A state predicate that an operation keeps, on its success and on its error branches.\<close>

definition keeps :: "('s \<Rightarrow> bool) \<Rightarrow> ('s, 'e, 'a) op \<Rightarrow> bool" where
  "keeps P m \<longleftrightarrow> (\<forall>s. P s \<longrightarrow> P (snd (m s)))"

lemma keepsI: "(\<And>s. P s \<Longrightarrow> P (snd (m s))) \<Longrightarrow> keeps P m"
  by (simp add: keeps_def)

lemma keepsD: "keeps P m \<Longrightarrow> P s \<Longrightarrow> m s = (r, s') \<Longrightarrow> P s'"
  by (metis keeps_def snd_conv)

lemma keeps_bind [op_keeps]:
  "keeps P m \<Longrightarrow> (\<And>a. keeps P (f a)) \<Longrightarrow> keeps P (op_bind m f)"
  by (fastforce simp: keeps_def op_bind_def split: prod.splits sum.splits)

lemma keeps_seq [op_keeps]: "keeps P m \<Longrightarrow> keeps P m' \<Longrightarrow> keeps P (op_seq m m')"
  by (simp add: op_seq_def keeps_bind)

lemma keeps_pure [op_keeps]:
  "keeps P (op_ret a)" "keeps P (op_fail e)" "keeps P (op_try g)" "keeps P (op_read h)"
  "keeps P (op_guard b e)"
  by (simp_all add: keeps_def op_defs)

lemma keeps_ignore [op_keeps]: "keeps P m \<Longrightarrow> keeps P (op_ignore m)"
  by (simp add: keeps_def op_defs)

lemma keeps_if [op_keeps]: "keeps P m \<Longrightarrow> keeps P m' \<Longrightarrow> keeps P (if b then m else m')"
  by simp

lemma keeps_modify [op_keeps]: "(\<And>s. P s \<Longrightarrow> P (f s)) \<Longrightarrow> keeps P (op_modify f)"
  by (simp add: keeps_def)

lemma keeps_update [op_keeps]:
  "(\<And>s s'. P s \<Longrightarrow> f s = Inr s' \<Longrightarrow> P s') \<Longrightarrow> keeps P (op_update f)"
  by (auto simp: keeps_def op_update_def split: sum.splits)

section \<open>Sorting and permutations\<close>

text \<open>
  A stable sort by an injective key depends on the multiset of its input only: the
  iteration order of a hash map that feeds a sort does not matter.
\<close>

lemma sort_key_inj_perm:
  assumes "mset xs = mset ys" and "inj_on f (set xs)" and "distinct xs"
  shows "sort_key f xs = sort_key f ys"
proof -
  have ys: "set ys = set xs" "distinct ys"
    using assms(1,3) mset_eq_setD mset_eq_imp_distinct_iff by metis+
  have "inj_on f (set (sort_key f xs) \<union> set (sort_key f ys))"
    using assms(2) ys by simp
  moreover have "map f (sort_key f xs) = map f (sort_key f ys)"
  proof -
    have dist: "distinct (map f xs)" "distinct (map f ys)"
      using assms(2,3) ys by (simp_all add: distinct_map)
    have "sorted_list_of_set (set (map f xs)) = map f (sort_key f xs)"
      by (rule sorted_distinct_set_unique) (use assms(2,3) in \<open>auto simp: distinct_map\<close>)
    moreover have "sorted_list_of_set (set (map f ys)) = map f (sort_key f ys)"
      by (rule sorted_distinct_set_unique) (use assms(2) ys in \<open>auto simp: distinct_map\<close>)
    ultimately show ?thesis using ys by simp
  qed
  ultimately show ?thesis by (rule map_inj_on[rotated])
qed

lemma mset_filter_map_perm:
  "mset xs = mset ys \<Longrightarrow> mset (map f (filter P xs)) = mset (map f (filter P ys))"
  by simp

lemma map_of_perm:
  assumes "mset xs = mset ys" and "distinct (map fst xs)"
  shows "map_of xs = map_of ys"
proof -
  have "distinct (map fst ys)"
    using assms by (metis mset_eq_imp_distinct_iff mset_map)
  moreover have "set xs = set ys" using assms(1) by (rule mset_eq_setD)
  ultimately show ?thesis using assms(2) by (simp add: map_of_inject_set)
qed

end
