(* ===== verification/Revision_Graph.thy ===== *)
theory Revision_Graph
  imports Pangolin_Prelude
begin

text \<open>
  The revision graph of one account (\<open>crates/pangolin-store/src/revision.rs\<close>): revision
  identifiers with their byte order, revision metadata, the construction of the indexed graph
  with its duplicate and cycle detection, head election, ancestry and lowest common ancestor.
  The lemmas show that the construction succeeds exactly on acyclic rows with distinct ids,
  that it does not depend on the order of its input, that the ancestry loops end, and that
  heads, canonical head and common ancestor are what the parent relation says they are.
\<close>

section \<open>Identifiers and metadata\<close>

text \<open>32-byte identifiers of revisions, accounts and devices.\<close>

datatype RevisionId = RevisionId (rid_bytes: bytes)

datatype AccountId = AccountId (aid_bytes: bytes)

datatype DeviceId = DeviceId (did_bytes: bytes)

text \<open>Both identifier types are ordered by their bytes, as \<open>a.0.cmp(&b.0)\<close> does.\<close>

instantiation RevisionId :: linorder
begin

definition less_eq_RevisionId :: "RevisionId \<Rightarrow> RevisionId \<Rightarrow> bool" where
  "less_eq_RevisionId a b = (rid_bytes a \<le> rid_bytes b)"

definition less_RevisionId :: "RevisionId \<Rightarrow> RevisionId \<Rightarrow> bool" where
  "less_RevisionId a b = (rid_bytes a < rid_bytes b)"

instance
  by standard (auto simp: less_eq_RevisionId_def less_RevisionId_def RevisionId.expand)

end

instantiation AccountId :: linorder
begin

definition less_eq_AccountId :: "AccountId \<Rightarrow> AccountId \<Rightarrow> bool" where
  "less_eq_AccountId a b = (aid_bytes a \<le> aid_bytes b)"

definition less_AccountId :: "AccountId \<Rightarrow> AccountId \<Rightarrow> bool" where
  "less_AccountId a b = (aid_bytes a < aid_bytes b)"

instance
  by standard (auto simp: less_eq_AccountId_def less_AccountId_def AccountId.expand)

end

definition REVISION_ID_LEN :: nat where
  "REVISION_ID_LEN = 32"

definition GENESIS_PARENT :: RevisionId where
  "GENESIS_PARENT = RevisionId (replicate REVISION_ID_LEN 0)"

record ChainAnchor =
  tx_hash :: bytes
  block_number :: u64
  log_index :: u64
  sequence :: u64

record RevisionMeta =
  revision_id :: RevisionId
  parent_revision_id :: RevisionId
  device_id :: DeviceId
  schema_version :: u8
  created_at :: int
  is_tombstone :: bool
  superseded_by :: "RevisionId option"
  chain_anchor :: "ChainAnchor option"

text \<open>
  The chain errors of \<open>crates/pangolin-chain/src/error.rs\<close> and the storage errors of \<open>error.rs\<close>,
  in their order. Errors of third-party crates that a variant wraps are kept as their message.
\<close>

datatype ChainEnv = BaseSepolia | BaseMainnet | Dev

datatype ChainError =
    WrongChain u64 u64
  | Deployment string
  | Rpc string
  | Decode string
  | Reverted string
  | MissingEvent string
  | Wallet string
  | Keystore string
  | ChainIo string
  | DeploymentMismatch string string
  | SignatureInvalid
  | DeploymentNotFound ChainEnv string
  | DeploymentParseError ChainEnv string
  | DeploymentAddressMismatch ChainEnv bytes bytes
  | ChainIdMismatch u64 u64
  | InsufficientFunds "nat option" string
  | RevertedOnChain string bytes
  | RevertedPreBroadcast string
  | GasCapExceeded u64 u64
  | NonceUnresolvable u8
  | ReceiptMismatch bytes bytes
  | RpcTransient string u8
  | PrePublishBalanceInsufficient nat nat
  | BalanceQueryFailed string
  | BalanceUnknown string
  | SignerRecoveryFailed string
  | EventSignerMismatch bytes bytes
  | EventVaultIdMismatch bytes bytes
  | UnsupportedSchemaVersionEvent "16 word" "16 word"
  | CheckpointOutOfRange u64 u64

datatype StoreError =
    Io string
  | Sqlite string
  | BadMagic
  | UnsupportedFormatVersion u32 u32
  | Cbor string
  | AuthenticationFailed
  | NotUnlocked
  | Closed
  | AlreadyOpen
  | AccountNotFound
  | AccountTombstoned
  | RevisionNotFound
  | NotAHead AccountId RevisionId "RevisionId list"
  | UnsupportedRevisionSchemaVersion AccountId RevisionId u32 u32
  | Corrupted string
  | Internal string
  | SessionExpired
  | SessionPending
  | PresenceProofRequired
  | PromptTimedOut
  | Validation string string
  | AccountFrozenPendingResolve AccountId
  | CaptureAuthorityExclusivity string
  | CaptureAuthorityValidation string
  | ChainSignError ChainError
  | ChainSyncError ChainError
  | RecoveryBackup string

section \<open>The graph and its construction\<close>

record RevisionGraph =
  revisions :: "RevisionMeta list"
  parents :: "RevisionId \<rightharpoonup> RevisionId"
  children :: "RevisionId \<rightharpoonup> RevisionId list"
  heads :: "RevisionId list"
  genesis :: "RevisionId option"
  genesis_extra :: "RevisionId list"
  by_id :: "RevisionId \<rightharpoonup> nat"

text \<open>Step 1: the index by id, refusing a repeated \<open>revision_id\<close>.\<close>

fun index_rows :: "(RevisionId \<rightharpoonup> RevisionMeta) \<Rightarrow> RevisionMeta list
    \<Rightarrow> StoreError + (RevisionId \<rightharpoonup> RevisionMeta)" where
  "index_rows m [] = Inr m"
| "index_rows m (row # rows) =
     (if m (revision_id row) \<noteq> None
      then Inl (Corrupted ''duplicate revision_id in graph input'')
      else index_rows (m(revision_id row \<mapsto> row)) rows)"

definition row_index :: "RevisionMeta list \<Rightarrow> RevisionId \<rightharpoonup> RevisionMeta" where
  "row_index rows = map_of (map (\<lambda>m. (revision_id m, m)) rows)"

text \<open>
  Step 2: roots are genesis revisions and revisions whose parent is not in the input; every
  other revision is an edge of the \<open>parents\<close> and \<open>children\<close> indices. The source walks a hash
  map here; the model walks the rows, and \<open>build_perm\<close> below shows the order is immaterial.
\<close>

definition is_root :: "RevisionMeta list \<Rightarrow> RevisionMeta \<Rightarrow> bool" where
  "is_root rows m =
     (parent_revision_id m = GENESIS_PARENT \<or> row_index rows (parent_revision_id m) = None)"

definition order_key :: "RevisionMeta \<Rightarrow> int \<times> RevisionId" where
  "order_key m = (created_at m, revision_id m)"

definition roots_of :: "RevisionMeta list \<Rightarrow> RevisionId list" where
  "roots_of rows = map revision_id (sort_key order_key (filter (is_root rows) rows))"

definition parents_index :: "RevisionMeta list \<Rightarrow> RevisionId \<rightharpoonup> RevisionId" where
  "parents_index rows =
     map_of (map (\<lambda>m. (revision_id m, parent_revision_id m))
       (filter (\<lambda>m. \<not> is_root rows m) rows))"

definition children_index :: "RevisionMeta list \<Rightarrow> RevisionId \<rightharpoonup> RevisionId list" where
  "children_index rows p =
     (let kids = filter (\<lambda>m. \<not> is_root rows m \<and> parent_revision_id m = p) rows
      in if kids = [] then None else Some (map revision_id (sort_key order_key kids)))"

definition kids_of :: "RevisionMeta list \<Rightarrow> RevisionId \<Rightarrow> RevisionId list" where
  "kids_of rows p = (case children_index rows p of None \<Rightarrow> [] | Some ks \<Rightarrow> ks)"

text \<open>
  Step 4: breadth-first walk from the roots. \<open>enqueue_kids\<close> is the inner loop over the
  children of one node; \<open>None\<close> is the back-edge it reports as a cycle.
\<close>

fun enqueue_kids :: "RevisionId set \<Rightarrow> RevisionId list \<Rightarrow> RevisionId list
    \<Rightarrow> (RevisionId set \<times> RevisionId list) option" where
  "enqueue_kids seen queue [] = Some (seen, queue)"
| "enqueue_kids seen queue (k # ks) =
     (if k \<in> seen then None else enqueue_kids (insert k seen) (queue @ [k]) ks)"

lemma enqueue_kids_Some:
  "enqueue_kids seen queue ks = Some (seen', queue') \<longleftrightarrow>
     distinct ks \<and> set ks \<inter> seen = {} \<and> seen' = seen \<union> set ks \<and> queue' = queue @ ks"
  by (induction seen queue ks rule: enqueue_kids.induct) auto

lemma set_kids_of: "set (kids_of rows p) =
    revision_id ` {m \<in> set rows. \<not> is_root rows m \<and> parent_revision_id m = p}"
  by (auto simp: kids_of_def children_index_def Let_def filter_empty_conv split: option.splits)

lemma set_kids_of_subset: "set (kids_of rows p) \<subseteq> revision_id ` set rows"
  by (auto simp: set_kids_of)

function bfs_topo :: "RevisionMeta list \<Rightarrow> RevisionId set \<Rightarrow> RevisionId list
    \<Rightarrow> RevisionId list \<Rightarrow> RevisionId list option" where
  "bfs_topo rows seen queue topo =
     (case queue of
        [] \<Rightarrow> Some topo
      | x # queue1 \<Rightarrow>
          (case enqueue_kids seen queue1 (kids_of rows x) of
             None \<Rightarrow> None
           | Some (seen', queue') \<Rightarrow> bfs_topo rows seen' queue' (topo @ [x])))"
  by pat_completeness auto

lemma bfs_measure_decreases:
  assumes "enqueue_kids seen queue1 (kids_of rows x) = Some (seen', queue')"
  shows "card (revision_id ` set rows - seen') + length queue'
    < card (revision_id ` set rows - seen) + length (x # queue1)"
proof -
  let ?ids = "revision_id ` set rows" and ?ks = "kids_of rows x"
  from assms have ks: "distinct ?ks" "set ?ks \<inter> seen = {}" "seen' = seen \<union> set ?ks"
    "queue' = queue1 @ ?ks" by (auto simp: enqueue_kids_Some)
  have "?ids - seen' = (?ids - seen) - set ?ks" using ks(3) by auto
  moreover have sub: "set ?ks \<subseteq> ?ids - seen" using set_kids_of_subset ks(2) by fastforce
  ultimately have "card (?ids - seen') = card (?ids - seen) - card (set ?ks)"
    by (simp add: card_Diff_subset)
  moreover have "card (set ?ks) \<le> card (?ids - seen)" by (rule card_mono) (use sub in auto)
  ultimately show ?thesis using ks(1,4) by (simp add: distinct_card)
qed

termination bfs_topo
  by (relation "measure (\<lambda>(rows, seen, queue, topo).
        card (revision_id ` set rows - seen) + length queue)")
    (auto simp: bfs_measure_decreases[simplified])

declare bfs_topo.simps [simp del]

text \<open>
  Step 5: the final metadata list with its positions, the heads, the genesis and the
  dangling-parent orphans.
\<close>

definition compute_genesis_extra ::
    "RevisionMeta list \<Rightarrow> (RevisionId \<rightharpoonup> nat) \<Rightarrow> RevisionId list" where
  "compute_genesis_extra revs pos =
     map revision_id (sort_key order_key
       (filter (\<lambda>m. parent_revision_id m \<noteq> GENESIS_PARENT \<and> pos (parent_revision_id m) = None)
          revs))"

definition positions :: "RevisionId list \<Rightarrow> RevisionId \<rightharpoonup> nat" where
  "positions topo = map_of (zip topo [0..<length topo])"

definition heads_of :: "RevisionMeta list \<Rightarrow> (RevisionId \<rightharpoonup> RevisionId list) \<Rightarrow> RevisionId list" where
  "heads_of revs kids =
     map revision_id (sort_key order_key
       (filter (\<lambda>m. superseded_by m = None \<and>
            (case kids (revision_id m) of None \<Rightarrow> True | Some ks \<Rightarrow> ks = [])) revs))"

definition genesis_of :: "RevisionMeta list \<Rightarrow> RevisionId option" where
  "genesis_of revs =
     (case filter (\<lambda>m. parent_revision_id m = GENESIS_PARENT) revs of
        [] \<Rightarrow> None
      | ms \<Rightarrow> Some (revision_id (hd (sort_key order_key ms))))"

definition assemble :: "RevisionMeta list \<Rightarrow> RevisionId list \<Rightarrow> RevisionGraph" where
  "assemble rows topo =
     (let revs = map (\<lambda>i. the (row_index rows i)) topo; pos = positions topo
      in \<lparr>revisions = revs, parents = parents_index rows, children = children_index rows,
          heads = heads_of revs (children_index rows), genesis = genesis_of revs,
          genesis_extra = compute_genesis_extra revs pos, by_id = pos\<rparr>)"

definition build :: "RevisionMeta list \<Rightarrow> StoreError + RevisionGraph" where
  "build rows =
     and_then (index_rows Map.empty rows) (\<lambda>idx.
       (case bfs_topo rows (set (roots_of rows)) (roots_of rows) [] of
          None \<Rightarrow> Inl (Corrupted ''revision lineage contains a cycle'')
        | Some topo \<Rightarrow>
            if length topo \<noteq> length rows
            then Inl (Corrupted ''revision lineage contains a cycle (unreachable component)'')
            else Inr (assemble rows topo)))"

section \<open>Queries\<close>

definition get :: "RevisionGraph \<Rightarrow> RevisionId \<Rightarrow> RevisionMeta option" where
  "get g i = (case by_id g i of None \<Rightarrow> None | Some k \<Rightarrow>
     if k < length (revisions g) then Some (revisions g ! k) else None)"

definition is_forked :: "RevisionGraph \<Rightarrow> bool" where
  "is_forked g = (length (heads g) > 1)"

definition canonical_head :: "RevisionGraph \<Rightarrow> RevisionId option" where
  "canonical_head g = (if heads g = [] then None else Some (Max (set (heads g))))"

definition parent_of :: "RevisionGraph \<Rightarrow> RevisionId \<Rightarrow> RevisionId option" where
  "parent_of g i = parents g i"

definition children_of :: "RevisionGraph \<Rightarrow> RevisionId \<Rightarrow> RevisionId list" where
  "children_of g i = (case children g i of None \<Rightarrow> [] | Some ks \<Rightarrow> ks)"

text \<open>
  The two upward walks are loops with no bound of their own; \<open>None\<close> is a walk that does not
  end. The theorems show that it never happens on a graph that \<open>build\<close> returned.
\<close>

partial_function (option) ancestors_loop ::
    "(RevisionId \<rightharpoonup> RevisionId) \<Rightarrow> RevisionId \<Rightarrow> RevisionId list \<Rightarrow> RevisionId list option" where
  "ancestors_loop ps cursor chain =
     (case ps cursor of
        None \<Rightarrow> Some (rev (chain @ [cursor]))
      | Some p \<Rightarrow> ancestors_loop ps p (chain @ [cursor]))"

definition ancestors :: "RevisionGraph \<Rightarrow> RevisionId \<Rightarrow> RevisionId list option" where
  "ancestors g i = (if by_id g i = None then Some [] else ancestors_loop (parents g) i [])"

definition is_on_canonical_chain :: "RevisionGraph \<Rightarrow> RevisionId \<Rightarrow> bool option" where
  "is_on_canonical_chain g i =
     (case canonical_head g of
        None \<Rightarrow> Some False
      | Some h \<Rightarrow> map_option (\<lambda>chain. i \<in> set chain) (ancestors g h))"

partial_function (option) common_ancestor_loop ::
    "(RevisionId \<rightharpoonup> RevisionId) \<Rightarrow> RevisionId list \<Rightarrow> RevisionId \<Rightarrow> RevisionId option option" where
  "common_ancestor_loop ps a_chain cursor =
     (if cursor \<in> set a_chain then Some (Some cursor)
      else case ps cursor of
        None \<Rightarrow> Some None
      | Some p \<Rightarrow> common_ancestor_loop ps a_chain p)"

definition common_ancestor ::
    "RevisionGraph \<Rightarrow> RevisionId \<Rightarrow> RevisionId \<Rightarrow> RevisionId option option" where
  "common_ancestor g a b =
     (if by_id g a = None \<or> by_id g b = None then Some None
      else if a = b then Some (Some a)
      else case ancestors g a of
        None \<Rightarrow> None
      | Some a_chain \<Rightarrow> common_ancestor_loop (parents g) a_chain b)"

section \<open>The parent relation\<close>

text \<open>
  The specification side: \<open>(c, p) \<in> parent_edges rows\<close> when row \<open>c\<close> names the present row \<open>p\<close>
  as its parent.
\<close>

abbreviation ids :: "RevisionMeta list \<Rightarrow> RevisionId set" where
  "ids rows \<equiv> revision_id ` set rows"

definition parent_edges :: "RevisionMeta list \<Rightarrow> (RevisionId \<times> RevisionId) set" where
  "parent_edges rows =
     {(revision_id m, parent_revision_id m) | m. m \<in> set rows \<and> \<not> is_root rows m}"

definition distinct_ids :: "RevisionMeta list \<Rightarrow> bool" where
  "distinct_ids rows = distinct (map revision_id rows)"

lemma row_index_None: "row_index rows i = None \<longleftrightarrow> i \<notin> ids rows"
  by (auto simp: row_index_def map_of_eq_None_iff image_iff)

lemma row_index_Some:
  "distinct_ids rows \<Longrightarrow> row_index rows i = Some m \<longleftrightarrow> m \<in> set rows \<and> revision_id m = i"
  by (auto simp: row_index_def distinct_ids_def comp_def)

lemma distinct_ids_inj: "distinct_ids rows \<Longrightarrow> inj_on revision_id (set rows)"
  by (simp add: distinct_ids_def distinct_map)

lemma distinct_ids_eq:
  "distinct_ids rows \<Longrightarrow> m \<in> set rows \<Longrightarrow> m' \<in> set rows \<Longrightarrow> revision_id m = revision_id m'
    \<Longrightarrow> m = m'"
  by (meson distinct_ids_inj inj_onD)

lemma index_rows_ok:
  "is_ok (index_rows m rows) \<longleftrightarrow> distinct_ids rows \<and> (\<forall>r \<in> set rows. m (revision_id r) = None)"
proof (induction m rows rule: index_rows.induct)
  case (1 m)
  then show ?case by (simp add: distinct_ids_def)
next
  case (2 m row rows)
  show ?case
  proof (cases "m (revision_id row) = None")
    case True
    then have "is_ok (index_rows m (row # rows)) = is_ok (index_rows (m(revision_id row \<mapsto> row)) rows)"
      by simp
    also have "\<dots> \<longleftrightarrow> distinct_ids rows \<and>
        (\<forall>r \<in> set rows. (m(revision_id row \<mapsto> row)) (revision_id r) = None)"
      by (rule "2.IH") (use True in simp)
    also have "\<dots> \<longleftrightarrow> distinct_ids (row # rows) \<and> (\<forall>r \<in> set (row # rows). m (revision_id r) = None)"
    proof -
      have "(\<forall>r \<in> set rows. (m(revision_id row \<mapsto> row)) (revision_id r) = None) \<longleftrightarrow>
          revision_id row \<notin> ids rows \<and> (\<forall>r \<in> set rows. m (revision_id r) = None)"
        by (induction rows) auto
      then show ?thesis using True by (auto simp: distinct_ids_def)
    qed
    finally show ?thesis .
  next
    case False
    then show ?thesis by auto
  qed
qed

lemma index_rows_error:
  "index_rows m rows = Inl e \<Longrightarrow> e = Corrupted ''duplicate revision_id in graph input''"
  by (induction m rows rule: index_rows.induct) (auto split: if_splits)

lemma edge_ids: "(c, p) \<in> parent_edges rows \<Longrightarrow> c \<in> ids rows \<and> p \<in> ids rows"
  by (auto simp: parent_edges_def is_root_def row_index_None)

lemma edge_single_valued:
  "distinct_ids rows \<Longrightarrow> (c, p) \<in> parent_edges rows \<Longrightarrow> (c, q) \<in> parent_edges rows \<Longrightarrow> p = q"
  by (auto simp: parent_edges_def dest: distinct_ids_eq)

lemma finite_parent_edges [simp]: "finite (parent_edges rows)"
proof -
  have "parent_edges rows \<subseteq> ids rows \<times> ids rows" by (auto dest: edge_ids)
  then show ?thesis by (rule finite_subset) simp
qed

lemma parents_index_edges:
  assumes "distinct_ids rows"
  shows "parents_index rows c = Some p \<longleftrightarrow> (c, p) \<in> parent_edges rows"
proof -
  have "distinct (map fst (map (\<lambda>m. (revision_id m, parent_revision_id m))
      (filter (\<lambda>m. \<not> is_root rows m) rows)))"
    using assms by (simp add: comp_def distinct_ids_def distinct_map_filter)
  then show ?thesis by (auto simp: parents_index_def parent_edges_def)
qed

lemma kids_of_edges: "c \<in> set (kids_of rows p) \<longleftrightarrow> (c, p) \<in> parent_edges rows"
  by (auto simp: set_kids_of parent_edges_def)

lemma distinct_kids_of: "distinct_ids rows \<Longrightarrow> distinct (kids_of rows p)"
  by (auto simp: kids_of_def children_index_def Let_def distinct_ids_def distinct_map
      inj_on_subset[of revision_id "set rows"] split: option.splits)

lemma set_roots_of: "set (roots_of rows) = revision_id ` {m \<in> set rows. is_root rows m}"
  by (auto simp: roots_of_def)

lemma distinct_roots_of: "distinct_ids rows \<Longrightarrow> distinct (roots_of rows)"
  by (auto simp: roots_of_def distinct_ids_def distinct_map
      inj_on_subset[of revision_id "set rows"])

lemma root_no_edge:
  "distinct_ids rows \<Longrightarrow> c \<in> set (roots_of rows) \<Longrightarrow> (c, p) \<notin> parent_edges rows"
  by (auto simp: set_roots_of parent_edges_def dest: distinct_ids_eq)

lemma root_or_edge:
  "c \<in> ids rows \<Longrightarrow> c \<in> set (roots_of rows) \<or> (\<exists>p. (c, p) \<in> parent_edges rows)"
  by (auto simp: set_roots_of parent_edges_def)

section \<open>The breadth-first walk\<close>

definition topo_ordered :: "RevisionMeta list \<Rightarrow> RevisionId list \<Rightarrow> bool" where
  "topo_ordered rows topo =
     (\<forall>as x bs p. topo = as @ x # bs \<longrightarrow> (x, p) \<in> parent_edges rows \<longrightarrow> p \<in> set as)"

definition bfs_inv :: "RevisionMeta list \<Rightarrow> RevisionId set \<Rightarrow> RevisionId list \<Rightarrow> RevisionId list
    \<Rightarrow> bool" where
  "bfs_inv rows seen queue topo \<longleftrightarrow>
     distinct (topo @ queue) \<and> seen = set (topo @ queue) \<and> seen \<subseteq> ids rows \<and>
     set (roots_of rows) \<subseteq> seen \<and>
     (\<forall>x \<in> set topo. set (kids_of rows x) \<subseteq> seen) \<and>
     (\<forall>x \<in> seen. x \<in> set (roots_of rows) \<or> (\<exists>p \<in> set topo. (x, p) \<in> parent_edges rows)) \<and>
     topo_ordered rows topo"

lemma topo_ordered_snoc:
  "topo_ordered rows topo \<Longrightarrow> \<forall>p. (x, p) \<in> parent_edges rows \<longrightarrow> p \<in> set topo
    \<Longrightarrow> topo_ordered rows (topo @ [x])"
  unfolding topo_ordered_def
  by (metis append_butlast_last_id butlast.simps(2) butlast_append butlast_snoc last_appendR
      last_snoc list.distinct(1) last.simps append_eq_Cons_conv)

lemma bfs_inv_start: "distinct_ids rows \<Longrightarrow> bfs_inv rows (set (roots_of rows)) (roots_of rows) []"
  by (auto simp: bfs_inv_def distinct_roots_of set_roots_of topo_ordered_def)

lemma bfs_inv_step:
  assumes d: "distinct_ids rows" and inv: "bfs_inv rows seen (x # queue) topo"
  shows "enqueue_kids seen queue (kids_of rows x)
      = Some (seen \<union> set (kids_of rows x), queue @ kids_of rows x)"
    and "bfs_inv rows (seen \<union> set (kids_of rows x)) (queue @ kids_of rows x) (topo @ [x])"
proof -
  let ?ks = "kids_of rows x"
  have new: "set ?ks \<inter> seen = {}"
  proof (rule ccontr)
    assume "set ?ks \<inter> seen \<noteq> {}"
    then obtain k where k: "(k, x) \<in> parent_edges rows" "k \<in> seen"
      by (auto simp: kids_of_edges)
    then have "k \<notin> set (roots_of rows)" using root_no_edge[OF d] by blast
    then obtain p where "p \<in> set topo" "(k, p) \<in> parent_edges rows"
      using inv k(2) by (auto simp: bfs_inv_def)
    then have "x \<in> set topo" using edge_single_valued[OF d k(1)] by blast
    then show False using inv by (auto simp: bfs_inv_def)
  qed
  then show "enqueue_kids seen queue ?ks = Some (seen \<union> set ?ks, queue @ ?ks)"
    by (simp add: enqueue_kids_Some distinct_kids_of[OF d])
  have px: "\<forall>p. (x, p) \<in> parent_edges rows \<longrightarrow> p \<in> set topo"
  proof (intro allI impI)
    fix p assume e: "(x, p) \<in> parent_edges rows"
    then have "x \<notin> set (roots_of rows)" using root_no_edge[OF d] by blast
    then obtain q where "q \<in> set topo" "(x, q) \<in> parent_edges rows"
      using inv by (auto simp: bfs_inv_def)
    then show "p \<in> set topo" using edge_single_valued[OF d e] by blast
  qed
  show "bfs_inv rows (seen \<union> set ?ks) (queue @ ?ks) (topo @ [x])"
    unfolding bfs_inv_def
  proof (intro conjI)
    show "distinct ((topo @ [x]) @ queue @ ?ks)"
      using inv new distinct_kids_of[OF d, of x] by (auto simp: bfs_inv_def)
    show "topo_ordered rows (topo @ [x])"
      using inv px by (auto simp: bfs_inv_def intro: topo_ordered_snoc)
    show "seen \<union> set ?ks \<subseteq> ids rows"
      using inv set_kids_of_subset[of rows x] by (auto simp: bfs_inv_def)
  qed (use inv in \<open>auto simp: bfs_inv_def kids_of_edges\<close>)
qed

lemma bfs_topo_inv:
  assumes "distinct_ids rows" and "bfs_inv rows seen queue topo"
  shows "\<exists>t. bfs_topo rows seen queue topo = Some t \<and> bfs_inv rows (set t) [] t"
  using assms
proof (induction rows seen queue topo rule: bfs_topo.induct)
  case (1 rows seen queue topo)
  show ?case
  proof (cases queue)
    case Nil
    then have "seen = set topo" using "1.prems"(2) by (simp add: bfs_inv_def)
    then show ?thesis using Nil "1.prems"(2) by (simp add: bfs_topo.simps)
  next
    case (Cons x q)
    note st = bfs_inv_step[OF "1.prems"(1) "1.prems"(2)[unfolded Cons]]
    from "1.IH"[OF Cons st(1) refl "1.prems"(1) st(2)] show ?thesis
      by (subst bfs_topo.simps) (simp add: Cons st(1))
  qed
qed

lemma bfs_topo_result:
  assumes "distinct_ids rows"
  obtains t where "bfs_topo rows (set (roots_of rows)) (roots_of rows) [] = Some t"
    and "bfs_inv rows (set t) [] t"
  using bfs_topo_inv[OF assms bfs_inv_start[OF assms]] by blast

lemma topo_ordered_acyclic:
  assumes "topo_ordered rows t" and "ids rows \<subseteq> set t" and "distinct t"
  shows "acyclic (parent_edges rows)"
proof -
  define pos where "pos x = (THE i. i < length t \<and> t ! i = x)" for x
  have pos: "pos (t ! i) = i" if "i < length t" for i
    unfolding pos_def by (rule the_equality) (use that assms(3) nth_eq_iff_index_eq in auto)
  have "pos p < pos c" if e: "(c, p) \<in> parent_edges rows" for c p
  proof -
    from edge_ids[OF e] assms(2) obtain i where i: "i < length t" "t ! i = c"
      by (metis in_set_conv_nth subsetD)
    have "t = take i t @ c # drop (Suc i) t" using i by (metis id_take_nth_drop)
    then have "p \<in> set (take i t)" using assms(1) e unfolding topo_ordered_def by blast
    then obtain j where "j < i" "j < length t" "t ! j = p" by (auto simp: in_set_conv_nth)
    then show ?thesis using i pos by auto
  qed
  then show ?thesis by (rule acyclicI_order)
qed

lemma bfs_covers_acyclic:
  assumes "bfs_inv rows (set t) [] t" and "acyclic (parent_edges rows)"
  shows "ids rows \<subseteq> set t"
proof
  fix x assume "x \<in> ids rows"
  have "wf ((parent_edges rows)\<inverse>)"
    by (rule finite_acyclic_wf_converse) (use assms(2) in auto)
  then show "x \<in> set t" using \<open>x \<in> ids rows\<close>
  proof (induction x rule: wf_induct_rule)
    case (less x)
    from root_or_edge[OF less.prems] show ?case
    proof
      assume "x \<in> set (roots_of rows)"
      then show ?thesis using assms(1) by (auto simp: bfs_inv_def)
    next
      assume "\<exists>p. (x, p) \<in> parent_edges rows"
      then obtain p where e: "(x, p) \<in> parent_edges rows" by blast
      then have "p \<in> set t" using less.IH[of p] edge_ids[OF e] by simp
      moreover have "x \<in> set (kids_of rows p)" using e by (simp add: kids_of_edges)
      ultimately show ?thesis using assms(1) unfolding bfs_inv_def by blast
    qed
  qed
qed

section \<open>What \<open>build\<close> returns\<close>

lemma build_duplicate:
  "\<not> distinct_ids rows \<Longrightarrow> build rows = Inl (Corrupted ''duplicate revision_id in graph input'')"
proof -
  assume "\<not> distinct_ids rows"
  then have "\<not> is_ok (index_rows Map.empty rows)" by (simp add: index_rows_ok)
  then obtain e where e: "index_rows Map.empty rows = Inl e"
    by (cases "index_rows Map.empty rows") auto
  then show ?thesis using index_rows_error[OF e] by (simp add: build_def)
qed

lemma build_distinct:
  assumes "distinct_ids rows"
  obtains t where "bfs_inv rows (set t) [] t"
    and "build rows =
      (if length t \<noteq> length rows
       then Inl (Corrupted ''revision lineage contains a cycle (unreachable component)'')
       else Inr (assemble rows t))"
proof -
  obtain t where t: "bfs_topo rows (set (roots_of rows)) (roots_of rows) [] = Some t"
    "bfs_inv rows (set t) [] t" using bfs_topo_result[OF assms] .
  have "is_ok (index_rows Map.empty rows)" using assms by (simp add: index_rows_ok)
  then obtain m where "index_rows Map.empty rows = Inr m"
    by (cases "index_rows Map.empty rows") auto
  then show thesis using that[OF t(2)] by (simp add: build_def t(1))
qed

lemma length_rows_ids: "distinct_ids rows \<Longrightarrow> length rows = card (ids rows)"
  by (metis distinct_card distinct_ids_def length_map list.set_map)

lemma topo_full_iff:
  assumes "distinct_ids rows" and "bfs_inv rows (set t) [] t"
  shows "length t = length rows \<longleftrightarrow> ids rows \<subseteq> set t"
proof -
  have t: "distinct t" "set t \<subseteq> ids rows" using assms(2) by (auto simp: bfs_inv_def)
  then have "length t = card (set t)" by (simp add: distinct_card)
  then show ?thesis using t(2) length_rows_ids[OF assms(1)]
    by (metis List.finite_set card_subset_eq finite_imageI subset_antisym order_refl)
qed

lemma build_Inr:
  assumes "build rows = Inr g"
  obtains t where "g = assemble rows t" "distinct_ids rows" "acyclic (parent_edges rows)"
    "distinct t" "set t = ids rows" "topo_ordered rows t"
proof -
  have d: "distinct_ids rows" using assms build_duplicate by force
  obtain t where t: "bfs_inv rows (set t) [] t" "build rows =
      (if length t \<noteq> length rows
       then Inl (Corrupted ''revision lineage contains a cycle (unreachable component)'')
       else Inr (assemble rows t))"
    using build_distinct[OF d] .
  then have len: "length t = length rows" and g: "g = assemble rows t"
    using assms by (auto split: if_splits)
  have "ids rows \<subseteq> set t" using topo_full_iff[OF d t(1)] len by blast
  moreover have "distinct t" "set t \<subseteq> ids rows" "topo_ordered rows t"
    using t(1) by (auto simp: bfs_inv_def)
  ultimately show thesis using that[OF g d] topo_ordered_acyclic by blast
qed

lemma build_succeeds:
  "is_ok (build rows) \<longleftrightarrow> distinct_ids rows \<and> acyclic (parent_edges rows)"
proof
  assume "is_ok (build rows)"
  then obtain g where "build rows = Inr g" by (cases "build rows") auto
  then show "distinct_ids rows \<and> acyclic (parent_edges rows)" using build_Inr by blast
next
  assume a: "distinct_ids rows \<and> acyclic (parent_edges rows)"
  obtain t where t: "bfs_inv rows (set t) [] t" "build rows =
      (if length t \<noteq> length rows
       then Inl (Corrupted ''revision lineage contains a cycle (unreachable component)'')
       else Inr (assemble rows t))"
    using build_distinct a by blast
  then show "is_ok (build rows)"
    using bfs_covers_acyclic[OF t(1)] topo_full_iff[OF _ t(1)] a by simp
qed

text \<open>The check inside the walk never fires; only the count at its end reports a cycle.\<close>

lemma build_errors:
  "build rows = Inl e \<longleftrightarrow>
     (\<not> distinct_ids rows \<and> e = Corrupted ''duplicate revision_id in graph input'') \<or>
     (distinct_ids rows \<and> \<not> acyclic (parent_edges rows) \<and>
      e = Corrupted ''revision lineage contains a cycle (unreachable component)'')"
proof (cases "distinct_ids rows")
  case False
  then show ?thesis by (auto simp: build_duplicate)
next
  case True
  then obtain t where t: "build rows =
      (if length t \<noteq> length rows
       then Inl (Corrupted ''revision lineage contains a cycle (unreachable component)'')
       else Inr (assemble rows t))"
    using build_distinct by blast
  then show ?thesis using build_succeeds[of rows] True by (auto split: if_splits)
qed

lemma assemble_mset:
  assumes "distinct_ids rows" "distinct t" "set t = ids rows"
  shows "mset (revisions (assemble rows t)) = mset rows"
proof -
  let ?f = "\<lambda>i. the (row_index rows i)"
  have f: "?f (revision_id m) = m" if "m \<in> set rows" for m
    using that row_index_Some[OF assms(1), of "revision_id m" m] by simp
  have "mset t = mset (map revision_id rows)"
    using assms by (metis distinct_ids_def list.set_map set_eq_iff_mset_eq_distinct)
  then have "mset (map ?f t) = mset (map ?f (map revision_id rows))" by (metis mset_map)
  also have "map ?f (map revision_id rows) = rows" using f by (simp add: map_idI)
  finally show ?thesis by (simp add: assemble_def Let_def)
qed

lemma positions_dom: "positions t i = None \<longleftrightarrow> i \<notin> set t"
  by (simp add: positions_def map_of_zip_is_None)

lemma order_key_inj: "distinct_ids rows \<Longrightarrow> inj_on order_key (set rows)"
  by (auto simp: inj_on_def order_key_def dest: distinct_ids_eq)

lemma distinct_ids_distinct: "distinct_ids rows \<Longrightarrow> distinct rows"
  by (simp add: distinct_ids_def distinct_map)

text \<open>A sorted selection of the graph's rows is the sorted selection of the input rows.\<close>

lemma sort_selection:
  assumes "distinct_ids rows" and "mset revs = mset rows"
  shows "sort_key order_key (filter P revs) = sort_key order_key (filter P rows)"
proof (rule sort_key_inj_perm)
  show "mset (filter P revs) = mset (filter P rows)" using assms(2) by simp
  have "set revs = set rows" using assms(2) by (rule mset_eq_setD)
  then show "inj_on order_key (set (filter P revs))"
    using order_key_inj[OF assms(1)] by (auto intro: inj_on_subset)
  show "distinct (filter P revs)"
    using assms distinct_ids_distinct mset_eq_imp_distinct_iff by (metis distinct_filter)
qed

definition is_head :: "RevisionMeta list \<Rightarrow> RevisionMeta \<Rightarrow> bool" where
  "is_head rows m = (superseded_by m = None \<and> (\<forall>c. (c, revision_id m) \<notin> parent_edges rows))"

lemma childless:
  "(case children_index rows i of None \<Rightarrow> True | Some ks \<Rightarrow> ks = []) \<longleftrightarrow>
     (\<forall>c. (c, i) \<notin> parent_edges rows)"
proof -
  have "(case children_index rows i of None \<Rightarrow> True | Some ks \<Rightarrow> ks = []) \<longleftrightarrow> kids_of rows i = []"
    by (auto simp: kids_of_def split: option.splits)
  also have "\<dots> \<longleftrightarrow> (\<forall>c. c \<notin> set (kids_of rows i))" by auto
  finally show ?thesis by (simp add: kids_of_edges)
qed

lemma build_graph:
  assumes "build rows = Inr g"
  shows "distinct_ids rows" and "acyclic (parent_edges rows)"
    and "mset (revisions g) = mset rows"
    and "parents g = parents_index rows"
    and "children g = children_index rows"
    and "by_id g i = None \<longleftrightarrow> i \<notin> ids rows"
    and "heads g = map revision_id (sort_key order_key (filter (is_head rows) rows))"
    and "topo_ordered rows (map revision_id (revisions g))"
    and "genesis_extra g = map revision_id (sort_key order_key (filter (\<lambda>m.
           parent_revision_id m \<noteq> GENESIS_PARENT \<and> parent_revision_id m \<notin> ids rows) rows))"
proof -
  obtain t where t: "g = assemble rows t" "distinct_ids rows" "acyclic (parent_edges rows)"
    "distinct t" "set t = ids rows" "topo_ordered rows t"
    using build_Inr[OF assms] .
  note ms = assemble_mset[OF t(2,4,5), folded t(1)]
  show "distinct_ids rows" "acyclic (parent_edges rows)" "mset (revisions g) = mset rows"
    by fact+
  show "parents g = parents_index rows" "children g = children_index rows"
    "by_id g i = None \<longleftrightarrow> i \<notin> ids rows"
    by (simp_all add: t(1,5) assemble_def Let_def positions_dom)
  have "heads g = heads_of (revisions g) (children_index rows)"
    by (simp add: t(1) assemble_def Let_def)
  then show "heads g = map revision_id (sort_key order_key (filter (is_head rows) rows))"
    using sort_selection[OF t(2) ms]
    by (simp add: heads_of_def childless is_head_def[abs_def])
  have "map revision_id (revisions g) = t"
    using t(5) row_index_Some[OF t(2)]
    by (auto simp: t(1) assemble_def Let_def comp_def intro!: map_idI)
      (metis imageE option.sel row_index_None not_None_eq)
  then show "topo_ordered rows (map revision_id (revisions g))" using t(6) by simp
  have "genesis_extra g = compute_genesis_extra (revisions g) (positions t)"
    by (simp add: t(1) assemble_def Let_def)
  then show "genesis_extra g = map revision_id (sort_key order_key (filter (\<lambda>m.
      parent_revision_id m \<noteq> GENESIS_PARENT \<and> parent_revision_id m \<notin> ids rows) rows))"
    using sort_selection[OF t(2) ms] by (simp add: compute_genesis_extra_def positions_dom t(5))
qed

lemma topo_ordered_nth:
  assumes "topo_ordered rows t" "i < length t" "(t ! i, p) \<in> parent_edges rows"
  shows "\<exists>j < i. t ! j = p"
proof -
  have "t = take i t @ t ! i # drop (Suc i) t" using assms(2) by (rule id_take_nth_drop)
  then have "p \<in> set (take i t)" using assms(1,3) unfolding topo_ordered_def by metis
  then show ?thesis by (auto simp: in_set_conv_nth)
qed

section \<open>Independence of the input order\<close>

lemma distinct_ids_perm: "mset rows = mset rows' \<Longrightarrow> distinct_ids rows = distinct_ids rows'"
  unfolding distinct_ids_def by (metis mset_map mset_eq_imp_distinct_iff)

lemma ids_perm: "mset rows = mset rows' \<Longrightarrow> ids rows = ids rows'"
  by (metis mset_eq_setD)

lemma is_root_perm: "mset rows = mset rows' \<Longrightarrow> is_root rows = is_root rows'"
  by (rule ext) (simp add: is_root_def row_index_None ids_perm[of rows rows'])

lemma parent_edges_perm: "mset rows = mset rows' \<Longrightarrow> parent_edges rows = parent_edges rows'"
  by (simp add: parent_edges_def is_root_perm[of rows rows'] mset_eq_setD[of rows rows'])

lemma indices_perm:
  assumes "mset rows = mset rows'" "distinct_ids rows"
  shows "row_index rows = row_index rows'" "roots_of rows = roots_of rows'"
    "parents_index rows = parents_index rows'" "children_index rows = children_index rows'"
proof -
  have sort: "sort_key order_key (filter P rows) = sort_key order_key (filter P rows')" for P
    by (rule sort_selection[symmetric, OF assms(2) assms(1)[symmetric]])
  have ne: "filter P rows = [] \<longleftrightarrow> filter P rows' = []" for P
    using assms(1) by (metis mset_filter mset_zero_iff_right)
  have "mset (map (\<lambda>m. (revision_id m, m)) rows) = mset (map (\<lambda>m. (revision_id m, m)) rows')"
    using assms(1) by (metis mset_map)
  moreover have "distinct (map fst (map (\<lambda>m. (revision_id m, m)) rows))"
    using assms(2) by (simp add: comp_def distinct_ids_def)
  ultimately show "row_index rows = row_index rows'"
    unfolding row_index_def by (rule map_of_perm)
  show "roots_of rows = roots_of rows'"
    by (simp add: roots_of_def sort is_root_perm[OF assms(1)])
  show "children_index rows = children_index rows'"
    by (rule ext) (simp add: children_index_def Let_def sort ne is_root_perm[OF assms(1)])
  show "parents_index rows = parents_index rows'"
    using parents_index_edges assms distinct_ids_perm[OF assms(1)] parent_edges_perm[OF assms(1)]
    by (intro ext) (metis not_None_eq)
qed

lemma bfs_topo_cong:
  "kids_of rows = kids_of rows' \<Longrightarrow> bfs_topo rows seen queue topo = bfs_topo rows' seen queue topo"
proof (induction rows seen queue topo rule: bfs_topo.induct)
  case (1 rows seen queue topo)
  then show ?case
    by (subst (1 2) bfs_topo.simps) (auto split: list.splits option.splits)
qed

lemma build_perm:
  assumes "mset rows = mset rows'"
  shows "build rows = build rows'"
proof (cases "distinct_ids rows")
  case False
  then show ?thesis using distinct_ids_perm[OF assms] by (simp add: build_duplicate)
next
  case True
  note idx = indices_perm[OF assms True]
  have "kids_of rows = kids_of rows'" by (rule ext) (simp add: kids_of_def idx)
  note bfs = bfs_topo_cong[OF this]
  have asm: "assemble rows = assemble rows'" by (rule ext) (simp add: assemble_def idx)
  have len: "length rows = length rows'" using assms by (rule mset_eq_length)
  have "is_ok (index_rows Map.empty rows)" "is_ok (index_rows Map.empty rows')"
    using True distinct_ids_perm[OF assms] by (simp_all add: index_rows_ok)
  then obtain m m' where "index_rows Map.empty rows = Inr m" "index_rows Map.empty rows' = Inr m'"
    by (auto simp: is_ok_def split: sum.splits)
  then show ?thesis unfolding build_def by (simp only: bfs idx asm len and_then_simps)
qed

section \<open>Head election is clock-free\<close>

definition restamp :: "(RevisionId \<Rightarrow> int) \<Rightarrow> RevisionMeta list \<Rightarrow> RevisionMeta list" where
  "restamp clk rows = map (\<lambda>m. m\<lparr>created_at := clk (revision_id m)\<rparr>) rows"

lemma restamp_ids [simp]: "ids (restamp clk rows) = ids rows"
  "distinct_ids (restamp clk rows) = distinct_ids rows"
  by (auto simp: restamp_def distinct_ids_def comp_def image_iff)

lemma restamp_select: "{m \<in> set (restamp clk rows). P m} =
    (\<lambda>m. m\<lparr>created_at := clk (revision_id m)\<rparr>) `
      {m \<in> set rows. P (m\<lparr>created_at := clk (revision_id m)\<rparr>)}"
  by (auto simp: restamp_def)

lemma restamp_edges [simp]: "parent_edges (restamp clk rows) = parent_edges rows"
proof -
  have root: "is_root (restamp clk rows) (m\<lparr>created_at := c\<rparr>) = is_root rows m" for m c
    by (simp add: is_root_def row_index_None)
  have img: "parent_edges rs = (\<lambda>m. (revision_id m, parent_revision_id m)) `
      {m \<in> set rs. \<not> is_root rs m}" for rs
    by (auto simp: parent_edges_def)
  show ?thesis by (simp add: img[of "restamp clk rows"] img[of rows] restamp_select root image_image)
qed

lemma set_heads:
  "build rows = Inr g \<Longrightarrow> set (heads g) = revision_id ` {m \<in> set rows. is_head rows m}"
  by (auto simp: build_graph(7))

lemma restamp_heads:
  assumes "build rows = Inr g" "build (restamp clk rows) = Inr g'"
  shows "set (heads g') = set (heads g)"
  unfolding set_heads[OF assms(1)] set_heads[OF assms(2)]
  by (simp add: restamp_select is_head_def image_image)

lemma canonical_head_restamp:
  "map_sum id canonical_head (build (restamp clk rows)) = map_sum id canonical_head (build rows)"
proof (cases "build rows")
  case (Inl e)
  then have "build (restamp clk rows) = Inl e" using build_errors by simp
  then show ?thesis using Inl by simp
next
  case (Inr g)
  then obtain g' where g': "build (restamp clk rows) = Inr g'"
    using build_succeeds[of rows] build_succeeds[of "restamp clk rows"]
    by (cases "build (restamp clk rows)") auto
  have "heads g' = [] \<longleftrightarrow> heads g = []" using restamp_heads[OF Inr g'] by (metis set_empty)
  then show ?thesis using restamp_heads[OF Inr g'] Inr g' by (simp add: canonical_head_def)
qed

lemma canonical_head_Some:
  "canonical_head g = Some h \<longleftrightarrow> h \<in> set (heads g) \<and> (\<forall>x \<in> set (heads g). x \<le> h)"
  by (auto simp: canonical_head_def Max_eq_iff)

section \<open>Ancestry\<close>

text \<open>
  \<open>lineage ps i\<close> walks up from \<open>i\<close>: \<open>i\<close> first, its root last. It is defined on a well-founded
  parent index and agrees with the loop of \<open>ancestors\<close>.
\<close>

inductive upward :: "(RevisionId \<rightharpoonup> RevisionId) \<Rightarrow> RevisionId \<Rightarrow> RevisionId list \<Rightarrow> bool" for ps where
  upward_root: "ps i = None \<Longrightarrow> upward ps i [i]"
| upward_step: "ps i = Some p \<Longrightarrow> upward ps p up \<Longrightarrow> upward ps i (i # up)"

inductive_cases upward_consE: "upward ps i (j # up)"

lemma upward_shape: "upward ps i up \<Longrightarrow> \<exists>rest. up = i # rest"
  by (induction rule: upward.induct) auto

lemma upward_edges:
  "upward ps i up \<Longrightarrow> Suc k < length up \<Longrightarrow> ps (up ! k) = Some (up ! Suc k)"
proof (induction arbitrary: k rule: upward.induct)
  case (upward_step i p up)
  then show ?case using upward_shape[OF upward_step.hyps(2)] by (cases k) auto
qed simp

lemma upward_last: "upward ps i up \<Longrightarrow> ps (last up) = None"
  by (induction rule: upward.induct) (auto dest: upward_shape)

lemma upward_set:
  assumes "upward ps i up"
  shows "set up = {a. (i, a) \<in> {(c, p). ps c = Some p}\<^sup>*}"
  using assms
proof (induction rule: upward.induct)
  case (upward_root i)
  then show ?case by (auto elim: converse_rtranclE)
next
  case (upward_step i p up)
  have "(i, a) \<in> {(c, p). ps c = Some p}\<^sup>* \<longleftrightarrow> a = i \<or> (p, a) \<in> {(c, p). ps c = Some p}\<^sup>*" for a
    using upward_step.hyps(1)
    by (auto elim: converse_rtranclE intro: converse_rtrancl_into_rtrancl)
  then show ?case using upward_step.IH by auto
qed

lemma upward_total:
  assumes "wf {(p, c). ps c = Some p}"
  shows "\<exists>up. upward ps i up"
  using assms
proof (induction i rule: wf_induct_rule)
  case (less i)
  show ?case
  proof (cases "ps i")
    case None
    then show ?thesis by (blast intro: upward.intros)
  next
    case (Some p)
    with less.IH[of p] show ?thesis by (auto intro: upward.intros)
  qed
qed

lemma ancestors_loop_upward:
  "upward ps i up \<Longrightarrow> ancestors_loop ps i chain = Some (rev (chain @ up))"
  by (induction arbitrary: chain rule: upward.induct) (subst ancestors_loop.simps; simp)+

lemma common_ancestor_loop_upward:
  "upward ps b up \<Longrightarrow> common_ancestor_loop ps chain b = Some (find (\<lambda>x. x \<in> set chain) up)"
  by (induction rule: upward.induct) (subst common_ancestor_loop.simps; simp)+

lemma build_parents_wf:
  assumes "build rows = Inr g"
  shows "wf {(p, c). parents g c = Some p}"
proof -
  have "{(p, c). parents g c = Some p} = (parent_edges rows)\<inverse>"
    using parents_index_edges[OF build_graph(1)[OF assms]] by (auto simp: build_graph(4)[OF assms])
  then show ?thesis
    using finite_acyclic_wf_converse[of "parent_edges rows"] build_graph(2)[OF assms] by simp
qed

lemma build_parents_edges:
  assumes "build rows = Inr g"
  shows "{(c, p). parents g c = Some p} = parent_edges rows"
  using parents_index_edges[OF build_graph(1)[OF assms]] by (auto simp: build_graph(4)[OF assms])

text \<open>Every revision's lineage: the list the walk visits, and the set it covers.\<close>

lemma build_lineage:
  assumes "build rows = Inr g" and "i \<in> ids rows"
  obtains up where "upward (parents g) i up"
    and "set up = {a. (i, a) \<in> (parent_edges rows)\<^sup>*}"
    and "ancestors g i = Some (rev up)"
proof -
  obtain up where up: "upward (parents g) i up"
    using upward_total[OF build_parents_wf[OF assms(1)]] by blast
  have anc: "ancestors g i = Some (rev up)"
    using assms(2) build_graph(6)[OF assms(1)] ancestors_loop_upward[OF up]
    by (simp add: ancestors_def)
  show thesis
    by (rule that[OF up _ anc]) (simp only: upward_set[OF up] build_parents_edges[OF assms(1)])
qed

lemma ancestors_spec:
  assumes "build rows = Inr g" and "i \<in> ids rows"
  shows "\<exists>chain. ancestors g i = Some chain \<and> chain \<noteq> [] \<and> last chain = i \<and>
    parent_of g (hd chain) = None \<and>
    (\<forall>k. Suc k < length chain \<longrightarrow> parent_of g (chain ! Suc k) = Some (chain ! k)) \<and>
    set chain = {a. (i, a) \<in> (parent_edges rows)\<^sup>*}"
proof -
  obtain up where up: "upward (parents g) i up" "set up = {a. (i, a) \<in> (parent_edges rows)\<^sup>*}"
    "ancestors g i = Some (rev up)"
    using build_lineage[OF assms] .
  have ne: "up \<noteq> []" "hd up = i" using upward_shape[OF up(1)] by auto
  have "parents g (rev up ! Suc k) = Some (rev up ! k)" if k: "Suc k < length up" for k
  proof -
    let ?j = "length up - Suc (Suc k)"
    have "rev up ! Suc k = up ! ?j" "rev up ! k = up ! Suc ?j"
      using k by (simp_all add: rev_nth Suc_diff_Suc)
    then show ?thesis using upward_edges[OF up(1), of ?j] k by simp
  qed
  then show ?thesis using up ne upward_last[OF up(1)]
    by (auto simp: parent_of_def last_rev hd_rev)
qed

lemma find_upward_lowest:
  assumes "upward ps b up" "find P up = Some x" "y \<in> set up" "P y"
  shows "(x, y) \<in> {(c, p). ps c = Some p}\<^sup>*"
  using assms
proof (induction rule: upward.induct)
  case (upward_root i)
  then show ?case by (auto split: if_splits)
next
  case (upward_step i p up)
  show ?case
  proof (cases "P i")
    case True
    then have "x = i" using upward_step.prems by simp
    moreover have "y \<in> set (i # up)" by fact
    moreover have "upward ps i (i # up)" using upward_step.hyps by (rule upward.upward_step)
    ultimately show ?thesis using upward_set by blast
  next
    case False
    then show ?thesis using upward_step by auto
  qed
qed

lemma common_ancestor_total:
  assumes "build rows = Inr g" "a \<in> ids rows" "b \<in> ids rows" "a \<noteq> b"
  obtains ua ub where "upward (parents g) a ua" "upward (parents g) b ub"
    "common_ancestor g a b = Some (find (\<lambda>x. x \<in> set ua) ub)"
proof -
  obtain ua where ua: "upward (parents g) a ua" "ancestors g a = Some (rev ua)"
    using build_lineage[OF assms(1,2)] by metis
  obtain ub where ub: "upward (parents g) b ub" using build_lineage[OF assms(1,3)] by metis
  have "common_ancestor g a b = Some (find (\<lambda>x. x \<in> set ua) ub)"
    using assms(2-4) build_graph(6)[OF assms(1)] common_ancestor_loop_upward[OF ub, of "rev ua"]
    by (simp add: common_ancestor_def ua(2))
  then show thesis using that ua(1) ub by blast
qed

lemma common_ancestor_spec:
  assumes "build rows = Inr g" "a \<in> ids rows" "b \<in> ids rows"
  shows "(\<exists>c. common_ancestor g a b = Some (Some c) \<and>
      (a, c) \<in> (parent_edges rows)\<^sup>* \<and> (b, c) \<in> (parent_edges rows)\<^sup>* \<and>
      (\<forall>d. (a, d) \<in> (parent_edges rows)\<^sup>* \<and> (b, d) \<in> (parent_edges rows)\<^sup>*
         \<longrightarrow> (c, d) \<in> (parent_edges rows)\<^sup>*)) \<or>
    (common_ancestor g a b = Some None \<and>
      (\<forall>d. \<not> ((a, d) \<in> (parent_edges rows)\<^sup>* \<and> (b, d) \<in> (parent_edges rows)\<^sup>*)))"
proof (cases "a = b")
  case True
  then show ?thesis using assms build_graph(6)[OF assms(1)] by (auto simp: common_ancestor_def)
next
  case False
  note E = build_parents_edges[OF assms(1)]
  obtain ua ub where u: "upward (parents g) a ua" "upward (parents g) b ub"
    and c: "common_ancestor g a b = Some (find (\<lambda>x. x \<in> set ua) ub)"
    using common_ancestor_total[OF assms False] .
  note sa = upward_set[OF u(1), unfolded E] and sb = upward_set[OF u(2), unfolded E]
  show ?thesis
  proof (cases "find (\<lambda>x. x \<in> set ua) ub")
    case None
    then show ?thesis using c sa sb by (auto simp: find_None_iff)
  next
    case (Some x)
    then have "x \<in> set ub" "x \<in> set ua" by (auto simp: find_Some_iff)
    then show ?thesis using c Some sa sb find_upward_lowest[OF u(2) Some, unfolded E] by auto
  qed
qed

declare ancestors_loop.simps [code] common_ancestor_loop.simps [code]

section \<open>Example rows\<close>

text \<open>Three revisions of one account: a genesis and two devices' edits of it (a fork).\<close>

definition rid32 :: "u8 \<Rightarrow> RevisionId" where
  "rid32 b = RevisionId (replicate 32 b)"

definition example_meta :: "RevisionId \<Rightarrow> RevisionId \<Rightarrow> int \<Rightarrow> RevisionMeta" where
  "example_meta i p t =
     \<lparr>revision_id = i, parent_revision_id = p, device_id = DeviceId (replicate 32 7),
      schema_version = 2, created_at = t, is_tombstone = False, superseded_by = None,
      chain_anchor = None\<rparr>"

definition example_rows :: "RevisionMeta list" where
  "example_rows =
     [example_meta (rid32 3) (rid32 1) 30, example_meta (rid32 1) GENESIS_PARENT 10,
      example_meta (rid32 2) (rid32 1) 20]"

lemma example_rows_build: "\<exists>g. build example_rows = Inr g"
proof -
  have "is_ok (build example_rows)" by code_simp
  then show ?thesis by (cases "build example_rows") auto
qed

lemma example_rows_ids: "rid32 2 \<in> ids example_rows" "rid32 3 \<in> ids example_rows"
  by (simp_all add: example_rows_def example_meta_def)

section \<open>Properties of the revision graph\<close>

text \<open>
  C11. \<open>RevisionGraph::build\<close> succeeds exactly when the rows have pairwise different revision
  ids and no revision is its own ancestor; on a duplicate id or a cycle it returns the
  matching \<open>Corrupted\<close> error, and the back-edge check inside the walk never fires.
\<close>

theorem build_ok_iff_acyclic:
  "(is_ok (build rows) \<longleftrightarrow> distinct_ids rows \<and> acyclic (parent_edges rows)) \<and>
   (\<forall>e. build rows = Inl e \<longleftrightarrow>
     (\<not> distinct_ids rows \<and> e = Corrupted ''duplicate revision_id in graph input'') \<or>
     (distinct_ids rows \<and> \<not> acyclic (parent_edges rows) \<and>
      e = Corrupted ''revision lineage contains a cycle (unreachable component)''))"
  using build_succeeds build_errors by blast

text \<open>
  A graph that \<open>build\<close> returns holds exactly the input rows, in an order in which every
  revision comes after its parent.
\<close>

theorem build_topological_order:
  assumes "build rows = Inr g"
  shows "mset (revisions g) = mset rows \<and>
    (\<forall>i < length (revisions g). \<forall>p. parent_of g (revision_id (revisions g ! i)) = Some p \<longrightarrow>
       (\<exists>j < i. revision_id (revisions g ! j) = p))"
proof (intro conjI allI impI)
  show "mset (revisions g) = mset rows" using assms by (rule build_graph)
  fix i p assume i: "i < length (revisions g)"
    and p: "parent_of g (revision_id (revisions g ! i)) = Some p"
  have "(map revision_id (revisions g) ! i, p) \<in> parent_edges rows"
    using p i parents_index_edges[OF build_graph(1)[OF assms]]
    by (simp add: parent_of_def build_graph(4)[OF assms])
  from topo_ordered_nth[OF build_graph(8)[OF assms] _ this] i
  obtain j where "j < i" "map revision_id (revisions g) ! j = p" by auto
  then show "\<exists>j < i. revision_id (revisions g ! j) = p" using i by (intro exI[of _ j]) simp
qed

theorem build_topological_order_witness:
  "\<exists>g. build example_rows = Inr g \<and> mset (revisions g) = mset example_rows"
  using example_rows_build build_topological_order by blast

text \<open>
  \<open>build\<close> does not depend on the order of its input rows: any permutation gives the same
  graph or the same error.
\<close>

theorem build_input_order_irrelevant:
  assumes "mset rows = mset rows'"
  shows "build rows = build rows'"
  using assms by (rule build_perm)

theorem build_input_order_irrelevant_witness:
  "mset example_rows = mset (rev example_rows) \<and> build example_rows = build (rev example_rows)"
  using build_input_order_irrelevant[of example_rows "rev example_rows"] by simp

text \<open>
  The canonical head is the largest revision id, in byte order, among the childless
  revisions no merge superseded, and it does not depend on the clock: changing every
  \<open>created_at\<close> leaves it, and the success of \<open>build\<close>, as they were.
\<close>

theorem canonical_head_largest_clock_free:
  "map_sum id canonical_head (build (restamp clk rows)) = map_sum id canonical_head (build rows) \<and>
   (\<forall>g h. build rows = Inr g \<longrightarrow>
      (canonical_head g = Some h \<longleftrightarrow>
        h \<in> revision_id ` {m \<in> set rows. is_head rows m} \<and>
        (\<forall>m \<in> set rows. is_head rows m \<longrightarrow> revision_id m \<le> h)))"
  using canonical_head_restamp set_heads by (auto simp: canonical_head_Some)

theorem canonical_head_largest_clock_free_witness:
  "map_sum id canonical_head (build example_rows) = Inr (Some (rid32 3)) \<and>
   map_sum id canonical_head (build (restamp (\<lambda>i. if i = rid32 2 then 99 else 0) example_rows))
     = Inr (Some (rid32 3))"
proof -
  have "map_sum id canonical_head (build example_rows) = Inr (Some (rid32 3))" by code_simp
  then show ?thesis
    using canonical_head_largest_clock_free
      [of "\<lambda>i. if i = rid32 2 then 99 else 0" example_rows] by simp
qed

text \<open>
  C32. On a graph that \<open>build\<close> returned, the ancestry walk of every revision ends; it returns
  the chain from a root to the revision, each element the parent of the next, and its members
  are exactly the ancestors of the revision.
\<close>

theorem ancestors_terminates_and_complete:
  assumes "build rows = Inr g" and "i \<in> ids rows"
  shows "\<exists>chain. ancestors g i = Some chain \<and> chain \<noteq> [] \<and> last chain = i \<and>
    parent_of g (hd chain) = None \<and>
    (\<forall>k. Suc k < length chain \<longrightarrow> parent_of g (chain ! Suc k) = Some (chain ! k)) \<and>
    set chain = {a. (i, a) \<in> (parent_edges rows)\<^sup>*}"
  using assms by (rule ancestors_spec)

theorem ancestors_terminates_and_complete_witness:
  "\<exists>g chain. build example_rows = Inr g \<and> ancestors g (rid32 3) = Some chain \<and> last chain = rid32 3"
  using example_rows_build example_rows_ids(2) ancestors_terminates_and_complete by blast

text \<open>
  \<open>common_ancestor\<close> of two revisions of the graph ends and returns their lowest common
  ancestor: an ancestor of both of which every common ancestor is an ancestor; it returns
  \<open>None\<close> exactly when they share no ancestor.
\<close>

theorem common_ancestor_lowest:
  assumes "build rows = Inr g" "a \<in> ids rows" "b \<in> ids rows"
  shows "(\<exists>c. common_ancestor g a b = Some (Some c) \<and>
      (a, c) \<in> (parent_edges rows)\<^sup>* \<and> (b, c) \<in> (parent_edges rows)\<^sup>* \<and>
      (\<forall>d. (a, d) \<in> (parent_edges rows)\<^sup>* \<and> (b, d) \<in> (parent_edges rows)\<^sup>*
         \<longrightarrow> (c, d) \<in> (parent_edges rows)\<^sup>*)) \<or>
    (common_ancestor g a b = Some None \<and>
      (\<forall>d. \<not> ((a, d) \<in> (parent_edges rows)\<^sup>* \<and> (b, d) \<in> (parent_edges rows)\<^sup>*)))"
  using assms by (rule common_ancestor_spec)

theorem common_ancestor_lowest_witness:
  "\<exists>g r. build example_rows = Inr g \<and> common_ancestor g (rid32 3) (rid32 2) = Some r"
proof -
  obtain g where g: "build example_rows = Inr g" using example_rows_build by blast
  from common_ancestor_lowest[OF g example_rows_ids(2,1)] g show ?thesis by blast
qed

end
