(* ===== verification/Session_Policy.thy ===== *)
theory Session_Policy
  imports Revision_Graph
begin

text \<open>
  The session policy of \<open>crates/pangolin-store/src/session.rs\<close>: the idle-timeout choices and
  their meta-table encoding, the single-use presence proof, the PIN identity proof, the session
  state machine's states and the deadline arithmetic. The lemmas show the encoding round trip,
  that a proof verifies at most once and only while fresh, and that no deadline ever exceeds
  the absolute ceiling of four hours after the session started.
\<close>

section \<open>Time\<close>

text \<open>
  A \<open>SystemTime\<close> is the signed number of nanoseconds since the epoch; \<open>checked_add\<close> fails above
  the largest representable instant (64-bit seconds). \<open>duration_since\<close> of a later instant is
  an error which every caller here turns into the zero duration.
\<close>

type_synonym system_time = int
type_synonym duration = int

definition from_secs :: "int \<Rightarrow> duration" where
  "from_secs s = s * 1000000000"

definition system_time_max :: system_time where
  "system_time_max = (2 ^ 63 - 1) * 1000000000 + 999999999"

definition time_checked_add :: "system_time \<Rightarrow> duration \<Rightarrow> system_time option" where
  "time_checked_add t d = (if t + d \<le> system_time_max then Some (t + d) else None)"

definition duration_since :: "system_time \<Rightarrow> system_time \<Rightarrow> duration" where
  "duration_since later earlier = max 0 (later - earlier)"

definition IDLE_TIMEOUT_DEFAULT :: duration where
  "IDLE_TIMEOUT_DEFAULT = from_secs (15 * 60)"

definition ABSOLUTE_MAX_DEFAULT :: duration where
  "ABSOLUTE_MAX_DEFAULT = from_secs (4 * 3600)"

definition PRESENCE_FRESHNESS :: duration where
  "PRESENCE_FRESHNESS = from_secs 60"

definition SESSION_IDLE_UNTIL_DEVICE_LOCK :: int where
  "SESSION_IDLE_UNTIL_DEVICE_LOCK = - 1"

lemmas session_constants = from_secs_def IDLE_TIMEOUT_DEFAULT_def ABSOLUTE_MAX_DEFAULT_def
  PRESENCE_FRESHNESS_def SESSION_IDLE_UNTIL_DEVICE_LOCK_def

section \<open>Idle choices\<close>

datatype SessionDuration = Min5 | Min15 | Min30 | Hour1 | Hour4 | UntilDeviceLock

definition SessionDuration_DEFAULT :: SessionDuration where
  "SessionDuration_DEFAULT = Min15"

fun idle_window :: "SessionDuration \<Rightarrow> duration option" where
  "idle_window Min5 = Some (from_secs (5 * 60))"
| "idle_window Min15 = Some (from_secs (15 * 60))"
| "idle_window Min30 = Some (from_secs (30 * 60))"
| "idle_window Hour1 = Some (from_secs (60 * 60))"
| "idle_window Hour4 = Some (from_secs (4 * 3600))"
| "idle_window UntilDeviceLock = None"

fun duration_rank :: "SessionDuration \<Rightarrow> nat" where
  "duration_rank Min5 = 0"
| "duration_rank Min15 = 1"
| "duration_rank Min30 = 2"
| "duration_rank Hour1 = 3"
| "duration_rank Hour4 = 4"
| "duration_rank UntilDeviceLock = 5"

definition is_longer_than :: "SessionDuration \<Rightarrow> SessionDuration \<Rightarrow> bool" where
  "is_longer_than d other = (duration_rank d > duration_rank other)"

definition as_secs :: "duration \<Rightarrow> int" where
  "as_secs d = d div 1000000000"

definition to_meta_secs :: "SessionDuration \<Rightarrow> int" where
  "to_meta_secs d =
     (case idle_window d of
        None \<Rightarrow> SESSION_IDLE_UNTIL_DEVICE_LOCK
      | Some w \<Rightarrow> (if as_secs w \<le> i64_max then as_secs w else i64_max))"

definition from_meta_secs :: "int option \<Rightarrow> SessionDuration" where
  "from_meta_secs raw =
     (case raw of
        None \<Rightarrow> SessionDuration_DEFAULT
      | Some s \<Rightarrow>
          if s = SESSION_IDLE_UNTIL_DEVICE_LOCK then UntilDeviceLock
          else if s = 300 then Min5
          else if s = 900 then Min15
          else if s = 1800 then Min30
          else if s = 3600 then Hour1
          else if s = 14400 then Hour4
          else SessionDuration_DEFAULT)"

definition try_from_meta_secs :: "int \<Rightarrow> StoreError + SessionDuration" where
  "try_from_meta_secs raw =
     (let d = from_meta_secs (Some raw)
      in if to_meta_secs d = raw then Inr d
         else Inl (Validation ''session_duration''
           ''session idle duration is not one of {300, 900, 1800, 3600, 14400, -1}''))"

section \<open>Proofs of presence and identity\<close>

datatype AuthError = Failed | PresenceAlreadyConsumed | NotFresh | Empty

record PressYPresenceProof =
  pp_created_at :: system_time
  pp_consumed :: bool

definition confirmed :: "system_time \<Rightarrow> PressYPresenceProof" where
  "confirmed now = \<lparr>pp_created_at = now, pp_consumed = False\<rparr>"

definition presence_verify :: "system_time \<Rightarrow> (PressYPresenceProof, AuthError, unit) op" where
  "presence_verify now p =
     (if pp_consumed p then (Inl PresenceAlreadyConsumed, p)
      else if duration_since now (pp_created_at p) > PRESENCE_FRESHNESS then (Inl NotFresh, p)
      else (Inr (), p\<lparr>pp_consumed := True\<rparr>))"

record PinIdentityProof =
  pin :: bytes

definition identity_verify :: "PinIdentityProof \<Rightarrow> AuthError + unit" where
  "identity_verify i = (if pin i = [] then Inl Empty else Inr ())"

definition derive_secret :: "PinIdentityProof \<Rightarrow> AuthError + bytes" where
  "derive_secret i = (if pin i = [] then Inl Empty else Inr (pin i))"

section \<open>Session states and deadlines\<close>

datatype SessionState =
    Locked
  | PendingAuthorization
  | Active (expires_at: system_time) (last_proof_at: system_time) (session_started_at: system_time)
  | Expired

fun is_active :: "SessionState \<Rightarrow> bool" where
  "is_active (Active _ _ _) = True"
| "is_active _ = False"

definition next_idle_deadline :: "system_time \<Rightarrow> system_time \<Rightarrow> SessionDuration \<Rightarrow> system_time" where
  "next_idle_deadline now started idle =
     (let abs_max_deadline =
        (case time_checked_add started ABSOLUTE_MAX_DEFAULT of None \<Rightarrow> started | Some t \<Rightarrow> t)
      in case idle_window idle of
           None \<Rightarrow> abs_max_deadline
         | Some window \<Rightarrow>
             min (case time_checked_add now window of None \<Rightarrow> now | Some t \<Rightarrow> t) abs_max_deadline)"

section \<open>Lemmas\<close>

lemma is_active_iff: "is_active st \<longleftrightarrow> (\<exists>e p b. st = Active e p b)"
  by (cases st) auto

lemma idle_window_positive: "idle_window d = Some w \<Longrightarrow> 0 < w \<and> w \<le> ABSOLUTE_MAX_DEFAULT"
  by (cases d) (auto simp: session_constants)

lemma deadline_le_ceiling:
  "next_idle_deadline now started idle \<le> started + ABSOLUTE_MAX_DEFAULT"
  by (auto simp: next_idle_deadline_def Let_def time_checked_add_def session_constants
      split: option.splits)

lemma deadline_ge_now:
  "idle \<noteq> UntilDeviceLock \<Longrightarrow> now \<le> started \<Longrightarrow> now \<le> next_idle_deadline now started idle"
  by (cases "idle_window idle"; cases idle)
    (auto simp: next_idle_deadline_def Let_def time_checked_add_def session_constants)

lemma deadline_in_range:
  assumes "now + ABSOLUTE_MAX_DEFAULT \<le> system_time_max"
    and "started + ABSOLUTE_MAX_DEFAULT \<le> system_time_max"
  shows "next_idle_deadline now started idle =
    (case idle_window idle of None \<Rightarrow> started + ABSOLUTE_MAX_DEFAULT
     | Some w \<Rightarrow> min (now + w) (started + ABSOLUTE_MAX_DEFAULT))"
  using assms idle_window_positive[of idle]
  by (auto simp: next_idle_deadline_def Let_def time_checked_add_def split: option.splits)

lemma longer_deadline_mono:
  assumes "\<not> is_longer_than d d'"
    and "now + ABSOLUTE_MAX_DEFAULT \<le> system_time_max"
    and "started + ABSOLUTE_MAX_DEFAULT \<le> system_time_max"
  shows "next_idle_deadline now started d \<le> next_idle_deadline now started d'"
  using assms(1) unfolding deadline_in_range[OF assms(2,3)]
  by (cases d; cases d') (simp_all add: is_longer_than_def session_constants min_le_iff_disj)

lemma presence_verify_ok:
  "presence_verify now p = (Inr u, p') \<longleftrightarrow>
     \<not> pp_consumed p \<and> duration_since now (pp_created_at p) \<le> PRESENCE_FRESHNESS \<and>
     p' = p\<lparr>pp_consumed := True\<rparr>"
  by (auto simp: presence_verify_def)

lemma presence_consumed_stays: "keeps pp_consumed (presence_verify now)"
  by (auto simp: keeps_def presence_verify_def)

lemma to_meta_secs_values:
  "to_meta_secs Min5 = 300" "to_meta_secs Min15 = 900" "to_meta_secs Min30 = 1800"
  "to_meta_secs Hour1 = 3600" "to_meta_secs Hour4 = 14400" "to_meta_secs UntilDeviceLock = -1"
  by (simp_all add: to_meta_secs_def as_secs_def session_constants)

lemma from_meta_to_meta: "from_meta_secs (Some (to_meta_secs d)) = d"
  by (cases d) (simp_all add: to_meta_secs_values from_meta_secs_def session_constants)

interpretation duration_codec: strict_codec to_meta_secs "\<lambda>s. ok_option (try_from_meta_secs s)"
proof
  fix b :: int and a :: SessionDuration
  show "ok_option (try_from_meta_secs b) = Some a \<longleftrightarrow> b = to_meta_secs a"
    using from_meta_to_meta by (auto simp: try_from_meta_secs_def Let_def split: if_splits)
qed

text \<open>
  The session-duration setting survives its storage encoding: reading back the stored
  integer gives the same choice, on the lenient and on the strict reader; and the strict reader
  accepts exactly the six encoded values, rejecting every other integer.
\<close>

theorem session_duration_roundtrip:
  "from_meta_secs (Some (to_meta_secs d)) = d
   \<and> try_from_meta_secs (to_meta_secs d) = Inr d
   \<and> (is_ok (try_from_meta_secs raw) \<longleftrightarrow> raw \<in> {300, 900, 1800, 3600, 14400, -1})"
proof (intro conjI)
  show "from_meta_secs (Some (to_meta_secs d)) = d" by (rule from_meta_to_meta)
  show "try_from_meta_secs (to_meta_secs d) = Inr d" using duration_codec.round_trip by simp
  have "range to_meta_secs = {300, 900, 1800, 3600, 14400, -1}"
  proof -
    have all: "x \<in> {Min5, Min15, Min30, Hour1, Hour4, UntilDeviceLock}" for x
      by (cases x) simp_all
    have "UNIV = {Min5, Min15, Min30, Hour1, Hour4, UntilDeviceLock}"
      by (intro equalityI subsetI all UNIV_I)
    then have "range to_meta_secs =
        to_meta_secs ` {Min5, Min15, Min30, Hour1, Hour4, UntilDeviceLock}" by (rule arg_cong)
    then show ?thesis by (simp only: image_insert image_empty to_meta_secs_values)
  qed
  moreover have "is_ok (try_from_meta_secs raw) \<longleftrightarrow> ok_option (try_from_meta_secs raw) \<noteq> None"
    by (auto simp: is_ok_def ok_option_def split: sum.splits)
  ultimately show "is_ok (try_from_meta_secs raw) \<longleftrightarrow> raw \<in> {300, 900, 1800, 3600, 14400, -1}"
    using duration_codec.dec_canonical by simp
qed

end
