(* ===== verification/Search_Index.thy ===== *)
theory Search_Index
  imports Revision_Graph
begin

text \<open>
  The in-memory account search index of \<open>crates/pangolin-store/src/search.rs\<close>: the \<open>accounts\<close>
  table, the full-text table keyed by the same row ids, and the row-id map that joins them. The
  statements of one method run in order without a transaction; a violated \<open>PRIMARY KEY\<close> or
  \<open>UNIQUE\<close> constraint is an error that leaves the effects of the statements before it. The
  lemmas show that the two tables and the map stay consistent and that the three operations
  implement update and deletion on a finite map from accounts to (timestamp, projection).
\<close>

record SearchProjection =
  sp_display_name :: string
  sp_tags_joined :: string
  sp_hostnames_joined :: string

record SearchIndex =
  si_accounts :: "(int \<times> AccountId \<times> int) list"
  si_fts :: "(int \<times> SearchProjection) list"
  next_rowid :: int
  rowid_by_account :: "AccountId \<rightharpoonup> int"

definition si_new_empty :: SearchIndex where
  "si_new_empty = \<lparr>si_accounts = [], si_fts = [], next_rowid = 1, rowid_by_account = Map.empty\<rparr>"

definition si_insert ::
    "AccountId \<Rightarrow> int \<Rightarrow> SearchProjection \<Rightarrow> (SearchIndex, StoreError, unit) op" where
  "si_insert a updated_at p s =
     (let rowid = next_rowid s; s1 = s\<lparr>next_rowid := next_rowid s + 1\<rparr>
      in if rowid \<in> fst ` set (si_accounts s1) \<or> a \<in> (fst \<circ> snd) ` set (si_accounts s1)
         then (Inl (Sqlite ''constraint''), s1)
         else let s2 = s1\<lparr>si_accounts := si_accounts s1 @ [(rowid, a, updated_at)]\<rparr>
              in if rowid \<in> fst ` set (si_fts s2) then (Inl (Sqlite ''constraint''), s2)
                 else (Inr (), s2\<lparr>si_fts := si_fts s2 @ [(rowid, p)],
                                 rowid_by_account := (rowid_by_account s2)(a \<mapsto> rowid)\<rparr>))"

definition si_update ::
    "AccountId \<Rightarrow> int \<Rightarrow> SearchProjection \<Rightarrow> (SearchIndex, StoreError, unit) op" where
  "si_update a updated_at p s =
     (case rowid_by_account s a of
        None \<Rightarrow> si_insert a updated_at p s
      | Some rowid \<Rightarrow>
          (Inr (), s\<lparr>si_fts := filter (\<lambda>r. fst r \<noteq> rowid) (si_fts s) @ [(rowid, p)],
                     si_accounts := map (\<lambda>(r, i, t). (r, i, if r = rowid then updated_at else t))
                       (si_accounts s)\<rparr>))"

definition si_remove :: "AccountId \<Rightarrow> (SearchIndex, StoreError, unit) op" where
  "si_remove a s =
     (case rowid_by_account s a of
        None \<Rightarrow> (Inr (), s)
      | Some rowid \<Rightarrow>
          (Inr (), s\<lparr>rowid_by_account := (rowid_by_account s)(a := None),
                     si_fts := filter (\<lambda>r. fst r \<noteq> rowid) (si_fts s),
                     si_accounts := filter (\<lambda>r. fst r \<noteq> rowid) (si_accounts s)\<rparr>))"

section \<open>Consistency and the map it implements\<close>

definition si_inv :: "SearchIndex \<Rightarrow> bool" where
  "si_inv s \<longleftrightarrow>
     distinct (map fst (si_accounts s)) \<and> distinct (map fst (si_fts s))
     \<and> set (map fst (si_fts s)) = set (map fst (si_accounts s))
     \<and> (\<forall>r a t. (r, a, t) \<in> set (si_accounts s) \<longrightarrow>
           rowid_by_account s a = Some r \<and> r < next_rowid s)
     \<and> (\<forall>a r. rowid_by_account s a = Some r \<longrightarrow> (\<exists>t. (r, a, t) \<in> set (si_accounts s)))"

definition si_view :: "SearchIndex \<Rightarrow> AccountId \<rightharpoonup> int \<times> SearchProjection" where
  "si_view s a =
     (case rowid_by_account s a of
        None \<Rightarrow> None
      | Some r \<Rightarrow>
          (case (map_of (si_accounts s) r, map_of (si_fts s) r) of
             (Some (_, t), Some p) \<Rightarrow> Some (t, p)
           | _ \<Rightarrow> None))"

lemma si_row_account: "si_inv s \<Longrightarrow> (r, a, t) \<in> set (si_accounts s) \<Longrightarrow> rowid_by_account s a = Some r"
  by (erule si_inv_def[THEN iffD1, THEN conjunct2, THEN conjunct2, THEN conjunct2, THEN conjunct1,
        rule_format, THEN conjunct1])

lemma si_row_bound: "si_inv s \<Longrightarrow> (r, a, t) \<in> set (si_accounts s) \<Longrightarrow> r < next_rowid s"
  by (erule si_inv_def[THEN iffD1, THEN conjunct2, THEN conjunct2, THEN conjunct2, THEN conjunct1,
        rule_format, THEN conjunct2])

lemma si_account_row: "si_inv s \<Longrightarrow> rowid_by_account s a = Some r \<Longrightarrow> \<exists>t. (r, a, t) \<in> set (si_accounts s)"
  by (erule si_inv_def[THEN iffD1, THEN conjunct2, THEN conjunct2, THEN conjunct2, THEN conjunct2,
        rule_format])

lemma map_of_filter_ne: "map_of (filter (\<lambda>r. fst r \<noteq> k) xs) x = (if x = k then None else map_of xs x)"
  by (induction xs) auto

lemma map_of_snoc: "map_of (xs @ [(k, v)]) x =
    (case map_of xs x of Some w \<Rightarrow> Some w | None \<Rightarrow> if x = k then Some v else None)"
  by (simp add: map_add_def split: option.splits)

lemma map_of_restamp:
  "map_of (map (\<lambda>(r, i, t). (r, i, if r = k then u else t)) xs) x =
    map_option (\<lambda>(i, t). (i, if x = k then u else t)) (map_of xs x)"
  by (induction xs) auto

lemma fst_restamp: "map fst (map (\<lambda>(r, i, t). (r, i, if r = k then u else t)) xs) = map fst xs"
  by (induction xs) auto

lemma si_row_fresh: "si_inv s \<Longrightarrow> next_rowid s \<notin> fst ` set (si_accounts s)"
  by (auto dest: si_row_bound)

lemma si_fts_rows: "si_inv s \<Longrightarrow> fst ` set (si_fts s) = fst ` set (si_accounts s)"
  by (simp add: si_inv_def)

lemma si_known_account:
  "si_inv s \<Longrightarrow> a \<in> (fst \<circ> snd) ` set (si_accounts s) \<longleftrightarrow> rowid_by_account s a \<noteq> None"
  by (auto simp: image_iff dest: si_row_account si_account_row)
    (metis si_account_row fst_conv snd_conv)

lemma si_rowid_unique:
  assumes "si_inv s" "rowid_by_account s a = Some r" "rowid_by_account s b = Some r"
  shows "a = b"
proof -
  obtain t u where "(r, a, t) \<in> set (si_accounts s)" "(r, b, u) \<in> set (si_accounts s)"
    using assms si_account_row by metis
  moreover have "distinct (map fst (si_accounts s))" using assms(1) by (simp add: si_inv_def)
  ultimately show ?thesis by (metis Pair_inject eq_key_imp_eq_value)
qed

lemma si_lookup:
  assumes "si_inv s" "rowid_by_account s a = Some r"
  obtains t p where "map_of (si_accounts s) r = Some (a, t)" "map_of (si_fts s) r = Some p"
proof -
  obtain t where t: "(r, a, t) \<in> set (si_accounts s)" using assms si_account_row by metis
  then have "map_of (si_accounts s) r = Some (a, t)" using assms(1) by (simp add: si_inv_def)
  moreover have "r \<in> fst ` set (si_fts s)" using t si_fts_rows[OF assms(1)] by force
  then obtain p where "map_of (si_fts s) r = Some p" by (metis map_of_eq_None_iff not_None_eq)
  ultimately show thesis using that by blast
qed

lemma si_insert_fresh:
  assumes "si_inv s" "rowid_by_account s a = None"
  obtains s' where "si_insert a t p s = (Inr (), s')" "si_inv s'" "si_view s' = (si_view s)(a \<mapsto> (t, p))"
proof -
  let ?r = "next_rowid s"
  let ?s' = "s\<lparr>next_rowid := ?r + 1, si_accounts := si_accounts s @ [(?r, a, t)],
    si_fts := si_fts s @ [(?r, p)], rowid_by_account := (rowid_by_account s)(a \<mapsto> ?r)\<rparr>"
  note fresh = si_row_fresh[OF assms(1)] and known = si_known_account[OF assms(1), of a]
  have run: "si_insert a t p s = (Inr (), ?s')"
    using fresh known assms(2) si_fts_rows[OF assms(1)] by (simp add: si_insert_def Let_def)
  have inv: "si_inv ?s'"
    unfolding si_inv_def
  proof (intro conjI allI impI)
    show "distinct (map fst (si_accounts ?s'))" "distinct (map fst (si_fts ?s'))"
      "set (map fst (si_fts ?s')) = set (map fst (si_accounts ?s'))"
      using assms(1) fresh si_fts_rows[OF assms(1)] by (simp_all add: si_inv_def)
  next
    fix r b u
    assume row: "(r, b, u) \<in> set (si_accounts ?s')"
    have "rowid_by_account ?s' b = Some r \<and> r < next_rowid ?s'"
    proof (cases "(r, b, u) \<in> set (si_accounts s)")
      case True
      then have "rowid_by_account s b = Some r" "r < ?r" using si_row_account[OF assms(1)] si_row_bound[OF assms(1)] by auto
      then show ?thesis using assms(2) by auto
    qed (use row in simp)
    then show "rowid_by_account ?s' b = Some r" "r < next_rowid ?s'" by blast+
  next
    fix b r
    assume "rowid_by_account ?s' b = Some r"
    then show "\<exists>u. (r, b, u) \<in> set (si_accounts ?s')"
      using si_account_row[OF assms(1), of b r] by (cases "b = a") auto
  qed
  have "si_view ?s' b = ((si_view s)(a \<mapsto> (t, p))) b" for b
  proof (cases "b = a")
    case True
    have "map_of (si_accounts s) ?r = None" "map_of (si_fts s) ?r = None"
      using fresh si_fts_rows[OF assms(1)] by (simp_all add: map_of_eq_None_iff)
    then show ?thesis using True by (simp add: si_view_def map_of_snoc del: map_of_append)
  next
    case False
    show ?thesis
    proof (cases "rowid_by_account s b")
      case None
      then show ?thesis using False by (simp add: si_view_def)
    next
      case (Some r)
      then obtain u q where "map_of (si_accounts s) r = Some (b, u)" "map_of (si_fts s) r = Some q"
        using si_lookup[OF assms(1)] by metis
      then show ?thesis using False Some by (simp add: si_view_def map_of_snoc del: map_of_append)
    qed
  qed
  then have "si_view ?s' = (si_view s)(a \<mapsto> (t, p))" by blast
  then show thesis using that run inv by blast
qed

lemma si_update_known:
  assumes "si_inv s" "rowid_by_account s a = Some r"
  obtains s' where "si_update a t p s = (Inr (), s')" "si_inv s'" "si_view s' = (si_view s)(a \<mapsto> (t, p))"
proof -
  let ?acc = "map (\<lambda>(q, i, u). (q, i, if q = r then t else u)) (si_accounts s)"
  let ?s' = "s\<lparr>si_fts := filter (\<lambda>q. fst q \<noteq> r) (si_fts s) @ [(r, p)], si_accounts := ?acc\<rparr>"
  have run: "si_update a t p s = (Inr (), ?s')" by (simp add: si_update_def assms(2))
  have r: "r \<in> fst ` set (si_accounts s)" using si_account_row[OF assms] by force
  have inv: "si_inv ?s'"
    unfolding si_inv_def
  proof (intro conjI allI impI)
    show "distinct (map fst (si_accounts ?s'))"
      using assms(1) by (simp add: fst_restamp si_inv_def del: map_map)
    show "distinct (map fst (si_fts ?s'))"
      using assms(1) by (auto simp: si_inv_def distinct_map_filter)
    have "fst ` {x \<in> set (si_fts s). fst x \<noteq> r} = fst ` set (si_fts s) - {r}" by auto
    moreover have "set (map fst (si_accounts ?s')) = set (map fst (si_accounts s))"
      by (simp add: fst_restamp del: map_map set_map)
    ultimately show "set (map fst (si_fts ?s')) = set (map fst (si_accounts ?s'))"
      using si_fts_rows[OF assms(1)] r by auto
  next
    fix q b u
    assume "(q, b, u) \<in> set (si_accounts ?s')"
    then obtain u' where "(q, b, u') \<in> set (si_accounts s)" by auto
    then show "rowid_by_account ?s' b = Some q" "q < next_rowid ?s'"
      using si_row_account[OF assms(1)] si_row_bound[OF assms(1)] by auto
  next
    fix b q
    assume "rowid_by_account ?s' b = Some q"
    then obtain u where "(q, b, u) \<in> set (si_accounts s)"
      using si_account_row[OF assms(1), of b q] by auto
    then show "\<exists>u. (q, b, u) \<in> set (si_accounts ?s')" by force
  qed
  have "si_view ?s' b = ((si_view s)(a \<mapsto> (t, p))) b" for b
  proof (cases "rowid_by_account s b")
    case (Some q)
    obtain u w where l: "map_of (si_accounts s) q = Some (b, u)" "map_of (si_fts s) q = Some w"
      using si_lookup[OF assms(1) Some] .
    show ?thesis
    proof (cases "b = a")
      case True
      then show ?thesis using l Some assms(2)
        by (simp add: si_view_def map_of_snoc map_of_filter_ne map_of_restamp del: map_of_append)
    next
      case False
      then have "q \<noteq> r" using si_rowid_unique assms Some by blast
      then show ?thesis using l Some False
        by (simp add: si_view_def map_of_snoc map_of_filter_ne map_of_restamp del: map_of_append)
    qed
  qed (use assms(2) in \<open>auto simp: si_view_def\<close>)
  then have "si_view ?s' = (si_view s)(a \<mapsto> (t, p))" by blast
  then show thesis using that run inv by blast
qed

lemma si_update_refines:
  assumes "si_inv s"
  obtains s' where "si_update a t p s = (Inr (), s')" "si_inv s'" "si_view s' = (si_view s)(a \<mapsto> (t, p))"
proof (cases "rowid_by_account s a")
  case None
  obtain s' where "si_insert a t p s = (Inr (), s')" "si_inv s'"
    "si_view s' = (si_view s)(a \<mapsto> (t, p))" using si_insert_fresh[OF assms None] .
  then show thesis using that None by (simp add: si_update_def)
next
  case (Some r)
  then show thesis using si_update_known[OF assms] that by metis
qed

lemma si_remove_refines:
  assumes "si_inv s"
  obtains s' where "si_remove a s = (Inr (), s')" "si_inv s'" "si_view s' = (si_view s)(a := None)"
proof (cases "rowid_by_account s a")
  case None
  then have "si_view s a = None" by (simp add: si_view_def)
  then have "si_view s = (si_view s)(a := None)" by (simp add: fun_upd_idem)
  then show thesis using that None assms by (simp add: si_remove_def)
next
  case (Some r)
  let ?s' = "s\<lparr>rowid_by_account := (rowid_by_account s)(a := None),
    si_fts := filter (\<lambda>q. fst q \<noteq> r) (si_fts s), si_accounts := filter (\<lambda>q. fst q \<noteq> r) (si_accounts s)\<rparr>"
  have inv: "si_inv ?s'"
    unfolding si_inv_def
  proof (intro conjI allI impI)
    show "distinct (map fst (si_accounts ?s'))" "distinct (map fst (si_fts ?s'))"
      using assms by (simp_all add: si_inv_def distinct_map_filter)
    have "fst ` {x \<in> set (si_fts s). fst x \<noteq> r} = fst ` set (si_fts s) - {r}"
      "fst ` {x \<in> set (si_accounts s). fst x \<noteq> r} = fst ` set (si_accounts s) - {r}" by auto
    then show "set (map fst (si_fts ?s')) = set (map fst (si_accounts ?s'))"
      using si_fts_rows[OF assms] by simp
  next
    fix q b u
    assume "(q, b, u) \<in> set (si_accounts ?s')"
    then have "(q, b, u) \<in> set (si_accounts s)" "q \<noteq> r" by auto
    then have "rowid_by_account s b = Some q" "q < next_rowid s"
      using si_row_account[OF assms] si_row_bound[OF assms] by auto
    then show "rowid_by_account ?s' b = Some q" "q < next_rowid ?s'" using Some \<open>q \<noteq> r\<close> by auto
  next
    fix b q
    assume "rowid_by_account ?s' b = Some q"
    then have q: "rowid_by_account s b = Some q" "b \<noteq> a" by (auto split: if_splits)
    then have "q \<noteq> r" using si_rowid_unique[OF assms] Some by blast
    then show "\<exists>u. (q, b, u) \<in> set (si_accounts ?s')"
      using si_account_row[OF assms q(1)] by auto
  qed
  have "si_view ?s' b = ((si_view s)(a := None)) b" for b
  proof (cases "rowid_by_account s b")
    case (Some q)
    then have "b = a \<or> q \<noteq> r" using si_rowid_unique[OF assms] \<open>rowid_by_account s a = Some r\<close> by blast
    then show ?thesis using Some by (auto simp: si_view_def map_of_filter_ne)
  qed (auto simp: si_view_def)
  then have "si_view ?s' = (si_view s)(a := None)" by blast
  moreover have "si_remove a s = (Inr (), ?s')" by (simp add: si_remove_def Some)
  ultimately show thesis using that inv by blast
qed

text \<open>
  C33. The search index implements a finite map from accounts to their timestamp and projection:
  on a consistent index, \<open>update\<close> never fails and is map update, \<open>remove\<close> never fails and is
  map deletion, \<open>insert\<close> of an account that is already present is refused, and consistency is
  kept.
\<close>

theorem search_index_refines_map:
  assumes "si_inv s"
  shows "fst (si_update a t p s) = Inr ()
      \<and> si_inv (snd (si_update a t p s))
      \<and> si_view (snd (si_update a t p s)) = (si_view s)(a \<mapsto> (t, p))
      \<and> fst (si_remove a s) = Inr ()
      \<and> si_inv (snd (si_remove a s))
      \<and> si_view (snd (si_remove a s)) = (si_view s)(a := None)
      \<and> (is_ok (fst (si_insert a t p s)) \<longleftrightarrow> si_view s a = None)
      \<and> (si_view s a = None \<longrightarrow> si_view (snd (si_insert a t p s)) = (si_view s)(a \<mapsto> (t, p)))"
proof -
  obtain s1 where 1: "si_update a t p s = (Inr (), s1)" "si_inv s1"
    "si_view s1 = (si_view s)(a \<mapsto> (t, p))" using si_update_refines[OF assms] .
  obtain s2 where 2: "si_remove a s = (Inr (), s2)" "si_inv s2"
    "si_view s2 = (si_view s)(a := None)" using si_remove_refines[OF assms] .
  have "(is_ok (fst (si_insert a t p s)) \<longleftrightarrow> si_view s a = None)
      \<and> (si_view s a = None \<longrightarrow> si_view (snd (si_insert a t p s)) = (si_view s)(a \<mapsto> (t, p)))"
  proof (cases "rowid_by_account s a")
    case None
    then obtain s3 where "si_insert a t p s = (Inr (), s3)" "si_view s3 = (si_view s)(a \<mapsto> (t, p))"
      using si_insert_fresh[OF assms None] by metis
    then show ?thesis using None by (simp add: si_view_def)
  next
    case (Some r)
    obtain u w where "map_of (si_accounts s) r = Some (a, u)" "map_of (si_fts s) r = Some w"
      using si_lookup[OF assms Some] .
    then have "si_view s a \<noteq> None" using Some by (simp add: si_view_def)
    moreover have "a \<in> (fst \<circ> snd) ` set (si_accounts s)"
      using si_known_account[OF assms] Some by simp
    ultimately show ?thesis by (auto simp: si_insert_def Let_def)
  qed
  then show ?thesis using 1 2 by simp
qed

definition si_example_projection :: SearchProjection where
  "si_example_projection =
     \<lparr>sp_display_name = ''mail'', sp_tags_joined = [], sp_hostnames_joined = ''mail.example''\<rparr>"

definition si_example :: SearchIndex where
  "si_example = snd (si_update (AccountId [1]) 5 si_example_projection si_new_empty)"

lemma si_new_empty_inv: "si_inv si_new_empty"
  by (simp add: si_new_empty_def si_inv_def)

theorem search_index_refines_map_witness:
  "si_inv si_example \<and> si_view (snd (si_remove (AccountId [1]) si_example)) = Map.empty"
proof -
  have view: "si_view si_new_empty = Map.empty" by (simp add: si_view_def si_new_empty_def fun_eq_iff)
  note ex = search_index_refines_map[OF si_new_empty_inv, of "AccountId [1]" 5 si_example_projection]
  have inv: "si_inv si_example" using ex by (simp add: si_example_def)
  moreover have "si_view (snd (si_remove (AccountId [1]) si_example)) =
      (si_view si_example)(AccountId [1] := None)"
    using search_index_refines_map[OF inv, of "AccountId [1]"] by blast
  moreover have "si_view si_example = [AccountId [1] \<mapsto> (5, si_example_projection)]"
    using ex view by (simp add: si_example_def)
  ultimately show ?thesis by simp
qed

end
