(* ===== verification/Bit_Strings.thy ===== *)
theory Bit_Strings
  imports Pangolin_Prelude
begin

text \<open>
  Words as bit strings, most significant bit first: the vocabulary in which the two base32
  codecs of the repository (one-time-code secrets and pairing payloads) are specified. The
  lemmas turn a shift register, into which a loop pushes groups of bits and from which it takes
  groups of another width, into concatenation and splitting of bit strings.
\<close>

unbundle bit_operations_syntax

section \<open>Small words\<close>

lemma unat_ucast_widen: "LENGTH('a) \<le> LENGTH('b) \<Longrightarrow> unat (ucast (c :: 'a::len word) :: 'b::len word) = unat c"
  by (simp add: unsigned_ucast_eq take_bit_nat_eq_self_iff)
    (rule less_le_trans[OF unsigned_less], simp)

lemma take_bit_word_less:
  fixes w :: "'a::len word"
  assumes "n < LENGTH('a)" "take_bit n w = w"
  shows "w < 2 ^ n"
proof -
  have "uint w = take_bit n (uint w)" using assms(2) by (metis unsigned_take_bit_eq)
  then have "uint w < 2 ^ n" by (metis take_bit_int_less_exp)
  then show ?thesis using assms(1) by (simp add: word_2p_lem word_size)
qed

lemma take_bit_word_self:
  fixes w :: "'a::len word"
  assumes "n < LENGTH('a)" "w < 2 ^ n"
  shows "take_bit n w = w"
proof -
  have "uint w < 2 ^ n" using assms by (simp add: word_2p_lem word_size)
  then have "take_bit n (uint w) = uint w" by (simp add: take_bit_int_eq_self_iff)
  then show ?thesis by (metis unsigned_take_bit_eq unsigned_word_eqI)
qed

lemma small_high_bits:
  fixes v :: "'a::len word"
  assumes "v < 2 ^ k" "k < LENGTH('a)" "k \<le> n"
  shows "\<not> bit v n"
  using take_bit_word_self[OF assms(2,1)] assms(3) by (metis bit_take_bit_iff not_le)

section \<open>The low bits of a word\<close>

definition low_bits :: "nat \<Rightarrow> 'a::len word \<Rightarrow> bool list" where
  "low_bits n w = map (bit w) (rev [0..<n])"

lemma low_bits_length [simp]: "length (low_bits n w) = n"
  by (simp add: low_bits_def)

lemma low_bits_0 [simp]: "low_bits 0 w = []"
  by (simp add: low_bits_def)

lemma low_bits_nth: "k < n \<Longrightarrow> low_bits n w ! k = bit w (n - 1 - k)"
  by (simp add: low_bits_def rev_nth)

lemma low_bits_cong: "(\<And>k. k < n \<Longrightarrow> bit v k = bit w k) \<Longrightarrow> low_bits n v = low_bits n w"
  by (auto simp: low_bits_def)

lemma low_bits_eq_iff: "low_bits n v = low_bits n w \<longleftrightarrow> (\<forall>k < n. bit v k = bit w k)"
proof
  assume eq: "low_bits n v = low_bits n w"
  show "\<forall>k < n. bit v k = bit w k"
  proof (intro allI impI)
    fix k assume "k < n"
    then have "n - 1 - k < n" "n - 1 - (n - 1 - k) = k" by simp_all
    then show "bit v k = bit w k" using eq by (metis low_bits_nth)
  qed
next
  assume "\<forall>k < n. bit v k = bit w k"
  then show "low_bits n v = low_bits n w" by (intro low_bits_cong) blast
qed

lemma low_bits_word_inj:
  fixes v w :: "'a::len word"
  assumes "low_bits n v = low_bits n w" "v < 2 ^ n" "w < 2 ^ n" "n < LENGTH('a)"
  shows "v = w"
proof (rule bit_word_eqI)
  fix k
  show "bit v k = bit w k"
    using assms small_high_bits[of v n k] small_high_bits[of w n k]
    by (cases "k < n") (simp_all add: low_bits_eq_iff not_less)
qed

text \<open>Splitting: the low \<open>n + m\<close> bits are the \<open>m\<close> bits above position \<open>n\<close> and the low \<open>n\<close> bits.\<close>

lemma low_bits_append: "low_bits (n + m) w = low_bits m (drop_bit n w) @ low_bits n w"
proof (rule nth_equalityI)
  fix k
  assume k: "k < length (low_bits (n + m) w)"
  show "low_bits (n + m) w ! k = (low_bits m (drop_bit n w) @ low_bits n w) ! k"
  proof (cases "k < m")
    case True
    then have "n + (m - Suc k) = n + m - Suc k" by simp
    then show ?thesis using True k by (simp add: low_bits_nth nth_append bit_simps)
  next
    case False
    then have "n + m - Suc k = n - Suc (k - m)" by simp
    then show ?thesis using False k by (simp add: low_bits_nth nth_append)
  qed
qed simp

text \<open>Pushing: shifting left by \<open>m\<close> and filling in an \<open>m\<close>-bit value appends its bits.\<close>

lemma low_bits_push:
  fixes buffer v :: "'a::len word"
  assumes "v < 2 ^ m" "m < LENGTH('a)" "n + m \<le> LENGTH('a)"
  shows "low_bits (n + m) (push_bit m buffer OR v) = low_bits n buffer @ low_bits m v"
proof -
  have "low_bits n (drop_bit m (push_bit m buffer OR v)) = low_bits n buffer"
    using assms small_high_bits[OF assms(1,2)] by (intro low_bits_cong) (auto simp: bit_simps)
  moreover have "low_bits m (push_bit m buffer OR v) = low_bits m v"
    by (intro low_bits_cong) (simp add: bit_simps)
  ultimately show ?thesis using low_bits_append[of m n "push_bit m buffer OR v"] by (simp add: add.commute)
qed

lemma low_bits_mask:
  "m \<le> LENGTH('a) \<Longrightarrow> low_bits m ((w :: 'a::len word) AND mask m) = low_bits m w"
  by (intro low_bits_cong) (auto simp: bit_simps)

lemma low_bits_ucast:
  "m \<le> LENGTH('b) \<Longrightarrow> low_bits m (ucast (w :: 'a::len word) :: 'b::len word) = low_bits m w"
  by (intro low_bits_cong) (auto simp: bit_simps)

lemma low_bits_byte:
  assumes "8 \<le> LENGTH('a)"
  shows "low_bits 8 (ucast ((w :: 'a::len word) AND 0xff) :: u8) = low_bits 8 w"
proof -
  have "low_bits 8 (ucast (w AND mask 8) :: u8) = low_bits 8 w"
    using assms by (simp only: low_bits_ucast low_bits_mask len_of_numeral_defs)
  then show ?thesis by (simp add: mask_eq_exp_minus_1)
qed

text \<open>Filling: shifting left by \<open>m\<close> appends \<open>m\<close> zero bits.\<close>

lemma low_bits_fill:
  fixes buffer :: "'a::len word"
  assumes "n + m \<le> LENGTH('a)"
  shows "low_bits (n + m) (push_bit m buffer) = low_bits n buffer @ replicate m False"
proof -
  have "low_bits n (drop_bit m (push_bit m buffer)) = low_bits n buffer"
    using assms by (intro low_bits_cong) (auto simp: bit_simps)
  moreover have "low_bits m (push_bit m buffer) = replicate m False"
    by (auto simp: list_eq_iff_nth_eq low_bits_nth bit_simps)
  ultimately show ?thesis using low_bits_append[of m n "push_bit m buffer"] by (simp add: add.commute)
qed

lemma trailing_zero:
  fixes buffer :: "'a::len word"
  assumes "n < LENGTH('a)"
  shows "buffer AND (push_bit n 1 - 1) = 0 \<longleftrightarrow> low_bits n buffer = replicate n False"
proof -
  have "push_bit n 1 - 1 = (mask n :: 'a word)" by (simp add: mask_eq_exp_minus_1 push_bit_of_1)
  then have "buffer AND (push_bit n 1 - 1) = take_bit n buffer" by (simp add: take_bit_eq_mask)
  moreover have "take_bit n buffer = 0 \<longleftrightarrow> (\<forall>k < n. \<not> bit buffer k)"
    using assms by (auto simp: bit_eq_iff bit_simps)
  moreover have "replicate n False = low_bits n (0 :: 'a word)"
    by (auto simp: list_eq_iff_nth_eq low_bits_nth)
  ultimately show ?thesis by (simp add: low_bits_eq_iff)
qed

section \<open>Sequences of groups\<close>

text \<open>The bits of a sequence of \<open>m\<close>-bit groups; groups of one width determine their sequence.\<close>

definition group_bits :: "nat \<Rightarrow> 'a::len word list \<Rightarrow> bool list" where
  "group_bits m ws = concat (map (low_bits m) ws)"

lemma group_bits_simps [simp]:
  "group_bits m [] = []" "group_bits m (w # ws) = low_bits m w @ group_bits m ws"
  "group_bits m (ws @ ws') = group_bits m ws @ group_bits m ws'"
  by (simp_all add: group_bits_def)

lemma group_bits_length [simp]: "length (group_bits m ws) = m * length ws"
  by (induction ws) simp_all

lemma group_bits_inj:
  assumes "group_bits m v = group_bits m w" "length v = length w"
    and "\<And>x y. x \<in> set v \<Longrightarrow> y \<in> set w \<Longrightarrow> low_bits m x = low_bits m y \<Longrightarrow> x = y"
  shows "v = w"
  using assms(2,1,3) by (induction v w rule: list_induct2) auto

lemma low_bits_8_inj: "low_bits 8 (a :: u8) = low_bits 8 b \<Longrightarrow> a = b"
  by (rule bit_word_eqI) (simp add: low_bits_eq_iff)

lemma bits_decomposition:
  assumes "group_bits 8 (a :: bytes) @ us = group_bits 8 b @ vs"
    and "length us < 8" "length vs < 8"
  shows "a = b \<and> us = vs"
proof -
  have "8 * length a + length us = 8 * length b + length vs"
    using arg_cong[OF assms(1), of length] by simp
  then have len: "length a = length b" using assms(2,3) by linarith
  then have "group_bits 8 a = group_bits 8 b \<and> us = vs" using assms(1) by simp
  then show ?thesis using group_bits_inj[of 8 a b] len low_bits_8_inj by blast
qed

section \<open>Big-endian integers\<close>

text \<open>Rust's \<open>u64::to_be_bytes\<close> and \<open>u64::from_be_bytes\<close>.\<close>

definition u64_to_be_bytes :: "u64 \<Rightarrow> bytes" where
  "u64_to_be_bytes w = map (\<lambda>k. ucast (drop_bit (8 * k) w)) [7, 6, 5, 4, 3, 2, 1, 0]"

definition u64_from_be_bytes :: "bytes \<Rightarrow> u64" where
  "u64_from_be_bytes bs = foldl (\<lambda>w b. push_bit 8 w OR ucast b) 0 bs"

lemma u64_to_be_bytes_length [simp]: "length (u64_to_be_bytes w) = 8"
  by (simp add: u64_to_be_bytes_def)

lemma u64_to_be_bytes_bits: "group_bits 8 (u64_to_be_bytes w) = low_bits 64 w"
proof -
  have step: "low_bits (8 * Suc k) w = low_bits 8 (ucast (drop_bit (8 * k) w) :: u8) @ low_bits (8 * k) w" for k
    using low_bits_append[of "8 * k" 8 w] by (simp add: low_bits_ucast add.commute)
  show ?thesis
    using step[of 7] step[of 6] step[of 5] step[of 4] step[of 3] step[of 2] step[of 1] step[of 0]
    by (simp add: u64_to_be_bytes_def eval_nat_numeral)
qed

lemma be_bytes_fold_bits:
  "8 < LENGTH('a::len) \<Longrightarrow> n + 8 * length (bs :: bytes) \<le> LENGTH('a) \<Longrightarrow>
     low_bits (n + 8 * length bs) (foldl (\<lambda>w b. push_bit 8 w OR ucast b) (w :: 'a word) bs)
       = low_bits n w @ group_bits 8 bs"
proof (induction bs arbitrary: w n)
  case (Cons b bs)
  have "(ucast b :: 'a word) < 2 ^ 8"
    using Cons.prems(1) by (intro take_bit_word_less bit_word_eqI) (auto simp: bit_simps dest: bit_imp_le_length)
  then have "low_bits (n + 8) (push_bit 8 w OR ucast b) = low_bits n w @ low_bits 8 (ucast b :: 'a word)"
    using Cons.prems by (intro low_bits_push) simp_all
  then have "low_bits (n + 8) (push_bit 8 w OR ucast b) = low_bits n w @ low_bits 8 b"
    using Cons.prems(1) by (simp add: low_bits_ucast)
  then show ?case using Cons.IH[of "n + 8" "push_bit 8 w OR ucast b"] Cons.prems
    by (simp add: add.assoc)
qed simp

lemma u64_be_bytes_roundtrip: "u64_from_be_bytes (u64_to_be_bytes w) = w"
proof -
  have "low_bits 64 (u64_from_be_bytes (u64_to_be_bytes w)) = low_bits 64 w"
    using be_bytes_fold_bits[of 0 "u64_to_be_bytes w" "0 :: u64"]
    by (simp add: u64_from_be_bytes_def u64_to_be_bytes_bits)
  then show ?thesis by (intro bit_word_eqI) (simp add: low_bits_eq_iff)
qed

lemma u64_to_be_bytes_inj: "u64_to_be_bytes v = u64_to_be_bytes w \<longleftrightarrow> v = w"
  by (metis u64_be_bytes_roundtrip)

lemma u64_be_bytes_exact: "length bs = 8 \<Longrightarrow> u64_to_be_bytes (u64_from_be_bytes bs) = bs"
  using be_bytes_fold_bits[of 0 bs "0 :: u64"] bits_decomposition[of "u64_to_be_bytes (u64_from_be_bytes bs)" "[]" bs "[]"]
  by (simp add: u64_from_be_bytes_def u64_to_be_bytes_bits)

text \<open>The same of \<open>u32\<close>.\<close>

definition u32_to_be_bytes :: "u32 \<Rightarrow> bytes" where
  "u32_to_be_bytes w = map (\<lambda>k. ucast (drop_bit (8 * k) w)) [3, 2, 1, 0]"

definition u32_from_be_bytes :: "bytes \<Rightarrow> u32" where
  "u32_from_be_bytes bs = foldl (\<lambda>w b. push_bit 8 w OR ucast b) 0 bs"

lemma u32_to_be_bytes_length [simp]: "length (u32_to_be_bytes w) = 4"
  by (simp add: u32_to_be_bytes_def)

lemma u32_to_be_bytes_bits: "group_bits 8 (u32_to_be_bytes w) = low_bits 32 w"
proof -
  have step: "low_bits (8 * Suc k) w = low_bits 8 (ucast (drop_bit (8 * k) w) :: u8) @ low_bits (8 * k) w" for k
    using low_bits_append[of "8 * k" 8 w] by (simp add: low_bits_ucast add.commute)
  show ?thesis using step[of 3] step[of 2] step[of 1] step[of 0] by (simp add: u32_to_be_bytes_def eval_nat_numeral)
qed

lemma u32_be_bytes_roundtrip: "u32_from_be_bytes (u32_to_be_bytes w) = w"
proof -
  have "low_bits 32 (u32_from_be_bytes (u32_to_be_bytes w)) = low_bits 32 w"
    using be_bytes_fold_bits[of 0 "u32_to_be_bytes w" "0 :: u32"]
    by (simp add: u32_from_be_bytes_def u32_to_be_bytes_bits)
  then show ?thesis by (intro bit_word_eqI) (simp add: low_bits_eq_iff)
qed

lemma u32_be_bytes_exact: "length bs = 4 \<Longrightarrow> u32_to_be_bytes (u32_from_be_bytes bs) = bs"
  using be_bytes_fold_bits[of 0 bs "0 :: u32"] bits_decomposition[of "u32_to_be_bytes (u32_from_be_bytes bs)" "[]" bs "[]"]
  by (simp add: u32_from_be_bytes_def u32_to_be_bytes_bits)

end
