(* ===== verification/Totp.thy ===== *)
theory Totp
  imports Bit_Strings
begin

text \<open>
  One-time codes (\<open>crates/pangolin-totp/src/lib.rs\<close> and \<open>parse.rs\<close>): parameters and their
  validation, code generation by dynamic truncation, base32 decoding and \<open>otpauth://\<close> parsing.
  The HMAC functions come from external crates and are the parameter \<open>hmac\<close>. A Rust \<open>&str\<close> is
  the list of its UTF-8 bytes. The lemmas show the shape of a generated code, that it is
  constant inside a time step, that truncation never reads out of bounds, that base32 decoding
  is exact on bits, and the errors of the parser.
\<close>

section \<open>Strings as UTF-8 bytes\<close>

definition ascii :: "string \<Rightarrow> bytes" where
  "ascii s = map of_char s"

definition to_ascii_uppercase_byte :: "u8 \<Rightarrow> u8" where
  "to_ascii_uppercase_byte b = (if 97 \<le> b \<and> b \<le> 122 then b - 32 else b)"

definition to_ascii_lowercase_byte :: "u8 \<Rightarrow> u8" where
  "to_ascii_lowercase_byte b = (if 65 \<le> b \<and> b \<le> 90 then b + 32 else b)"

definition to_ascii_uppercase :: "bytes \<Rightarrow> bytes" where
  "to_ascii_uppercase s = map to_ascii_uppercase_byte s"

definition to_ascii_lowercase :: "bytes \<Rightarrow> bytes" where
  "to_ascii_lowercase s = map to_ascii_lowercase_byte s"

definition is_ascii_whitespace :: "u8 \<Rightarrow> bool" where
  "is_ascii_whitespace b \<longleftrightarrow> b \<in> {9, 10, 12, 13, 32}"

definition strip_prefix :: "bytes \<Rightarrow> bytes \<Rightarrow> bytes option" where
  "strip_prefix p s = (if take (length p) s = p then Some (drop (length p) s) else None)"

definition starts_with :: "bytes \<Rightarrow> bytes \<Rightarrow> bool" where
  "starts_with p s = (strip_prefix p s \<noteq> None)"

fun split_once :: "u8 \<Rightarrow> bytes \<Rightarrow> (bytes \<times> bytes) option" where
  "split_once c [] = None"
| "split_once c (b # bs) =
     (if b = c then Some ([], bs) else map_option (\<lambda>(l, r). (b # l, r)) (split_once c bs))"

fun split_on :: "u8 \<Rightarrow> bytes \<Rightarrow> bytes list" where
  "split_on c [] = [[]]"
| "split_on c (b # bs) =
     (if b = c then [] # split_on c bs
      else case split_on c bs of [] \<Rightarrow> [[b]] | w # ws \<Rightarrow> (b # w) # ws)"

text \<open>The UTF-8 encodings of the characters with Unicode property \<open>White_Space\<close>, for \<open>str::trim\<close>.\<close>

definition whitespace_encodings :: "bytes list" where
  "whitespace_encodings =
     [[9], [10], [11], [12], [13], [32], [0xC2, 0x85], [0xC2, 0xA0], [0xE1, 0x9A, 0x80]]
     @ map (\<lambda>k. [0xE2, 0x80, k])
         [0x80, 0x81, 0x82, 0x83, 0x84, 0x85, 0x86, 0x87, 0x88, 0x89, 0x8A, 0xA8, 0xA9, 0xAF]
     @ [[0xE2, 0x81, 0x9F], [0xE3, 0x80, 0x80]]"

fun strip_first :: "bytes list \<Rightarrow> bytes \<Rightarrow> bytes option" where
  "strip_first [] s = None"
| "strip_first (p # ps) s =
     (case strip_prefix p s of Some r \<Rightarrow> Some r | None \<Rightarrow> strip_first ps s)"

lemma strip_prefix_append: "strip_prefix p s = Some r \<longleftrightarrow> s = p @ r"
  by (auto simp: strip_prefix_def) (metis append_take_drop_id)

lemma strip_first_shorter:
  "strip_first ps s = Some r \<Longrightarrow> [] \<notin> set ps \<Longrightarrow> length r < length s"
  by (induction ps) (auto simp: strip_prefix_append split: option.splits)

function trim_start_with :: "bytes list \<Rightarrow> bytes \<Rightarrow> bytes" where
  "trim_start_with ps s =
     (if [] \<in> set ps then s
      else case strip_first ps s of None \<Rightarrow> s | Some r \<Rightarrow> trim_start_with ps r)"
  by pat_completeness auto
termination
  by (relation "measure (length \<circ> snd)") (auto simp: strip_first_shorter)

declare trim_start_with.simps [simp del]

definition trim :: "bytes \<Rightarrow> bytes" where
  "trim s = rev (trim_start_with (map rev whitespace_encodings)
     (rev (trim_start_with whitespace_encodings s)))"

text \<open>
  \<open>str::parse\<close> for an unsigned integer type with the given largest value: an optional plus sign,
  at least one digit, digits only, no overflow.
\<close>

fun parse_digits :: "nat \<Rightarrow> bytes \<Rightarrow> nat option" where
  "parse_digits acc [] = Some acc"
| "parse_digits acc (b # bs) =
     (if 48 \<le> b \<and> b \<le> 57 then parse_digits (acc * 10 + unat (b - 48)) bs else None)"

definition parse_unsigned :: "nat \<Rightarrow> bytes \<Rightarrow> nat option" where
  "parse_unsigned largest s =
     (let ds = (case s of b # bs \<Rightarrow> if b = 43 then bs else s | [] \<Rightarrow> [])
      in if ds = [] then None
         else case parse_digits 0 ds of
             None \<Rightarrow> None
           | Some n \<Rightarrow> if n \<le> largest then Some n else None)"

text \<open>
  \<open>String::from_utf8_lossy\<close>: every maximal ill-formed prefix becomes U+FFFD (bytes EF BF BD).
  \<open>utf8_second\<close> is the range of the second byte for a lead byte, \<open>None\<close> for a byte that starts no
  multi-byte sequence.
\<close>

definition utf8_second :: "u8 \<Rightarrow> (nat \<times> u8 \<times> u8) option" where
  "utf8_second b =
     (if 0xC2 \<le> b \<and> b \<le> 0xDF then Some (2, 0x80, 0xBF)
      else if b = 0xE0 then Some (3, 0xA0, 0xBF)
      else if b = 0xED then Some (3, 0x80, 0x9F)
      else if 0xE1 \<le> b \<and> b \<le> 0xEF then Some (3, 0x80, 0xBF)
      else if b = 0xF0 then Some (4, 0x90, 0xBF)
      else if 0xF1 \<le> b \<and> b \<le> 0xF3 then Some (4, 0x80, 0xBF)
      else if b = 0xF4 then Some (4, 0x80, 0x8F)
      else None)"

fun utf8_tail :: "nat \<Rightarrow> u8 \<Rightarrow> u8 \<Rightarrow> bytes \<Rightarrow> (bytes \<times> bytes) option \<times> bytes" where
  "utf8_tail 0 lo hi bs = (Some ([], bs), bs)"
| "utf8_tail (Suc k) lo hi [] = (None, [])"
| "utf8_tail (Suc k) lo hi (b # bs) =
     (if lo \<le> b \<and> b \<le> hi
      then (case utf8_tail k 0x80 0xBF bs of
              (Some (t, r), rest) \<Rightarrow> (Some (b # t, r), rest)
            | (None, rest) \<Rightarrow> (None, rest))
      else (None, b # bs))"

lemma utf8_tail_length:
  "utf8_tail k lo hi bs = (x, rest) \<Longrightarrow>
     length rest \<le> length bs \<and> (\<forall>t r. x = Some (t, r) \<longrightarrow> length r \<le> length bs)"
  by (induction k lo hi bs arbitrary: x rest rule: utf8_tail.induct)
    (auto split: if_splits prod.splits option.splits)

lemma utf8_tail_rest: "(x, rest) = utf8_tail k lo hi bs \<Longrightarrow> length rest \<le> length bs"
  using utf8_tail_length[of k lo hi bs x rest] by simp

lemma utf8_tail_ok: "(Some (t, r), rest) = utf8_tail k lo hi bs \<Longrightarrow> length r \<le> length bs"
  using utf8_tail_length[of k lo hi bs "Some (t, r)" rest] by simp

function from_utf8_lossy :: "bytes \<Rightarrow> bytes" where
  "from_utf8_lossy [] = []"
| "from_utf8_lossy (b # bs) =
     (if b < 0x80 then b # from_utf8_lossy bs
      else case utf8_second b of
        None \<Rightarrow> [0xEF, 0xBF, 0xBD] @ from_utf8_lossy bs
      | Some (n, lo, hi) \<Rightarrow>
          (case utf8_tail (n - 1) lo hi bs of
             (Some (t, r), _) \<Rightarrow> b # t @ from_utf8_lossy r
           | (None, rest) \<Rightarrow> [0xEF, 0xBF, 0xBD] @ from_utf8_lossy rest))"
  by pat_completeness auto
termination
  by (relation "measure length") (auto simp: less_Suc_eq_le dest: utf8_tail_rest utf8_tail_ok)

section \<open>Parameters\<close>

unbundle bit_operations_syntax

definition MAX_SECRET_BYTES :: nat where
  "MAX_SECRET_BYTES = 256"

datatype TotpAlgorithm = Sha1 | Sha256 | Sha512

datatype TotpError =
    EmptySecret
  | SecretTooLong nat nat
  | InvalidDigits u8
  | InvalidPeriod u32
  | InvalidBase32 string
  | MalformedUri string
  | HotpNotSupported
  | UnsupportedAlgorithm bytes
  | NegativeTime

definition algorithm_parse :: "bytes \<Rightarrow> TotpError + TotpAlgorithm" where
  "algorithm_parse s =
     (let u = to_ascii_uppercase s
      in if u = ascii ''SHA1'' then Inr Sha1
         else if u = ascii ''SHA256'' then Inr Sha256
         else if u = ascii ''SHA512'' then Inr Sha512
         else Inl (UnsupportedAlgorithm u))"

fun algorithm_as_str :: "TotpAlgorithm \<Rightarrow> bytes" where
  "algorithm_as_str Sha1 = ascii ''SHA1''"
| "algorithm_as_str Sha256 = ascii ''SHA256''"
| "algorithm_as_str Sha512 = ascii ''SHA512''"

fun to_wire :: "TotpAlgorithm \<Rightarrow> u8" where
  "to_wire Sha1 = 0"
| "to_wire Sha256 = 1"
| "to_wire Sha512 = 2"

definition from_wire :: "u8 \<Rightarrow> TotpError + TotpAlgorithm" where
  "from_wire v =
     (if v = 0 then Inr Sha1 else if v = 1 then Inr Sha256 else if v = 2 then Inr Sha512
      else Inl (UnsupportedAlgorithm (ascii ''wire'')))"

record TotpParams =
  tp_algorithm :: TotpAlgorithm
  tp_digits :: u8
  tp_period_seconds :: u32

definition TotpParams_default :: TotpParams where
  "TotpParams_default = \<lparr>tp_algorithm = Sha1, tp_digits = 6, tp_period_seconds = 30\<rparr>"

definition params_validate :: "TotpParams \<Rightarrow> TotpError + unit" where
  "params_validate p =
     (if \<not> (6 \<le> tp_digits p \<and> tp_digits p \<le> 8) then Inl (InvalidDigits (tp_digits p))
      else if tp_period_seconds p = 0 \<or> tp_period_seconds p > 3600
      then Inl (InvalidPeriod (tp_period_seconds p))
      else Inr ())"

interpretation algorithm_codec: strict_codec to_wire "\<lambda>v. ok_option (from_wire v)"
proof
  fix b :: u8 and a :: TotpAlgorithm
  show "ok_option (from_wire b) = Some a \<longleftrightarrow> b = to_wire a"
    by (cases a) (auto simp: from_wire_def)
qed

section \<open>Code generation\<close>

record TotpCode =
  tc_code :: bytes
  tc_seconds_remaining :: u32
  tc_period_seconds :: u32

text \<open>Decimal formatting and \<open>{value:0width$}\<close>.\<close>

fun decimal :: "nat \<Rightarrow> bytes" where
  "decimal n = (if n < 10 then [48 + of_nat n] else decimal (n div 10) @ [48 + of_nat (n mod 10)])"

declare decimal.simps [simp del]

definition zero_pad :: "nat \<Rightarrow> bytes \<Rightarrow> bytes" where
  "zero_pad width s = replicate (width - length s) 48 @ s"

definition hotp_truncate :: "(bytes \<Rightarrow> bytes \<Rightarrow> bytes) \<Rightarrow> bytes \<Rightarrow> bytes \<Rightarrow> u32" where
  "hotp_truncate mac secret msg =
     (let tag = mac secret msg;
          offset = unat (tag ! (length tag - 1) AND 0x0f)
      in push_bit 24 (ucast (tag ! offset AND 0x7f))
         OR push_bit 16 (ucast (tag ! (offset + 1)))
         OR push_bit 8 (ucast (tag ! (offset + 2)))
         OR ucast (tag ! (offset + 3)))"

definition totp_at :: "(TotpAlgorithm \<Rightarrow> bytes \<Rightarrow> bytes \<Rightarrow> bytes) \<Rightarrow> bytes \<Rightarrow> u64 \<Rightarrow> TotpParams
    \<Rightarrow> TotpError + TotpCode" where
  "totp_at hmac secret at_unix_secs params =
     (if secret = [] then Inl EmptySecret
      else if length secret > MAX_SECRET_BYTES
      then Inl (SecretTooLong (length secret) MAX_SECRET_BYTES)
      else and_then (params_validate params) (\<lambda>_.
        let period = ucast (tp_period_seconds params) :: u64;
            counter = at_unix_secs div period;
            bin_code = hotp_truncate (hmac (tp_algorithm params)) secret (u64_to_be_bytes counter);
            modulus = (10 :: u32) ^ unat (tp_digits params);
            value = bin_code mod modulus
        in Inr \<lparr>tc_code = zero_pad (unat (tp_digits params)) (decimal (unat value)),
                tc_seconds_remaining = tp_period_seconds params - ucast (at_unix_secs mod period),
                tc_period_seconds = tp_period_seconds params\<rparr>))"

section \<open>Base32\<close>

definition b32_ignored :: "u8 \<Rightarrow> bool" where
  "b32_ignored ch \<longleftrightarrow> ch = 61 \<or> is_ascii_whitespace ch \<or> ch = 45"

definition b32_value :: "u8 \<Rightarrow> u32 option" where
  "b32_value ch =
     (let c = to_ascii_uppercase_byte ch
      in if 65 \<le> c \<and> c \<le> 90 then Some (ucast (c - 65))
         else if 50 \<le> c \<and> c \<le> 55 then Some (ucast (c - 50) + 26)
         else None)"

fun b32_loop :: "u32 \<Rightarrow> nat \<Rightarrow> bytes \<Rightarrow> bytes \<Rightarrow> TotpError + u32 \<times> nat \<times> bytes" where
  "b32_loop buffer bits out [] = Inr (buffer, bits, out)"
| "b32_loop buffer bits out (ch # chs) =
     (if b32_ignored ch then b32_loop buffer bits out chs
      else case b32_value ch of
        None \<Rightarrow> Inl (InvalidBase32 ''invalid character'')
      | Some val \<Rightarrow>
          (let buffer' = push_bit 5 buffer OR val; bits' = bits + 5
           in if bits' \<ge> 8
              then b32_loop buffer' (bits' - 8)
                     (out @ [ucast (drop_bit (bits' - 8) buffer' AND 0xff)]) chs
              else b32_loop buffer' bits' out chs))"

definition decode_base32 :: "bytes \<Rightarrow> TotpError + bytes" where
  "decode_base32 input =
     and_then (b32_loop 0 0 [] input) (\<lambda>(buffer, bits, out).
       if bits \<ge> 5 \<or> (buffer AND (push_bit bits 1 - 1) \<noteq> 0 \<and> bits > 0)
       then Inl (InvalidBase32 ''non-zero trailing bits'')
       else Inr out)"

section \<open>Parsing secrets\<close>

record ParsedTotpSecret =
  ps_secret_bytes :: bytes
  ps_params :: TotpParams
  ps_label :: "bytes option"
  ps_issuer :: "bytes option"

definition hex_val :: "u8 \<Rightarrow> u8 option" where
  "hex_val b =
     (if 48 \<le> b \<and> b \<le> 57 then Some (b - 48)
      else if 97 \<le> b \<and> b \<le> 102 then Some (b - 97 + 10)
      else if 65 \<le> b \<and> b \<le> 70 then Some (b - 65 + 10)
      else None)"

fun percent_decode_bytes :: "bytes \<Rightarrow> bytes" where
  "percent_decode_bytes [] = []"
| "percent_decode_bytes (b # bs) =
     (if b = 37 then
        (case bs of
           h # l # rest \<Rightarrow>
             (case (hex_val h, hex_val l) of
                (Some x, Some y) \<Rightarrow> (push_bit 4 x OR y) # percent_decode_bytes rest
              | _ \<Rightarrow> b # percent_decode_bytes bs)
         | _ \<Rightarrow> b # percent_decode_bytes bs)
      else if b = 43 then 32 # percent_decode_bytes bs
      else b # percent_decode_bytes bs)"

definition percent_decode :: "bytes \<Rightarrow> bytes" where
  "percent_decode s = from_utf8_lossy (percent_decode_bytes s)"

definition finish :: "bytes \<Rightarrow> TotpParams \<Rightarrow> bytes option \<Rightarrow> bytes option
    \<Rightarrow> TotpError + ParsedTotpSecret" where
  "finish secret params label issuer =
     (if secret = [] then Inl EmptySecret
      else if length secret > MAX_SECRET_BYTES
      then Inl (SecretTooLong (length secret) MAX_SECRET_BYTES)
      else and_then (params_validate params) (\<lambda>_.
        Inr \<lparr>ps_secret_bytes = secret, ps_params = params, ps_label = label, ps_issuer = issuer\<rparr>))"

text \<open>The query loop's variables.\<close>

record OtpauthQuery =
  q_secret :: "bytes option"
  q_algorithm :: TotpAlgorithm
  q_digits :: u8
  q_period :: u32
  q_issuer :: "bytes option"

definition query_pair :: "OtpauthQuery \<Rightarrow> bytes \<Rightarrow> TotpError + OtpauthQuery" where
  "query_pair q pair =
     (if pair = [] then Inr q
      else case split_once 61 pair of
        None \<Rightarrow> Inr q
      | Some (k, raw) \<Rightarrow>
          (let v = percent_decode raw; key = to_ascii_lowercase k
           in if key = ascii ''secret'' then Inr (q\<lparr>q_secret := Some v\<rparr>)
              else if key = ascii ''algorithm''
              then and_then (algorithm_parse v) (\<lambda>a. Inr (q\<lparr>q_algorithm := a\<rparr>))
              else if key = ascii ''digits''
              then (case parse_unsigned 255 v of
                      None \<Rightarrow> Inl (InvalidDigits 0) | Some n \<Rightarrow> Inr (q\<lparr>q_digits := of_nat n\<rparr>))
              else if key = ascii ''period''
              then (case parse_unsigned (2 ^ 32 - 1) v of
                      None \<Rightarrow> Inl (InvalidPeriod 0) | Some n \<Rightarrow> Inr (q\<lparr>q_period := of_nat n\<rparr>))
              else if key = ascii ''issuer'' then Inr (q\<lparr>q_issuer := Some v\<rparr>)
              else Inr q))"

fun query_loop :: "OtpauthQuery \<Rightarrow> bytes list \<Rightarrow> TotpError + OtpauthQuery" where
  "query_loop q [] = Inr q"
| "query_loop q (p # ps) = and_then (query_pair q p) (\<lambda>q'. query_loop q' ps)"

definition parse_otpauth_uri :: "bytes \<Rightarrow> TotpError + ParsedTotpSecret" where
  "parse_otpauth_uri input =
     and_then (ok_or (strip_prefix (ascii ''otpauth://'') input)
       (MalformedUri ''missing otpauth:// scheme'')) (\<lambda>rest.
     let (host_path, query) = (case split_once 63 rest of Some hq \<Rightarrow> hq | None \<Rightarrow> (rest, []));
         (host, path) = (case split_once 47 host_path of Some hp \<Rightarrow> hp | None \<Rightarrow> (host_path, []));
         kind = to_ascii_lowercase host
     in if kind = ascii ''hotp'' then Inl HotpNotSupported
        else if kind \<noteq> ascii ''totp'' then Inl (MalformedUri ''unexpected otpauth type'')
        else
          let label = (if path = [] then None else Some (percent_decode path))
          in and_then (query_loop \<lparr>q_secret = None, q_algorithm = Sha1, q_digits = 6,
                 q_period = 30, q_issuer = None\<rparr> (split_on 38 query)) (\<lambda>q.
             and_then (ok_or (q_secret q) (MalformedUri ''missing secret= parameter'')) (\<lambda>secret_str.
             and_then (decode_base32 secret_str) (\<lambda>secret_bytes.
               finish secret_bytes
                 \<lparr>tp_algorithm = q_algorithm q, tp_digits = q_digits q,
                  tp_period_seconds = q_period q\<rparr> label (q_issuer q)))))"

definition parse_totp_secret :: "bytes \<Rightarrow> TotpError + ParsedTotpSecret" where
  "parse_totp_secret input =
     (let trimmed = trim input
      in if starts_with (ascii ''otpauth://'') trimmed then parse_otpauth_uri trimmed
         else if trimmed = [] then Inl EmptySecret
         else and_then (decode_base32 trimmed) (\<lambda>secret_bytes.
           finish secret_bytes TotpParams_default None None))"

section \<open>Word facts\<close>

lemma bit_ff: "bit (0xff :: u32) k \<longleftrightarrow> k < 8" "bit (0xff :: int) k \<longleftrightarrow> k < 8"
proof -
  have "(0xff :: u32) = mask 8" "(0xff :: int) = mask 8" by (simp_all add: mask_eq_exp_minus_1)
  then show "bit (0xff :: u32) k \<longleftrightarrow> k < 8" "bit (0xff :: int) k \<longleftrightarrow> k < 8"
    by (simp_all only: bit_mask_iff possible_bit_word possible_bit_int) auto
qed

section \<open>Decimal digits\<close>

definition is_digit :: "u8 \<Rightarrow> bool" where
  "is_digit b \<longleftrightarrow> 48 \<le> b \<and> b \<le> 57"

definition decimal_value :: "bytes \<Rightarrow> nat" where
  "decimal_value ds = foldl (\<lambda>a b. a * 10 + unat (b - 48)) 0 ds"

lemma small_byte: "n < 10 \<Longrightarrow> unat (of_nat n :: u8) = n"
  by (simp add: unat_of_nat)

lemma digit_byte: "n < 10 \<Longrightarrow> is_digit (48 + of_nat n) \<and> unat (48 + of_nat n - 48 :: u8) = n"
proof -
  assume n: "n < 10"
  then have "unat (of_nat n :: u8) = n" by (rule small_byte)
  moreover have "unat (48 + of_nat n :: u8) = 48 + n"
    using n calculation by (subst unat_word_ariths) simp
  ultimately show ?thesis using n by (simp add: is_digit_def word_le_nat_alt)
qed

lemma decimal_digits: "list_all is_digit (decimal n)"
  by (induction n rule: decimal.induct) (subst decimal.simps, simp add: digit_byte)

lemma decimal_value_decimal: "decimal_value (decimal n) = n"
proof (induction n rule: decimal.induct)
  case (1 n)
  then show ?case by (subst decimal.simps) (simp add: decimal_value_def small_byte)
qed

lemma decimal_length: "n < 10 ^ Suc d \<Longrightarrow> length (decimal n) \<le> Suc d"
proof (induction d arbitrary: n)
  case 0
  then show ?case by (subst decimal.simps) simp
next
  case (Suc d)
  have "n div 10 < 10 ^ Suc d" using Suc.prems by (simp add: less_mult_imp_div_less mult.commute)
  then show ?case using Suc.IH[of "n div 10"] by (subst decimal.simps) simp
qed

lemma decimal_value_zeros: "decimal_value (replicate k 48 @ ds) = decimal_value ds"
  by (induction k) (simp_all add: decimal_value_def)

lemma zero_pad_number:
  assumes "n < 10 ^ d" "0 < d"
  shows "length (zero_pad d (decimal n)) = d" "list_all is_digit (zero_pad d (decimal n))"
    "decimal_value (zero_pad d (decimal n)) = n"
  using assms decimal_length[of n "d - 1"] decimal_digits[of n]
  by (auto simp: zero_pad_def decimal_value_zeros decimal_value_decimal list_all_iff is_digit_def)

section \<open>Generated codes\<close>

lemma truncate_below: "hotp_truncate mac secret msg < 2 ^ 31"
proof -
  have "\<not> bit (hotp_truncate mac secret msg) n" if "31 \<le> n" for n
  proof (cases "n = 31")
    case True
    then show ?thesis
      by (auto simp: hotp_truncate_def Let_def bit_simps dest: bit_imp_le_length)
  next
    case False
    then show ?thesis using that by (simp add: bit_word.rep_eq)
  qed
  then have "take_bit 31 (hotp_truncate mac secret msg) = hotp_truncate mac secret msg"
    by (intro bit_word_eqI) (metis bit_take_bit_iff not_le)
  then show ?thesis by (auto dest: take_bit_word_less[rotated])
qed

lemma truncate_offset:
  "length tag \<ge> 20 \<Longrightarrow> unat (tag ! (length tag - 1) AND 0x0f :: u8) + 3 < length tag"
proof -
  assume "length tag \<ge> 20"
  moreover have "(tag ! (length tag - 1) AND 0x0f :: u8) \<le> 0x0f" by (rule word_and_le1)
  then have "unat (tag ! (length tag - 1) AND 0x0f :: u8) \<le> 15" by (simp add: word_le_nat_alt)
  ultimately show ?thesis by simp
qed

lemma params_validate_ok:
  "params_validate p = Inr u \<longleftrightarrow>
     tp_digits p \<in> {6, 7, 8} \<and> 0 < tp_period_seconds p \<and> tp_period_seconds p \<le> 3600"
proof -
  have "6 \<le> d \<and> d \<le> 8 \<longleftrightarrow> d \<in> {6, 7, 8}" for d :: u8
  proof
    assume "6 \<le> d \<and> d \<le> 8"
    then have "unat d = unat (6 :: u8) \<or> unat d = unat (7 :: u8) \<or> unat d = unat (8 :: u8)"
      by (auto simp: word_le_nat_alt)
    then show "d \<in> {6, 7, 8}" using unsigned_word_eqI by blast
  qed (auto simp: word_le_nat_alt)
  then show ?thesis by (auto simp: params_validate_def word_neq_0_conv)
qed

lemma totp_at_ok:
  "is_ok (totp_at hmac secret t p) \<longleftrightarrow>
     secret \<noteq> [] \<and> length secret \<le> MAX_SECRET_BYTES \<and> is_ok (params_validate p)"
  by (cases "params_validate p") (auto simp: totp_at_def Let_def)

text \<open>
  A generated code has exactly the configured number of characters, all decimal digits, and
  its value is the dynamically truncated MAC of the time-step counter modulo ten to that number;
  the remaining seconds are at least one, at most the period, and end on a step boundary.
\<close>

theorem totp_code_correct:
  assumes "totp_at hmac secret t p = Inr c"
  shows "length (tc_code c) = unat (tp_digits p)
    \<and> list_all is_digit (tc_code c)
    \<and> decimal_value (tc_code c) =
        unat (hotp_truncate (hmac (tp_algorithm p)) secret
          (u64_to_be_bytes (t div ucast (tp_period_seconds p)))) mod 10 ^ unat (tp_digits p)
    \<and> unat (tc_seconds_remaining c) =
        unat (tp_period_seconds p) - unat t mod unat (tp_period_seconds p)
    \<and> 1 \<le> unat (tc_seconds_remaining c) \<and> unat (tc_seconds_remaining c) \<le> unat (tp_period_seconds p)
    \<and> unat (tp_period_seconds p) dvd unat t + unat (tc_seconds_remaining c)"
proof -
  let ?d = "unat (tp_digits p)" and ?P = "tp_period_seconds p"
  let ?bin = "hotp_truncate (hmac (tp_algorithm p)) secret (u64_to_be_bytes (t div ucast ?P))"
  have v: "tp_digits p \<in> {6, 7, 8}" "0 < ?P" "?P \<le> 3600"
    and c: "c = \<lparr>tc_code = zero_pad ?d (decimal (unat (?bin mod 10 ^ ?d))),
      tc_seconds_remaining = ?P - ucast (t mod ucast ?P), tc_period_seconds = ?P\<rparr>"
    using assms by (auto simp: totp_at_def Let_def and_then_Inr params_validate_ok split: if_splits)
  have d: "?d = 6 \<or> ?d = 7 \<or> ?d = 8" using v(1) by auto
  then have "unat (?bin mod 10 ^ ?d) = unat ?bin mod 10 ^ ?d" by (auto simp: unat_mod)
  moreover have "unat ?bin mod 10 ^ ?d < 10 ^ ?d" "0 < ?d" using d by auto
  ultimately have code: "length (tc_code c) = ?d" "list_all is_digit (tc_code c)"
    "decimal_value (tc_code c) = unat ?bin mod 10 ^ ?d" using zero_pad_number c by simp_all
  have P: "unat (ucast ?P :: u64) = unat ?P" by (simp add: unat_ucast_widen)
  have Pp: "0 < unat ?P" using v(2) by (simp add: word_less_nat_alt)
  then have m: "unat t mod unat ?P < unat ?P" by simp
  moreover have "unat ?P < 2 ^ 32" by (rule order_less_le_trans[OF unsigned_less]) simp
  ultimately have small: "take_bit 32 (unat t mod unat ?P) = unat t mod unat ?P"
    by (simp add: take_bit_nat_eq_self_iff)
  have "unat (t mod ucast ?P) = unat t mod unat ?P" by (simp only: unat_mod P)
  then have "unat (ucast (t mod ucast ?P) :: u32) = unat t mod unat ?P"
    using small by (simp only: unsigned_ucast_eq) simp
  then have r: "unat (tc_seconds_remaining c) = unat ?P - unat t mod unat ?P"
    using c m by (simp add: unat_sub word_le_nat_alt)
  have "unat t + (unat ?P - unat t mod unat ?P) = (unat t div unat ?P + 1) * unat ?P"
    using m div_mult_mod_eq[of "unat t" "unat ?P"] by (simp only: distrib_right mult_1_left)
  then have "unat ?P dvd unat t + unat (tc_seconds_remaining c)" using r by simp
  then show ?thesis using code r m by simp
qed

text \<open>A MAC for the witnesses: twenty bytes that depend on the message.\<close>

definition demo_hmac :: "TotpAlgorithm \<Rightarrow> bytes \<Rightarrow> bytes \<Rightarrow> bytes" where
  "demo_hmac a secret msg = replicate 12 0x1f @ map (\<lambda>b. b XOR 0xA5) msg"

theorem totp_code_correct_witness:
  "\<exists>c. totp_at demo_hmac [1, 2, 3] 59 TotpParams_default = Inr c
     \<and> length (tc_code c) = 6 \<and> unat (tc_seconds_remaining c) = 1"
proof -
  have ok: "is_ok (totp_at demo_hmac [1, 2, 3] 59 TotpParams_default)"
    by (simp add: totp_at_ok params_validate_def TotpParams_default_def MAX_SECRET_BYTES_def)
  then obtain c where c: "totp_at demo_hmac [1, 2, 3] 59 TotpParams_default = Inr c"
    by (auto simp: is_ok_def split: sum.splits)
  show ?thesis using totp_code_correct[OF c] c by (auto simp: TotpParams_default_def)
qed

section \<open>Base32 on bits\<close>

definition b32_bits :: "bytes \<Rightarrow> bool list" where
  "b32_bits input = concat (map (\<lambda>ch. case b32_value ch of Some v \<Rightarrow> low_bits 5 v | None \<Rightarrow> [])
     (filter (\<lambda>ch. \<not> b32_ignored ch) input))"

lemma b32_value_small: "b32_value ch = Some v \<Longrightarrow> v < 32"
proof -
  have "unat (ucast c :: u32) = unat c" for c :: u8 by (simp add: unat_ucast_widen)
  then show "b32_value ch = Some v \<Longrightarrow> v < 32"
    by (auto simp: b32_value_def Let_def word_less_nat_alt word_le_nat_alt unat_sub unat_word_ariths
        split: if_splits)
qed

lemma b32_push:
  "v < 32 \<Longrightarrow> n + 5 \<le> 32 \<Longrightarrow>
     low_bits (n + 5) (push_bit 5 buffer OR v :: u32) = low_bits n buffer @ low_bits 5 v"
  by (intro low_bits_push) simp_all

lemma b32_take:
  "low_bits (n + 8) (w :: u32) = low_bits 8 (ucast (drop_bit n w AND 0xff) :: u8) @ low_bits n w"
  using low_bits_byte[of "drop_bit n w"] by (simp add: low_bits_append)

lemma b32_loop_bits:
  assumes "b32_loop buffer n out input = Inr (buffer', n', out')" "n < 8"
  shows "group_bits 8 out @ low_bits n buffer @ b32_bits input
      = group_bits 8 out' @ low_bits n' buffer' \<and> n' < 8"
  using assms
proof (induction buffer n out input rule: b32_loop.induct)
  case (1 buffer n out)
  then show ?case by (simp add: b32_bits_def)
next
  case (2 buffer n out ch chs)
  show ?case
  proof (cases "b32_ignored ch")
    case True
    then show ?thesis using 2 by (simp add: b32_bits_def)
  next
    case False
    then obtain v where v: "b32_value ch = Some v" using 2(4) by (auto split: option.splits)
    let ?b = "push_bit 5 buffer OR v"
    have sh: "low_bits (n + 5) ?b = low_bits n buffer @ low_bits 5 v"
      using b32_push b32_value_small[OF v] 2(5) by simp
    have bits: "b32_bits (ch # chs) = low_bits 5 v @ b32_bits chs"
      using False v by (simp add: b32_bits_def)
    show ?thesis
    proof (cases "8 \<le> n + 5")
      case True
      define m B where "m = n + 5 - 8" and "B = (ucast (drop_bit m ?b AND 0xff) :: u8)"
      have run: "b32_loop ?b m (out @ [B]) chs = Inr (buffer', n', out')"
        using 2(4) False v True by (simp add: Let_def m_def B_def)
      have "low_bits (m + 8) ?b = low_bits 8 B @ low_bits m ?b"
        unfolding B_def by (rule b32_take)
      moreover have "m + 8 = n + 5" "m < 8" using True 2(5) by (simp_all add: m_def)
      ultimately have split: "low_bits n buffer @ low_bits 5 v = low_bits 8 B @ low_bits m ?b"
        using sh by simp
      have "group_bits 8 (out @ [B]) @ low_bits m ?b @ b32_bits chs =
          group_bits 8 out' @ low_bits n' buffer' \<and> n' < 8"
        using 2(2)[OF False v refl refl True run[unfolded B_def m_def]] \<open>m < 8\<close>
        unfolding B_def m_def by blast
      then show ?thesis using split bits
        by (metis append.assoc append_Nil2 group_bits_simps)
    next
      case small: False
      have run: "b32_loop ?b (n + 5) out chs = Inr (buffer', n', out')"
        using 2(4) False v small by (simp add: Let_def)
      show ?thesis using 2(3)[OF False v refl refl small run] sh bits small by simp
    qed
  qed
qed

definition b32_valid :: "bytes \<Rightarrow> bool" where
  "b32_valid input \<longleftrightarrow> list_all (\<lambda>ch. b32_ignored ch \<or> b32_value ch \<noteq> None) input"

lemma b32_loop_ok: "is_ok (b32_loop buffer n out input) \<longleftrightarrow> b32_valid input"
  by (induction buffer n out input rule: b32_loop.induct)
    (auto simp: b32_valid_def Let_def split: option.splits)

text \<open>
  Base32 decoding is exact: it returns \<open>out\<close> precisely when every character that is not a
  separator belongs to the alphabet and the five-bit groups of the characters, concatenated,
  are the bits of \<open>out\<close> followed by fewer than five zero bits.
\<close>

theorem base32_decode_exact:
  "decode_base32 input = Inr out \<longleftrightarrow>
     b32_valid input \<and> (\<exists>k < 5. b32_bits input = group_bits 8 out @ replicate k False)"
proof (cases "b32_loop 0 0 [] input")
  case (Inl e)
  then have "\<not> b32_valid input" using b32_loop_ok[of 0 0 "[]" input] by simp
  then show ?thesis using Inl by (simp add: decode_base32_def)
next
  case (Inr r)
  obtain buffer n out' where r: "r = (buffer, n, out')" by (cases r)
  have valid: "b32_valid input" using b32_loop_ok[of 0 0 "[]" input] Inr by simp
  have bits: "b32_bits input = group_bits 8 out' @ low_bits n buffer" "n < 8"
    using b32_loop_bits[of 0 0 "[]" input buffer n out'] Inr r by (simp_all add: low_bits_def)
  have "decode_base32 input = Inr out \<longleftrightarrow> n < 5 \<and> low_bits n buffer = replicate n False \<and> out' = out"
    using Inr r trailing_zero[of n buffer] bits(2)
    by (cases "n = 0") (auto simp: decode_base32_def low_bits_def)
  also have "\<dots> \<longleftrightarrow>
      (\<exists>k < 5. b32_bits input = group_bits 8 out @ replicate k False)"
  proof
    assume "n < 5 \<and> low_bits n buffer = replicate n False \<and> out' = out"
    then show "\<exists>k < 5. b32_bits input = group_bits 8 out @ replicate k False"
      using bits(1) by auto
  next
    assume "\<exists>k < 5. b32_bits input = group_bits 8 out @ replicate k False"
    then obtain k where k: "k < 5" "group_bits 8 out' @ low_bits n buffer =
        group_bits 8 out @ replicate k False" using bits(1) by auto
    then have "out' = out \<and> low_bits n buffer = replicate k False"
      using bits(2) by (intro bits_decomposition) simp_all
    then show "n < 5 \<and> low_bits n buffer = replicate n False \<and> out' = out"
      using k(1) by (metis length_replicate low_bits_length)
  qed
  finally show ?thesis using valid by simp
qed

theorem base32_decode_exact_witness:
  "decode_base32 (ascii ''mz xw-6==='') = Inr (ascii ''foo'') \<and> \<not> is_ok (decode_base32 (ascii ''MZXW7''))"
proof -
  have "\<exists>k < 5. b32_bits (ascii ''mz xw-6==='') =
      group_bits 8 (ascii ''foo'') @ replicate k False"
    by (intro exI[of _ 1]) code_simp
  moreover have "b32_valid (ascii ''mz xw-6==='')" by code_simp
  ultimately have "decode_base32 (ascii ''mz xw-6==='') = Inr (ascii ''foo'')"
    using base32_decode_exact by blast
  moreover have "\<not> is_ok (decode_base32 (ascii ''MZXW7''))" by code_simp
  ultimately show ?thesis by blast
qed

section \<open>Parsed secrets\<close>

lemma finish_ok:
  "finish secret params label issuer = Inr r \<Longrightarrow>
     ps_secret_bytes r \<noteq> [] \<and> length (ps_secret_bytes r) \<le> MAX_SECRET_BYTES
     \<and> is_ok (params_validate (ps_params r))"
  by (auto simp: finish_def and_then_Inr split: if_splits)

lemma parse_otpauth_uri_finish:
  assumes "parse_otpauth_uri input = Inr r"
  shows "\<exists>s p l i. finish s p l i = Inr r"
proof -
  obtain rest where rest: "strip_prefix (ascii ''otpauth://'') input = Some rest"
    using assms by (auto simp: parse_otpauth_uri_def and_then_Inr)
  obtain hp q where hp: "(case split_once 63 rest of Some hq \<Rightarrow> hq | None \<Rightarrow> (rest, [])) = (hp, q)"
    by (rule prod.exhaust)
  obtain h path where h: "(case split_once 47 hp of Some hp \<Rightarrow> hp | None \<Rightarrow> (hp, [])) = (h, path)"
    by (rule prod.exhaust)
  show ?thesis using assms
    by (auto simp: parse_otpauth_uri_def rest hp h Let_def and_then_Inr split: if_splits)
qed

text \<open>
  A secret that parses, from a URI or from bare base32, is one that generates codes: it is
  neither empty nor over the size limit, its parameters are valid, and \<open>totp_at\<close> succeeds on it
  at every instant with every MAC.
\<close>

theorem parsed_secret_generates:
  assumes "parse_totp_secret input = Inr r"
  shows "is_ok (totp_at hmac (ps_secret_bytes r) t (ps_params r))"
proof -
  obtain s p l i where "finish s p l i = Inr r"
    using assms parse_otpauth_uri_finish[of "trim input" r]
    by (auto simp: parse_totp_secret_def Let_def and_then_Inr split: if_splits)
  then show ?thesis using finish_ok totp_at_ok by simp
qed

theorem parsed_secret_generates_witness:
  "\<exists>r. parse_totp_secret (ascii '' otpauth://totp/ACME:bob?secret=MZXW6&digits=8 '') = Inr r
     \<and> ps_label r = Some (ascii ''ACME:bob'') \<and> tp_digits (ps_params r) = 8
     \<and> is_ok (totp_at demo_hmac (ps_secret_bytes r) 1000 (ps_params r))"
proof -
  let ?i = "ascii '' otpauth://totp/ACME:bob?secret=MZXW6&digits=8 ''"
  have "case parse_totp_secret ?i of Inl _ \<Rightarrow> False
     | Inr r \<Rightarrow> ps_label r = Some (ascii ''ACME:bob'') \<and> tp_digits (ps_params r) = 8" by code_simp
  then obtain r where r: "parse_totp_secret ?i = Inr r" "ps_label r = Some (ascii ''ACME:bob'')"
    "tp_digits (ps_params r) = 8" by (auto split: sum.splits)
  then show ?thesis using parsed_secret_generates[OF r(1)] by blast
qed

end
