(* ===== verification/Vault_State.thy ===== *)
theory Vault_State
  imports Session_Policy Search_Index Totp
begin

text \<open>
  The state of an open vault (\<open>struct Vault\<close> and \<open>struct ActiveState\<close> in
  \<open>crates/pangolin-store/src/vault.rs\<close>, the tables of \<open>schema.rs\<close>) and its session operations:
  unlock, lock, freshness checks, session renewal, presence escalation and the idle-duration
  setting. A table is the list of its rows. Every read of a clock is an argument. Key
  derivation, key unwrapping and the loading of the caches are the parameter of \<open>unlock\<close>.
  The lemmas show the session invariant and what each operation does to it.
\<close>

section \<open>Account data\<close>

record AccountSnapshot =
  sn_display_name :: bytes
  sn_username :: bytes
  sn_password :: bytes
  sn_url :: bytes
  sn_notes :: bytes
  sn_totp_secret :: bytes

record PasswordEntry =
  pe_password :: bytes
  pe_set_at_ms :: int
  pe_originating_device :: DeviceId

record AccountIdentity =
  ai_display_name :: bytes
  ai_tags :: "bytes list"
  ai_notes :: bytes
  ai_urls :: "bytes list"
  ai_usernames :: "bytes list"
  ai_password_history :: "PasswordEntry list"
  ai_totp_secret :: bytes
  ai_totp_params :: TotpParams

definition first_or_empty :: "bytes list \<Rightarrow> bytes" where
  "first_or_empty xs = (case xs of [] \<Rightarrow> [] | x # _ \<Rightarrow> x)"

definition current_password :: "AccountIdentity \<Rightarrow> bytes option" where
  "current_password i =
     (case ai_password_history i of [] \<Rightarrow> None | e # _ \<Rightarrow> Some (pe_password e))"

definition downgrade_identity_to_snapshot :: "AccountIdentity \<Rightarrow> AccountSnapshot" where
  "downgrade_identity_to_snapshot i =
     \<lparr>sn_display_name = ai_display_name i,
      sn_username = first_or_empty (ai_usernames i),
      sn_password = (case current_password i of None \<Rightarrow> [] | Some p \<Rightarrow> p),
      sn_url = first_or_empty (ai_urls i),
      sn_notes = ai_notes i,
      sn_totp_secret = ai_totp_secret i\<rparr>"

section \<open>Tables\<close>

text \<open>
  The rows of \<open>account_identities\<close>, \<open>revisions\<close>, \<open>dirty_accounts\<close> and \<open>pending_merges\<close>. A
  nullable column is an option, an integer column an \<open>int\<close>.
\<close>

record AccountRow =
  ac_account_id :: AccountId
  ac_created_at :: int
  ac_last_modified_at :: int
  ac_tombstoned :: int
  ac_head_revision_id :: RevisionId
  ac_frozen_pending_resolve :: int

datatype RevisionStatus = Pending | Finalized

record RevisionRow =
  rv_revision_id :: RevisionId
  rv_account_id :: AccountId
  rv_parent_revision_id :: RevisionId
  rv_device_id :: DeviceId
  rv_schema_version :: int
  rv_created_at :: int
  rv_enc_payload :: bytes
  rv_enc_nonce :: bytes
  rv_is_tombstone :: int
  rv_chain_tx_hash :: "bytes option"
  rv_chain_block_number :: "int option"
  rv_chain_log_index :: "int option"
  rv_superseded_by :: "RevisionId option"
  rv_vdk_epoch :: int
  rv_revoked :: int
  rv_recovered_signer :: "bytes option"
  rv_revision_status :: RevisionStatus
  rv_observed_at_block :: "int option"
  rv_observed_block_hash :: "bytes option"

record DirtyEntry =
  de_account_id :: AccountId
  de_revision_id :: RevisionId
  de_marked_at :: int

record PendingMerge =
  pm_account_id :: AccountId
  pm_target_head_id :: RevisionId
  pm_device_secret :: bytes
  pm_aead_nonce :: bytes
  pm_enc_payload :: bytes
  pm_schema_version :: int
  pm_created_at_ms :: int

record ChainSyncState =
  cs_last_synced_block :: int
  cs_last_synced_at :: int

section \<open>The open vault\<close>

record ActiveState =
  as_vdk :: bytes
  as_vdk_epoch :: u64
  as_cache :: "AccountId \<rightharpoonup> AccountSnapshot"
  as_search_index :: SearchIndex
  as_evm_wallet :: bytes
  as_device_key :: bytes
  as_last_presence_at :: "system_time option"
  as_requires_upgrade :: "AccountId set"
  as_window_started_at_unix_ms :: "int option"
  as_window_elapsed_flush_enabled :: bool
  as_last_flush_failed_balance :: bool
  as_last_pull_at_unix_ms :: "int option"

record Vault =
  v_vault_id :: bytes
  v_wrap_schema_version :: u8
  v_device_id :: DeviceId
  v_session_state :: SessionState
  v_active :: "ActiveState option"
  v_session_idle :: SessionDuration
  v_meta_session_idle_secs :: "int option"
  v_accounts :: "AccountRow list"
  v_revisions :: "RevisionRow list"
  v_dirty :: "DirtyEntry list"
  v_pending_merges :: "PendingMerge list"
  v_sync_state :: "int option"
  v_sync_v1 :: "ChainSyncState option"
  v_sync_v2 :: "ChainSyncState option"

type_synonym 'a vault_op = "(Vault, StoreError, 'a) op"
type_synonym 'a proof_op = "(Vault \<times> PressYPresenceProof, StoreError, 'a) op"

section \<open>Session operations\<close>

datatype VaultState = VaultActive | VaultLocked

definition vault_state :: "Vault \<Rightarrow> VaultState" where
  "vault_state v = (if is_active (v_session_state v) then VaultActive else VaultLocked)"

definition is_session_active :: "system_time \<Rightarrow> Vault \<Rightarrow> bool" where
  "is_session_active now v =
     (case v_session_state v of Active e _ _ \<Rightarrow> now \<le> e | _ \<Rightarrow> False)"

definition session_remaining :: "system_time \<Rightarrow> Vault \<Rightarrow> duration option" where
  "session_remaining now v =
     (case v_session_state v of Active e _ _ \<Rightarrow> Some (duration_since e now) | _ \<Rightarrow> None)"

definition lock :: "Vault \<Rightarrow> Vault" where
  "lock v = v\<lparr>v_active := None, v_session_state := Locked\<rparr>"

definition require_active :: "Vault \<Rightarrow> StoreError + ActiveState" where
  "require_active v = ok_or (v_active v) NotUnlocked"

definition current_vdk_epoch_i64 :: "Vault \<Rightarrow> int" where
  "current_vdk_epoch_i64 v =
     (case i64_try_from (case v_active v of None \<Rightarrow> 0 | Some a \<Rightarrow> as_vdk_epoch a) of
        None \<Rightarrow> i64_max | Some e \<Rightarrow> e)"

definition check_session_freshness :: "system_time \<Rightarrow> unit vault_op" where
  "check_session_freshness now v =
     (case v_session_state v of
        Active e _ _ \<Rightarrow>
          if now > e
          then (Inl SessionExpired, v\<lparr>v_active := None, v_session_state := Expired\<rparr>)
          else (Inr (), v)
      | Locked \<Rightarrow> (Inl NotUnlocked, v)
      | PendingAuthorization \<Rightarrow> (Inl SessionPending, v)
      | Expired \<Rightarrow> (Inl SessionExpired, v))"

definition maybe_expire_active_session :: "system_time \<Rightarrow> Vault \<Rightarrow> Vault" where
  "maybe_expire_active_session now v =
     (case v_session_state v of
        Active e _ _ \<Rightarrow>
          if now > e then v\<lparr>v_active := None, v_session_state := Expired\<rparr> else v
      | _ \<Rightarrow> v)"

definition touch_session :: "system_time \<Rightarrow> Vault \<Rightarrow> Vault" where
  "touch_session now v =
     (case v_session_state v of
        Active _ _ started \<Rightarrow>
          v\<lparr>v_session_state := Active (next_idle_deadline now started (v_session_idle v)) now started\<rparr>
      | _ \<Rightarrow> v)"

definition device_locked :: "Vault \<Rightarrow> Vault" where
  "device_locked v =
     (if is_active (v_session_state v)
      then v\<lparr>v_active := None, v_session_state := Expired\<rparr> else v)"

text \<open>Operations that also take a presence proof change the proof: their state is the pair.\<close>

fun reveal_site_auth_error :: "AuthError \<Rightarrow> StoreError" where
  "reveal_site_auth_error NotFresh = PromptTimedOut"
| "reveal_site_auth_error _ = AuthenticationFailed"

definition on_vault :: "'a vault_op \<Rightarrow> 'a proof_op" where
  "on_vault m vp = (let (r, v') = m (fst vp) in (r, (v', snd vp)))"

definition verify_presence :: "(AuthError \<Rightarrow> StoreError) \<Rightarrow> system_time \<Rightarrow> unit proof_op" where
  "verify_presence f now vp =
     (let (r, p') = presence_verify now (snd vp) in (map_sum f id r, (fst vp, p')))"

definition set_last_presence :: "system_time \<Rightarrow> Vault \<Rightarrow> Vault" where
  "set_last_presence now v = v\<lparr>v_active := map_option (\<lambda>a. a\<lparr>as_last_presence_at := Some now\<rparr>) (v_active v)\<rparr>"

definition ensure_presence_fresh :: "system_time \<Rightarrow> system_time \<Rightarrow> unit proof_op" where
  "ensure_presence_fresh now wall =
     op_bind (on_vault (op_try require_active)) (\<lambda>active.
       if (case as_last_presence_at active of
             None \<Rightarrow> False
           | Some prev \<Rightarrow> duration_since now prev \<le> PRESENCE_FRESHNESS)
       then op_ret ()
       else op_seq (verify_presence reveal_site_auth_error wall)
              (on_vault (op_modify (set_last_presence now))))"

definition touch_session_explicit ::
    "system_time \<Rightarrow> system_time \<Rightarrow> system_time \<Rightarrow> system_time \<Rightarrow> unit proof_op" where
  "touch_session_explicit t_check t_presence wall t_touch =
     op_seq (on_vault (check_session_freshness t_check))
       (op_seq (ensure_presence_fresh t_presence wall)
         (on_vault (op_modify (touch_session t_touch))))"

text \<open>
  The idle-duration setting: the optional proof is \<open>Some\<close> in the state when the caller
  supplied one.
\<close>

definition install_session_idle :: "SessionDuration \<Rightarrow> system_time \<Rightarrow> Vault \<Rightarrow> Vault" where
  "install_session_idle choice now v =
     touch_session now (v\<lparr>v_meta_session_idle_secs := Some (to_meta_secs choice),
                          v_session_idle := choice\<rparr>)"

definition authorize_lengthening :: "system_time \<Rightarrow> system_time \<Rightarrow> system_time \<Rightarrow> unit proof_op" where
  "authorize_lengthening t_check t_presence wall vp =
     (if is_active (v_session_state (fst vp))
      then op_seq (on_vault (check_session_freshness t_check)) (ensure_presence_fresh t_presence wall) vp
      else verify_presence reveal_site_auth_error wall vp)"

definition set_session_idle :: "SessionDuration \<Rightarrow> system_time \<Rightarrow> system_time \<Rightarrow> system_time
    \<Rightarrow> system_time \<Rightarrow> (Vault \<times> PressYPresenceProof option, StoreError, unit) op" where
  "set_session_idle choice t_check t_presence wall t_touch vp =
     (let (v, presence) = vp
      in if is_longer_than choice (v_session_idle v)
         then (case presence of
                 None \<Rightarrow> (Inl PresenceProofRequired, vp)
               | Some proof \<Rightarrow>
                   (case authorize_lengthening t_check t_presence wall (v, proof) of
                      (Inl e, (v', p')) \<Rightarrow> (Inl e, (v', Some p'))
                    | (Inr _, (v', p')) \<Rightarrow>
                        (Inr (), (install_session_idle choice t_touch v', Some p'))))
         else (Inr (), (install_session_idle choice t_touch v, presence)))"

text \<open>
  \<open>unlock\<close>: both proofs, then the key material. \<open>material\<close> stands for key derivation, VDK
  unwrapping, cache construction and the device key, from the password and the vault.
\<close>

record UnlockMaterial =
  um_vdk :: bytes
  um_vdk_epoch :: u64
  um_cache :: "AccountId \<rightharpoonup> AccountSnapshot"
  um_search_index :: SearchIndex
  um_requires_upgrade :: "AccountId set"
  um_device_id :: DeviceId
  um_device_key :: bytes
  um_evm_wallet :: bytes

definition auth_to_store :: "AuthError \<Rightarrow> StoreError" where
  "auth_to_store e = AuthenticationFailed"

definition lift_auth :: "AuthError + 'a \<Rightarrow> StoreError + 'a" where
  "lift_auth r = map_sum auth_to_store id r"

definition install_unlocked :: "system_time \<Rightarrow> UnlockMaterial \<Rightarrow> Vault \<Rightarrow> Vault" where
  "install_unlocked now m v =
     v\<lparr>v_device_id := um_device_id m,
       v_active := Some \<lparr>as_vdk = um_vdk m, as_vdk_epoch = um_vdk_epoch m, as_cache = um_cache m,
         as_search_index = um_search_index m, as_evm_wallet = um_evm_wallet m,
         as_device_key = um_device_key m, as_last_presence_at = Some now,
         as_requires_upgrade = um_requires_upgrade m, as_window_started_at_unix_ms = None,
         as_window_elapsed_flush_enabled = False, as_last_flush_failed_balance = False,
         as_last_pull_at_unix_ms = None\<rparr>,
       v_session_state := Active (next_idle_deadline now now (v_session_idle v)) now now\<rparr>"

definition unlock :: "(bytes \<Rightarrow> Vault \<Rightarrow> StoreError + UnlockMaterial) \<Rightarrow> PinIdentityProof
    \<Rightarrow> system_time \<Rightarrow> system_time \<Rightarrow> unit proof_op" where
  "unlock material ident wall now =
     op_seq (verify_presence auth_to_store wall)
       (op_seq (op_try (\<lambda>_. lift_auth (identity_verify ident)))
         (op_bind (op_try (\<lambda>_. lift_auth (derive_secret ident))) (\<lambda>password.
           op_bind (op_try (\<lambda>vp. material password (fst vp))) (\<lambda>m.
             on_vault (op_modify (install_unlocked now m))))))"

section \<open>The session invariant\<close>

definition session_inv :: "Vault \<Rightarrow> bool" where
  "session_inv v \<longleftrightarrow>
     (v_active v \<noteq> None \<longleftrightarrow> is_active (v_session_state v))
     \<and> (\<forall>e p b. v_session_state v = Active e p b \<longrightarrow> e \<le> b + ABSOLUTE_MAX_DEFAULT)"

lemmas session_op_defs = check_session_freshness_def maybe_expire_active_session_def
  touch_session_def lock_def device_locked_def

lemma session_inv_check [op_keeps]: "keeps session_inv (check_session_freshness now)"
  by (auto simp: keeps_def check_session_freshness_def session_inv_def split: SessionState.splits)

lemma session_inv_expire: "session_inv v \<Longrightarrow> session_inv (maybe_expire_active_session now v)"
  by (auto simp: maybe_expire_active_session_def session_inv_def split: SessionState.splits)

lemma session_inv_touch: "session_inv v \<Longrightarrow> session_inv (touch_session now v)"
  by (auto simp: touch_session_def session_inv_def deadline_le_ceiling split: SessionState.splits)

lemma session_inv_lock: "session_inv v \<Longrightarrow> session_inv (lock v)"
  by (simp add: session_inv_def lock_def)

lemma session_inv_device_locked: "session_inv v \<Longrightarrow> session_inv (device_locked v)"
  by (auto simp: session_inv_def device_locked_def)

lemma session_inv_last_presence: "session_inv v \<Longrightarrow> session_inv (set_last_presence now v)"
  by (auto simp: session_inv_def set_last_presence_def)

lemma session_inv_unlocked: "session_inv (install_unlocked now m v)"
  by (auto simp: session_inv_def install_unlocked_def deadline_le_ceiling)

lemma session_inv_install_idle: "session_inv v \<Longrightarrow> session_inv (install_session_idle c now v)"
  unfolding install_session_idle_def by (rule session_inv_touch) (simp add: session_inv_def)

lemma keeps_on_vault [op_keeps]: "keeps P m \<Longrightarrow> keeps (\<lambda>vp. P (fst vp)) (on_vault m)"
  by (auto simp: keeps_def on_vault_def Let_def split: prod.splits)

lemma keeps_verify_presence [op_keeps]: "keeps (\<lambda>vp. P (fst vp)) (verify_presence f now)"
  by (auto simp: keeps_def verify_presence_def Let_def split: prod.splits)

lemma session_inv_ensure [op_keeps]:
  "keeps (\<lambda>vp. session_inv (fst vp)) (ensure_presence_fresh now wall)"
  unfolding ensure_presence_fresh_def by (intro op_keeps session_inv_last_presence)

lemma session_inv_authorize [op_keeps]:
  "keeps (\<lambda>vp. session_inv (fst vp)) (authorize_lengthening t1 t2 wall)"
proof (rule keepsI)
  fix vp :: "Vault \<times> PressYPresenceProof"
  assume "session_inv (fst vp)"
  moreover have "keeps (\<lambda>vp. session_inv (fst vp))
      (op_seq (on_vault (check_session_freshness t1)) (ensure_presence_fresh t2 wall))"
    by (intro op_keeps)
  moreover have "keeps (\<lambda>vp. session_inv (fst vp)) (verify_presence reveal_site_auth_error wall)"
    by (intro op_keeps)
  ultimately show "session_inv (fst (snd (authorize_lengthening t1 t2 wall vp)))"
    by (simp only: authorize_lengthening_def keeps_def split: if_split) blast
qed

lemma session_inv_touch_explicit [op_keeps]:
  "keeps (\<lambda>vp. session_inv (fst vp)) (touch_session_explicit t1 t2 wall t3)"
  unfolding touch_session_explicit_def by (intro op_keeps session_inv_touch)

lemma session_inv_unlock [op_keeps]:
  "keeps (\<lambda>vp. session_inv (fst vp)) (unlock material ident wall now)"
  unfolding unlock_def by (intro op_keeps session_inv_unlocked)

lemma session_inv_set_idle:
  assumes "session_inv (fst vp)"
  shows "session_inv (fst (snd (set_session_idle c t1 t2 wall t3 vp)))"
proof -
  obtain v presence where vp: "vp = (v, presence)" by (cases vp)
  have "session_inv (fst (snd (authorize_lengthening t1 t2 wall (v, pr))))" for pr
    using session_inv_authorize assms vp by (simp add: keeps_def)
  then show ?thesis using assms vp
    by (auto simp: set_session_idle_def Let_def session_inv_install_idle
        split: option.splits prod.splits sum.splits) (metis fst_conv session_inv_install_idle snd_conv)+
qed

section \<open>Sessions as a state machine\<close>

text \<open>One session operation, with any clock readings; the proof that an operation took is dropped.\<close>

inductive session_step :: "Vault \<Rightarrow> Vault \<Rightarrow> bool" where
  step_unlock: "session_step v (fst (snd (unlock material ident wall now (v, p))))"
| step_lock: "session_step v (lock v)"
| step_check: "session_step v (snd (check_session_freshness now v))"
| step_expire: "session_step v (maybe_expire_active_session now v)"
| step_touch: "session_step v (touch_session now v)"
| step_touch_explicit: "session_step v (fst (snd (touch_session_explicit t1 t2 wall t3 (v, p))))"
| step_ensure: "session_step v (fst (snd (ensure_presence_fresh now wall (v, p))))"
| step_set_idle: "session_step v (fst (snd (set_session_idle c t1 t2 wall t3 (v, q))))"
| step_device_locked: "session_step v (device_locked v)"

lemma session_step_inv: "session_step v v' \<Longrightarrow> session_inv v \<Longrightarrow> session_inv v'"
proof (induction rule: session_step.induct)
  case (step_unlock v material ident wall now p)
  then show ?case using session_inv_unlock by (simp add: keeps_def)
next
  case (step_touch_explicit v t1 t2 wall t3 p)
  then show ?case using session_inv_touch_explicit by (simp add: keeps_def)
next
  case (step_ensure v now wall p)
  then show ?case using session_inv_ensure by (simp add: keeps_def)
next
  case (step_check v now)
  then show ?case using session_inv_check by (simp add: keeps_def)
next
  case (step_set_idle v c t1 t2 wall t3 q)
  then show ?case using session_inv_set_idle by simp
qed (simp_all add: session_inv_lock session_inv_expire session_inv_touch session_inv_device_locked)

lemma reachable_session_inv: "session_step\<^sup>*\<^sup>* v v' \<Longrightarrow> session_inv v \<Longrightarrow> session_inv v'"
  by (induction rule: rtranclp_induct) (auto intro: session_step_inv)

text \<open>
  C3. Whatever sequence of session operations runs from a locked vault, with any clock
  readings: the key material is held exactly while the session is active; the deadline never
  exceeds the session start plus four hours; and a freshness check after that ceiling fails
  with an expired session and drops the key material.
\<close>

theorem session_ceiling_invariant:
  assumes "session_step\<^sup>*\<^sup>* v v'" and "v_session_state v = Locked" and "v_active v = None"
  shows "(v_active v' \<noteq> None \<longleftrightarrow> is_active (v_session_state v'))
    \<and> (\<forall>e p started. v_session_state v' = Active e p started \<longrightarrow>
          e \<le> started + ABSOLUTE_MAX_DEFAULT
        \<and> (\<forall>now. started + ABSOLUTE_MAX_DEFAULT < now \<longrightarrow>
             fst (check_session_freshness now v') = Inl SessionExpired
           \<and> v_active (snd (check_session_freshness now v')) = None))"
proof -
  have "session_inv v" using assms(2,3) by (simp add: session_inv_def)
  then have inv: "session_inv v'" by (rule reachable_session_inv[OF assms(1)])
  then have "fst (check_session_freshness now v') = Inl SessionExpired
      \<and> v_active (snd (check_session_freshness now v')) = None"
    if "v_session_state v' = Active e p started" "started + ABSOLUTE_MAX_DEFAULT < now"
    for e p started now
    using that by (auto simp: session_inv_def check_session_freshness_def)
  then show ?thesis using inv unfolding session_inv_def by blast
qed

definition example_vault :: Vault where
  "example_vault = \<lparr>v_vault_id = replicate 32 7, v_wrap_schema_version = 1,
     v_device_id = DeviceId (replicate 32 3), v_session_state = Locked, v_active = None,
     v_session_idle = Min15, v_meta_session_idle_secs = None, v_accounts = [], v_revisions = [],
     v_dirty = [], v_pending_merges = [], v_sync_state = None, v_sync_v1 = None, v_sync_v2 = None\<rparr>"

definition example_material :: "bytes \<Rightarrow> Vault \<Rightarrow> StoreError + UnlockMaterial" where
  "example_material password v =
     (if password = [1, 2, 3, 4]
      then Inr \<lparr>um_vdk = replicate 32 9, um_vdk_epoch = 0, um_cache = Map.empty,
             um_search_index = si_new_empty, um_requires_upgrade = {},
             um_device_id = DeviceId (replicate 32 5), um_device_key = replicate 32 6,
             um_evm_wallet = replicate 20 8\<rparr>
      else Inl AuthenticationFailed)"

definition example_unlocked :: "Vault \<times> PressYPresenceProof" where
  "example_unlocked =
     snd (unlock example_material \<lparr>pin = [1, 2, 3, 4]\<rparr> 1000 1000 (example_vault, confirmed 900))"

theorem session_ceiling_invariant_witness:
  "v_active (fst example_unlocked) \<noteq> None \<and> is_active (v_session_state (fst example_unlocked))
   \<and> v_active (snd (check_session_freshness (10 ^ 14) (fst example_unlocked))) = None"
proof -
  have step: "session_step\<^sup>*\<^sup>* example_vault (fst example_unlocked)"
    unfolding example_unlocked_def by (intro r_into_rtranclp step_unlock)
  have init: "v_session_state example_vault = Locked" "v_active example_vault = None"
    by (simp_all add: example_vault_def)
  have act: "v_session_state (fst example_unlocked) = Active (next_idle_deadline 1000 1000 Min15) 1000 1000"
    by (simp add: example_unlocked_def unlock_def op_seq_def op_bind_def verify_presence_def
        presence_verify_def confirmed_def duration_since_def PRESENCE_FRESHNESS_def from_secs_def
        op_defs identity_verify_def derive_secret_def lift_auth_def example_material_def
        on_vault_def install_unlocked_def example_vault_def)
  note inv = session_ceiling_invariant[OF step init]
  moreover have "1000 + ABSOLUTE_MAX_DEFAULT < 10 ^ 14"
    by (simp add: ABSOLUTE_MAX_DEFAULT_def from_secs_def)
  ultimately show ?thesis using act by simp
qed

section \<open>Authentication\<close>

lemma verify_presence_ok:
  "verify_presence f wall (v, p) = (Inr u, vp') \<longleftrightarrow>
     \<not> pp_consumed p \<and> duration_since wall (pp_created_at p) \<le> PRESENCE_FRESHNESS
     \<and> vp' = (v, p\<lparr>pp_consumed := True\<rparr>)"
  by (auto simp: verify_presence_def presence_verify_def)

lemma verify_presence_consumed:
  "pp_consumed p \<Longrightarrow> verify_presence f wall (v, p) = (Inl (f PresenceAlreadyConsumed), (v, p))"
  by (simp add: verify_presence_def presence_verify_def)

lemma on_vault_run [simp]:
  "on_vault (op_try g) (v, p) = (g v, (v, p))"
  "on_vault (op_modify f) (v, p) = (Inr (), (f v, p))"
  by (simp_all add: on_vault_def op_defs)

lemma unlock_ok:
  "unlock material ident wall now (v, p) = (Inr u, (v', p')) \<longleftrightarrow>
     \<not> pp_consumed p \<and> duration_since wall (pp_created_at p) \<le> PRESENCE_FRESHNESS
     \<and> p' = p\<lparr>pp_consumed := True\<rparr> \<and> pin ident \<noteq> []
     \<and> (\<exists>m. material (pin ident) v = Inr m \<and> v' = install_unlocked now m v)"
  by (auto simp: unlock_def op_run verify_presence_ok identity_verify_def derive_secret_def
      lift_auth_def auth_to_store_def)

text \<open>
  C2. Unlocking succeeds exactly with an unused presence proof no older than sixty seconds, a
  non-empty PIN and key material that opens under that PIN. A failed unlock leaves the vault as it
  was, but not the proof: the proof is left as its verification leaves it, so an unlock that fails on
  the PIN or on the keys has used it up like a successful one. A proof that was used up, by an unlock
  that succeeded or failed, never unlocks any vault again.
\<close>

theorem unlock_authenticates:
  shows "(fst (unlock material ident wall now (v, p)) = Inr () \<longleftrightarrow>
      \<not> pp_consumed p \<and> duration_since wall (pp_created_at p) \<le> PRESENCE_FRESHNESS
      \<and> pin ident \<noteq> [] \<and> is_ok (material (pin ident) v))
    \<and> (fst (unlock material ident wall now (v, p)) \<noteq> Inr () \<longrightarrow>
        fst (snd (unlock material ident wall now (v, p))) = v)
    \<and> snd (snd (unlock material ident wall now (v, p))) = snd (presence_verify wall p)
    \<and> (\<not> pp_consumed p \<and> duration_since wall (pp_created_at p) \<le> PRESENCE_FRESHNESS \<longrightarrow>
        fst (unlock material' ident' wall' now' (w, snd (snd (unlock material ident wall now (v, p)))))
          = Inl AuthenticationFailed)"
proof (intro conjI impI)
  let ?u = "unlock material ident wall now (v, p)"
  show iff: "fst ?u = Inr () \<longleftrightarrow> \<not> pp_consumed p
      \<and> duration_since wall (pp_created_at p) \<le> PRESENCE_FRESHNESS
      \<and> pin ident \<noteq> [] \<and> is_ok (material (pin ident) v)"
    using unlock_ok[of material ident wall now v p "()"]
    by (cases ?u; cases "material (pin ident) v") (auto simp: is_ok_def)
  show "fst (snd ?u) = v" if "fst ?u \<noteq> Inr ()"
    using that by (auto simp: unlock_def op_seq_def op_bind_def verify_presence_def
        presence_verify_def op_defs on_vault_def split: prod.splits sum.splits)
  show left: "snd (snd ?u) = snd (presence_verify wall p)"
    by (auto simp: unlock_def op_seq_def op_bind_def verify_presence_def op_defs on_vault_def split: prod.splits sum.splits)
  assume "\<not> pp_consumed p \<and> duration_since wall (pp_created_at p) \<le> PRESENCE_FRESHNESS"
  then have "pp_consumed (snd (snd ?u))" unfolding left by (simp add: presence_verify_def)
  then show "fst (unlock material' ident' wall' now' (w, snd (snd ?u))) = Inl AuthenticationFailed"
    by (simp add: unlock_def op_seq_def op_bind_def verify_presence_consumed auth_to_store_def)
qed

theorem unlock_authenticates_witness:
  "fst (unlock example_material \<lparr>pin = [1, 2, 3, 4]\<rparr> 1000 1000 (example_vault, confirmed 900)) = Inr ()
   \<and> fst (unlock example_material \<lparr>pin = [1, 2, 3, 4]\<rparr> 1001 1001
       (example_vault, snd (snd (unlock example_material \<lparr>pin = [1, 2, 3, 4]\<rparr> 1000 1000
          (example_vault, confirmed 900))))) = Inl AuthenticationFailed
   \<and> fst (snd (unlock example_material \<lparr>pin = [5]\<rparr> 1000 1000 (example_vault, confirmed 900))) = example_vault
   \<and> fst (unlock example_material \<lparr>pin = [1, 2, 3, 4]\<rparr> 1001 1001
       (example_vault, snd (snd (unlock example_material \<lparr>pin = [5]\<rparr> 1000 1000
          (example_vault, confirmed 900))))) = Inl AuthenticationFailed"
proof -
  let ?good = "unlock example_material \<lparr>pin = [1, 2, 3, 4]\<rparr> 1000 1000 (example_vault, confirmed 900)"
  have fresh: "duration_since 1000 (pp_created_at (confirmed 900)) \<le> PRESENCE_FRESHNESS"
    "\<not> pp_consumed (confirmed 900)"
    by (simp_all add: confirmed_def duration_since_def PRESENCE_FRESHNESS_def from_secs_def)
  then have good: "fst ?good = Inr ()"
    using unlock_authenticates[of example_material "\<lparr>pin = [1, 2, 3, 4]\<rparr>" 1000 1000 example_vault "confirmed 900"]
    by (simp add: example_material_def)
  have bad: "fst (unlock example_material \<lparr>pin = [5]\<rparr> 1000 1000 (example_vault, confirmed 900)) \<noteq> Inr ()"
    using unlock_authenticates[of example_material "\<lparr>pin = [5]\<rparr>" 1000 1000 example_vault "confirmed 900"]
    by (simp add: example_material_def)
  show ?thesis using good bad fresh unlock_authenticates by blast
qed

lemma ensure_presence_ok:
  assumes "ensure_presence_fresh now wall (v, p) = (Inr u, (v', p'))"
  shows "(\<exists>a prev. v_active v = Some a \<and> as_last_presence_at a = Some prev
           \<and> duration_since now prev \<le> PRESENCE_FRESHNESS \<and> v' = v \<and> p' = p)
    \<or> (\<not> pp_consumed p \<and> duration_since wall (pp_created_at p) \<le> PRESENCE_FRESHNESS
        \<and> p' = p\<lparr>pp_consumed := True\<rparr>)"
  using assms
  by (auto simp: ensure_presence_fresh_def op_run require_active_def verify_presence_ok
      split: if_splits option.splits)

lemma ensure_presence_idle:
  "keeps (\<lambda>vp. v_session_idle (fst vp) = c \<and> v_meta_session_idle_secs (fst vp) = s)
     (ensure_presence_fresh now wall)"
  unfolding ensure_presence_fresh_def by (intro op_keeps) (simp add: set_last_presence_def)

lemma check_session_idle:
  "keeps (\<lambda>v. v_session_idle v = c \<and> v_meta_session_idle_secs v = s) (check_session_freshness now)"
  by (auto simp: keeps_def check_session_freshness_def split: SessionState.splits)

lemma authorize_idle:
  "keeps (\<lambda>vp. v_session_idle (fst vp) = c \<and> v_meta_session_idle_secs (fst vp) = s)
     (authorize_lengthening t1 t2 wall)"
proof (rule keepsI)
  let ?P = "\<lambda>vp :: Vault \<times> PressYPresenceProof.
    v_session_idle (fst vp) = c \<and> v_meta_session_idle_secs (fst vp) = s"
  fix vp :: "Vault \<times> PressYPresenceProof"
  assume P: "?P vp"
  have "keeps ?P (op_seq (on_vault (check_session_freshness t1)) (ensure_presence_fresh t2 wall))"
    by (intro keeps_seq ensure_presence_idle keeps_on_vault[where P = "\<lambda>v. v_session_idle v = c \<and>
          v_meta_session_idle_secs v = s"] check_session_idle)
  moreover have "keeps ?P (verify_presence reveal_site_auth_error wall)"
    by (rule keeps_verify_presence[where P = "\<lambda>v. v_session_idle v = c \<and> v_meta_session_idle_secs v = s"])
  ultimately show "?P (snd (authorize_lengthening t1 t2 wall vp))"
    using P by (simp only: authorize_lengthening_def keeps_def split: if_split) blast
qed

lemma authorize_ok:
  assumes "authorize_lengthening t1 t2 wall (v, p) = (Inr u, (v', p'))"
  shows "(\<exists>e q b a prev. v_session_state v = Active e q b \<and> t1 \<le> e \<and> v_active v = Some a
           \<and> as_last_presence_at a = Some prev \<and> duration_since t2 prev \<le> PRESENCE_FRESHNESS)
    \<or> (\<not> pp_consumed p \<and> duration_since wall (pp_created_at p) \<le> PRESENCE_FRESHNESS
        \<and> pp_consumed p')"
proof (cases "is_active (v_session_state v)")
  case True
  then obtain e q b where st: "v_session_state v = Active e q b" by (auto simp: is_active_iff)
  obtain vq where 1: "on_vault (check_session_freshness t1) (v, p) = (Inr (), vq)"
    and 2: "ensure_presence_fresh t2 wall vq = (Inr u, (v', p'))"
    using assms True by (auto simp: authorize_lengthening_def op_run)
  have "t1 \<le> e \<and> vq = (v, p)"
    using 1 st by (auto simp: on_vault_def check_session_freshness_def split: if_splits)
  then show ?thesis using ensure_presence_ok[of t2 wall v p u v' p'] 2 st by auto
next
  case False
  then show ?thesis using assms by (auto simp: authorize_lengthening_def verify_presence_ok)
qed

text \<open>
  The idle timeout is lengthened only with presence: when a change to a longer duration
  succeeds, a proof was supplied and either it was unused and fresh and is now used up, or the
  session was live with a presence check at most sixty seconds old; when the change fails, the
  setting and its stored value are unchanged.
\<close>

theorem lengthening_needs_presence:
  assumes "is_longer_than choice (v_session_idle v)"
    and "set_session_idle choice t1 t2 wall t3 (v, presence) = (r, (v', presence'))"
  shows "(r = Inr () \<longrightarrow>
      v_session_idle v' = choice \<and> v_meta_session_idle_secs v' = Some (to_meta_secs choice)
      \<and> (\<exists>p p'. presence = Some p \<and> presence' = Some p'
          \<and> ((\<exists>e q b a prev. v_session_state v = Active e q b \<and> t1 \<le> e \<and> v_active v = Some a
                \<and> as_last_presence_at a = Some prev \<and> duration_since t2 prev \<le> PRESENCE_FRESHNESS)
             \<or> (\<not> pp_consumed p \<and> duration_since wall (pp_created_at p) \<le> PRESENCE_FRESHNESS
                 \<and> pp_consumed p'))))
    \<and> (r \<noteq> Inr () \<longrightarrow> v_session_idle v' = v_session_idle v
          \<and> v_meta_session_idle_secs v' = v_meta_session_idle_secs v)"
proof (cases presence)
  case None
  then show ?thesis using assms by (auto simp: set_session_idle_def)
next
  case (Some p)
  obtain r1 v1 p1 where a: "authorize_lengthening t1 t2 wall (v, p) = (r1, (v1, p1))"
    by (metis prod.exhaust)
  have kept: "v_session_idle v1 = v_session_idle v" "v_meta_session_idle_secs v1 = v_meta_session_idle_secs v"
    using keepsD[OF authorize_idle _ a] by auto
  have idle: "v_session_idle (install_session_idle choice t3 v1) = choice"
    "v_meta_session_idle_secs (install_session_idle choice t3 v1) = Some (to_meta_secs choice)"
    by (auto simp: install_session_idle_def touch_session_def split: SessionState.splits)
  show ?thesis
  proof (cases r1)
    case (Inl e)
    then show ?thesis using assms Some a kept by (auto simp: set_session_idle_def)
  next
    case (Inr u)
    then show ?thesis using assms Some a idle authorize_ok[of t1 t2 wall v p u v1 p1]
      by (auto simp: set_session_idle_def)
  qed
qed

theorem lengthening_needs_presence_witness:
  "fst (set_session_idle Hour4 5 5 1000 6 (example_vault, Some (confirmed 900))) = Inr ()
   \<and> fst (set_session_idle Hour4 5 5 1000 6 (example_vault, None)) = Inl PresenceProofRequired
   \<and> v_session_idle (fst (snd (set_session_idle Hour4 5 5 1000 6 (example_vault, Some (confirmed 900))))) = Hour4
   \<and> v_session_idle (fst (snd (set_session_idle Hour4 5 5 1000 6 (example_vault, None)))) = Min15"
proof -
  have longer: "is_longer_than Hour4 (v_session_idle example_vault)"
    by (simp add: is_longer_than_def example_vault_def)
  have none: "set_session_idle Hour4 5 5 1000 6 (example_vault, None) =
      (Inl PresenceProofRequired, (example_vault, None))"
    using longer by (simp add: set_session_idle_def)
  have some: "fst (set_session_idle Hour4 5 5 1000 6 (example_vault, Some (confirmed 900))) = Inr ()"
    using longer by (simp add: set_session_idle_def authorize_lengthening_def verify_presence_def
        presence_verify_def confirmed_def duration_since_def PRESENCE_FRESHNESS_def from_secs_def
        example_vault_def)
  obtain r v' q where eq: "set_session_idle Hour4 5 5 1000 6 (example_vault, Some (confirmed 900)) = (r, (v', q))"
    by (metis prod.exhaust)
  show ?thesis
    using lengthening_needs_presence[OF longer none] lengthening_needs_presence[OF longer eq] none some eq
    by (simp add: example_vault_def)
qed

end
