(* ===== verification/Vault_Accounts.thy ===== *)
theory Vault_Accounts
  imports Vault_State
begin

text \<open>
  Account operations of the vault (\<open>crates/pangolin-store/src/vault.rs\<close>): adding, updating,
  deleting and reading accounts, the frozen and requires-upgrade guards, and the payload sealing
  of \<open>blob.rs\<close>. AEAD, the CBOR codecs and the text projections are parameters (\<open>VaultEnv\<close>); the
  randomness and the clocks an operation reads are its \<open>Ambient\<close> argument. The lemmas show the
  table invariant and what every operation does to it.
\<close>

section \<open>Payloads\<close>

record TombstonePayload =
  tb_deleted :: bool
  tb_account_id :: bytes
  tb_tombstoned_at_ms :: u64

definition TombstonePayload_new :: "AccountId \<Rightarrow> u64 \<Rightarrow> TombstonePayload" where
  "TombstonePayload_new a ms =
     \<lparr>tb_deleted = True, tb_account_id = aid_bytes a, tb_tombstoned_at_ms = ms\<rparr>"

datatype DecodedPayload = LivePayload AccountSnapshot | TombPayload TombstonePayload

datatype DecodedIdentityPayload = LiveIdentity AccountIdentity | TombIdentity TombstonePayload

record VaultEnv =
  env_seal :: "bytes \<Rightarrow> bytes \<Rightarrow> bytes \<Rightarrow> bytes \<Rightarrow> bytes option"
  env_open :: "bytes \<Rightarrow> bytes \<Rightarrow> bytes \<Rightarrow> bytes \<Rightarrow> bytes option"
  env_encode_snapshot :: "AccountSnapshot \<Rightarrow> bytes"
  env_encode_tombstone :: "TombstonePayload \<Rightarrow> bytes"
  env_encode_identity :: "AccountIdentity \<Rightarrow> bytes"
  env_decode_payload :: "bytes \<Rightarrow> StoreError + DecodedPayload"
  env_decode_identity :: "bytes \<Rightarrow> StoreError + DecodedIdentityPayload"
  env_projection_of_snapshot :: "AccountSnapshot \<Rightarrow> SearchProjection"
  env_projection_of_identity :: "AccountIdentity \<Rightarrow> SearchProjection"
  env_keccak256 :: "bytes \<Rightarrow> bytes"

definition WRAP_AAD_DOMAIN_REV :: bytes where
  "WRAP_AAD_DOMAIN_REV = [112, 103, 114, 101, 118, 48, 0, 0]"

definition build_aad :: "bytes \<Rightarrow> AccountId \<Rightarrow> RevisionId \<Rightarrow> u8 \<Rightarrow> bytes" where
  "build_aad vault_id account parent schema =
     WRAP_AAD_DOMAIN_REV @ vault_id @ aid_bytes account @ rid_bytes parent @ [schema]"

definition aead_seal :: "VaultEnv \<Rightarrow> bytes \<Rightarrow> bytes \<Rightarrow> bytes \<Rightarrow> bytes \<Rightarrow> StoreError + bytes \<times> bytes" where
  "aead_seal env key nonce plaintext aad =
     map_sum id (\<lambda>ct. (ct, nonce)) (ok_or (env_seal env key nonce plaintext aad) AuthenticationFailed)"

definition seal_snapshot :: "VaultEnv \<Rightarrow> bytes \<Rightarrow> AccountSnapshot \<Rightarrow> bytes \<Rightarrow> bytes
    \<Rightarrow> StoreError + bytes \<times> bytes" where
  "seal_snapshot env key snapshot aad nonce =
     aead_seal env key nonce (env_encode_snapshot env snapshot) aad"

definition seal_tombstone :: "VaultEnv \<Rightarrow> bytes \<Rightarrow> bytes \<Rightarrow> TombstonePayload \<Rightarrow> bytes
    \<Rightarrow> StoreError + bytes \<times> bytes" where
  "seal_tombstone env key aad payload nonce =
     aead_seal env key nonce (env_encode_tombstone env payload) aad"

definition seal_identity :: "VaultEnv \<Rightarrow> bytes \<Rightarrow> AccountIdentity \<Rightarrow> bytes \<Rightarrow> bytes
    \<Rightarrow> StoreError + bytes \<times> bytes" where
  "seal_identity env key ident aad nonce =
     aead_seal env key nonce (env_encode_identity env ident) aad"

definition open_payload :: "VaultEnv \<Rightarrow> bytes \<Rightarrow> bytes \<Rightarrow> bytes \<Rightarrow> bytes \<Rightarrow> StoreError + DecodedPayload" where
  "open_payload env key nonce ct aad =
     and_then (ok_or (env_open env key nonce ct aad) AuthenticationFailed) (env_decode_payload env)"

definition open_identity_payload ::
    "VaultEnv \<Rightarrow> bytes \<Rightarrow> bytes \<Rightarrow> bytes \<Rightarrow> bytes \<Rightarrow> StoreError + DecodedIdentityPayload" where
  "open_identity_payload env key nonce ct aad =
     and_then (ok_or (env_open env key nonce ct aad) AuthenticationFailed) (env_decode_identity env)"

section \<open>Queries and row updates\<close>

record Ambient =
  am_t_check :: system_time
  am_t_touch :: system_time
  am_t_inner :: system_time
  am_t_inner_touch :: system_time
  am_now_ms :: int
  am_random_account :: "nat \<Rightarrow> AccountId"
  am_random_revision :: RevisionId
  am_random_nonce :: bytes

definition NONCE_LEN :: nat where
  "NONCE_LEN = 24"

definition rid32 :: "string \<Rightarrow> RevisionId \<Rightarrow> StoreError + RevisionId" where
  "rid32 msg r = (if length (rid_bytes r) = REVISION_ID_LEN then Inr r else Inl (Corrupted msg))"

definition aid32 :: "string \<Rightarrow> AccountId \<Rightarrow> StoreError + AccountId" where
  "aid32 msg a = (if length (aid_bytes a) = 32 then Inr a else Inl (Corrupted msg))"

definition u8_try_from :: "int \<Rightarrow> u8 option" where
  "u8_try_from v = (if 0 \<le> v \<and> v \<le> 255 then Some (word_of_int v) else None)"

definition find_account :: "Vault \<Rightarrow> AccountId \<Rightarrow> AccountRow option" where
  "find_account v i = find (\<lambda>r. ac_account_id r = i) (v_accounts v)"

definition find_revision :: "Vault \<Rightarrow> AccountId \<Rightarrow> RevisionId \<Rightarrow> RevisionRow option" where
  "find_revision v i r = find (\<lambda>x. rv_account_id x = i \<and> rv_revision_id x = r) (v_revisions v)"

definition update_accounts :: "AccountId \<Rightarrow> (AccountRow \<Rightarrow> AccountRow) \<Rightarrow> Vault \<Rightarrow> Vault" where
  "update_accounts i f v =
     v\<lparr>v_accounts := map (\<lambda>r. if ac_account_id r = i then f r else r) (v_accounts v)\<rparr>"

definition update_revisions :: "(RevisionRow \<Rightarrow> bool) \<Rightarrow> (RevisionRow \<Rightarrow> RevisionRow) \<Rightarrow> Vault \<Rightarrow> Vault" where
  "update_revisions P f v = v\<lparr>v_revisions := map (\<lambda>r. if P r then f r else r) (v_revisions v)\<rparr>"

definition insert_account :: "AccountRow \<Rightarrow> Vault \<Rightarrow> StoreError + Vault" where
  "insert_account row v =
     (if ac_account_id row \<in> ac_account_id ` set (v_accounts v)
      then Inl (Sqlite ''UNIQUE constraint failed: account_identities.account_id'')
      else Inr (v\<lparr>v_accounts := v_accounts v @ [row]\<rparr>))"

definition insert_revision :: "RevisionRow \<Rightarrow> Vault \<Rightarrow> StoreError + Vault" where
  "insert_revision row v =
     (if rv_revision_id row \<in> rv_revision_id ` set (v_revisions v)
      then Inl (Sqlite ''UNIQUE constraint failed: revisions.revision_id'')
      else if rv_account_id row \<notin> ac_account_id ` set (v_accounts v)
      then Inl (Sqlite ''FOREIGN KEY constraint failed'')
      else Inr (v\<lparr>v_revisions := v_revisions v @ [row]\<rparr>))"

text \<open>\<open>INSERT OR IGNORE INTO dirty_accounts\<close>: the affected-row count is whether the key was new.\<close>

definition dirty_present :: "AccountId \<Rightarrow> RevisionId \<Rightarrow> Vault \<Rightarrow> bool" where
  "dirty_present a r v \<longleftrightarrow> (\<exists>d \<in> set (v_dirty v). de_account_id d = a \<and> de_revision_id d = r)"

definition insert_dirty :: "AccountId \<Rightarrow> RevisionId \<Rightarrow> int \<Rightarrow> Vault \<Rightarrow> Vault" where
  "insert_dirty a r now v =
     (if dirty_present a r v then v
      else v\<lparr>v_dirty := v_dirty v @ [\<lparr>de_account_id = a, de_revision_id = r, de_marked_at = now\<rparr>]\<rparr>)"

definition local_revision :: "Vault \<Rightarrow> AccountId \<Rightarrow> RevisionId \<Rightarrow> RevisionId \<Rightarrow> u8 \<Rightarrow> int \<Rightarrow> bytes \<times> bytes
    \<Rightarrow> bool \<Rightarrow> RevisionRow" where
  "local_revision v account revision parent schema now sealed tombstone =
     \<lparr>rv_revision_id = revision, rv_account_id = account, rv_parent_revision_id = parent,
      rv_device_id = v_device_id v, rv_schema_version = uint schema, rv_created_at = now,
      rv_enc_payload = fst sealed, rv_enc_nonce = snd sealed,
      rv_is_tombstone = (if tombstone then 1 else 0), rv_chain_tx_hash = None,
      rv_chain_block_number = None, rv_chain_log_index = None, rv_superseded_by = None,
      rv_vdk_epoch = current_vdk_epoch_i64 v, rv_revoked = 0, rv_recovered_signer = None,
      rv_revision_status = Finalized, rv_observed_at_block = None, rv_observed_block_hash = None\<rparr>"

section \<open>Guards\<close>

definition is_account_frozen :: "Vault \<Rightarrow> AccountId \<Rightarrow> bool" where
  "is_account_frozen v i =
     (case find_account v i of None \<Rightarrow> False | Some r \<Rightarrow> ac_frozen_pending_resolve r \<noteq> 0)"

definition refuse_if_frozen :: "AccountId \<Rightarrow> Vault \<Rightarrow> StoreError + unit" where
  "refuse_if_frozen i v =
     (if is_account_frozen v i then Inl (AccountFrozenPendingResolve i) else Inr ())"

definition account_requires_upgrade :: "Vault \<Rightarrow> AccountId \<Rightarrow> bool" where
  "account_requires_upgrade v i =
     (case v_active v of None \<Rightarrow> False | Some a \<Rightarrow> i \<in> as_requires_upgrade a)"

definition REVISION_SCHEMA_VERSION_MAX :: u8 where
  "REVISION_SCHEMA_VERSION_MAX = 2"

definition refuse_if_requires_upgrade :: "AccountId \<Rightarrow> Vault \<Rightarrow> StoreError + unit" where
  "refuse_if_requires_upgrade i v =
     (if account_requires_upgrade v i
      then let revision_id = (case find_account v i of
                 None \<Rightarrow> GENESIS_PARENT
               | Some r \<Rightarrow> if length (rid_bytes (ac_head_revision_id r)) = REVISION_ID_LEN
                           then ac_head_revision_id r else GENESIS_PARENT)
           in Inl (UnsupportedRevisionSchemaVersion i revision_id
                (ucast REVISION_SCHEMA_VERSION_MAX + 1) (ucast REVISION_SCHEMA_VERSION_MAX))
      else Inr ())"

definition live_head :: "AccountId \<Rightarrow> Vault \<Rightarrow> StoreError + RevisionId" where
  "live_head i v =
     and_then (ok_or (find_account v i) AccountNotFound) (\<lambda>row.
       if ac_tombstoned row \<noteq> 0 then Inl AccountTombstoned
       else rid32 ''head_revision_id not 32 bytes'' (ac_head_revision_id row))"

definition note_dirty_marker_stamped :: "int \<Rightarrow> Vault \<Rightarrow> Vault" where
  "note_dirty_marker_stamped now v =
     v\<lparr>v_active := map_option (\<lambda>a. if as_window_started_at_unix_ms a = None
          then a\<lparr>as_window_started_at_unix_ms := Some now\<rparr> else a) (v_active v)\<rparr>"

definition with_active :: "(ActiveState, StoreError, 'a) op \<Rightarrow> 'a vault_op" where
  "with_active m v =
     (case v_active v of
        None \<Rightarrow> (Inl NotUnlocked, v)
      | Some a \<Rightarrow> (let (r, a') = m a in (r, v\<lparr>v_active := Some a'\<rparr>)))"

definition on_index :: "(SearchIndex, StoreError, 'a) op \<Rightarrow> (ActiveState, StoreError, 'a) op" where
  "on_index m a = (let (r, i') = m (as_search_index a) in (r, a\<lparr>as_search_index := i'\<rparr>))"

section \<open>Account operations\<close>

fun derive_account_id_loop :: "Vault \<Rightarrow> AccountId list \<Rightarrow> StoreError + AccountId" where
  "derive_account_id_loop v [] = Inl (Internal ''account_id derivation collision'')"
| "derive_account_id_loop v (c # cs) =
     (case find_account v c of
        Some r \<Rightarrow> if ac_tombstoned r = 1 then derive_account_id_loop v cs else Inr c
      | None \<Rightarrow> Inr c)"

definition ADD_ACCOUNT_RETRY_BUDGET :: nat where
  "ADD_ACCOUNT_RETRY_BUDGET = 4"

definition derive_fresh_account_id :: "(nat \<Rightarrow> AccountId) \<Rightarrow> Vault \<Rightarrow> StoreError + AccountId" where
  "derive_fresh_account_id draw v = derive_account_id_loop v (map draw [0..<ADD_ACCOUNT_RETRY_BUDGET])"

definition seal_with_active :: "(bytes \<Rightarrow> StoreError + bytes \<times> bytes) \<Rightarrow> Vault \<Rightarrow> StoreError + bytes \<times> bytes" where
  "seal_with_active seal v = and_then (require_active v) (\<lambda>active. seal (as_vdk active))"

definition commit_add :: "AccountId \<Rightarrow> RevisionId \<Rightarrow> int \<Rightarrow> bytes \<times> bytes \<Rightarrow> Vault \<Rightarrow> StoreError + Vault" where
  "commit_add account revision now sealed v =
     and_then (insert_account \<lparr>ac_account_id = account, ac_created_at = now, ac_last_modified_at = now,
         ac_tombstoned = 0, ac_head_revision_id = revision, ac_frozen_pending_resolve = 0\<rparr> v) (\<lambda>v1.
     and_then (insert_revision (local_revision v account revision GENESIS_PARENT
         (v_wrap_schema_version v) now sealed False) v1) (\<lambda>v2.
     Inr (insert_dirty account revision now v2)))"

definition add_account :: "VaultEnv \<Rightarrow> Ambient \<Rightarrow> AccountSnapshot \<Rightarrow> AccountId vault_op" where
  "add_account env am snapshot =
     op_seq (check_session_freshness (am_t_check am))
      (op_seq (op_try require_active)
       (op_bind (op_try (derive_fresh_account_id (am_random_account am))) (\<lambda>account.
        op_bind (op_try (\<lambda>v. seal_with_active (\<lambda>key. seal_snapshot env key snapshot
            (build_aad (v_vault_id v) account GENESIS_PARENT (v_wrap_schema_version v))
            (am_random_nonce am)) v)) (\<lambda>sealed.
        op_seq (op_update (commit_add account (am_random_revision am) (am_now_ms am) sealed))
         (op_seq (op_modify (note_dirty_marker_stamped (am_now_ms am)))
          (op_seq (with_active (on_index (si_insert account (am_now_ms am)
              (env_projection_of_snapshot env snapshot))))
           (op_seq (with_active (op_modify (\<lambda>a. a\<lparr>as_cache := (as_cache a)(account \<mapsto> snapshot)\<rparr>)))
            (op_seq (op_modify (touch_session (am_t_touch am)))
              (op_ret account)))))))))"

definition commit_append :: "AccountId \<Rightarrow> RevisionId \<Rightarrow> RevisionId \<Rightarrow> int \<Rightarrow> bytes \<times> bytes \<Rightarrow> bool \<Rightarrow> Vault
    \<Rightarrow> StoreError + Vault" where
  "commit_append account revision parent now sealed tombstone v =
     and_then (insert_revision (local_revision v account revision parent
         (v_wrap_schema_version v) now sealed tombstone) v) (\<lambda>v1.
     Inr (insert_dirty account revision now
       (update_accounts account (\<lambda>r. r\<lparr>ac_head_revision_id := revision, ac_last_modified_at := now,
          ac_tombstoned := (if tombstone then 1 else ac_tombstoned r)\<rparr>) v1)))"

definition update_account :: "VaultEnv \<Rightarrow> Ambient \<Rightarrow> AccountId \<Rightarrow> AccountSnapshot \<Rightarrow> RevisionId vault_op" where
  "update_account env am i snapshot =
     op_seq (check_session_freshness (am_t_check am))
      (op_seq (op_try require_active)
       (op_seq (op_try (refuse_if_frozen i))
        (op_seq (op_try (refuse_if_requires_upgrade i))
         (op_bind (op_try (live_head i)) (\<lambda>parent.
          op_bind (op_try (\<lambda>v. seal_with_active (\<lambda>key. seal_snapshot env key snapshot
              (build_aad (v_vault_id v) i parent (v_wrap_schema_version v)) (am_random_nonce am)) v))
            (\<lambda>sealed.
          op_seq (op_update (commit_append i (am_random_revision am) parent (am_now_ms am) sealed False))
           (op_seq (op_modify (note_dirty_marker_stamped (am_now_ms am)))
            (op_seq (with_active (on_index (si_update i (am_now_ms am)
                (env_projection_of_snapshot env snapshot))))
             (op_seq (with_active (op_modify (\<lambda>a. a\<lparr>as_cache := (as_cache a)(i \<mapsto> snapshot)\<rparr>)))
              (op_seq (op_modify (touch_session (am_t_touch am)))
                (op_ret (am_random_revision am))))))))))))"

definition u64_or_zero :: "int \<Rightarrow> u64" where
  "u64_or_zero now = (case u64_try_from now of None \<Rightarrow> 0 | Some w \<Rightarrow> w)"

definition delete_account :: "VaultEnv \<Rightarrow> Ambient \<Rightarrow> AccountId \<Rightarrow> unit vault_op" where
  "delete_account env am i =
     op_seq (check_session_freshness (am_t_check am))
      (op_seq (op_try require_active)
       (op_seq (op_try (refuse_if_frozen i))
        (op_seq (op_try (refuse_if_requires_upgrade i))
         (op_bind (op_try (live_head i)) (\<lambda>parent.
          op_bind (op_try (\<lambda>v. seal_with_active (\<lambda>key. seal_tombstone env key
              (build_aad (v_vault_id v) i parent (v_wrap_schema_version v))
              (TombstonePayload_new i (u64_or_zero (am_now_ms am))) (am_random_nonce am)) v)) (\<lambda>sealed.
          op_seq (op_update (commit_append i (am_random_revision am) parent (am_now_ms am) sealed True))
           (op_seq (op_modify (note_dirty_marker_stamped (am_now_ms am)))
            (op_seq (with_active (on_index (si_remove i)))
             (op_seq (with_active (op_modify (\<lambda>a. a\<lparr>as_cache := (as_cache a)(i := None)\<rparr>)))
              (op_modify (touch_session (am_t_touch am))))))))))))"

section \<open>Reading accounts\<close>

text \<open>
  The decrypted cache is a hash map: an operation that returns its keys in iteration order
  returns a set here.
\<close>

definition contains :: "bytes \<Rightarrow> bytes \<Rightarrow> bool" where
  "contains hay needle \<longleftrightarrow> (\<exists>k \<le> length hay. take (length needle) (drop k hay) = needle)"

definition matches :: "bytes \<Rightarrow> bytes \<Rightarrow> bool" where
  "matches haystack needle = contains (from_utf8_lossy (to_ascii_lowercase haystack)) needle"

definition notes_clipped :: "bytes \<Rightarrow> bytes" where
  "notes_clipped notes = take 512 notes"

definition cache_search :: "(AccountId \<rightharpoonup> AccountSnapshot) \<Rightarrow> bytes \<Rightarrow> AccountId set" where
  "cache_search cache query =
     (if query = [] then dom cache
      else let needle = to_ascii_lowercase query
           in {i. \<exists>s. cache i = Some s \<and>
                (matches (sn_display_name s) needle \<or> matches (sn_username s) needle
                 \<or> matches (sn_url s) needle \<or> matches (notes_clipped (sn_notes s)) needle)})"

fun collect_ids :: "string \<Rightarrow> AccountId list \<Rightarrow> StoreError + AccountId list" where
  "collect_ids msg [] = Inr []"
| "collect_ids msg (i # is) =
     and_then (aid32 msg i) (\<lambda>a. and_then (collect_ids msg is) (\<lambda>as. Inr (a # as)))"

definition list_frozen_accounts :: "Vault \<Rightarrow> StoreError + AccountId list" where
  "list_frozen_accounts v =
     collect_ids ''account_identities.account_id not 32 bytes''
       (sort (map ac_account_id (filter (\<lambda>r. ac_frozen_pending_resolve r = 1) (v_accounts v))))"

definition frozen_set :: "Vault \<Rightarrow> StoreError + AccountId set" where
  "frozen_set v = map_sum id set (list_frozen_accounts v)"

definition frozen_or_default :: "Vault \<Rightarrow> AccountId set" where
  "frozen_or_default v = (case frozen_set v of Inl _ \<Rightarrow> {} | Inr s \<Rightarrow> s)"

definition list_tombstoned_accounts :: "Vault \<Rightarrow> StoreError + AccountId list" where
  "list_tombstoned_accounts v =
     collect_ids ''account_identities.account_id not 32 bytes''
       (sort (map ac_account_id (filter (\<lambda>r. ac_tombstoned r = 1) (v_accounts v))))"

definition get_account :: "system_time \<Rightarrow> Vault \<Rightarrow> AccountId \<Rightarrow> AccountSnapshot option" where
  "get_account now v i =
     (if \<not> is_session_active now v then None
      else if is_account_frozen v i then None
      else case v_active v of None \<Rightarrow> None | Some a \<Rightarrow> as_cache a i)"

definition search :: "system_time \<Rightarrow> Vault \<Rightarrow> bytes \<Rightarrow> AccountId set" where
  "search now v query =
     (if \<not> is_session_active now v then {}
      else case v_active v of
        None \<Rightarrow> {} | Some a \<Rightarrow> cache_search (as_cache a) query - frozen_or_default v)"

definition list_accounts :: "system_time \<Rightarrow> Vault \<Rightarrow> AccountId set" where
  "list_accounts now v =
     (if \<not> is_session_active now v then {}
      else case v_active v of None \<Rightarrow> {} | Some a \<Rightarrow> dom (as_cache a) - frozen_or_default v)"

section \<open>The table invariant\<close>

text \<open>
  What the schema and the writers promise of the tables: keys are unique, identifiers have
  their fixed lengths, every revision belongs to an account, flags are bits, the schema version
  is a byte, and the three chain columns are set together and non-negative.
\<close>

definition row_ok :: "RevisionRow \<Rightarrow> bool" where
  "row_ok r \<longleftrightarrow>
     length (rid_bytes (rv_revision_id r)) = 32 \<and> length (rid_bytes (rv_parent_revision_id r)) = 32
     \<and> length (did_bytes (rv_device_id r)) = 32
     \<and> 0 \<le> rv_schema_version r \<and> rv_schema_version r \<le> 255
     \<and> rv_is_tombstone r \<in> {0, 1} \<and> rv_revoked r \<in> {0, 1}
     \<and> (case rv_superseded_by r of None \<Rightarrow> True | Some s \<Rightarrow> length (rid_bytes s) = 32)
     \<and> (case (rv_chain_tx_hash r, rv_chain_block_number r, rv_chain_log_index r) of
          (None, None, None) \<Rightarrow> True
        | (Some h, Some b, Some l) \<Rightarrow> length h = 32 \<and> 0 \<le> b \<and> b \<le> i64_max \<and> 0 \<le> l \<and> l \<le> i64_max
        | _ \<Rightarrow> False)"

definition account_ok :: "AccountRow \<Rightarrow> bool" where
  "account_ok r \<longleftrightarrow> length (aid_bytes (ac_account_id r)) = 32
     \<and> length (rid_bytes (ac_head_revision_id r)) = 32
     \<and> ac_tombstoned r \<in> {0, 1} \<and> ac_frozen_pending_resolve r \<in> {0, 1}"

definition tables_inv :: "Vault \<Rightarrow> bool" where
  "tables_inv v \<longleftrightarrow>
     distinct (map ac_account_id (v_accounts v)) \<and> distinct (map rv_revision_id (v_revisions v))
     \<and> distinct (map (\<lambda>d. (de_account_id d, de_revision_id d)) (v_dirty v))
     \<and> list_all account_ok (v_accounts v) \<and> list_all row_ok (v_revisions v)
     \<and> rv_account_id ` set (v_revisions v) \<subseteq> ac_account_id ` set (v_accounts v)
     \<and> length (did_bytes (v_device_id v)) = 32"

text \<open>Randomness of the documented width: the identifiers an operation draws have 32 bytes.\<close>

definition ambient_ok :: "Ambient \<Rightarrow> bool" where
  "ambient_ok am \<longleftrightarrow> length (rid_bytes (am_random_revision am)) = 32
     \<and> (\<forall>n. length (aid_bytes (am_random_account am n)) = 32)"

lemma find_account_Some: "find_account v i = Some r \<Longrightarrow> r \<in> set (v_accounts v) \<and> ac_account_id r = i"
  by (auto simp: find_account_def find_Some_iff)

lemma find_account_None: "find_account v i = None \<longleftrightarrow> i \<notin> ac_account_id ` set (v_accounts v)"
  by (auto simp: find_account_def find_None_iff)

lemma find_account_iff:
  assumes "distinct (map ac_account_id (v_accounts v))"
  shows "find_account v i = Some r \<longleftrightarrow> r \<in> set (v_accounts v) \<and> ac_account_id r = i"
proof
  assume r: "r \<in> set (v_accounts v) \<and> ac_account_id r = i"
  then obtain r' where r': "find_account v i = Some r'"
    using find_account_None[of v i] by (cases "find_account v i") auto
  then have "r' \<in> set (v_accounts v)" "ac_account_id r' = i" by (auto dest: find_account_Some)
  then show "find_account v i = Some r" using r r' assms by (metis distinct_map inj_onD)
qed (rule find_account_Some)

lemma find_revision_Some:
  "find_revision v i r = Some x \<Longrightarrow> x \<in> set (v_revisions v) \<and> rv_account_id x = i \<and> rv_revision_id x = r"
  by (auto simp: find_revision_def find_Some_iff)

lemma find_revision_None:
  "find_revision v i r = None \<longleftrightarrow> \<not> (\<exists>x \<in> set (v_revisions v). rv_account_id x = i \<and> rv_revision_id x = r)"
  by (auto simp: find_revision_def find_None_iff)

text \<open>The session operations leave the tables alone.\<close>

lemma session_tables [simp]:
  "v_accounts (touch_session now v) = v_accounts v"
  "v_revisions (touch_session now v) = v_revisions v"
  "v_dirty (touch_session now v) = v_dirty v"
  "v_pending_merges (touch_session now v) = v_pending_merges v"
  "v_device_id (touch_session now v) = v_device_id v"
  "v_sync_state (touch_session now v) = v_sync_state v"
  "v_sync_v1 (touch_session now v) = v_sync_v1 v"
  "v_sync_v2 (touch_session now v) = v_sync_v2 v"
  "v_vault_id (touch_session now v) = v_vault_id v"
  "v_wrap_schema_version (touch_session now v) = v_wrap_schema_version v"
  "v_accounts (maybe_expire_active_session now v) = v_accounts v"
  "v_revisions (maybe_expire_active_session now v) = v_revisions v"
  "v_dirty (maybe_expire_active_session now v) = v_dirty v"
  "v_pending_merges (maybe_expire_active_session now v) = v_pending_merges v"
  "v_device_id (maybe_expire_active_session now v) = v_device_id v"
  "v_sync_state (maybe_expire_active_session now v) = v_sync_state v"
  "v_sync_v1 (maybe_expire_active_session now v) = v_sync_v1 v"
  "v_sync_v2 (maybe_expire_active_session now v) = v_sync_v2 v"
  "v_vault_id (maybe_expire_active_session now v) = v_vault_id v"
  "v_wrap_schema_version (maybe_expire_active_session now v) = v_wrap_schema_version v"
  "v_accounts (note_dirty_marker_stamped ms v) = v_accounts v"
  "v_revisions (note_dirty_marker_stamped ms v) = v_revisions v"
  "v_dirty (note_dirty_marker_stamped ms v) = v_dirty v"
  "v_pending_merges (note_dirty_marker_stamped ms v) = v_pending_merges v"
  "v_device_id (note_dirty_marker_stamped ms v) = v_device_id v"
  "v_sync_state (note_dirty_marker_stamped ms v) = v_sync_state v"
  "v_sync_v1 (note_dirty_marker_stamped ms v) = v_sync_v1 v"
  "v_sync_v2 (note_dirty_marker_stamped ms v) = v_sync_v2 v"
  "v_vault_id (note_dirty_marker_stamped ms v) = v_vault_id v"
  "v_wrap_schema_version (note_dirty_marker_stamped ms v) = v_wrap_schema_version v"
  by (auto simp: touch_session_def maybe_expire_active_session_def note_dirty_marker_stamped_def
      split: SessionState.splits)

lemma tables_inv_session [simp]:
  "tables_inv (touch_session now v) = tables_inv v"
  "tables_inv (maybe_expire_active_session now v) = tables_inv v"
  "tables_inv (note_dirty_marker_stamped ms v) = tables_inv v"
  by (simp_all add: tables_inv_def)

lemma tables_inv_check [op_keeps]: "keeps tables_inv (check_session_freshness now)"
  by (auto simp: keeps_def check_session_freshness_def tables_inv_def split: SessionState.splits)

lemma tables_inv_with_active [op_keeps]: "keeps tables_inv (with_active m)"
  by (auto simp: keeps_def with_active_def tables_inv_def Let_def split: option.splits prod.splits)

lemma tables_inv_update_accounts:
  assumes "tables_inv v" "\<And>r. account_ok r \<Longrightarrow> account_ok (f r)"
    and "\<And>r. ac_account_id (f r) = ac_account_id r"
  shows "tables_inv (update_accounts i f v)"
proof -
  let ?g = "\<lambda>r. if ac_account_id r = i then f r else r"
  have ids: "map ac_account_id (map ?g (v_accounts v)) = map ac_account_id (v_accounts v)"
    using assms(3) by simp
  have set: "ac_account_id ` set (map ?g (v_accounts v)) = ac_account_id ` set (v_accounts v)"
    using ids by (metis set_map)
  have "list_all account_ok (map ?g (v_accounts v))"
    using assms(1,2) by (auto simp: tables_inv_def list_all_iff)
  moreover have "v_accounts (update_accounts i f v) = map ?g (v_accounts v)"
    "v_revisions (update_accounts i f v) = v_revisions v" "v_dirty (update_accounts i f v) = v_dirty v"
    "v_device_id (update_accounts i f v) = v_device_id v"
    by (simp_all add: update_accounts_def)
  ultimately show ?thesis using assms(1) ids set by (simp only: tables_inv_def)
qed

lemma tables_inv_update_revisions:
  assumes "tables_inv v" "\<And>r. row_ok r \<Longrightarrow> P r \<Longrightarrow> row_ok (f r)"
    and "\<And>r. rv_account_id (f r) = rv_account_id r" "\<And>r. rv_revision_id (f r) = rv_revision_id r"
  shows "tables_inv (update_revisions P f v)"
proof -
  let ?g = "\<lambda>r. if P r then f r else r"
  have ids: "map rv_revision_id (map ?g (v_revisions v)) = map rv_revision_id (v_revisions v)"
    using assms(4) by simp
  have "map rv_account_id (map ?g (v_revisions v)) = map rv_account_id (v_revisions v)"
    using assms(3) by simp
  then have set: "rv_account_id ` set (map ?g (v_revisions v)) = rv_account_id ` set (v_revisions v)"
    by (metis set_map)
  have "list_all row_ok (map ?g (v_revisions v))"
    using assms(1,2) by (auto simp: tables_inv_def list_all_iff)
  moreover have "v_revisions (update_revisions P f v) = map ?g (v_revisions v)"
    "v_accounts (update_revisions P f v) = v_accounts v" "v_dirty (update_revisions P f v) = v_dirty v"
    "v_device_id (update_revisions P f v) = v_device_id v"
    by (simp_all add: update_revisions_def)
  ultimately show ?thesis using assms(1) ids set by (simp only: tables_inv_def)
qed

lemma tables_inv_insert_account:
  "insert_account row v = Inr v' \<Longrightarrow> tables_inv v \<Longrightarrow> account_ok row \<Longrightarrow> tables_inv v'"
  by (clarsimp simp: insert_account_def tables_inv_def split: if_splits) blast

lemma tables_inv_insert_revision:
  "insert_revision row v = Inr v' \<Longrightarrow> tables_inv v \<Longrightarrow> row_ok row \<Longrightarrow> tables_inv v'"
  by (clarsimp simp: insert_revision_def tables_inv_def split: if_splits)

lemma tables_inv_insert_dirty: "tables_inv v \<Longrightarrow> tables_inv (insert_dirty a r now v)"
  by (auto simp: insert_dirty_def dirty_present_def tables_inv_def)

lemma local_revision_ok:
  assumes "tables_inv v" "length (rid_bytes r) = 32" "length (rid_bytes p) = 32"
  shows "row_ok (local_revision v a r p s now sealed t)"
proof -
  have "uint s \<le> 255" using uint_bounded[of s] by simp
  then show ?thesis using assms by (auto simp: row_ok_def local_revision_def tables_inv_def)
qed

lemma genesis_length [simp]: "length (rid_bytes GENESIS_PARENT) = 32"
  by (simp add: GENESIS_PARENT_def REVISION_ID_LEN_def)

lemma derive_account_id_draw:
  "derive_account_id_loop v cs = Inr i \<Longrightarrow> i \<in> set cs"
  by (induction v cs rule: derive_account_id_loop.induct) (auto split: option.splits if_splits)

lemma commit_add_inv:
  assumes "commit_add a r now sealed v = Inr v'" "tables_inv v"
    and "length (aid_bytes a) = 32" "length (rid_bytes r) = 32"
  shows "tables_inv v'"
proof -
  obtain v1 v2 where 1: "insert_account \<lparr>ac_account_id = a, ac_created_at = now,
      ac_last_modified_at = now, ac_tombstoned = 0, ac_head_revision_id = r,
      ac_frozen_pending_resolve = 0\<rparr> v = Inr v1"
    and 2: "insert_revision (local_revision v a r GENESIS_PARENT (v_wrap_schema_version v) now sealed False)
      v1 = Inr v2" and v': "v' = insert_dirty a r now v2"
    using assms(1) by (auto simp: commit_add_def and_then_Inr)
  have "tables_inv v1"
    by (rule tables_inv_insert_account[OF 1 assms(2)]) (simp add: account_ok_def assms(3,4))
  then have "tables_inv v2"
    by (rule tables_inv_insert_revision[OF 2]) (intro local_revision_ok assms, simp)
  then show ?thesis unfolding v' by (rule tables_inv_insert_dirty)
qed

lemma commit_append_inv:
  assumes "commit_append a r p now sealed t v = Inr v'" "tables_inv v"
    and "length (rid_bytes r) = 32" "length (rid_bytes p) = 32"
  shows "tables_inv v'"
proof -
  obtain v1 where 1: "insert_revision (local_revision v a r p (v_wrap_schema_version v) now sealed t) v = Inr v1"
    and v': "v' = insert_dirty a r now (update_accounts a (\<lambda>x. x\<lparr>ac_head_revision_id := r,
      ac_last_modified_at := now, ac_tombstoned := (if t then 1 else ac_tombstoned x)\<rparr>) v1)"
    using assms(1) by (auto simp: commit_append_def and_then_Inr)
  have "tables_inv v1"
    by (rule tables_inv_insert_revision[OF 1 assms(2)]) (intro local_revision_ok assms)
  then show ?thesis unfolding v'
    by (intro tables_inv_insert_dirty tables_inv_update_accounts) (auto simp: account_ok_def assms(3))
qed

lemma keeps_bind_try:
  "(\<And>a s. P s \<Longrightarrow> g s = Inr a \<Longrightarrow> keeps P (f a)) \<Longrightarrow> keeps P (op_bind (op_try g) f)"
  by (auto simp: keeps_def op_bind_def op_try_def split: sum.splits)

lemma live_head_length: "live_head i v = Inr p \<Longrightarrow> length (rid_bytes p) = 32"
  by (auto simp: live_head_def and_then_Inr rid32_def REVISION_ID_LEN_def split: if_splits)

lemma tables_inv_add [op_keeps]:
  assumes "ambient_ok am"
  shows "keeps tables_inv (add_account env am snapshot)"
proof -
  have draw: "length (aid_bytes a) = 32"
    if "derive_fresh_account_id (am_random_account am) v = Inr a" for a v
    using derive_account_id_draw[OF that[unfolded derive_fresh_account_id_def]] assms
    by (auto simp: ambient_ok_def)
  have commit: "keeps tables_inv (op_update (commit_add a (am_random_revision am) now sealed))"
    if "length (aid_bytes a) = 32" for a now sealed
    using that assms by (intro keeps_update) (auto intro: commit_add_inv simp: ambient_ok_def)
  show ?thesis unfolding add_account_def
    by (intro keeps_seq keeps_pure tables_inv_check)
      (rule keeps_bind_try, intro keeps_bind keeps_seq keeps_pure commit keeps_modify
        tables_inv_with_active, auto intro: draw)
qed

lemma commit_append_keeps:
  assumes "ambient_ok am" "live_head i v = Inr p"
  shows "keeps tables_inv (op_update (commit_append a (am_random_revision am) p now sealed t))"
  using assms live_head_length[OF assms(2)]
  by (intro keeps_update) (auto intro: commit_append_inv simp: ambient_ok_def)

lemma tables_inv_update [op_keeps]:
  assumes "ambient_ok am"
  shows "keeps tables_inv (update_account env am i snapshot)"
  unfolding update_account_def
  by (intro keeps_seq keeps_pure tables_inv_check)
    (rule keeps_bind_try, intro keeps_bind keeps_seq keeps_pure commit_append_keeps[OF assms]
      keeps_modify tables_inv_with_active, auto)

lemma tables_inv_delete [op_keeps]:
  assumes "ambient_ok am"
  shows "keeps tables_inv (delete_account env am i)"
  unfolding delete_account_def
  by (intro keeps_seq keeps_pure tables_inv_check)
    (rule keeps_bind_try, intro keeps_bind keeps_seq keeps_pure commit_append_keeps[OF assms]
      keeps_modify tables_inv_with_active, auto)

section \<open>What a successful edit does\<close>

lemma check_session_ok:
  "check_session_freshness now v = (Inr u, v') \<longleftrightarrow> is_session_active now v \<and> v' = v"
  by (auto simp: check_session_freshness_def is_session_active_def split: SessionState.splits)

lemma with_active_modify [simp]:
  "with_active (op_modify f) v = (Inr u, v') \<longleftrightarrow>
     (\<exists>a. v_active v = Some a \<and> v' = v\<lparr>v_active := Some (f a)\<rparr>)"
  by (auto simp: with_active_def op_modify_def split: option.splits)

lemma with_active_index:
  "with_active (on_index m) v = (Inr u, v') \<longleftrightarrow>
     (\<exists>a i'. v_active v = Some a \<and> m (as_search_index a) = (Inr u, i')
        \<and> v' = v\<lparr>v_active := Some (a\<lparr>as_search_index := i'\<rparr>)\<rparr>)"
  by (auto simp: with_active_def on_index_def Let_def split: option.splits prod.splits)

lemma live_head_ok:
  "live_head i v = Inr p \<longleftrightarrow>
     (\<exists>row. find_account v i = Some row \<and> ac_tombstoned row = 0 \<and> ac_head_revision_id row = p
        \<and> length (rid_bytes p) = 32)"
  by (auto simp: live_head_def and_then_Inr rid32_def REVISION_ID_LEN_def split: if_splits)

lemma refuse_if_frozen_ok: "refuse_if_frozen i v = Inr u \<longleftrightarrow> \<not> is_account_frozen v i"
  by (auto simp: refuse_if_frozen_def)

lemma commit_append_ok:
  "commit_append i r p now sealed t v = Inr v' \<longleftrightarrow>
     r \<notin> rv_revision_id ` set (v_revisions v) \<and> i \<in> ac_account_id ` set (v_accounts v)
     \<and> v' = insert_dirty i r now (update_accounts i (\<lambda>x. x\<lparr>ac_head_revision_id := r,
         ac_last_modified_at := now, ac_tombstoned := (if t then 1 else ac_tombstoned x)\<rparr>)
         (v\<lparr>v_revisions := v_revisions v @ [local_revision v i r p (v_wrap_schema_version v) now sealed t]\<rparr>))"
  by (auto simp: commit_append_def and_then_Inr insert_revision_def local_revision_def split: if_splits)

lemma insert_dirty_fields [simp]:
  "v_revisions (insert_dirty a r now v) = v_revisions v"
  "v_accounts (insert_dirty a r now v) = v_accounts v"
  "v_active (insert_dirty a r now v) = v_active v"
  "v_session_state (insert_dirty a r now v) = v_session_state v"
  "v_vault_id (insert_dirty a r now v) = v_vault_id v"
  "dirty_present a r (insert_dirty a r now v)"
  by (auto simp: insert_dirty_def dirty_present_def)

lemma find_account_fields [simp]:
  "find_account (insert_dirty a r now v) i = find_account v i"
  "find_account (v\<lparr>v_revisions := rs\<rparr>) i = find_account v i"
  "find_account (v\<lparr>v_active := act\<rparr>) i = find_account v i"
  "find_account (touch_session t v) i = find_account v i"
  "find_account (maybe_expire_active_session t v) i = find_account v i"
  "find_account (note_dirty_marker_stamped ms v) i = find_account v i"
  by (simp_all add: find_account_def)

lemma find_update_accounts:
  assumes "\<And>r. ac_account_id (f r) = ac_account_id r"
  shows "find_account (update_accounts i f v) j =
    (if j = i then map_option f (find_account v j) else find_account v j)"
proof -
  have "find (\<lambda>r. ac_account_id r = j) (map (\<lambda>r. if ac_account_id r = i then f r else r) xs) =
      (if j = i then map_option f (find (\<lambda>r. ac_account_id r = j) xs)
       else find (\<lambda>r. ac_account_id r = j) xs)" for xs
    using assms by (induction xs) auto
  then show ?thesis by (simp add: find_account_def update_accounts_def)
qed

lemma seal_with_active_ok:
  "seal_with_active seal v = Inr sealed \<longleftrightarrow>
     (\<exists>a. v_active v = Some a \<and> seal (as_vdk a) = Inr sealed)"
  by (auto simp: seal_with_active_def and_then_Inr require_active_def)

lemma aead_seal_ok:
  "aead_seal env key nonce pt aad = Inr sealed \<longleftrightarrow>
     (\<exists>ct. env_seal env key nonce pt aad = Some ct \<and> sealed = (ct, nonce))"
  by (cases "env_seal env key nonce pt aad") (auto simp: aead_seal_def)

lemma touch_session_active [simp]: "v_active (touch_session now v) = v_active v"
  by (auto simp: touch_session_def split: SessionState.splits)

lemma update_account_ok:
  assumes "update_account env am i snapshot v = (Inr r, v')"
  obtains a row ct v1 idx where
    "is_session_active (am_t_check am) v" "v_active v = Some a" "\<not> is_account_frozen v i"
    "find_account v i = Some row" "ac_tombstoned row = 0" "r = am_random_revision am"
    "env_seal env (as_vdk a) (am_random_nonce am) (env_encode_snapshot env snapshot)
       (build_aad (v_vault_id v) i (ac_head_revision_id row) (v_wrap_schema_version v)) = Some ct"
    "commit_append i r (ac_head_revision_id row) (am_now_ms am) (ct, am_random_nonce am) False v = Inr v1"
    "\<exists>a1. v_active v' = Some a1 \<and> as_cache a1 = (as_cache a)(i \<mapsto> snapshot) \<and> as_vdk a1 = as_vdk a"
    "v_revisions v' = v_revisions v1" "v_accounts v' = v_accounts v1" "v_dirty v' = v_dirty v1"
    "v_vault_id v' = v_vault_id v"
proof -
  obtain a row sealed v1 a1 i1 where
    1: "is_session_active (am_t_check am) v" "v_active v = Some a" "\<not> is_account_frozen v i"
      "find_account v i = Some row" "ac_tombstoned row = 0" "r = am_random_revision am"
    and s: "seal_snapshot env (as_vdk a) snapshot
       (build_aad (v_vault_id v) i (ac_head_revision_id row) (v_wrap_schema_version v))
       (am_random_nonce am) = Inr sealed"
    and c: "commit_append i r (ac_head_revision_id row) (am_now_ms am) sealed False v = Inr v1"
    and a1: "v_active (note_dirty_marker_stamped (am_now_ms am) v1) = Some a1"
    and v': "v' = touch_session (am_t_touch am) (note_dirty_marker_stamped (am_now_ms am) v1
        \<lparr>v_active := Some (a1\<lparr>as_search_index := i1,
           as_cache := (as_cache a1)(i \<mapsto> snapshot)\<rparr>)\<rparr>)"
    using assms unfolding update_account_def
    by (auto simp: op_run check_session_ok refuse_if_frozen_ok live_head_ok seal_with_active_ok
        with_active_index require_active_def)
  obtain ct where ct: "env_seal env (as_vdk a) (am_random_nonce am) (env_encode_snapshot env snapshot)
       (build_aad (v_vault_id v) i (ac_head_revision_id row) (v_wrap_schema_version v)) = Some ct"
    "sealed = (ct, am_random_nonce am)"
    using s by (auto simp: seal_snapshot_def aead_seal_ok)
  have v1: "v_active v1 = v_active v" "v_vault_id v1 = v_vault_id v"
    using c by (auto simp: commit_append_ok update_accounts_def)
  then have "as_cache a1 = as_cache a" "as_vdk a1 = as_vdk a"
    using a1 1(2) by (auto simp: note_dirty_marker_stamped_def split: if_splits)
  then have "\<exists>a2. v_active v' = Some a2 \<and> as_cache a2 = (as_cache a)(i \<mapsto> snapshot) \<and> as_vdk a2 = as_vdk a"
    by (simp add: v')
  moreover have "v_revisions v' = v_revisions v1" "v_accounts v' = v_accounts v1" "v_dirty v' = v_dirty v1"
    "v_vault_id v' = v_vault_id v" using v1 by (simp_all add: v')
  ultimately show thesis using that[OF 1 ct(1) c[unfolded ct(2)]] by blast
qed

text \<open>
  C9. A successful account update appends exactly one revision and rewrites none: its parent
  is the previous head, it becomes the head, it is marked for publication, the account stays
  live, and the stored row opens again to the snapshot under the additional data that readers
  rebuild from the row itself. The AEAD is assumed to open what it sealed and the codec to
  decode what it encoded.
\<close>

theorem update_account_appends:
  assumes "update_account env am i snapshot v = (Inr r, v')"
    and "\<And>key nonce pt aad ct. env_seal env key nonce pt aad = Some ct \<Longrightarrow>
      env_open env key nonce ct aad = Some pt"
    and "env_decode_payload env (env_encode_snapshot env snapshot) = Inr (LivePayload snapshot)"
  shows "\<exists>row a old acc'. v_revisions v' = v_revisions v @ [row]
    \<and> r \<notin> rv_revision_id ` set (v_revisions v)
    \<and> rv_revision_id row = r \<and> rv_account_id row = i
    \<and> find_account v i = Some old \<and> rv_parent_revision_id row = ac_head_revision_id old
    \<and> find_account v' i = Some acc' \<and> ac_head_revision_id acc' = r
    \<and> ac_tombstoned acc' = 0 \<and> ac_frozen_pending_resolve acc' = 0
    \<and> dirty_present i r v'
    \<and> v_active v' = Some a \<and> as_cache a i = Some snapshot
    \<and> open_payload env (as_vdk a) (rv_enc_nonce row) (rv_enc_payload row)
        (build_aad (v_vault_id v') i (rv_parent_revision_id row) (word_of_int (rv_schema_version row)))
        = Inr (LivePayload snapshot)"
  using assms(1)
proof (rule update_account_ok)
  fix a old ct v1
  assume 1: "v_active v = Some a" "\<not> is_account_frozen v i" "find_account v i = Some old"
      "ac_tombstoned old = 0"
    and ct: "env_seal env (as_vdk a) (am_random_nonce am) (env_encode_snapshot env snapshot)
       (build_aad (v_vault_id v) i (ac_head_revision_id old) (v_wrap_schema_version v)) = Some ct"
    and c: "commit_append i r (ac_head_revision_id old) (am_now_ms am) (ct, am_random_nonce am) False v = Inr v1"
    and act: "\<exists>a1. v_active v' = Some a1 \<and> as_cache a1 = (as_cache a)(i \<mapsto> snapshot) \<and> as_vdk a1 = as_vdk a"
    and tab: "v_revisions v' = v_revisions v1" "v_accounts v' = v_accounts v1" "v_dirty v' = v_dirty v1"
      "v_vault_id v' = v_vault_id v"
  let ?row = "local_revision v i r (ac_head_revision_id old) (v_wrap_schema_version v) (am_now_ms am)
    (ct, am_random_nonce am) False"
  have v1: "r \<notin> rv_revision_id ` set (v_revisions v)" "v_revisions v1 = v_revisions v @ [?row]"
    "dirty_present i r v1"
    using c by (auto simp: commit_append_ok update_accounts_def)
  have "find_account v' i = find_account v1 i" using tab(2) by (simp add: find_account_def)
  also have "\<dots> = Some (old\<lparr>ac_head_revision_id := r, ac_last_modified_at := am_now_ms am,
      ac_tombstoned := ac_tombstoned old\<rparr>)"
    using c 1(3) by (simp add: commit_append_ok find_update_accounts)
  finally have acc: "find_account v' i = Some (old\<lparr>ac_head_revision_id := r,
      ac_last_modified_at := am_now_ms am, ac_tombstoned := ac_tombstoned old\<rparr>)" .
  have "ac_frozen_pending_resolve old = 0" using 1(2,3) by (simp add: is_account_frozen_def)
  moreover have "dirty_present i r v'" using v1(3) tab(3) by (simp add: dirty_present_def)
  moreover obtain a1 where "v_active v' = Some a1" "as_cache a1 i = Some snapshot" "as_vdk a1 = as_vdk a"
    using act by auto
  moreover have "open_payload env (as_vdk a) (am_random_nonce am) ct
      (build_aad (v_vault_id v) i (ac_head_revision_id old) (v_wrap_schema_version v)) =
      Inr (LivePayload snapshot)"
    using assms(2)[OF ct] assms(3) by (simp add: open_payload_def)
  ultimately show ?thesis using v1 tab acc 1(3,4)
    by (intro exI[of _ ?row] exI[of _ a1] exI[of _ old] exI[of _ "old\<lparr>ac_head_revision_id := r,
      ac_last_modified_at := am_now_ms am, ac_tombstoned := ac_tombstoned old\<rparr>"])
      (simp add: local_revision_def)
qed

section \<open>A concrete vault\<close>

definition example_snapshot :: AccountSnapshot where
  "example_snapshot = \<lparr>sn_display_name = [109, 97, 105, 108], sn_username = [98], sn_password = [112],
     sn_url = [], sn_notes = [], sn_totp_secret = []\<rparr>"

text \<open>A transparent cipher and a codec for the example's own values.\<close>

definition example_env :: VaultEnv where
  "example_env = \<lparr>env_seal = (\<lambda>key nonce pt aad. Some (pt @ [42])),
     env_open = (\<lambda>key nonce ct aad. if ct \<noteq> [] \<and> last ct = 42 then Some (butlast ct) else None),
     env_encode_snapshot = sn_display_name, env_encode_tombstone = (\<lambda>t. 0 # tb_account_id t),
     env_encode_identity = ai_display_name,
     env_decode_payload = (\<lambda>bs. if bs = sn_display_name example_snapshot
       then Inr (LivePayload example_snapshot) else Inl (Cbor ''unknown'')),
     env_decode_identity = (\<lambda>bs. Inr (LiveIdentity \<lparr>ai_display_name = bs, ai_tags = [], ai_notes = [],
       ai_urls = [], ai_usernames = [], ai_password_history = [], ai_totp_secret = [],
       ai_totp_params = TotpParams_default\<rparr>)),
     env_projection_of_snapshot = (\<lambda>s. si_example_projection),
     env_projection_of_identity = (\<lambda>s. si_example_projection),
     env_keccak256 = (\<lambda>bs. take 32 (rev bs @ replicate 32 0))\<rparr>"

definition example_ambient :: Ambient where
  "example_ambient = \<lparr>am_t_check = 2000, am_t_touch = 2001, am_t_inner = 2000, am_t_inner_touch = 2000,
     am_now_ms = 50, am_random_account = (\<lambda>n. AccountId (replicate 32 (of_nat n + 1))),
     am_random_revision = RevisionId (replicate 32 77), am_random_nonce = replicate 24 5\<rparr>"

definition example_account :: AccountId where
  "example_account = AccountId (replicate 32 1)"

definition example_session :: Vault where
  "example_session = fst example_unlocked"

definition example_open :: Vault where
  "example_open = snd (add_account example_env
     (example_ambient\<lparr>am_random_revision := RevisionId (replicate 32 76)\<rparr>) example_snapshot example_session)"

lemma example_open_update:
  "fst (update_account example_env example_ambient example_account example_snapshot example_open)
     = Inr (RevisionId (replicate 32 77))"
  by code_simp

theorem update_account_appends_witness:
  "\<exists>v' row. update_account example_env example_ambient example_account example_snapshot example_open
       = (Inr (RevisionId (replicate 32 77)), v')
     \<and> v_revisions v' = v_revisions example_open @ [row]
     \<and> dirty_present example_account (RevisionId (replicate 32 77)) v'"
proof -
  obtain v' where v': "update_account example_env example_ambient example_account example_snapshot example_open
       = (Inr (RevisionId (replicate 32 77)), v')"
    using example_open_update by (metis prod.exhaust_sel)
  have "env_open example_env key nonce ct aad = Some pt"
    if "env_seal example_env key nonce pt aad = Some ct" for key nonce pt aad ct
    using that by (auto simp: example_env_def)
  moreover have "env_decode_payload example_env (env_encode_snapshot example_env example_snapshot) =
      Inr (LivePayload example_snapshot)" by (simp add: example_env_def)
  ultimately show ?thesis using update_account_appends[OF v'] v' by metis
qed

end
