(* ===== verification/Vault_Forks.thy ===== *)
theory Vault_Forks
  imports Vault_Accounts
begin

text \<open>
  Forks of an account (\<open>crates/pangolin-store/src/vault.rs\<close>, \<open>conflict.rs\<close>): the SQL head
  detector, the decoding of revision rows into graph metadata, fork resolution with its
  transaction, the frozen flag, and conflict reports. The lemmas show that the SQL detector and
  the in-memory graph agree, and that resolving a fork leaves one head.
\<close>

section \<open>Heads by SQL\<close>

definition is_sql_head :: "Vault \<Rightarrow> RevisionRow \<Rightarrow> bool" where
  "is_sql_head v r \<longleftrightarrow> rv_superseded_by r = None \<and> rv_revoked r = 0
     \<and> \<not> (\<exists>r2 \<in> set (v_revisions v). rv_parent_revision_id r2 = rv_revision_id r
            \<and> rv_account_id r2 = rv_account_id r \<and> rv_revoked r2 = 0)"

definition head_rows :: "Vault \<Rightarrow> AccountId \<Rightarrow> RevisionRow list" where
  "head_rows v a = filter (\<lambda>r. rv_account_id r = a \<and> is_sql_head v r) (v_revisions v)"

definition row_key :: "RevisionRow \<Rightarrow> int \<times> RevisionId" where
  "row_key r = (rv_created_at r, rv_revision_id r)"

fun collect_rids :: "string \<Rightarrow> RevisionId list \<Rightarrow> StoreError + RevisionId list" where
  "collect_rids msg [] = Inr []"
| "collect_rids msg (i # is) =
     and_then (rid32 msg i) (\<lambda>r. and_then (collect_rids msg is) (\<lambda>rs. Inr (r # rs)))"

definition account_heads :: "AccountId \<Rightarrow> Vault \<Rightarrow> StoreError + RevisionId list" where
  "account_heads a v =
     and_then (ok_or (find_account v a) AccountNotFound) (\<lambda>_.
       collect_rids ''head revision_id not 32 bytes''
         (map rv_revision_id (sort_key row_key (head_rows v a))))"

text \<open>The same query without \<open>ORDER BY\<close>, inside the transactions that re-check the head.\<close>

definition tx_heads :: "AccountId \<Rightarrow> Vault \<Rightarrow> StoreError + RevisionId list" where
  "tx_heads a v =
     collect_rids ''head revision_id not 32 bytes'' (map rv_revision_id (head_rows v a))"

definition vault_is_forked :: "AccountId \<Rightarrow> Vault \<Rightarrow> StoreError + bool" where
  "vault_is_forked a v = and_then (account_heads a v) (\<lambda>hs. Inr (length hs > 1))"

section \<open>Rows as graph metadata\<close>

definition into_meta :: "RevisionRow \<Rightarrow> StoreError + RevisionMeta" where
  "into_meta r =
     and_then (rid32 ''revision_id not 32 bytes'' (rv_revision_id r)) (\<lambda>rid.
     and_then (rid32 ''parent not 32 bytes'' (rv_parent_revision_id r)) (\<lambda>parent.
     and_then (if length (did_bytes (rv_device_id r)) = 32 then Inr (rv_device_id r)
               else Inl (Corrupted ''device_id not 32 bytes'')) (\<lambda>device.
     and_then (ok_or (u8_try_from (rv_schema_version r)) (Corrupted ''schema_version out of range'')) (\<lambda>schema.
     and_then (case (rv_chain_tx_hash r, rv_chain_block_number r, rv_chain_log_index r) of
         (Some tx, Some b, Some i) \<Rightarrow>
           and_then (ok_or (u64_try_from b) (Corrupted ''chain_block_number is negative'')) (\<lambda>bn.
           and_then (ok_or (u64_try_from i) (Corrupted ''chain_log_index is negative'')) (\<lambda>li.
           if length tx = 32
           then Inr (Some \<lparr>tx_hash = tx, block_number = bn, log_index = li, sequence = 0\<rparr>)
           else Inl (Corrupted ''chain_tx_hash not 32 bytes'')))
       | _ \<Rightarrow> Inr None) (\<lambda>anchor.
     and_then (case rv_superseded_by r of
         None \<Rightarrow> Inr None
       | Some b \<Rightarrow> map_sum id Some (rid32 ''superseded_by not 32 bytes'' b)) (\<lambda>superseded.
     Inr \<lparr>revision_id = rid, parent_revision_id = parent, device_id = device,
          schema_version = schema, created_at = rv_created_at r,
          is_tombstone = (rv_is_tombstone r \<noteq> 0), superseded_by = superseded,
          chain_anchor = anchor\<rparr>))))))"

fun into_metas :: "RevisionRow list \<Rightarrow> StoreError + RevisionMeta list" where
  "into_metas [] = Inr []"
| "into_metas (r # rs) = and_then (into_meta r) (\<lambda>m. and_then (into_metas rs) (\<lambda>ms. Inr (m # ms)))"

definition graph_rows :: "AccountId \<Rightarrow> Vault \<Rightarrow> RevisionRow list" where
  "graph_rows a v =
     sort_key row_key (filter (\<lambda>r. rv_account_id r = a \<and> rv_revoked r = 0) (v_revisions v))"

definition read_revision_rows_for :: "AccountId \<Rightarrow> Vault \<Rightarrow> StoreError + RevisionMeta list" where
  "read_revision_rows_for a v = into_metas (graph_rows a v)"

definition revision_graph :: "AccountId \<Rightarrow> Vault \<Rightarrow> StoreError + RevisionGraph" where
  "revision_graph a v = and_then (read_revision_rows_for a v) build"

definition vault_canonical_head :: "AccountId \<Rightarrow> Vault \<Rightarrow> StoreError + RevisionId" where
  "vault_canonical_head a v =
     and_then (ok_or (find_account v a) AccountNotFound) (\<lambda>_.
     and_then (revision_graph a v) (\<lambda>g.
       ok_or (canonical_head g) (Corrupted ''account has no revisions'')))"

record AccountStatus =
  st_account_id :: AccountId
  st_is_tombstoned :: bool
  st_is_forked :: bool
  st_is_frozen_pending_resolve :: bool
  st_requires_upgrade :: bool

definition account_status :: "AccountId \<Rightarrow> Vault \<Rightarrow> StoreError + AccountStatus" where
  "account_status a v =
     and_then (ok_or (find_account v a) AccountNotFound) (\<lambda>row.
     and_then (account_heads a v) (\<lambda>hs.
     Inr \<lparr>st_account_id = a, st_is_tombstoned = (ac_tombstoned row \<noteq> 0),
          st_is_forked = (length hs > 1),
          st_is_frozen_pending_resolve = (ac_frozen_pending_resolve row \<noteq> 0),
          st_requires_upgrade = account_requires_upgrade v a\<rparr>))"

section \<open>Clearing the frozen flag\<close>

definition clear_frozen_commit :: "AccountId \<Rightarrow> RevisionId \<Rightarrow> int \<Rightarrow> Vault \<Rightarrow> StoreError + Vault" where
  "clear_frozen_commit a chosen now v =
     and_then (ok_or (find_account v a) AccountNotFound) (\<lambda>_.
     and_then (ok_or (find_revision v a chosen) RevisionNotFound) (\<lambda>_.
     and_then (tx_heads a v) (\<lambda>hs.
       if chosen \<notin> set hs then Inl (NotAHead a chosen hs)
       else Inr (update_accounts a (\<lambda>r. r\<lparr>ac_frozen_pending_resolve := 0,
              ac_head_revision_id := chosen, ac_last_modified_at := now\<rparr>) v))))"

definition clear_frozen :: "Ambient \<Rightarrow> AccountId \<Rightarrow> RevisionId \<Rightarrow> unit vault_op" where
  "clear_frozen am a chosen =
     op_seq (op_modify (maybe_expire_active_session (am_t_check am)))
      (op_seq (op_update (clear_frozen_commit a chosen (am_now_ms am)))
        (op_modify (touch_session (am_t_touch am))))"

definition prune_orphan_pending_merges :: "system_time \<Rightarrow> system_time \<Rightarrow> AccountId \<Rightarrow> nat vault_op" where
  "prune_orphan_pending_merges t_expire t_touch a =
     op_seq (op_modify (maybe_expire_active_session t_expire))
      (op_seq (op_try (\<lambda>v. ok_or (find_account v a) AccountNotFound))
       (op_bind (op_try (tx_heads a)) (\<lambda>hs.
        op_bind (op_try (\<lambda>v. collect_rids ''pending_merges.target_head_id not 32 bytes''
            (map pm_target_head_id (filter (\<lambda>p. pm_account_id p = a) (v_pending_merges v))))) (\<lambda>targets.
        let to_delete = filter (\<lambda>t. t \<notin> set hs) targets
        in op_seq (op_modify (\<lambda>v. v\<lparr>v_pending_merges := filter (\<lambda>p. \<not> (pm_account_id p = a
               \<and> pm_target_head_id p \<in> set to_delete)) (v_pending_merges v)\<rparr>))
            (op_seq (op_modify (touch_session t_touch)) (op_ret (length to_delete)))))))"

section \<open>Resolving a fork\<close>

fun with_revision_context :: "AccountId \<Rightarrow> RevisionId \<Rightarrow> StoreError \<Rightarrow> StoreError" where
  "with_revision_context a r (UnsupportedRevisionSchemaVersion _ _ found supported) =
     UnsupportedRevisionSchemaVersion a r found supported"
| "with_revision_context a r e = e"

definition read_identity_at :: "VaultEnv \<Rightarrow> AccountId \<Rightarrow> RevisionId \<Rightarrow> Vault \<Rightarrow> StoreError + AccountIdentity" where
  "read_identity_at env a r v =
     and_then (ok_or (find_revision v a r) RevisionNotFound) (\<lambda>row.
     and_then (rid32 ''parent_revision_id not 32 bytes'' (rv_parent_revision_id row)) (\<lambda>parent.
     and_then (if length (rv_enc_nonce row) = NONCE_LEN then Inr (rv_enc_nonce row)
               else Inl (Corrupted ''enc_nonce length mismatch'')) (\<lambda>nonce.
     and_then (ok_or (u8_try_from (rv_schema_version row))
       (Corrupted ''revisions.schema_version out of u8 range'')) (\<lambda>schema.
     and_then (require_active v) (\<lambda>active.
     and_then (map_sum (with_revision_context a r) id
       (open_identity_payload env (as_vdk active) nonce (rv_enc_payload row)
         (build_aad (v_vault_id v) a parent schema))) (\<lambda>decoded.
     if schema > REVISION_SCHEMA_VERSION_MAX
     then Inl (UnsupportedRevisionSchemaVersion a r (ucast schema) (ucast REVISION_SCHEMA_VERSION_MAX))
     else case decoded of
         LiveIdentity ident \<Rightarrow> Inr ident
       | TombIdentity _ \<Rightarrow> Inl AccountTombstoned))))))"

definition resolve_fork_validate :: "AccountId \<Rightarrow> RevisionId \<Rightarrow> Vault \<Rightarrow> StoreError + u8 \<times> bool" where
  "resolve_fork_validate a keep v =
     and_then (ok_or (find_account v a) AccountNotFound) (\<lambda>row.
     if ac_tombstoned row \<noteq> 0 then Inl AccountTombstoned
     else and_then (ok_or (find_revision v a keep) AccountNotFound) (\<lambda>chosen.
     and_then (ok_or (u8_try_from (rv_schema_version chosen))
       (Corrupted ''revisions.schema_version out of u8 range'')) (\<lambda>schema.
     and_then (account_heads a v) (\<lambda>hs.
     if length hs \<le> 1 then Inl (Validation ''not-forked'' ''account is not forked; nothing to resolve'')
     else if keep \<notin> set hs then Inl (NotAHead a keep hs)
     else Inr (schema, rv_is_tombstone chosen \<noteq> 0)))))"

definition supersede :: "AccountId \<Rightarrow> RevisionId \<Rightarrow> RevisionId \<Rightarrow> Vault \<Rightarrow> Vault" where
  "supersede a merge losing v =
     update_revisions (\<lambda>r. rv_account_id r = a \<and> rv_revision_id r = losing)
       (\<lambda>r. r\<lparr>rv_superseded_by := Some merge\<rparr>) v"

definition resolve_fork_commit :: "AccountId \<Rightarrow> RevisionId \<Rightarrow> RevisionId \<Rightarrow> u8 \<Rightarrow> int \<Rightarrow> bytes \<times> bytes
    \<Rightarrow> bool \<Rightarrow> Vault \<Rightarrow> StoreError + Vault" where
  "resolve_fork_commit a keep merge schema now sealed tombstone v =
     and_then (tx_heads a v) (\<lambda>hs.
     if keep \<notin> set hs then Inl (NotAHead a keep hs)
     else and_then (insert_revision (local_revision v a merge keep schema now sealed tombstone)
         (fold (supersede a merge) (filter (\<lambda>h. h \<noteq> keep) hs) v)) (\<lambda>v1.
       Inr (insert_dirty a merge now
         (update_accounts a (\<lambda>r. r\<lparr>ac_head_revision_id := merge, ac_last_modified_at := now,
            ac_frozen_pending_resolve := 0, ac_tombstoned := (if tombstone then 1 else 0)\<rparr>) v1))))"

definition resolve_fork_sync_cache :: "VaultEnv \<Rightarrow> AccountId \<Rightarrow> RevisionId \<Rightarrow> int \<Rightarrow> bool \<Rightarrow> Vault \<Rightarrow> Vault" where
  "resolve_fork_sync_cache env a merge now tombstone v =
     (if tombstone
      then v\<lparr>v_active := map_option (\<lambda>s. s\<lparr>as_cache := (as_cache s)(a := None),
             as_search_index := snd (si_remove a (as_search_index s))\<rparr>) (v_active v)\<rparr>
      else case read_identity_at env a merge v of
          Inl _ \<Rightarrow> v
        | Inr ident \<Rightarrow>
            v\<lparr>v_active := map_option (\<lambda>s. s\<lparr>
                as_search_index := snd (si_update a now (env_projection_of_identity env ident)
                  (as_search_index s)),
                as_cache := (as_cache s)(a \<mapsto> downgrade_identity_to_snapshot ident)\<rparr>) (v_active v)\<rparr>)"

definition seal_merge :: "VaultEnv \<Rightarrow> Ambient \<Rightarrow> AccountId \<Rightarrow> RevisionId \<Rightarrow> u8 \<Rightarrow> bool \<Rightarrow> Vault
    \<Rightarrow> StoreError + bytes \<times> bytes" where
  "seal_merge env am a keep schema tombstone v =
     (let aad = build_aad (v_vault_id v) a keep schema
      in if tombstone
         then (case read_identity_at env a keep v of
                 Inl AccountTombstoned \<Rightarrow>
                   seal_with_active (\<lambda>key. seal_tombstone env key aad
                     (TombstonePayload_new a (u64_or_zero (am_now_ms am))) (am_random_nonce am)) v
               | Inl e \<Rightarrow> Inl e
               | Inr _ \<Rightarrow> Inl AuthenticationFailed)
         else and_then (read_identity_at env a keep v) (\<lambda>ident.
                seal_with_active (\<lambda>key. seal_identity env key ident aad (am_random_nonce am)) v))"

definition resolve_fork :: "VaultEnv \<Rightarrow> Ambient \<Rightarrow> AccountId \<Rightarrow> RevisionId \<Rightarrow> RevisionId vault_op" where
  "resolve_fork env am a keep =
     op_seq (check_session_freshness (am_t_check am))
      (op_seq (op_try require_active)
       (op_bind (op_try (resolve_fork_validate a keep)) (\<lambda>(schema, tombstone).
        op_bind (op_try (seal_merge env am a keep schema tombstone)) (\<lambda>sealed.
        op_seq (op_update (resolve_fork_commit a keep (am_random_revision am) schema (am_now_ms am)
            sealed tombstone))
         (op_seq (op_modify (note_dirty_marker_stamped (am_now_ms am)))
          (op_seq (op_ignore (prune_orphan_pending_merges (am_t_inner am) (am_t_inner_touch am) a))
           (op_seq (op_modify (resolve_fork_sync_cache env a (am_random_revision am) (am_now_ms am) tombstone))
            (op_seq (op_modify (touch_session (am_t_touch am)))
              (op_ret (am_random_revision am))))))))))"

section \<open>Conflict reports\<close>

record ConflictBranchSummary =
  cb_revision_id :: RevisionId
  cb_parent :: "RevisionId option"
  cb_device_id :: bytes
  cb_observed_at_block :: "u64 option"
  cb_schema_version :: u32
  cb_is_tombstone :: bool
  cb_on_canonical_chain :: bool

record ConflictReport =
  cr_account_id :: AccountId
  cr_branches :: "ConflictBranchSummary list"
  cr_frozen :: bool

record ConflictSnapshot =
  sn_frozen :: "AccountId set"
  sn_forked :: "AccountId set"

record ConflictDelta =
  cd_added_frozen :: "AccountId set"
  cd_removed_frozen :: "AccountId set"
  cd_added_forked :: "AccountId set"
  cd_removed_forked :: "AccountId set"

text \<open>
  \<open>GROUP BY account_id HAVING COUNT(*) > 1\<close>: the distinct accounts of the head rows that occur
  more than once, in order.
\<close>

definition all_forked_accounts :: "Vault \<Rightarrow> StoreError + AccountId list" where
  "all_forked_accounts v =
     (let accounts = map rv_account_id (filter (is_sql_head v) (v_revisions v))
      in collect_ids ''account_id not 32 bytes''
           (sort (filter (\<lambda>a. count_list accounts a > 1) (remdups accounts))))"

definition read_observed_at_block :: "AccountId \<Rightarrow> RevisionId \<Rightarrow> Vault \<Rightarrow> StoreError + u64 option" where
  "read_observed_at_block a r v =
     (case find_revision v a r of
        None \<Rightarrow> Inr None
      | Some row \<Rightarrow>
          (case (case rv_observed_at_block row of None \<Rightarrow> rv_chain_block_number row | Some b \<Rightarrow> Some b) of
             None \<Rightarrow> Inr None
           | Some b \<Rightarrow> map_sum id Some (ok_or (u64_try_from b) (Corrupted ''observed_at_block is negative''))))"

text \<open>
  The walk of \<open>ancestors\<close> ends on every graph that \<open>build\<close> returned; only such graphs reach
  this definition.
\<close>

definition branch_on_canonical_chain :: "RevisionGraph \<Rightarrow> RevisionId \<Rightarrow> bool" where
  "branch_on_canonical_chain g h =
     (case canonical_head g of
        None \<Rightarrow> False
      | Some c \<Rightarrow> h = c \<or> (case ancestors g c of None \<Rightarrow> False | Some chain \<Rightarrow> h \<in> set chain))"

definition branch_summary :: "AccountId \<Rightarrow> RevisionGraph \<Rightarrow> Vault \<Rightarrow> RevisionId
    \<Rightarrow> StoreError + ConflictBranchSummary" where
  "branch_summary a g v h =
     and_then (ok_or (get g h) (Corrupted ''head revision_id missing from graph index'')) (\<lambda>meta.
     and_then (read_observed_at_block a h v) (\<lambda>obs.
     Inr \<lparr>cb_revision_id = h,
          cb_parent = (if parent_revision_id meta = GENESIS_PARENT then None
                       else Some (parent_revision_id meta)),
          cb_device_id = did_bytes (device_id meta), cb_observed_at_block = obs,
          cb_schema_version = ucast (schema_version meta), cb_is_tombstone = is_tombstone meta,
          cb_on_canonical_chain = branch_on_canonical_chain g h\<rparr>))"

definition conflict_report :: "Vault \<Rightarrow> AccountId set \<Rightarrow> AccountId \<Rightarrow> StoreError + ConflictReport" where
  "conflict_report v frozen a =
     and_then (revision_graph a v) (\<lambda>g.
     and_then (collect_results (branch_summary a g v) (sort (heads g))) (\<lambda>branches.
     Inr \<lparr>cr_account_id = a, cr_branches = branches, cr_frozen = (a \<in> frozen)\<rparr>))"

definition list_conflicts :: "Vault \<Rightarrow> StoreError + ConflictReport list" where
  "list_conflicts v =
     and_then (all_forked_accounts v) (\<lambda>forked.
     and_then (list_frozen_accounts v) (\<lambda>frozen.
     collect_results (conflict_report v (set frozen)) (sort (remdups (forked @ frozen)))))"

definition snapshot_conflicts :: "Vault \<Rightarrow> StoreError + ConflictSnapshot" where
  "snapshot_conflicts v =
     and_then (list_frozen_accounts v) (\<lambda>frozen.
     and_then (all_forked_accounts v) (\<lambda>forked.
     Inr \<lparr>sn_frozen = set frozen, sn_forked = set forked\<rparr>))"

definition diff_conflict_snapshots :: "ConflictSnapshot \<Rightarrow> ConflictSnapshot \<Rightarrow> ConflictDelta" where
  "diff_conflict_snapshots prior current =
     \<lparr>cd_added_frozen = sn_frozen current - sn_frozen prior,
      cd_removed_frozen = sn_frozen prior - sn_frozen current,
      cd_added_forked = sn_forked current - sn_forked prior,
      cd_removed_forked = sn_forked prior - sn_forked current\<rparr>"

definition list_conflicts_since :: "ConflictSnapshot \<Rightarrow> Vault \<Rightarrow> StoreError + ConflictDelta" where
  "list_conflicts_since prior v =
     and_then (snapshot_conflicts v) (\<lambda>current. Inr (diff_conflict_snapshots prior current))"

section \<open>Decoding never fails on well-formed tables\<close>

lemma collect_rids_ok: "collect_rids msg is = Inr rs \<longleftrightarrow> rs = is \<and> (\<forall>i \<in> set is. length (rid_bytes i) = 32)"
  by (induction "is" arbitrary: rs) (auto simp: and_then_Inr rid32_def REVISION_ID_LEN_def)

lemma collect_ids_ok: "collect_ids msg is = Inr rs \<longleftrightarrow> rs = is \<and> (\<forall>i \<in> set is. length (aid_bytes i) = 32)"
  by (induction "is" arbitrary: rs) (auto simp: and_then_Inr aid32_def)

lemma tables_row_ok: "tables_inv v \<Longrightarrow> r \<in> set (v_revisions v) \<Longrightarrow> row_ok r"
  by (simp add: tables_inv_def list_all_iff)

definition meta_of :: "RevisionRow \<Rightarrow> RevisionMeta" where
  "meta_of r = \<lparr>revision_id = rv_revision_id r, parent_revision_id = rv_parent_revision_id r,
     device_id = rv_device_id r, schema_version = word_of_int (rv_schema_version r),
     created_at = rv_created_at r, is_tombstone = (rv_is_tombstone r \<noteq> 0),
     superseded_by = rv_superseded_by r,
     chain_anchor = (case (rv_chain_tx_hash r, rv_chain_block_number r, rv_chain_log_index r) of
         (Some h, Some b, Some l) \<Rightarrow> Some \<lparr>tx_hash = h, block_number = word_of_int b,
            log_index = word_of_int l, sequence = 0\<rparr>
       | _ \<Rightarrow> None)\<rparr>"

lemma into_meta_ok: "row_ok r \<Longrightarrow> into_meta r = Inr (meta_of r)"
  by (auto simp: row_ok_def into_meta_def meta_of_def rid32_def REVISION_ID_LEN_def u8_try_from_def
      u64_try_from_def split: option.splits)

lemma into_metas_ok: "\<forall>r \<in> set rs. row_ok r \<Longrightarrow> into_metas rs = Inr (map meta_of rs)"
  by (induction rs) (simp_all add: into_meta_ok)

lemma set_graph_rows:
  "set (graph_rows a v) = {r \<in> set (v_revisions v). rv_account_id r = a \<and> rv_revoked r = 0}"
  by (auto simp: graph_rows_def)

lemma read_rows_ok:
  "tables_inv v \<Longrightarrow> read_revision_rows_for a v = Inr (map meta_of (graph_rows a v))"
  unfolding read_revision_rows_for_def
  by (rule into_metas_ok) (auto simp: set_graph_rows tables_row_ok)

lemma account_heads_ok:
  "tables_inv v \<Longrightarrow> account_heads a v =
     (if find_account v a = None then Inl AccountNotFound
      else Inr (map rv_revision_id (sort_key row_key (head_rows v a))))"
proof -
  assume inv: "tables_inv v"
  have "collect_rids msg (map rv_revision_id (sort_key row_key (head_rows v a))) =
      Inr (map rv_revision_id (sort_key row_key (head_rows v a)))" for msg
    using inv by (subst collect_rids_ok) (auto simp: head_rows_def row_ok_def dest: tables_row_ok)
  then show ?thesis by (auto simp: account_heads_def)
qed

lemma tx_heads_ok: "tables_inv v \<Longrightarrow> tx_heads a v = Inr (map rv_revision_id (head_rows v a))"
  unfolding tx_heads_def
  by (subst collect_rids_ok) (auto simp: head_rows_def row_ok_def dest: tables_row_ok)

section \<open>The SQL detector and the graph agree\<close>

lemma insort_key_map: "insort_key f (g x) (map g xs) = map g (insort_key (\<lambda>a. f (g a)) x xs)"
  by (induction xs) simp_all

lemma sort_key_map: "sort_key f (map g xs) = map g (sort_key (\<lambda>a. f (g a)) xs)"
  by (induction xs) (simp_all add: insort_key_map)

lemma sort_key_sorted: "sorted (map k xs) \<Longrightarrow> sort_key k xs = xs"
  by (induction xs) (simp_all add: insort_is_Cons)

lemma sort_key_idem: "sort_key k (sort_key k xs) = sort_key k xs"
  by (simp add: sort_key_sorted)

lemma order_key_meta: "(\<lambda>r. order_key (meta_of r)) = row_key"
  by (auto simp: order_key_def meta_of_def row_key_def)

lemma meta_of_fields [simp]:
  "revision_id (meta_of r) = rv_revision_id r" "parent_revision_id (meta_of r) = rv_parent_revision_id r"
  "superseded_by (meta_of r) = rv_superseded_by r"
  by (simp_all add: meta_of_def)

lemma graph_is_head:
  assumes "r \<in> set (graph_rows a v)" and "rv_revision_id r \<noteq> GENESIS_PARENT"
  shows "is_head (map meta_of (graph_rows a v)) (meta_of r) \<longleftrightarrow> is_sql_head v r"
proof -
  let ?rows = "map meta_of (graph_rows a v)"
  have "(\<exists>c. (c, rv_revision_id r) \<in> parent_edges ?rows) \<longleftrightarrow>
      (\<exists>r2 \<in> set (graph_rows a v). rv_parent_revision_id r2 = rv_revision_id r)"
  proof
    assume "\<exists>r2 \<in> set (graph_rows a v). rv_parent_revision_id r2 = rv_revision_id r"
    then obtain r2 where r2: "r2 \<in> set (graph_rows a v)" "rv_parent_revision_id r2 = rv_revision_id r" ..
    then have "\<not> is_root ?rows (meta_of r2)"
      using assms by (auto simp: is_root_def row_index_None image_image)
    then show "\<exists>c. (c, rv_revision_id r) \<in> parent_edges ?rows"
      using r2 by (auto simp: parent_edges_def intro!: exI[of _ "meta_of r2"])
  qed (auto simp: parent_edges_def)
  then show ?thesis using assms(1) by (auto simp: is_head_def is_sql_head_def set_graph_rows)
qed

lemma graph_heads:
  assumes "tables_inv v" "revision_graph a v = Inr g"
    and "\<forall>r \<in> set (v_revisions v). rv_revision_id r \<noteq> GENESIS_PARENT"
  shows "heads g = map rv_revision_id (sort_key row_key (head_rows v a))"
proof -
  let ?rows = "map meta_of (graph_rows a v)"
  have b: "build ?rows = Inr g" using assms by (simp add: revision_graph_def read_rows_ok)
  have sel: "filter (is_head ?rows \<circ> meta_of) (graph_rows a v) = filter (is_sql_head v) (graph_rows a v)"
    using assms(3) by (intro filter_cong refl) (auto simp: set_graph_rows intro!: graph_is_head)
  have "heads g = map revision_id (sort_key order_key (map meta_of (filter (is_sql_head v) (graph_rows a v))))"
    using build_graph(7)[OF b] sel by (simp add: filter_map)
  also have "\<dots> = map rv_revision_id (sort_key row_key (filter (is_sql_head v) (graph_rows a v)))"
    by (simp add: sort_key_map order_key_meta)
  also have "filter (is_sql_head v) (graph_rows a v) = sort_key row_key (head_rows v a)"
    unfolding graph_rows_def head_rows_def
    by (simp add: filter_sort) (metis (no_types, lifting) is_sql_head_def)
  finally show ?thesis by (simp add: sort_key_idem)
qed

text \<open>
  C19. The head detector written in SQL and the in-memory revision graph agree: for an existing
  account whose graph builds, the ordered SQL heads are the graph's heads, so both report the
  same forks and the canonical head is the largest SQL head.
\<close>

theorem sql_heads_agree_with_graph:
  assumes "tables_inv v" and "find_account v a \<noteq> None" and "revision_graph a v = Inr g"
    and "\<forall>r \<in> set (v_revisions v). rv_revision_id r \<noteq> GENESIS_PARENT"
  shows "account_heads a v = Inr (heads g)
    \<and> vault_is_forked a v = Inr (is_forked g)
    \<and> (heads g \<noteq> [] \<longrightarrow> vault_canonical_head a v = Inr (Max (set (heads g))))"
proof -
  have h: "account_heads a v = Inr (heads g)"
    using account_heads_ok[OF assms(1)] graph_heads[OF assms(1,3,4)] assms(2) by simp
  moreover have "vault_canonical_head a v = Inr (Max (set (heads g)))" if "heads g \<noteq> []"
    using assms(2,3) that by (auto simp: vault_canonical_head_def canonical_head_def)
  ultimately show ?thesis by (simp add: vault_is_forked_def is_forked_def)
qed

section \<open>Resolving a fork leaves one head\<close>

definition superseding :: "AccountId \<Rightarrow> RevisionId \<Rightarrow> RevisionId set \<Rightarrow> RevisionRow \<Rightarrow> RevisionRow" where
  "superseding a merge losing r =
     (if rv_account_id r = a \<and> rv_revision_id r \<in> losing then r\<lparr>rv_superseded_by := Some merge\<rparr> else r)"

lemma superseding_fields [simp]:
  "rv_account_id (superseding a m L r) = rv_account_id r"
  "rv_revision_id (superseding a m L r) = rv_revision_id r"
  "rv_parent_revision_id (superseding a m L r) = rv_parent_revision_id r"
  "rv_revoked (superseding a m L r) = rv_revoked r"
  by (simp_all add: superseding_def)

lemma superseding_head:
  "rv_superseded_by (superseding a m L r) = None \<longleftrightarrow>
     rv_superseded_by r = None \<and> \<not> (rv_account_id r = a \<and> rv_revision_id r \<in> L)"
  by (auto simp: superseding_def)

lemma superseding_ids:
  "rv_revision_id ` set (map (superseding a m L) rs) = rv_revision_id ` set rs"
  by (auto simp: image_image)

lemma fold_supersede:
  "fold (supersede a merge) hs v =
     v\<lparr>v_revisions := map (superseding a merge (set hs)) (v_revisions v)\<rparr>"
proof (induction hs arbitrary: v)
  case Nil
  have "superseding a merge {} = id" by (auto simp: superseding_def)
  then show ?case by simp
next
  case (Cons h hs)
  have "superseding a merge (set hs) (if rv_account_id r = a \<and> rv_revision_id r = h
      then r\<lparr>rv_superseded_by := Some merge\<rparr> else r) = superseding a merge (set (h # hs)) r" for r
    by (auto simp: superseding_def)
  then show ?case using Cons[of "supersede a merge h v"]
    by (simp add: supersede_def update_revisions_def comp_def)
qed

lemma resolve_commit_ok:
  assumes "tables_inv v" "resolve_fork_commit a keep merge schema now sealed t v = Inr v'"
  defines "row \<equiv> local_revision v a merge keep schema now sealed t"
    and "losing \<equiv> rv_revision_id ` set (head_rows v a) - {keep}"
  shows "keep \<in> rv_revision_id ` set (head_rows v a)"
    and "merge \<notin> rv_revision_id ` set (v_revisions v)"
    and "v_revisions v' = map (superseding a merge losing) (v_revisions v) @ [row]"
    and "v_accounts v' = v_accounts (update_accounts a (\<lambda>r. r\<lparr>ac_head_revision_id := merge,
      ac_last_modified_at := now, ac_frozen_pending_resolve := 0,
      ac_tombstoned := (if t then 1 else 0)\<rparr>) v)"
    and "dirty_present a merge v'" and "v_device_id v' = v_device_id v"
proof -
  let ?hs = "map rv_revision_id (head_rows v a)"
  let ?v0 = "v\<lparr>v_revisions := map (superseding a merge losing) (v_revisions v)\<rparr>"
  have losing: "set (filter (\<lambda>h. h \<noteq> keep) ?hs) = losing" by (auto simp: losing_def)
  obtain v1 where k: "keep \<in> set ?hs"
    and ins: "insert_revision row (fold (supersede a merge) (filter (\<lambda>h. h \<noteq> keep) ?hs) v) = Inr v1"
    and v': "v' = insert_dirty a merge now (update_accounts a (\<lambda>r. r\<lparr>ac_head_revision_id := merge,
      ac_last_modified_at := now, ac_frozen_pending_resolve := 0,
      ac_tombstoned := (if t then 1 else 0)\<rparr>) v1)"
    using assms(2) tx_heads_ok[OF assms(1), of a]
    by (auto simp: resolve_fork_commit_def row_def and_then_Inr split: if_splits)
  show "keep \<in> rv_revision_id ` set (head_rows v a)" using k by simp
  have ins': "insert_revision row ?v0 = Inr v1" using ins unfolding fold_supersede losing .
  then have v1: "v1 = ?v0\<lparr>v_revisions := v_revisions ?v0 @ [row]\<rparr>"
    "rv_revision_id row \<notin> rv_revision_id ` set (v_revisions ?v0)"
    by (auto simp: insert_revision_def split: if_splits)
  then show "merge \<notin> rv_revision_id ` set (v_revisions v)"
    using superseding_ids[of a merge losing "v_revisions v"]
    by (simp add: row_def local_revision_def del: set_map)
  show "v_revisions v' = map (superseding a merge losing) (v_revisions v) @ [row]"
    by (simp add: v' v1 update_accounts_def)
  show "v_accounts v' = v_accounts (update_accounts a (\<lambda>r. r\<lparr>ac_head_revision_id := merge,
      ac_last_modified_at := now, ac_frozen_pending_resolve := 0,
      ac_tombstoned := (if t then 1 else 0)\<rparr>) v)"
    by (simp add: v' v1 update_accounts_def)
  show "dirty_present a merge v'" "v_device_id v' = v_device_id v"
    by (simp_all add: v') (simp add: v1 update_accounts_def insert_dirty_def)
qed

lemma resolved_heads:
  assumes rows: "v_revisions v' = map (superseding a merge losing) (v_revisions v) @ [row]"
    and row: "rv_revision_id row = merge" "rv_account_id row = a" "rv_parent_revision_id row = keep"
      "rv_superseded_by row = None" "rv_revoked row = 0"
    and losing: "losing = rv_revision_id ` set (head_rows v a) - {keep}"
    and fresh: "merge \<noteq> keep" "\<forall>r \<in> set (v_revisions v). rv_parent_revision_id r \<noteq> merge"
  shows "head_rows v' a = [row]"
proof -
  have "is_sql_head v' row" using rows row fresh by (auto simp: is_sql_head_def)
  moreover have "\<not> is_sql_head v' (superseding a merge losing r)"
    if r: "r \<in> set (v_revisions v)" "rv_account_id r = a" for r
  proof (cases "is_sql_head v r")
    case True
    then have "rv_revision_id r \<in> losing \<or> rv_revision_id r = keep"
      using r losing by (auto simp: head_rows_def)
    then show ?thesis using rows row r(2) by (auto simp: is_sql_head_def superseding_head)
  next
    case False
    then consider "rv_superseded_by r \<noteq> None" | "rv_revoked r \<noteq> 0"
      | r2 where "r2 \<in> set (v_revisions v)" "rv_parent_revision_id r2 = rv_revision_id r"
        "rv_account_id r2 = rv_account_id r" "rv_revoked r2 = 0"
      by (auto simp: is_sql_head_def)
    then show ?thesis
    proof cases
      case (3 r2)
      then have "superseding a merge losing r2 \<in> set (v_revisions v')" using rows by auto
      then show ?thesis unfolding is_sql_head_def using 3 by (metis superseding_fields)
    qed (auto simp: is_sql_head_def superseding_head)
  qed
  ultimately show ?thesis using row(2)
    by (auto simp: head_rows_def rows filter_empty_conv)
qed

lemma tables_inv_resolve_commit:
  assumes "tables_inv v" "resolve_fork_commit a keep merge schema now sealed t v = Inr v'"
    and "length (rid_bytes merge) = 32"
  shows "tables_inv v'"
proof -
  note ok = resolve_commit_ok[OF assms(1,2)]
  obtain hs v1 where hs: "tx_heads a v = Inr hs" "keep \<in> set hs"
    and 1: "insert_revision (local_revision v a merge keep schema now sealed t)
        (fold (supersede a merge) (filter (\<lambda>h. h \<noteq> keep) hs) v) = Inr v1"
    and v': "v' = insert_dirty a merge now (update_accounts a (\<lambda>r. r\<lparr>ac_head_revision_id := merge,
      ac_last_modified_at := now, ac_frozen_pending_resolve := 0,
      ac_tombstoned := (if t then 1 else 0)\<rparr>) v1)"
    using assms(2) by (auto simp: resolve_fork_commit_def and_then_Inr split: if_splits)
  have sup: "tables_inv (fold (supersede a merge) L v)" for L
    using assms(1)
  proof (induction L arbitrary: v)
    case (Cons h L)
    have "tables_inv (supersede a merge h v)"
      unfolding supersede_def using assms(3) Cons.prems
      by (intro tables_inv_update_revisions) (auto simp: row_ok_def split: option.splits)
    then show ?case using Cons.IH by simp
  qed simp
  have keep: "length (rid_bytes keep) = 32"
    using ok(1) tables_row_ok[OF assms(1)] by (auto simp: head_rows_def row_ok_def)
  have "tables_inv v1"
    by (rule tables_inv_insert_revision[OF 1 sup]) (intro local_revision_ok assms keep)
  then show ?thesis unfolding v'
    by (intro tables_inv_insert_dirty tables_inv_update_accounts) (auto simp: account_ok_def assms(3))
qed

lemma read_only_tables [simp]:
  "v_revisions (resolve_fork_sync_cache env a m now t v) = v_revisions v"
  "v_accounts (resolve_fork_sync_cache env a m now t v) = v_accounts v"
  "v_dirty (resolve_fork_sync_cache env a m now t v) = v_dirty v"
  "v_device_id (resolve_fork_sync_cache env a m now t v) = v_device_id v"
  by (auto simp: resolve_fork_sync_cache_def split: sum.splits)

lemma prune_tables:
  "keeps (\<lambda>v. v_revisions v = rs \<and> v_accounts v = as \<and> v_dirty v = ds \<and> v_device_id v = dev)
     (prune_orphan_pending_merges t1 t2 a)"
  unfolding prune_orphan_pending_merges_def Let_def
  by (intro keeps_seq keeps_bind keeps_pure keeps_modify) simp_all

lemma prune_run:
  "v_revisions (snd (prune_orphan_pending_merges t1 t2 a v)) = v_revisions v"
  "v_accounts (snd (prune_orphan_pending_merges t1 t2 a v)) = v_accounts v"
  "v_dirty (snd (prune_orphan_pending_merges t1 t2 a v)) = v_dirty v"
  "v_device_id (snd (prune_orphan_pending_merges t1 t2 a v)) = v_device_id v"
  using prune_tables[of "v_revisions v" "v_accounts v" "v_dirty v" "v_device_id v" t1 t2 a]
  by (auto simp: keeps_def)

lemma tables_inv_eq:
  "v_revisions v = v_revisions w \<Longrightarrow> v_accounts v = v_accounts w \<Longrightarrow> v_dirty v = v_dirty w
    \<Longrightarrow> v_device_id v = v_device_id w \<Longrightarrow> tables_inv v \<longleftrightarrow> tables_inv w"
  by (simp add: tables_inv_def)

lemma resolve_fork_ok:
  assumes "resolve_fork env am a keep v = (Inr m, v')"
  obtains schema t sealed v1 where "m = am_random_revision am"
    "resolve_fork_validate a keep v = Inr (schema, t)"
    "resolve_fork_commit a keep m schema (am_now_ms am) sealed t v = Inr v1"
    "v_revisions v' = v_revisions v1" "v_accounts v' = v_accounts v1" "v_dirty v' = v_dirty v1"
    "v_device_id v' = v_device_id v1"
  using assms unfolding resolve_fork_def
  by (auto simp: op_run check_session_ok prune_run split: prod.splits)

lemma validate_ok:
  "resolve_fork_validate a keep v = Inr (schema, t) \<Longrightarrow>
     \<exists>row hs. find_account v a = Some row \<and> ac_tombstoned row = 0
       \<and> account_heads a v = Inr hs \<and> length hs > 1 \<and> keep \<in> set hs"
  by (auto simp: resolve_fork_validate_def and_then_Inr split: if_splits)

text \<open>
  C10. Resolving a fork: it succeeds only on a live account with several heads, the kept one
  among them; afterwards the account has exactly one head, the merge revision, parented at the
  kept leaf; the account is unfrozen and points at the merge, which is queued for publication;
  and no revision is rewritten except that each losing head records the merge as superseding
  it. The merge identifier is assumed to be unmentioned by existing rows.
\<close>

theorem resolve_fork_single_head:
  assumes "tables_inv v" and "ambient_ok am"
    and "resolve_fork env am a keep v = (Inr m, v')"
    and "\<forall>r \<in> set (v_revisions v). rv_parent_revision_id r \<noteq> am_random_revision am"
  shows "\<exists>hs row acc. account_heads a v = Inr hs \<and> length hs > 1 \<and> keep \<in> set hs
    \<and> account_heads a v' = Inr [m] \<and> vault_is_forked a v' = Inr False
    \<and> v_revisions v' = map (superseding a m (set hs - {keep})) (v_revisions v) @ [row]
    \<and> rv_revision_id row = m \<and> rv_account_id row = a \<and> rv_parent_revision_id row = keep
    \<and> find_account v' a = Some acc \<and> ac_head_revision_id acc = m
    \<and> ac_frozen_pending_resolve acc = 0 \<and> dirty_present a m v' \<and> tables_inv v'"
proof -
  obtain schema t sealed v1 where m: "m = am_random_revision am"
    and val: "resolve_fork_validate a keep v = Inr (schema, t)"
    and c: "resolve_fork_commit a keep m schema (am_now_ms am) sealed t v = Inr v1"
    and tab: "v_revisions v' = v_revisions v1" "v_accounts v' = v_accounts v1" "v_dirty v' = v_dirty v1"
      "v_device_id v' = v_device_id v1"
    using resolve_fork_ok[OF assms(3)] .
  note ok = resolve_commit_ok[OF assms(1) c]
  let ?row = "local_revision v a m keep schema (am_now_ms am) sealed t"
  let ?L = "rv_revision_id ` set (head_rows v a) - {keep}"
  obtain row0 hs where old: "find_account v a = Some row0" "account_heads a v = Inr hs" "length hs > 1"
    "keep \<in> set hs" using validate_ok[OF val] by blast
  have hs: "set hs = rv_revision_id ` set (head_rows v a)"
    using old(1,2) account_heads_ok[OF assms(1), of a] by auto
  have "m \<noteq> keep" using ok(1,2) by (auto simp: head_rows_def)
  then have heads: "head_rows v' a = [?row]"
    using ok(3) tab(1) assms(4) m by (intro resolved_heads) (auto simp: local_revision_def)
  have "tables_inv v1" using tables_inv_resolve_commit[OF assms(1) c] assms(2) m
    by (simp add: ambient_ok_def)
  then have inv: "tables_inv v'" using tables_inv_eq tab by metis
  have acc: "find_account v' a = Some (row0\<lparr>ac_head_revision_id := m, ac_last_modified_at := am_now_ms am,
      ac_frozen_pending_resolve := 0, ac_tombstoned := (if t then 1 else 0)\<rparr>)"
    using ok(4) tab(2) old(1) find_update_accounts[of "\<lambda>r. r\<lparr>ac_head_revision_id := m,
      ac_last_modified_at := am_now_ms am, ac_frozen_pending_resolve := 0,
      ac_tombstoned := (if t then 1 else 0)\<rparr>" a v a]
    by (simp add: find_account_def)
  have "account_heads a v' = Inr [m]"
    using account_heads_ok[OF inv, of a] acc heads by (simp add: local_revision_def)
  moreover have "dirty_present a m v'" using ok(5) tab(3) by (simp add: dirty_present_def)
  ultimately show ?thesis using old(2-4) hs acc ok(3) tab(1) inv
    by (intro exI[of _ hs] exI[of _ ?row]) (simp add: vault_is_forked_def local_revision_def)
qed

text \<open>A forked account: two revisions of one account on the same parent.\<close>

definition example_fork :: Vault where
  "example_fork = example_open\<lparr>v_revisions := v_revisions example_open @
     [(hd (v_revisions example_open))\<lparr>rv_revision_id := RevisionId (replicate 32 90),
        rv_parent_revision_id := RevisionId (replicate 32 76), rv_created_at := 60\<rparr>,
      (hd (v_revisions example_open))\<lparr>rv_revision_id := RevisionId (replicate 32 91),
        rv_parent_revision_id := RevisionId (replicate 32 76), rv_created_at := 61\<rparr>]\<rparr>"

lemma example_fork_inv: "tables_inv example_fork"
  by code_simp

lemma example_ambient_ok: "ambient_ok example_ambient"
  by (simp add: ambient_ok_def example_ambient_def)

lemma example_fork_resolves:
  "fst (resolve_fork example_env example_ambient example_account (RevisionId (replicate 32 90)) example_fork)
     = Inr (RevisionId (replicate 32 77))"
  by code_simp

lemma example_fork_unmentioned:
  "\<forall>r \<in> set (v_revisions example_fork). rv_parent_revision_id r \<noteq> am_random_revision example_ambient"
  by code_simp

theorem resolve_fork_single_head_witness:
  "account_heads example_account (snd (resolve_fork example_env example_ambient example_account
     (RevisionId (replicate 32 90)) example_fork)) = Inr [RevisionId (replicate 32 77)]"
proof -
  obtain v' where v': "resolve_fork example_env example_ambient example_account
      (RevisionId (replicate 32 90)) example_fork = (Inr (RevisionId (replicate 32 77)), v')"
    using example_fork_resolves by (metis prod.exhaust_sel)
  show ?thesis
    using resolve_fork_single_head[OF example_fork_inv example_ambient_ok v' example_fork_unmentioned] v'
    by auto
qed

lemma example_fork_ids:
  "\<forall>r \<in> set (v_revisions example_fork). rv_revision_id r \<noteq> GENESIS_PARENT"
  by code_simp

theorem sql_heads_agree_with_graph_witness:
  "\<exists>g. revision_graph example_account example_fork = Inr g
     \<and> account_heads example_account example_fork = Inr (heads g)
     \<and> heads g = [RevisionId (replicate 32 90), RevisionId (replicate 32 91)]"
proof -
  have ok: "is_ok (revision_graph example_account example_fork)
      \<and> find_account example_fork example_account \<noteq> None" by code_simp
  then obtain g where g: "revision_graph example_account example_fork = Inr g"
    by (auto simp: is_ok_def split: sum.splits)
  have "account_heads example_account example_fork =
      Inr [RevisionId (replicate 32 90), RevisionId (replicate 32 91)]" by code_simp
  then show ?thesis
    using sql_heads_agree_with_graph[OF example_fork_inv _ g example_fork_ids] ok g by auto
qed

section \<open>Conflict reports are complete\<close>

lemma count_list_map: "count_list (map f xs) a = length (filter (\<lambda>x. f x = a) xs)"
  by (induction xs) auto

lemma tables_account_length:
  assumes "tables_inv v" "r \<in> set (v_revisions v)"
  shows "length (aid_bytes (rv_account_id r)) = 32"
proof -
  obtain c where "c \<in> set (v_accounts v)" "ac_account_id c = rv_account_id r"
    using assms unfolding tables_inv_def by force
  then show ?thesis using assms(1) by (auto simp: tables_inv_def list_all_iff account_ok_def)
qed

lemma all_forked_ok:
  assumes "tables_inv v"
  obtains fs where "all_forked_accounts v = Inr fs" "set fs = {a. length (head_rows v a) > 1}"
proof -
  let ?acc = "map rv_account_id (filter (is_sql_head v) (v_revisions v))"
  let ?fs = "sort (filter (\<lambda>a. count_list ?acc a > 1) (remdups ?acc))"
  have count: "count_list ?acc a = length (head_rows v a)" for a
    by (simp add: count_list_map head_rows_def conj_commute)
  have "\<forall>i \<in> set ?fs. length (aid_bytes i) = 32" using tables_account_length[OF assms] by auto
  then have "all_forked_accounts v = Inr ?fs"
    unfolding all_forked_accounts_def Let_def by (subst collect_ids_ok) simp
  moreover have "set ?fs = {a. length (head_rows v a) > 1}"
  proof -
    have "a \<in> set ?acc" if "length (head_rows v a) > 1" for a
    proof -
      have "head_rows v a \<noteq> []" using that by auto
      then obtain r where "r \<in> set (head_rows v a)" by (meson last_in_set)
      then show ?thesis by (auto simp: head_rows_def)
    qed
    then show ?thesis by (auto simp: count)
  qed
  ultimately show thesis using that by blast
qed

lemma list_frozen_ok:
  assumes "tables_inv v"
  obtains fs where "list_frozen_accounts v = Inr fs"
    "set fs = ac_account_id ` {r \<in> set (v_accounts v). ac_frozen_pending_resolve r = 1}"
proof -
  let ?fs = "sort (map ac_account_id (filter (\<lambda>r. ac_frozen_pending_resolve r = 1) (v_accounts v)))"
  have "\<forall>i \<in> set ?fs. length (aid_bytes i) = 32"
    using assms by (auto simp: tables_inv_def list_all_iff account_ok_def)
  then have "list_frozen_accounts v = Inr ?fs"
    unfolding list_frozen_accounts_def by (subst collect_ids_ok) simp
  then show thesis using that by simp
qed

lemma branch_ok:
  "branch_summary a g v h = Inr b \<Longrightarrow>
     cb_revision_id b = h \<and> cb_on_canonical_chain b = branch_on_canonical_chain g h"
  by (auto simp: branch_summary_def and_then_Inr)

lemma head_not_ancestor:
  assumes "build rows = Inr g" "h \<in> set (heads g)" "c \<in> ids rows" "ancestors g c = Some chain" "h \<in> set chain"
  shows "h = c"
proof -
  have "(c, h) \<in> (parent_edges rows)\<^sup>*" using ancestors_spec[OF assms(1,3)] assms(4,5) by auto
  moreover have "(x, h) \<notin> parent_edges rows" for x
    using assms(1,2) by (auto simp: set_heads is_head_def)
  ultimately show ?thesis by (metis rtranclE)
qed

lemma on_canonical_iff:
  assumes "build rows = Inr g" "h \<in> set (heads g)"
  shows "branch_on_canonical_chain g h \<longleftrightarrow> h = Max (set (heads g))"
proof -
  have c: "canonical_head g = Some (Max (set (heads g)))" using assms(2) by (auto simp: canonical_head_def)
  have "Max (set (heads g)) \<in> set (heads g)" using assms(2) by (intro Max_in) auto
  then have "Max (set (heads g)) \<in> ids rows" using set_heads[OF assms(1)] by auto
  then show ?thesis using c head_not_ancestor[OF assms]
    by (auto simp: branch_on_canonical_chain_def split: option.splits)
qed

lemma list_all2_map: "list_all2 R xs ys \<Longrightarrow> (\<And>x y. R x y \<Longrightarrow> f y = x) \<Longrightarrow> map f ys = xs"
  by (induction rule: list_all2_induct) auto

lemma list_all2_right: "list_all2 R xs ys \<Longrightarrow> y \<in> set ys \<Longrightarrow> \<exists>x \<in> set xs. R x y"
  by (induction rule: list_all2_induct) auto

lemma conflict_report_ok:
  assumes "conflict_report v frozen a = Inr rep" "tables_inv v"
    and "\<forall>r \<in> set (v_revisions v). rv_revision_id r \<noteq> GENESIS_PARENT"
  shows "cr_account_id rep = a \<and> cr_frozen rep = (a \<in> frozen)
    \<and> map cb_revision_id (cr_branches rep) = sort (map rv_revision_id (head_rows v a))
    \<and> (\<forall>b \<in> set (cr_branches rep). cb_on_canonical_chain b \<longleftrightarrow>
         cb_revision_id b = Max (rv_revision_id ` set (head_rows v a)))"
proof -
  obtain g bs where g: "revision_graph a v = Inr g"
    and bs: "collect_results (branch_summary a g v) (sort (heads g)) = Inr bs"
    and rep: "rep = \<lparr>cr_account_id = a, cr_branches = bs, cr_frozen = (a \<in> frozen)\<rparr>"
    using assms(1) by (auto simp: conflict_report_def and_then_Inr)
  have b: "build (map meta_of (graph_rows a v)) = Inr g"
    using g assms(2) by (simp add: revision_graph_def read_rows_ok)
  have h: "heads g = map rv_revision_id (sort_key row_key (head_rows v a))"
    using graph_heads[OF assms(2) g assms(3)] .
  then have hset: "set (heads g) = rv_revision_id ` set (head_rows v a)" by simp
  have all: "list_all2 (\<lambda>h b. branch_summary a g v h = Inr b) (sort (heads g)) bs"
    using bs by (simp add: collect_results_ok)
  then have ids: "map cb_revision_id bs = sort (heads g)"
    by (rule list_all2_map) (use branch_ok in blast)
  have "sort (heads g) = sort (map rv_revision_id (head_rows v a))"
    by (rule properties_for_sort) (simp_all add: h)
  moreover have "cb_on_canonical_chain x \<longleftrightarrow> cb_revision_id x = Max (set (heads g))" if elem: "x \<in> set bs" for x
  proof -
    obtain h where "h \<in> set (sort (heads g))" "branch_summary a g v h = Inr x"
      using list_all2_right[OF all elem] by blast
    then show ?thesis using branch_ok[of a g v h x] on_canonical_iff[OF b, of h] by simp
  qed
  ultimately show ?thesis using rep ids hset by simp
qed

text \<open>
  The conflict list is complete and unambiguous: it reports, in strictly increasing order
  of account, exactly the accounts that have more than one head or are frozen; each report lists
  the account's heads in order, says truly whether the account is frozen, and flags as canonical
  exactly the largest head.
\<close>

theorem list_conflicts_complete:
  assumes "tables_inv v" and "list_conflicts v = Inr reports"
    and "\<forall>r \<in> set (v_revisions v). rv_revision_id r \<noteq> GENESIS_PARENT"
  shows "sorted (map cr_account_id reports) \<and> distinct (map cr_account_id reports)
    \<and> cr_account_id ` set reports = {a. length (head_rows v a) > 1}
        \<union> ac_account_id ` {r \<in> set (v_accounts v). ac_frozen_pending_resolve r = 1}
    \<and> (\<forall>rep \<in> set reports.
        map cb_revision_id (cr_branches rep) = sort (map rv_revision_id (head_rows v (cr_account_id rep)))
      \<and> (cr_frozen rep \<longleftrightarrow> (\<exists>r \<in> set (v_accounts v). ac_account_id r = cr_account_id rep
            \<and> ac_frozen_pending_resolve r = 1))
      \<and> (\<forall>b \<in> set (cr_branches rep). cb_on_canonical_chain b \<longleftrightarrow>
           cb_revision_id b = Max (rv_revision_id ` set (head_rows v (cr_account_id rep)))))"
proof -
  obtain forked where forked: "all_forked_accounts v = Inr forked"
    "set forked = {a. length (head_rows v a) > 1}" using all_forked_ok[OF assms(1)] .
  obtain frozen where frozen: "list_frozen_accounts v = Inr frozen"
    "set frozen = ac_account_id ` {r \<in> set (v_accounts v). ac_frozen_pending_resolve r = 1}"
    using list_frozen_ok[OF assms(1)] .
  let ?ids = "sort (remdups (forked @ frozen))"
  have all: "list_all2 (\<lambda>a rep. conflict_report v (set frozen) a = Inr rep) ?ids reports"
    using assms(2) forked(1) frozen(1) by (simp add: list_conflicts_def collect_results_ok)
  then have ids: "map cr_account_id reports = ?ids"
    by (rule list_all2_map) (use conflict_report_ok[OF _ assms(1,3)] in blast)
  have each: "map cb_revision_id (cr_branches rep) = sort (map rv_revision_id (head_rows v (cr_account_id rep)))
      \<and> (cr_frozen rep \<longleftrightarrow> (\<exists>r \<in> set (v_accounts v). ac_account_id r = cr_account_id rep
            \<and> ac_frozen_pending_resolve r = 1))
      \<and> (\<forall>b \<in> set (cr_branches rep). cb_on_canonical_chain b \<longleftrightarrow>
           cb_revision_id b = Max (rv_revision_id ` set (head_rows v (cr_account_id rep))))"
    if elem: "rep \<in> set reports" for rep
  proof -
    obtain a where "conflict_report v (set frozen) a = Inr rep"
      using list_all2_right[OF all elem] by blast
    note ok = conflict_report_ok[OF this assms(1,3)]
    moreover have "a \<in> set frozen \<longleftrightarrow>
        (\<exists>r \<in> set (v_accounts v). ac_account_id r = a \<and> ac_frozen_pending_resolve r = 1)"
      using frozen(2) by auto
    ultimately show ?thesis by simp
  qed
  have "cr_account_id ` set reports = set forked \<union> set frozen"
    using arg_cong[OF ids, of set] by simp
  then show ?thesis using ids each forked(2) frozen(2) by simp
qed

theorem list_conflicts_complete_witness:
  "\<exists>reports. list_conflicts example_fork = Inr reports \<and> map cr_account_id reports = [example_account]
     \<and> (\<forall>rep \<in> set reports. map cb_revision_id (cr_branches rep) =
          [RevisionId (replicate 32 90), RevisionId (replicate 32 91)])"
proof -
  have "case list_conflicts example_fork of Inl _ \<Rightarrow> False
     | Inr rs \<Rightarrow> map cr_account_id rs = [example_account]" by code_simp
  then obtain rs where rs: "list_conflicts example_fork = Inr rs" "map cr_account_id rs = [example_account]"
    by (auto split: sum.splits)
  have heads: "sort (map rv_revision_id (head_rows example_fork example_account)) =
      [RevisionId (replicate 32 90), RevisionId (replicate 32 91)]" by code_simp
  have "cr_account_id rep = example_account" if "rep \<in> set rs" for rep
    using arg_cong[OF rs(2), of set] that by auto
  then show ?thesis
    using list_conflicts_complete[OF example_fork_inv rs(1) example_fork_ids] rs heads by auto
qed

end
