(* ===== verification/Chain_Ingest.thy ===== *)
theory Chain_Ingest
  imports Vault_Forks
begin

text \<open>
  Publication and ingestion of chain revisions (\<open>crates/pangolin-store/src/vault.rs\<close>,
  \<open>crates/pangolin-chain/src/signing.rs\<close> and \<open>types.rs\<close>): the canonical hash, the three
  idempotency checks and the insertion of a foreign revision, publication anchors, the
  pending/finalized status with its rollback, and the three sync checkpoints. Keccak-256 is a
  parameter. The lemmas show that ingestion is idempotent, that a foreign revision freezes its
  account until it is resolved, and that the checkpoints only move forward.
\<close>

section \<open>Events and canonical hashes\<close>

record RevisionEvent =
  ev_vault_id :: bytes
  ev_account_id :: bytes
  ev_parent_revision :: bytes
  ev_device_id :: bytes
  ev_schema_version :: u8
  ev_sequence :: u64
  ev_enc_payload :: bytes
  ev_anchor :: ChainAnchor

definition SIGNED_REVISION_DOMAIN :: bytes where
  "SIGNED_REVISION_DOMAIN = ascii ''pangolin-chain-signed-revision-v0''"

definition encode_canonical_body :: "bytes \<Rightarrow> bytes \<Rightarrow> bytes \<Rightarrow> bytes \<Rightarrow> u8 \<Rightarrow> bytes \<Rightarrow> bytes" where
  "encode_canonical_body vault_id account parent device schema payload_keccak =
     vault_id @ account @ parent @ device @ [schema] @ payload_keccak"

definition canonical_hash :: "(bytes \<Rightarrow> bytes) \<Rightarrow> bytes \<Rightarrow> bytes \<Rightarrow> bytes \<Rightarrow> bytes \<Rightarrow> u8 \<Rightarrow> bytes \<Rightarrow> bytes" where
  "canonical_hash keccak256 vault_id account parent device schema enc_payload =
     keccak256 (SIGNED_REVISION_DOMAIN
       @ encode_canonical_body vault_id account parent device schema (keccak256 enc_payload))"

definition event_revision_id :: "VaultEnv \<Rightarrow> RevisionEvent \<Rightarrow> RevisionId" where
  "event_revision_id env ev =
     RevisionId (canonical_hash (env_keccak256 env) (ev_vault_id ev) (ev_account_id ev)
       (ev_parent_revision ev) (ev_device_id ev) (ev_schema_version ev) (ev_enc_payload ev))"

datatype IngestOutcome = Inserted | AlreadyPresent

section \<open>Publication\<close>

definition unpublished_revisions :: "Vault \<Rightarrow> StoreError + RevisionId list" where
  "unpublished_revisions v =
     collect_rids ''revision_id not 32 bytes''
       (map rv_revision_id (sort_key row_key (filter (\<lambda>r. rv_chain_tx_hash r = None) (v_revisions v))))"

definition stamp_anchor :: "bytes \<Rightarrow> int \<Rightarrow> int \<Rightarrow> RevisionRow \<Rightarrow> RevisionRow" where
  "stamp_anchor tx b l r =
     r\<lparr>rv_chain_tx_hash := Some tx, rv_chain_block_number := Some b, rv_chain_log_index := Some l\<rparr>"

definition mark_published_commit :: "RevisionId \<Rightarrow> ChainAnchor \<Rightarrow> Vault \<Rightarrow> StoreError + Vault" where
  "mark_published_commit r anchor v =
     and_then (ok_or (i64_try_from (block_number anchor))
       (Corrupted ''chain anchor block_number does not fit in i64; refusing to store'')) (\<lambda>b.
     and_then (ok_or (i64_try_from (log_index anchor))
       (Corrupted ''chain anchor log_index does not fit in i64; refusing to store'')) (\<lambda>l.
     if r \<notin> rv_revision_id ` set (v_revisions v) then Inl RevisionNotFound
     else Inr (update_revisions (\<lambda>x. rv_revision_id x = r) (stamp_anchor (tx_hash anchor) b l) v)))"

definition mark_published :: "Ambient \<Rightarrow> RevisionId \<Rightarrow> ChainAnchor \<Rightarrow> unit vault_op" where
  "mark_published am r anchor =
     op_seq (op_modify (maybe_expire_active_session (am_t_check am)))
      (op_seq (op_update (mark_published_commit r anchor))
        (op_modify (touch_session (am_t_touch am))))"

section \<open>Ingestion\<close>

definition detect_tombstone_bit_at_ingest :: "VaultEnv \<Rightarrow> RevisionEvent \<Rightarrow> bytes \<Rightarrow> Vault \<Rightarrow> int" where
  "detect_tombstone_bit_at_ingest env ev placeholder_nonce v =
     (case v_active v of
        None \<Rightarrow> 0
      | Some active \<Rightarrow>
          (case open_payload env (as_vdk active) placeholder_nonce (ev_enc_payload ev)
             (build_aad (v_vault_id v) (AccountId (ev_account_id ev)) (RevisionId (ev_parent_revision ev))
               (ev_schema_version ev)) of
             Inr (TombPayload p) \<Rightarrow>
               if tb_deleted p then (if tb_account_id p = ev_account_id ev then 1 else 0) else 0
           | _ \<Rightarrow> 0))"

definition anchor_matches :: "bytes \<Rightarrow> int \<Rightarrow> int \<Rightarrow> RevisionRow \<Rightarrow> bool" where
  "anchor_matches tx b l r \<longleftrightarrow> rv_chain_tx_hash r = Some tx
     \<and> rv_chain_block_number r = Some b \<and> rv_chain_log_index r = Some l"

definition content_matches :: "RevisionEvent \<Rightarrow> RevisionRow \<Rightarrow> bool" where
  "content_matches ev r \<longleftrightarrow> rv_account_id r = AccountId (ev_account_id ev)
     \<and> rv_parent_revision_id r = RevisionId (ev_parent_revision ev)
     \<and> rv_enc_payload r = ev_enc_payload ev \<and> rv_schema_version r = uint (ev_schema_version ev)
     \<and> rv_device_id r = DeviceId (ev_device_id ev) \<and> rv_chain_tx_hash r = None"

definition foreign_revision :: "VaultEnv \<Rightarrow> RevisionEvent \<Rightarrow> int \<Rightarrow> int \<Rightarrow> int \<Rightarrow> int \<Rightarrow> RevisionRow" where
  "foreign_revision env ev now tombstone b l =
     \<lparr>rv_revision_id = event_revision_id env ev, rv_account_id = AccountId (ev_account_id ev),
      rv_parent_revision_id = RevisionId (ev_parent_revision ev),
      rv_device_id = DeviceId (ev_device_id ev), rv_schema_version = uint (ev_schema_version ev),
      rv_created_at = now, rv_enc_payload = ev_enc_payload ev, rv_enc_nonce = replicate NONCE_LEN 0,
      rv_is_tombstone = tombstone, rv_chain_tx_hash = Some (tx_hash (ev_anchor ev)),
      rv_chain_block_number = Some b, rv_chain_log_index = Some l, rv_superseded_by = None,
      rv_vdk_epoch = 0, rv_revoked = 0, rv_recovered_signer = None, rv_revision_status = Finalized,
      rv_observed_at_block = None, rv_observed_block_hash = None\<rparr>"

text \<open>The transaction of the foreign-insert arm: freeze or create the account, then insert.\<close>

definition ingest_commit :: "VaultEnv \<Rightarrow> RevisionEvent \<Rightarrow> int \<Rightarrow> int \<Rightarrow> int \<Rightarrow> Vault \<Rightarrow> StoreError + Vault" where
  "ingest_commit env ev now b l v =
     (let tomb = detect_tombstone_bit_at_ingest env ev (replicate NONCE_LEN 0) v;
          a = AccountId (ev_account_id ev)
      in and_then
          (if find_account v a \<noteq> None
           then Inr (update_accounts a (\<lambda>r. r\<lparr>ac_frozen_pending_resolve := 1,
                  ac_tombstoned := (if tomb = 1 then 1 else ac_tombstoned r),
                  ac_last_modified_at := now\<rparr>) v)
           else insert_account \<lparr>ac_account_id = a, ac_created_at = now, ac_last_modified_at = now,
                  ac_tombstoned = (if tomb = 1 then 1 else 0),
                  ac_head_revision_id = event_revision_id env ev, ac_frozen_pending_resolve = 1\<rparr> v)
          (insert_revision (foreign_revision env ev now tomb b l)))"

definition ingest_chain_revision :: "VaultEnv \<Rightarrow> Ambient \<Rightarrow> RevisionEvent \<Rightarrow> IngestOutcome vault_op" where
  "ingest_chain_revision env am ev =
     op_seq (op_modify (maybe_expire_active_session (am_t_check am)))
      (op_bind (op_read (\<lambda>v. event_revision_id env ev \<in> rv_revision_id ` set (v_revisions v))) (\<lambda>by_hash.
       if by_hash
       then op_seq (op_modify (touch_session (am_t_touch am))) (op_ret AlreadyPresent)
       else
        op_bind (op_try (\<lambda>_. ok_or (i64_try_from (block_number (ev_anchor ev)))
          (Corrupted ''RevisionEvent.anchor.block_number does not fit in i64; refusing to store''))) (\<lambda>b.
        op_bind (op_try (\<lambda>_. ok_or (i64_try_from (log_index (ev_anchor ev)))
          (Corrupted ''RevisionEvent.anchor.log_index does not fit in i64; refusing to store''))) (\<lambda>l.
        op_bind (op_read (\<lambda>v. \<exists>r \<in> set (v_revisions v). rv_account_id r = AccountId (ev_account_id ev)
            \<and> anchor_matches (tx_hash (ev_anchor ev)) b l r)) (\<lambda>by_anchor.
        if by_anchor
        then op_seq (op_modify (touch_session (am_t_touch am))) (op_ret AlreadyPresent)
        else
         op_bind (op_read (\<lambda>v. find (content_matches ev) (v_revisions v))) (\<lambda>merge_target.
          case merge_target of
            Some row \<Rightarrow>
              op_seq (op_modify (update_revisions (\<lambda>r. rv_revision_id r = rv_revision_id row)
                  (stamp_anchor (tx_hash (ev_anchor ev)) b l)))
                (op_seq (op_modify (touch_session (am_t_touch am))) (op_ret AlreadyPresent))
          | None \<Rightarrow>
              op_seq (op_update (ingest_commit env ev (am_now_ms am) b l))
                (op_seq (op_modify (touch_session (am_t_touch am))) (op_ret Inserted))))))))"

section \<open>Pending and finalized revisions\<close>

definition CONFIRMATION_DEPTH_FOR_FINALIZATION :: u64 where
  "CONFIRMATION_DEPTH_FOR_FINALIZATION = 12"

definition count_u32 :: "nat \<Rightarrow> u32" where
  "count_u32 n = (if n < 2 ^ 32 then of_nat n else - 1)"

definition rollback_selects :: "int \<Rightarrow> int \<Rightarrow> RevisionRow \<Rightarrow> bool" where
  "rollback_selects low high r \<longleftrightarrow> rv_revision_status r = Pending
     \<and> (case rv_observed_at_block r of None \<Rightarrow> False | Some b \<Rightarrow> low \<le> b \<and> b \<le> high)"

definition rollback_pending_revisions_in_range :: "u64 \<Rightarrow> u64 \<Rightarrow> u32 vault_op" where
  "rollback_pending_revisions_in_range low high =
     op_bind (op_try (\<lambda>_. ok_or (i64_try_from low)
       (Corrupted ''rollback_pending_revisions_in_range: block_low overflow''))) (\<lambda>lo.
     op_bind (op_try (\<lambda>_. ok_or (i64_try_from high)
       (Corrupted ''rollback_pending_revisions_in_range: block_high overflow''))) (\<lambda>hi.
     op_bind (op_read (\<lambda>v. length (filter (rollback_selects lo hi) (v_revisions v)))) (\<lambda>removed.
     op_seq (op_modify (\<lambda>v. v\<lparr>v_revisions := filter (\<lambda>r. \<not> rollback_selects lo hi r) (v_revisions v)\<rparr>))
       (op_ret (count_u32 removed)))))"

definition promote_selects :: "int \<Rightarrow> RevisionRow \<Rightarrow> bool" where
  "promote_selects threshold r \<longleftrightarrow> rv_revision_status r = Pending
     \<and> (case rv_observed_at_block r of None \<Rightarrow> False | Some b \<Rightarrow> b \<le> threshold)"

definition promote_finalized_revisions :: "u64 \<Rightarrow> u32 vault_op" where
  "promote_finalized_revisions current_block_head =
     op_bind (op_try (\<lambda>_. ok_or (i64_try_from (sat_sub current_block_head CONFIRMATION_DEPTH_FOR_FINALIZATION))
       (Corrupted ''promote_finalized_revisions: threshold overflow''))) (\<lambda>threshold.
     op_bind (op_read (\<lambda>v. length (filter (promote_selects threshold) (v_revisions v)))) (\<lambda>updated.
     op_seq (op_modify (update_revisions (promote_selects threshold) (\<lambda>r. r\<lparr>rv_revision_status := Finalized\<rparr>)))
       (op_ret (count_u32 updated))))"

definition ingest_pending_chain_revision :: "VaultEnv \<Rightarrow> Ambient \<Rightarrow> RevisionEvent \<Rightarrow> u64 \<Rightarrow> bytes
    \<Rightarrow> IngestOutcome vault_op" where
  "ingest_pending_chain_revision env am ev observed_at_block observed_block_hash =
     op_bind (ingest_chain_revision env am ev) (\<lambda>outcome.
     op_bind (op_try (\<lambda>_. ok_or (i64_try_from observed_at_block)
       (Corrupted ''ingest_pending_chain_revision: observed_at_block does not fit in i64''))) (\<lambda>block_i.
     op_bind (op_try (\<lambda>_. ok_or (i64_try_from (block_number (ev_anchor ev)))
       (Corrupted ''event anchor block_number overflow''))) (\<lambda>b.
     op_bind (op_try (\<lambda>_. ok_or (i64_try_from (log_index (ev_anchor ev)))
       (Corrupted ''event anchor log_index overflow''))) (\<lambda>l.
     op_seq (op_modify (update_revisions (anchor_matches (tx_hash (ev_anchor ev)) b l)
         (\<lambda>r. r\<lparr>rv_revision_status := Pending, rv_observed_at_block := Some block_i,
               rv_observed_block_hash := Some observed_block_hash\<rparr>)))
       (op_ret outcome)))))"

section \<open>Checkpoints\<close>

definition last_pulled_block :: "Vault \<Rightarrow> StoreError + u64" where
  "last_pulled_block v =
     (case v_sync_state v of
        None \<Rightarrow> Inr 0
      | Some b \<Rightarrow> ok_or (u64_try_from b)
          (Corrupted ''sync_state.last_pulled_block is negative; refusing to surface''))"

definition advance_last_pulled_block :: "u64 \<Rightarrow> unit vault_op" where
  "advance_last_pulled_block new_block =
     op_bind (op_try last_pulled_block) (\<lambda>current.
     if new_block < current
     then op_fail (Corrupted ''advance_last_pulled_block: new_block < current'')
     else if new_block = current then op_ret ()
     else op_bind (op_try (\<lambda>_. ok_or (i64_try_from new_block)
            (Corrupted ''last_pulled_block does not fit in i64; refusing to store''))) (\<lambda>b.
          op_modify (\<lambda>v. v\<lparr>v_sync_state := Some b\<rparr>)))"

definition synced_block :: "ChainSyncState option \<Rightarrow> StoreError + u64 option" where
  "synced_block s =
     (case s of
        None \<Rightarrow> Inr None
      | Some c \<Rightarrow> map_sum id Some (ok_or (u64_try_from (cs_last_synced_block c))
          (Corrupted ''last_synced_block is negative; refusing to surface'')))"

definition last_synced_block_v1 :: "Vault \<Rightarrow> StoreError + u64 option" where
  "last_synced_block_v1 v = synced_block (v_sync_v1 v)"

definition last_synced_block_v2 :: "Vault \<Rightarrow> StoreError + u64 option" where
  "last_synced_block_v2 v = synced_block (v_sync_v2 v)"

definition update_synced :: "(Vault \<Rightarrow> StoreError + u64 option) \<Rightarrow> (ChainSyncState \<Rightarrow> Vault \<Rightarrow> Vault)
    \<Rightarrow> int \<Rightarrow> u64 \<Rightarrow> unit vault_op" where
  "update_synced read_block store now_ms new_block =
     op_bind (op_try read_block) (\<lambda>stored.
     let current = (case stored of None \<Rightarrow> 0 | Some b \<Rightarrow> b)
     in if new_block < current
        then op_fail (Corrupted ''update_last_synced_block: new_block < current'')
        else if new_block = current \<and> stored \<noteq> None then op_ret ()
        else op_bind (op_try (\<lambda>_. ok_or (i64_try_from new_block)
               (Corrupted ''last_synced_block does not fit in i64; refusing to store''))) (\<lambda>b.
             op_modify (store \<lparr>cs_last_synced_block = b, cs_last_synced_at = now_ms\<rparr>)))"

definition update_last_synced_block_v1 :: "int \<Rightarrow> u64 \<Rightarrow> unit vault_op" where
  "update_last_synced_block_v1 = update_synced last_synced_block_v1 (\<lambda>c v. v\<lparr>v_sync_v1 := Some c\<rparr>)"

definition update_last_synced_block_v2 :: "int \<Rightarrow> u64 \<Rightarrow> unit vault_op" where
  "update_last_synced_block_v2 = update_synced last_synced_block_v2 (\<lambda>c v. v\<lparr>v_sync_v2 := Some c\<rparr>)"

section \<open>A monotone checkpoint\<close>

text \<open>
  The contract the sync code relies on: a checkpoint that can be read, that an accepted advance
  sets to the given block, that refuses to move backwards and accepts every forward move that
  fits a signed 64-bit column.
\<close>

locale monotone_checkpoint =
  fixes read_block :: "'s \<Rightarrow> 'e + u64" and advance :: "u64 \<Rightarrow> ('s, 'e, unit) op"
  assumes advance_reads: "advance n s = (Inr (), s') \<Longrightarrow> read_block s' = Inr n"
    and advance_forward: "advance n s = (Inr (), s') \<Longrightarrow> read_block s = Inr c \<Longrightarrow> c \<le> n"
    and advance_refused: "advance n s = (Inl e, s') \<Longrightarrow> s' = s"
    and advance_accepts: "read_block s = Inr c \<Longrightarrow> c \<le> n \<Longrightarrow> uint n \<le> i64_max \<Longrightarrow>
      is_ok (fst (advance n s))"
begin

definition run_advances :: "u64 list \<Rightarrow> 's \<Rightarrow> 's" where
  "run_advances ns s = fold (\<lambda>n s. snd (advance n s)) ns s"

lemma advance_step:
  assumes "read_block s = Inr c" "uint n \<le> i64_max"
  shows "read_block (snd (advance n s)) = Inr (max c n)"
proof (cases "advance n s")
  case (Pair r s')
  show ?thesis
  proof (cases r)
    case (Inl e)
    then have "s' = s" using advance_refused Pair by simp
    moreover have "\<not> c \<le> n" using advance_accepts[OF assms(1) _ assms(2)] Inl Pair by auto
    ultimately show ?thesis using assms(1) Pair by (simp add: max_def)
  next
    case (Inr u)
    then have "read_block s' = Inr n" "c \<le> n"
      using advance_reads advance_forward[OF _ assms(1)] Pair by simp_all
    then show ?thesis using Pair by (simp add: max_def)
  qed
qed

lemma run_advances_Max:
  assumes "read_block s = Inr c" "\<forall>n \<in> set ns. uint n \<le> i64_max"
  shows "read_block (run_advances ns s) = Inr (Max (insert c (set ns)))"
  using assms unfolding run_advances_def
proof (induction ns arbitrary: s c)
  case (Cons n ns)
  have "read_block (snd (advance n s)) = Inr (max c n)" using advance_step Cons.prems by simp
  then have "read_block (fold (\<lambda>n s. snd (advance n s)) ns (snd (advance n s))) =
      Inr (Max (insert (max c n) (set ns)))" using Cons.IH Cons.prems(2) by simp
  moreover have "Max (insert (max c n) (set ns)) = Max (insert c (set (n # ns)))"
    by (cases "ns = []") (simp_all add: max.assoc)
  ultimately show ?case by simp
qed simp

end

definition synced_or_zero :: "(Vault \<Rightarrow> StoreError + u64 option) \<Rightarrow> Vault \<Rightarrow> StoreError + u64" where
  "synced_or_zero read_block v = map_sum id (\<lambda>b. case b of None \<Rightarrow> 0 | Some n \<Rightarrow> n) (read_block v)"

lemma i64_word: "i64_try_from n = Some b \<Longrightarrow> u64_try_from b = Some n"
  by simp

interpretation pulled: monotone_checkpoint last_pulled_block advance_last_pulled_block
proof
  fix n s s'
  assume "advance_last_pulled_block n s = (Inr (), s')"
  then show "last_pulled_block s' = Inr n"
    by (auto simp: advance_last_pulled_block_def last_pulled_block_def op_run split: if_splits)
next
  fix n s s' c
  assume "advance_last_pulled_block n s = (Inr (), s')" "last_pulled_block s = Inr c"
  then show "c \<le> n" by (auto simp: advance_last_pulled_block_def op_run split: if_splits)
next
  fix n s e s'
  assume "advance_last_pulled_block n s = (Inl e, s')"
  then show "s' = s" by (auto simp: advance_last_pulled_block_def op_run split: if_splits)
next
  fix n s c
  assume "last_pulled_block s = Inr c" "c \<le> n" "uint n \<le> i64_max"
  then show "is_ok (fst (advance_last_pulled_block n s))"
    by (auto simp: advance_last_pulled_block_def op_bind_def op_defs i64_try_from_def)
qed

text \<open>The two versioned checkpoints share their update; only the column differs.\<close>

lemma update_synced_laws:
  assumes "\<And>c v. read_block (store c v) = synced_block (Some c)"
  shows "update_synced read_block store now n s = (Inr (), s') \<Longrightarrow> synced_or_zero read_block s' = Inr n"
    and "update_synced read_block store now n s = (Inr (), s') \<Longrightarrow>
      synced_or_zero read_block s = Inr c \<Longrightarrow> c \<le> n"
    and "update_synced read_block store now n s = (Inl e, s') \<Longrightarrow> s' = s"
    and "synced_or_zero read_block s = Inr c \<Longrightarrow> c \<le> n \<Longrightarrow> uint n \<le> i64_max \<Longrightarrow>
      is_ok (fst (update_synced read_block store now n s))"
proof -
  show "update_synced read_block store now n s = (Inr (), s') \<Longrightarrow> synced_or_zero read_block s' = Inr n"
    using assms by (auto simp: update_synced_def synced_or_zero_def synced_block_def op_run Let_def
        split: if_splits option.splits)
  show "update_synced read_block store now n s = (Inr (), s') \<Longrightarrow>
      synced_or_zero read_block s = Inr c \<Longrightarrow> c \<le> n"
    by (auto simp: update_synced_def synced_or_zero_def op_run Let_def split: if_splits)
  show "update_synced read_block store now n s = (Inl e, s') \<Longrightarrow> s' = s"
    by (auto simp: update_synced_def op_run Let_def split: if_splits)
  show "synced_or_zero read_block s = Inr c \<Longrightarrow> c \<le> n \<Longrightarrow> uint n \<le> i64_max \<Longrightarrow>
      is_ok (fst (update_synced read_block store now n s))"
    by (cases "read_block s") (auto simp: update_synced_def synced_or_zero_def op_bind_def op_defs
        Let_def i64_try_from_def)
qed

lemma update_synced_checkpoint:
  assumes "\<And>c v. read_block (store c v) = synced_block (Some c)"
  shows "monotone_checkpoint (synced_or_zero read_block) (update_synced read_block store now)"
  by unfold_locales (fact update_synced_laws[of read_block store, OF assms])+

interpretation synced_v1: monotone_checkpoint "synced_or_zero last_synced_block_v1"
  "update_last_synced_block_v1 now"
  unfolding update_last_synced_block_v1_def
  by (rule update_synced_checkpoint) (simp add: last_synced_block_v1_def)

interpretation synced_v2: monotone_checkpoint "synced_or_zero last_synced_block_v2"
  "update_last_synced_block_v2 now"
  unfolding update_last_synced_block_v2_def
  by (rule update_synced_checkpoint) (simp add: last_synced_block_v2_def)

text \<open>
  The three sync checkpoints never move backwards: after any sequence of advance attempts
  to blocks that fit the column, each checkpoint is the largest of its starting value and the
  attempted blocks, whatever the order of the attempts.
\<close>

theorem checkpoints_are_monotone:
  assumes "\<forall>n \<in> set ns. uint n \<le> i64_max"
    and "last_pulled_block v = Inr c0" and "synced_or_zero last_synced_block_v1 v = Inr c1"
    and "synced_or_zero last_synced_block_v2 v = Inr c2"
  shows "last_pulled_block (fold (\<lambda>n v. snd (advance_last_pulled_block n v)) ns v)
      = Inr (Max (insert c0 (set ns)))
    \<and> synced_or_zero last_synced_block_v1 (fold (\<lambda>n v. snd (update_last_synced_block_v1 now n v)) ns v)
      = Inr (Max (insert c1 (set ns)))
    \<and> synced_or_zero last_synced_block_v2 (fold (\<lambda>n v. snd (update_last_synced_block_v2 now n v)) ns v)
      = Inr (Max (insert c2 (set ns)))"
  using pulled.run_advances_Max[OF assms(2,1)] synced_v1.run_advances_Max[OF assms(3,1), of now]
    synced_v2.run_advances_Max[OF assms(4,1), of now]
  by (simp add: pulled.run_advances_def synced_v1.run_advances_def synced_v2.run_advances_def)

theorem checkpoints_are_monotone_witness:
  "last_pulled_block (fold (\<lambda>n v. snd (advance_last_pulled_block n v)) [5, 9, 7] example_vault) = Inr 9
   \<and> synced_or_zero last_synced_block_v1
       (fold (\<lambda>n v. snd (update_last_synced_block_v1 3 n v)) [5, 9, 7] example_vault) = Inr 9"
proof -
  have fits: "\<forall>n \<in> set [5, 9, 7 :: u64]. uint n \<le> i64_max" by simp
  have zero: "last_pulled_block example_vault = Inr 0"
    "synced_or_zero last_synced_block_v1 example_vault = Inr 0"
    "synced_or_zero last_synced_block_v2 example_vault = Inr 0"
    by (simp_all add: last_pulled_block_def synced_or_zero_def last_synced_block_v1_def
        last_synced_block_v2_def synced_block_def example_vault_def)
  have "Max (insert 0 (set [5, 9, 7 :: u64])) = 9" by code_simp
  then show ?thesis using checkpoints_are_monotone[OF fits zero, of 3] by simp
qed

section \<open>Ingestion\<close>

lemma ingest_run:
  fixes v am
  defines "v0 \<equiv> maybe_expire_active_session (am_t_check am) v"
  shows "ingest_chain_revision env am ev v =
   (if event_revision_id env ev \<in> rv_revision_id ` set (v_revisions v)
    then (Inr AlreadyPresent, touch_session (am_t_touch am) v0)
    else case i64_try_from (block_number (ev_anchor ev)) of
      None \<Rightarrow> (Inl (Corrupted ''RevisionEvent.anchor.block_number does not fit in i64; refusing to store''), v0)
    | Some b \<Rightarrow> (case i64_try_from (log_index (ev_anchor ev)) of
        None \<Rightarrow> (Inl (Corrupted ''RevisionEvent.anchor.log_index does not fit in i64; refusing to store''), v0)
      | Some l \<Rightarrow>
          if \<exists>r \<in> set (v_revisions v). rv_account_id r = AccountId (ev_account_id ev)
            \<and> anchor_matches (tx_hash (ev_anchor ev)) b l r
          then (Inr AlreadyPresent, touch_session (am_t_touch am) v0)
          else case find (content_matches ev) (v_revisions v) of
            Some row \<Rightarrow> (Inr AlreadyPresent, touch_session (am_t_touch am)
              (update_revisions (\<lambda>r. rv_revision_id r = rv_revision_id row)
                (stamp_anchor (tx_hash (ev_anchor ev)) b l) v0))
          | None \<Rightarrow> (case ingest_commit env ev (am_now_ms am) b l v0 of
              Inl e \<Rightarrow> (Inl e, v0)
            | Inr v1 \<Rightarrow> (Inr Inserted, touch_session (am_t_touch am) v1))))"
  unfolding v0_def
  by (auto simp: ingest_chain_revision_def op_seq_def op_bind_def op_defs split: option.split sum.split)

lemma ingest_ok:
  assumes "ingest_chain_revision env am ev v = (Inr outcome, v')"
  obtains
    (known) "outcome = AlreadyPresent" "v_revisions v' = v_revisions v" "v_accounts v' = v_accounts v"
      "event_revision_id env ev \<in> rv_revision_id ` set (v_revisions v)"
  | (anchored) b l where "outcome = AlreadyPresent" "v_revisions v' = v_revisions v"
      "v_accounts v' = v_accounts v"
      "i64_try_from (block_number (ev_anchor ev)) = Some b" "i64_try_from (log_index (ev_anchor ev)) = Some l"
      "\<exists>r \<in> set (v_revisions v). rv_account_id r = AccountId (ev_account_id ev)
         \<and> anchor_matches (tx_hash (ev_anchor ev)) b l r"
  | (merged) b l row where "outcome = AlreadyPresent"
      "i64_try_from (block_number (ev_anchor ev)) = Some b" "i64_try_from (log_index (ev_anchor ev)) = Some l"
      "find (content_matches ev) (v_revisions v) = Some row" "v_accounts v' = v_accounts v"
      "v_revisions v' = v_revisions (update_revisions (\<lambda>r. rv_revision_id r = rv_revision_id row)
         (stamp_anchor (tx_hash (ev_anchor ev)) b l) v)"
  | (inserted) b l v0 v1 where "outcome = Inserted"
      "i64_try_from (block_number (ev_anchor ev)) = Some b" "i64_try_from (log_index (ev_anchor ev)) = Some l"
      "v0 = maybe_expire_active_session (am_t_check am) v"
      "ingest_commit env ev (am_now_ms am) b l v0 = Inr v1" "v' = touch_session (am_t_touch am) v1"
  using assms unfolding ingest_run
  by (simp split: if_split_asm option.split_asm sum.split_asm; elim conjE)
    (fastforce simp: update_revisions_def)+

lemma ingest_known:
  assumes "event_revision_id env ev \<in> rv_revision_id ` set (v_revisions v)"
  shows "fst (ingest_chain_revision env am ev v) = Inr AlreadyPresent"
    and "v_revisions (snd (ingest_chain_revision env am ev v)) = v_revisions v"
    and "v_accounts (snd (ingest_chain_revision env am ev v)) = v_accounts v"
  using assms by (simp_all add: ingest_run)

lemma ingest_anchored:
  assumes "i64_try_from (block_number (ev_anchor ev)) = Some b" "i64_try_from (log_index (ev_anchor ev)) = Some l"
    and "\<exists>r \<in> set (v_revisions v). rv_account_id r = AccountId (ev_account_id ev)
         \<and> anchor_matches (tx_hash (ev_anchor ev)) b l r"
  shows "fst (ingest_chain_revision env am ev v) = Inr AlreadyPresent"
    and "v_revisions (snd (ingest_chain_revision env am ev v)) = v_revisions v"
    and "v_accounts (snd (ingest_chain_revision env am ev v)) = v_accounts v"
  using assms by (simp_all add: ingest_run)

lemma ingest_commit_ok:
  assumes "ingest_commit env ev now b l v = Inr v1"
  defines "a \<equiv> AccountId (ev_account_id ev)"
    and "tomb \<equiv> detect_tombstone_bit_at_ingest env ev (replicate NONCE_LEN 0) v"
  shows "v_revisions v1 = v_revisions v @ [foreign_revision env ev now tomb b l]"
    and "event_revision_id env ev \<notin> rv_revision_id ` set (v_revisions v)"
    and "find_account v a = Some old \<Longrightarrow> find_account v1 a = Some (old\<lparr>ac_frozen_pending_resolve := 1,
      ac_tombstoned := (if tomb = 1 then 1 else ac_tombstoned old), ac_last_modified_at := now\<rparr>)"
    and "find_account v a = None \<Longrightarrow> \<exists>row. find_account v1 a = Some row \<and> ac_frozen_pending_resolve row = 1
      \<and> ac_head_revision_id row = event_revision_id env ev"
proof -
  obtain w where w: "(if find_account v a \<noteq> None
           then Inr (update_accounts a (\<lambda>r. r\<lparr>ac_frozen_pending_resolve := 1,
                  ac_tombstoned := (if tomb = 1 then 1 else ac_tombstoned r),
                  ac_last_modified_at := now\<rparr>) v)
           else insert_account \<lparr>ac_account_id = a, ac_created_at = now, ac_last_modified_at = now,
                  ac_tombstoned = (if tomb = 1 then 1 else 0),
                  ac_head_revision_id = event_revision_id env ev, ac_frozen_pending_resolve = 1\<rparr> v) = Inr w"
    and v1: "insert_revision (foreign_revision env ev now tomb b l) w = Inr v1"
    using assms(1) unfolding ingest_commit_def Let_def a_def tomb_def and_then_Inr by blast
  have rw: "v_revisions w = v_revisions v"
    using w by (auto simp: update_accounts_def insert_account_def split: if_splits)
  then show "v_revisions v1 = v_revisions v @ [foreign_revision env ev now tomb b l]"
    "event_revision_id env ev \<notin> rv_revision_id ` set (v_revisions v)"
    using v1 by (auto simp: insert_revision_def foreign_revision_def split: if_splits)
  have f: "find_account v1 a = find_account w a"
    using v1 by (auto simp: insert_revision_def find_account_def split: if_splits)
  show "find_account v1 a = Some (old\<lparr>ac_frozen_pending_resolve := 1,
      ac_tombstoned := (if tomb = 1 then 1 else ac_tombstoned old), ac_last_modified_at := now\<rparr>)"
    if "find_account v a = Some old"
  proof -
    have "w = update_accounts a (\<lambda>r. r\<lparr>ac_frozen_pending_resolve := 1,
                  ac_tombstoned := (if tomb = 1 then 1 else ac_tombstoned r),
                  ac_last_modified_at := now\<rparr>) v" using w that by simp
    then show ?thesis using f that by (simp add: find_update_accounts)
  qed
  show "\<exists>row. find_account v1 a = Some row \<and> ac_frozen_pending_resolve row = 1
      \<and> ac_head_revision_id row = event_revision_id env ev" if none: "find_account v a = None"
  proof -
    have "w = v\<lparr>v_accounts := v_accounts v @ [\<lparr>ac_account_id = a, ac_created_at = now,
        ac_last_modified_at = now, ac_tombstoned = (if tomb = 1 then 1 else 0),
        ac_head_revision_id = event_revision_id env ev, ac_frozen_pending_resolve = 1\<rparr>]\<rparr>"
      using w none by (simp add: insert_account_def split: if_splits)
    moreover have "find P (xs @ [x]) = (case find P xs of None \<Rightarrow> if P x then Some x else None | Some y \<Rightarrow> Some y)"
      for P and xs :: "AccountRow list" and x by (induction xs) auto
    ultimately show ?thesis using f none by (auto simp: find_account_def)
  qed
qed

text \<open>
  Ingestion is idempotent: after an event was ingested, by insertion, by recognising an
  own publication or as a duplicate, ingesting it again at any time reports it as present and
  changes neither the revisions nor the accounts.
\<close>

theorem ingest_idempotent:
  assumes "ingest_chain_revision env am ev v = (Inr outcome, v')"
  shows "fst (ingest_chain_revision env am' ev v') = Inr AlreadyPresent
    \<and> v_revisions (snd (ingest_chain_revision env am' ev v')) = v_revisions v'
    \<and> v_accounts (snd (ingest_chain_revision env am' ev v')) = v_accounts v'"
  using assms
proof (cases rule: ingest_ok)
  case known
  then show ?thesis using ingest_known[of env ev v' am'] by simp
next
  case (anchored b l)
  then show ?thesis using ingest_anchored[of ev b l v' env am'] by simp
next
  case (merged b l row)
  have row: "row \<in> set (v_revisions v)" "content_matches ev row"
    using merged(4) by (auto simp: find_Some_iff)
  let ?row = "stamp_anchor (tx_hash (ev_anchor ev)) b l row"
  have "?row \<in> set (v_revisions v')"
    using row(1) merged(6) by (force simp: update_revisions_def)
  moreover have "rv_account_id ?row = AccountId (ev_account_id ev)"
    "anchor_matches (tx_hash (ev_anchor ev)) b l ?row"
    using row(2) by (auto simp: stamp_anchor_def anchor_matches_def content_matches_def)
  ultimately show ?thesis using ingest_anchored[OF merged(2,3), of v' env am'] by blast
next
  case (inserted b l v0 v1)
  have "event_revision_id env ev \<in> rv_revision_id ` set (v_revisions v')"
    using ingest_commit_ok(1)[OF inserted(5)] inserted(6) by (simp add: foreign_revision_def)
  then show ?thesis using ingest_known[of env ev v' am'] by simp
qed

definition example_event :: RevisionEvent where
  "example_event = \<lparr>ev_vault_id = replicate 32 7, ev_account_id = replicate 32 1,
     ev_parent_revision = replicate 32 76, ev_device_id = replicate 32 44, ev_schema_version = 1,
     ev_sequence = 3, ev_enc_payload = [1, 2, 3],
     ev_anchor = \<lparr>tx_hash = replicate 32 8, block_number = 100, log_index = 2, sequence = 3\<rparr>\<rparr>"

lemma example_event_inserted:
  "fst (ingest_chain_revision example_env example_ambient example_event example_open) = Inr Inserted"
  by code_simp

theorem ingest_idempotent_witness:
  "fst (ingest_chain_revision example_env example_ambient example_event
     (snd (ingest_chain_revision example_env example_ambient example_event example_open))) = Inr AlreadyPresent"
proof -
  obtain v' where v': "ingest_chain_revision example_env example_ambient example_event example_open
      = (Inr Inserted, v')" using example_event_inserted by (metis prod.exhaust_sel)
  show ?thesis using ingest_idempotent[OF v', of example_ambient] v' by simp
qed

section \<open>A foreign revision freezes its account\<close>

text \<open>
  Edits of a frozen account: the session check may fail first; otherwise the frozen guard does.
  Either way the tables stay.
\<close>

lemma frozen_edit_refused:
  assumes "is_account_frozen v i" "is_session_active (am_t_check am) v" "v_active v \<noteq> None"
  shows "update_account env am i snapshot v = (Inl (AccountFrozenPendingResolve i), v)"
    and "delete_account env am i v = (Inl (AccountFrozenPendingResolve i), v)"
proof -
  have "check_session_freshness (am_t_check am) v = (Inr (), v)" using assms(2) check_session_ok by blast
  moreover obtain a where "v_active v = Some a" using assms(3) by blast
  ultimately show "update_account env am i snapshot v = (Inl (AccountFrozenPendingResolve i), v)"
    "delete_account env am i v = (Inl (AccountFrozenPendingResolve i), v)"
    using assms(1) by (simp_all add: update_account_def delete_account_def op_seq_def op_bind_def op_defs
        require_active_def refuse_if_frozen_def)
qed

lemma touch_frozen [simp]: "is_account_frozen (touch_session t v) i = is_account_frozen v i"
  by (simp add: is_account_frozen_def)

text \<open>
  C8. A revision of another device freezes its account: when ingestion inserts, exactly the
  event's revision is appended under its canonical identifier with the event's anchor, an
  existing account keeps its head pointer and a new one starts at the event; and from then on
  the account cannot be read, updated or deleted through the live session.
\<close>

theorem foreign_revision_freezes:
  assumes "ingest_chain_revision env am ev v = (Inr Inserted, v')"
  defines "a \<equiv> AccountId (ev_account_id ev)"
  shows "\<exists>row acc. v_revisions v' = v_revisions v @ [row]
    \<and> rv_revision_id row = event_revision_id env ev
    \<and> rv_revision_id row \<notin> rv_revision_id ` set (v_revisions v)
    \<and> rv_chain_tx_hash row = Some (tx_hash (ev_anchor ev))
    \<and> find_account v' a = Some acc \<and> ac_frozen_pending_resolve acc = 1
    \<and> (case find_account v a of None \<Rightarrow> ac_head_revision_id acc = event_revision_id env ev
       | Some old \<Rightarrow> ac_head_revision_id acc = ac_head_revision_id old)
    \<and> get_account now v' a = None
    \<and> (is_session_active (am_t_check am2) v' \<and> v_active v' \<noteq> None \<longrightarrow>
        update_account env2 am2 a snapshot v' = (Inl (AccountFrozenPendingResolve a), v')
      \<and> delete_account env2 am2 a v' = (Inl (AccountFrozenPendingResolve a), v'))"
  using assms(1)
proof (cases rule: ingest_ok)
  case (inserted b l v0 v1)
  note c = ingest_commit_ok[OF inserted(5)]
  have v0: "v_revisions v0 = v_revisions v" "find_account v0 i = find_account v i" for i
    using inserted(4) by simp_all
  have f: "find_account v' a = find_account v1 a" using inserted(6) by simp
  obtain acc where acc: "find_account v1 a = Some acc" "ac_frozen_pending_resolve acc = 1"
    "case find_account v a of None \<Rightarrow> ac_head_revision_id acc = event_revision_id env ev
       | Some old \<Rightarrow> ac_head_revision_id acc = ac_head_revision_id old"
    using c(3,4) v0(2) unfolding a_def by (cases "find_account v (AccountId (ev_account_id ev))") auto
  have frozen: "is_account_frozen v' a" using f acc by (simp add: is_account_frozen_def)
  then have "get_account now v' a = None" by (simp add: get_account_def)
  moreover note frozen_edit_refused[OF frozen]
  ultimately show ?thesis using c(1,2) v0(1) f acc inserted(6)
    by (intro exI[of _ "foreign_revision env ev (am_now_ms am)
        (detect_tombstone_bit_at_ingest env ev (replicate NONCE_LEN 0) v0) b l"] exI[of _ acc])
      (simp add: foreign_revision_def)
qed simp_all

theorem foreign_revision_freezes_witness:
  "get_account 5 (snd (ingest_chain_revision example_env example_ambient example_event example_open))
     example_account = None
   \<and> fst (update_account example_env example_ambient example_account example_snapshot
       (snd (ingest_chain_revision example_env example_ambient example_event example_open)))
     = Inl (AccountFrozenPendingResolve example_account)"
proof -
  let ?v = "snd (ingest_chain_revision example_env example_ambient example_event example_open)"
  obtain v' where v': "ingest_chain_revision example_env example_ambient example_event example_open
      = (Inr Inserted, v')" using example_event_inserted by (metis prod.exhaust_sel)
  have live: "is_session_active (am_t_check example_ambient) ?v" "v_active ?v \<noteq> None" by code_simp+
  have a: "AccountId (ev_account_id example_event) = example_account"
    by (simp add: example_event_def example_account_def)
  show ?thesis using foreign_revision_freezes[OF v', of 5 example_ambient example_env example_snapshot]
      live v' a by auto
qed

section \<open>Rollback and promotion\<close>

lemma rollback_run:
  assumes "i64_try_from low = Some lo" "i64_try_from high = Some hi"
  shows "rollback_pending_revisions_in_range low high v =
    (Inr (count_u32 (length (filter (rollback_selects lo hi) (v_revisions v)))),
     v\<lparr>v_revisions := filter (\<lambda>r. \<not> rollback_selects lo hi r) (v_revisions v)\<rparr>)"
  using assms by (simp add: rollback_pending_revisions_in_range_def op_seq_def op_bind_def op_defs)

lemma rollback_survivors:
  "r \<in> set (v_revisions v) \<Longrightarrow> rv_revision_status r = Finalized \<Longrightarrow>
     r \<in> set (v_revisions (snd (rollback_pending_revisions_in_range low high v)))"
  by (cases "i64_try_from low"; cases "i64_try_from high")
    (auto simp: rollback_pending_revisions_in_range_def op_seq_def op_bind_def op_defs rollback_selects_def)

text \<open>
  Promotion protects: a pending revision observed at least twelve blocks below the current
  head is finalized by the promotion pass and then survives every rollback, of any range.
\<close>

theorem promoted_survives_rollback:
  assumes "r \<in> set (v_revisions v)" and "rv_observed_at_block r = Some b"
    and "b + 12 \<le> uint current_block_head" and "uint current_block_head \<le> i64_max"
  shows "\<exists>r'. r' \<in> set (v_revisions (snd (rollback_pending_revisions_in_range low high
        (snd (promote_finalized_revisions current_block_head v)))))
    \<and> rv_revision_id r' = rv_revision_id r \<and> rv_revision_status r' = Finalized
    \<and> rv_enc_payload r' = rv_enc_payload r"
proof -
  let ?t = "sat_sub current_block_head CONFIRMATION_DEPTH_FOR_FINALIZATION"
  let ?r = "if promote_selects (uint ?t) r then r\<lparr>rv_revision_status := Finalized\<rparr> else r"
  have "unat ?t = unat current_block_head - 12"
    by (simp add: unat_sat_sub CONFIRMATION_DEPTH_FOR_FINALIZATION_def)
  then have "int (unat ?t) = max 0 (int (unat current_block_head) - 12)" by (simp only:)
  then have t: "uint ?t = max 0 (uint current_block_head - 12)" by simp
  then have fit: "i64_try_from ?t = Some (uint ?t)" using assms(4) by (simp add: i64_try_from_def)
  have mem: "?r \<in> set (v_revisions (snd (promote_finalized_revisions current_block_head v)))"
    using assms(1) fit by (auto simp: promote_finalized_revisions_def op_seq_def op_bind_def op_defs
        update_revisions_def)
  have "b \<le> uint ?t" using t assms(3) by simp
  then have fin: "rv_revision_status ?r = Finalized"
    using assms(2) by (cases "rv_revision_status r") (auto simp: promote_selects_def)
  show ?thesis using rollback_survivors[OF mem fin, of low high] fin by (intro exI[of _ ?r]) auto
qed

theorem promoted_survives_rollback_witness:
  "\<exists>r'. r' \<in> set (v_revisions (snd (rollback_pending_revisions_in_range 0 1000
        (snd (promote_finalized_revisions 112 (snd (ingest_pending_chain_revision example_env example_ambient
          example_event 100 (replicate 32 9) example_open)))))))
     \<and> rv_revision_status r' = Finalized \<and> rv_enc_payload r' = [1, 2, 3]"
proof -
  let ?v = "snd (ingest_pending_chain_revision example_env example_ambient example_event 100
    (replicate 32 9) example_open)"
  have "list_ex (\<lambda>r. rv_revision_status r = Pending \<and> rv_observed_at_block r = Some 100
      \<and> rv_enc_payload r = [1, 2, 3]) (v_revisions ?v)" by code_simp
  then obtain r where r: "r \<in> set (v_revisions ?v)" "rv_observed_at_block r = Some 100"
    "rv_enc_payload r = [1, 2, 3]" by (auto simp: list_ex_iff)
  then show ?thesis using promoted_survives_rollback[OF r(1,2), of 112 0 1000] by auto
qed

text \<open>
  C34. Re-observation undoes finality: when an event whose revision the vault already holds as
  finalized (for instance this device's own published revision) is ingested again through the
  pending path, the stored revision becomes pending, and a rollback of the observation block
  deletes it while the account's head pointer still names it.
\<close>

theorem reobserved_finalized_revision_deleted:
  fixes env :: VaultEnv and am :: Ambient and hash :: bytes
  assumes "tables_inv v" and "r \<in> set (v_revisions v)" and "rv_revision_status r = Finalized"
    and "rv_account_id r = AccountId (ev_account_id ev)"
    and "anchor_matches (tx_hash (ev_anchor ev)) (uint (block_number (ev_anchor ev)))
      (uint (log_index (ev_anchor ev))) r"
    and "uint (block_number (ev_anchor ev)) \<le> i64_max" and "uint (log_index (ev_anchor ev)) \<le> i64_max"
    and "uint blk \<le> i64_max"
  defines "v' \<equiv> snd (ingest_pending_chain_revision env am ev blk hash v)"
  shows "rv_revision_id r \<notin> rv_revision_id ` set (v_revisions (snd (rollback_pending_revisions_in_range blk blk v')))
    \<and> find_account (snd (rollback_pending_revisions_in_range blk blk v')) a = find_account v a"
proof -
  let ?b = "uint (block_number (ev_anchor ev))" and ?l = "uint (log_index (ev_anchor ev))"
  have fits: "i64_try_from (block_number (ev_anchor ev)) = Some ?b"
    "i64_try_from (log_index (ev_anchor ev)) = Some ?l" "i64_try_from blk = Some (uint blk)"
    using assms(6-8) by (simp_all add: i64_try_from_def)
  have present: "\<exists>r \<in> set (v_revisions v). rv_account_id r = AccountId (ev_account_id ev)
      \<and> anchor_matches (tx_hash (ev_anchor ev)) ?b ?l r" using assms(2,4,5) by blast
  obtain v1 where v1: "ingest_chain_revision env am ev v = (Inr AlreadyPresent, v1)"
    "v_revisions v1 = v_revisions v" "v_accounts v1 = v_accounts v"
    using ingest_anchored[OF fits(1,2) present, of env am] by (metis prod.exhaust_sel)
  let ?m = "anchor_matches (tx_hash (ev_anchor ev)) ?b ?l"
  let ?f = "\<lambda>x. x\<lparr>rv_revision_status := Pending, rv_observed_at_block := Some (uint blk),
    rv_observed_block_hash := Some hash\<rparr>"
  have v': "v' = update_revisions ?m ?f v1"
    using v1 fits by (simp add: v'_def ingest_pending_chain_revision_def op_seq_def op_bind_def op_defs)
  have gone: "rv_revision_id x \<noteq> rv_revision_id r"
    if x: "x \<in> set (v_revisions v')" "\<not> rollback_selects (uint blk) (uint blk) x" for x
  proof -
    obtain y where y: "y \<in> set (v_revisions v)" "x = (if ?m y then ?f y else y)"
      using x(1) v' v1(2) by (auto simp: update_revisions_def)
    have "\<not> ?m y" using y(2) x(2) by (auto simp: rollback_selects_def)
    then have "y \<noteq> r" using assms(5) by auto
    moreover have "distinct (map rv_revision_id (v_revisions v))" using assms(1) by (simp add: tables_inv_def)
    ultimately have "rv_revision_id y \<noteq> rv_revision_id r"
      using y(1) assms(2) by (metis distinct_map inj_onD)
    then show ?thesis using y(2) by simp
  qed
  have "rv_revision_id r \<notin> rv_revision_id ` set (v_revisions (snd (rollback_pending_revisions_in_range blk blk v')))"
    unfolding rollback_run[OF fits(3,3)] by (auto dest: gone)
  moreover have "find_account (snd (rollback_pending_revisions_in_range blk blk v')) a = find_account v a"
    using rollback_run[OF fits(3,3), of v'] v' v1(3) by (simp add: find_account_def update_revisions_def)
  ultimately show ?thesis by blast
qed

text \<open>A published revision of this device comes back from the chain.\<close>

definition example_published :: Vault where
  "example_published = snd (mark_published example_ambient (RevisionId (replicate 32 76))
     \<lparr>tx_hash = replicate 32 8, block_number = 100, log_index = 2, sequence = 3\<rparr> example_open)"

theorem reobserved_finalized_revision_deleted_witness:
  "RevisionId (replicate 32 76) \<in> rv_revision_id ` set (v_revisions example_published)
   \<and> RevisionId (replicate 32 76) \<notin> rv_revision_id ` set (v_revisions
       (snd (rollback_pending_revisions_in_range 100 100 (snd (ingest_pending_chain_revision example_env
          example_ambient example_event 100 (replicate 32 9) example_published)))))"
proof -
  have inv: "tables_inv example_published" by code_simp
  have "list_ex (\<lambda>r. rv_revision_id r = RevisionId (replicate 32 76) \<and> rv_revision_status r = Finalized
      \<and> rv_account_id r = AccountId (ev_account_id example_event)
      \<and> anchor_matches (tx_hash (ev_anchor example_event)) (uint (block_number (ev_anchor example_event)))
          (uint (log_index (ev_anchor example_event))) r) (v_revisions example_published)" by code_simp
  then obtain r where r: "r \<in> set (v_revisions example_published)" "rv_revision_status r = Finalized"
    "rv_account_id r = AccountId (ev_account_id example_event)"
    "anchor_matches (tx_hash (ev_anchor example_event)) (uint (block_number (ev_anchor example_event)))
       (uint (log_index (ev_anchor example_event))) r"
    "rv_revision_id r = RevisionId (replicate 32 76)" by (auto simp: list_ex_iff)
  have fits: "uint (block_number (ev_anchor example_event)) \<le> i64_max"
    "uint (log_index (ev_anchor example_event)) \<le> i64_max" "uint (100 :: u64) \<le> i64_max"
    by (simp_all add: example_event_def)
  have "RevisionId (replicate 32 76) \<in> rv_revision_id ` set (v_revisions example_published)"
    using r(1,5) by (metis imageI)
  then show ?thesis
    using reobserved_finalized_revision_deleted[OF inv r(1-4) fits, where env = example_env
        and am = example_ambient and hash = "replicate 32 9"] unfolding r(5) by blast
qed

end
