(* ===== verification/Chain_Adapter.thy ===== *)
theory Chain_Adapter
  imports Chain_Ingest
begin

text \<open>
  The transport to the revision log (\<open>crates/pangolin-chain/src/adapter.rs\<close>, \<open>signing.rs\<close>,
  \<open>error.rs\<close>) and its in-memory implementation \<open>MockChainAdapter\<close> (\<open>mock.rs\<close>). An adapter is a
  record of operations over a chain state. The locale \<open>revision_log\<close> states the contract of the
  trait: a publication appends its event above the tip, an RPC failure may or may not have
  appended it, and a pull returns the events of a vault above a block. The mock adapter is
  proved to satisfy it. Ed25519 and Keccak-256 are parameters.
\<close>

section \<open>Signed revisions\<close>

record SignedRevision =
  sg_vault_id :: bytes
  sg_account_id :: bytes
  sg_parent_revision :: bytes
  sg_device_id :: bytes
  sg_schema_version :: u8
  sg_enc_payload :: bytes
  sg_signature :: bytes

text \<open>
  A device key: its public bytes and its signing function. Verification takes the public bytes,
  the message and the signature, and fails on bytes that are no canonical key.
\<close>

record DeviceKey =
  dk_verifying_key :: bytes
  dk_sign :: "bytes \<Rightarrow> bytes"

definition signed_hash :: "(bytes \<Rightarrow> bytes) \<Rightarrow> SignedRevision \<Rightarrow> bytes" where
  "signed_hash keccak256 s =
     canonical_hash keccak256 (sg_vault_id s) (sg_account_id s) (sg_parent_revision s)
       (sg_device_id s) (sg_schema_version s) (sg_enc_payload s)"

definition event_hash :: "(bytes \<Rightarrow> bytes) \<Rightarrow> RevisionEvent \<Rightarrow> bytes" where
  "event_hash keccak256 ev =
     canonical_hash keccak256 (ev_vault_id ev) (ev_account_id ev) (ev_parent_revision ev)
       (ev_device_id ev) (ev_schema_version ev) (ev_enc_payload ev)"

definition build_signed_revision :: "(bytes \<Rightarrow> bytes) \<Rightarrow> DeviceKey \<Rightarrow> bytes \<Rightarrow> bytes \<Rightarrow> bytes \<Rightarrow> u8
    \<Rightarrow> bytes \<Rightarrow> SignedRevision" where
  "build_signed_revision keccak256 device vault_id account parent schema enc_payload =
     \<lparr>sg_vault_id = vault_id, sg_account_id = account, sg_parent_revision = parent,
      sg_device_id = dk_verifying_key device, sg_schema_version = schema,
      sg_enc_payload = enc_payload,
      sg_signature = dk_sign device (canonical_hash keccak256 vault_id account parent
        (dk_verifying_key device) schema enc_payload)\<rparr>"

definition verify_signed_revision :: "(bytes \<Rightarrow> bytes) \<Rightarrow> (bytes \<Rightarrow> bytes \<Rightarrow> bytes \<Rightarrow> bool)
    \<Rightarrow> SignedRevision \<Rightarrow> bool" where
  "verify_signed_revision keccak256 verify s =
     verify (sg_device_id s) (signed_hash keccak256 s) (sg_signature s)"

section \<open>The adapter\<close>

record BatchBalanceCheck =
  bc_total_estimated_cost_wei :: u128
  bc_current_balance_wei :: u128

definition is_sufficient :: "BatchBalanceCheck \<Rightarrow> bool" where
  "is_sufficient c \<longleftrightarrow> bc_current_balance_wei c \<ge> bc_total_estimated_cost_wei c"

record 'w ChainAdapter =
  ad_publish :: "SignedRevision \<Rightarrow> ('w, ChainError, ChainAnchor) op"
  ad_pull_since :: "bytes \<Rightarrow> u64 \<Rightarrow> u64 option \<Rightarrow> ('w, ChainError, RevisionEvent list) op"
  ad_pre_flight_batch_balance :: "nat \<Rightarrow> ('w, ChainError, BatchBalanceCheck option) op"

definition event_of :: "SignedRevision \<Rightarrow> ChainAnchor \<Rightarrow> RevisionEvent" where
  "event_of s a =
     \<lparr>ev_vault_id = sg_vault_id s, ev_account_id = sg_account_id s,
      ev_parent_revision = sg_parent_revision s, ev_device_id = sg_device_id s,
      ev_schema_version = sg_schema_version s, ev_sequence = sequence a,
      ev_enc_payload = sg_enc_payload s, ev_anchor = a\<rparr>"

lemma event_of_hash [simp]: "event_hash keccak256 (event_of s a) = signed_hash keccak256 s"
  by (simp add: event_hash_def signed_hash_def event_of_def)

section \<open>The in-memory chain\<close>

record MockChainState =
  mc_next_sequence :: u64
  mc_next_block :: u64
  mc_events :: "RevisionEvent list"

record MockChainAdapter =
  mk_state :: MockChainState
  mk_disconnected :: bool

definition mock_new :: MockChainAdapter where
  "mock_new = \<lparr>mk_state = \<lparr>mc_next_sequence = 0, mc_next_block = 0, mc_events = []\<rparr>, mk_disconnected = False\<rparr>"

definition set_disconnected :: "bool \<Rightarrow> MockChainAdapter \<Rightarrow> MockChainAdapter" where
  "set_disconnected b w = w\<lparr>mk_disconnected := b\<rparr>"

definition offline_error :: ChainError where
  "offline_error = Rpc ''simulated offline''"

definition mock_online :: "(MockChainAdapter, ChainError, unit) op" where
  "mock_online w = (if mk_disconnected w then (Inl offline_error, w) else (Inr (), w))"

definition checked_inc :: "u64 \<Rightarrow> u64 option" where
  "checked_inc n = (if n = - 1 then None else Some (n + 1))"

text \<open>
  The counters are bumped one after the other under the lock: when the block counter overflows,
  the sequence counter has already advanced.
\<close>

definition mock_append :: "SignedRevision \<Rightarrow> (MockChainState, ChainError, ChainAnchor) op" where
  "mock_append s st =
     (let seq = mc_next_sequence st
      in case checked_inc seq of
           None \<Rightarrow> (Inl (Wallet ''mock chain sequence counter overflowed''), st)
         | Some seq' \<Rightarrow>
             (let st1 = st\<lparr>mc_next_sequence := seq'\<rparr>
              in case checked_inc (mc_next_block st) of
                   None \<Rightarrow> (Inl (Wallet ''mock chain block counter overflowed''), st1)
                 | Some b \<Rightarrow>
                     (let anchor = \<lparr>tx_hash = replicate 24 0 @ u64_to_be_bytes seq, block_number = b,
                            log_index = 0, sequence = seq\<rparr>
                      in (Inr anchor, st1\<lparr>mc_next_block := b,
                            mc_events := mc_events st @ [event_of s anchor]\<rparr>))))"

definition mock_publish :: "(bytes \<Rightarrow> bytes) \<Rightarrow> (bytes \<Rightarrow> bytes \<Rightarrow> bytes \<Rightarrow> bool) \<Rightarrow> SignedRevision
    \<Rightarrow> (MockChainAdapter, ChainError, ChainAnchor) op" where
  "mock_publish keccak256 verify s =
     op_seq mock_online
      (op_seq (op_guard (verify_signed_revision keccak256 verify s) SignatureInvalid)
        (\<lambda>w. let (r, st') = mock_append s (mk_state w) in (r, w\<lparr>mk_state := st'\<rparr>)))"

definition event_order :: "RevisionEvent \<Rightarrow> u64 \<times> u64" where
  "event_order e = (block_number (ev_anchor e), log_index (ev_anchor e))"

definition mock_pull_since :: "bytes \<Rightarrow> u64 \<Rightarrow> u64 option
    \<Rightarrow> (MockChainAdapter, ChainError, RevisionEvent list) op" where
  "mock_pull_since vault_id from_block until_block =
     op_seq mock_online (op_read (\<lambda>w.
       let upper = (case until_block of None \<Rightarrow> - 1 | Some u \<Rightarrow> u)
       in sort_key event_order (filter (\<lambda>e. block_number (ev_anchor e) > from_block
            \<and> block_number (ev_anchor e) \<le> upper \<and> ev_vault_id e = vault_id) (mc_events (mk_state w)))))"

definition mock_get_revision :: "bytes \<Rightarrow> u64 \<Rightarrow> (MockChainAdapter, ChainError, RevisionEvent option) op" where
  "mock_get_revision tx l =
     op_seq mock_online (op_read (\<lambda>w.
       find (\<lambda>e. tx_hash (ev_anchor e) = tx \<and> log_index (ev_anchor e) = l) (mc_events (mk_state w))))"

definition mock_current_block :: "(MockChainAdapter, ChainError, u64) op" where
  "mock_current_block = op_seq mock_online (op_read (\<lambda>w. mc_next_block (mk_state w)))"

text \<open>The mock keeps the trait's default pre-flight check, which answers that there is none.\<close>

definition mock_adapter :: "(bytes \<Rightarrow> bytes) \<Rightarrow> (bytes \<Rightarrow> bytes \<Rightarrow> bytes \<Rightarrow> bool)
    \<Rightarrow> MockChainAdapter ChainAdapter" where
  "mock_adapter keccak256 verify =
     \<lparr>ad_publish = mock_publish keccak256 verify, ad_pull_since = mock_pull_since,
      ad_pre_flight_batch_balance = (\<lambda>_. op_ret None)\<rparr>"

section \<open>The contract of an adapter\<close>

text \<open>
  \<open>chain_log\<close> is the append-only list of events, \<open>tip\<close> the current block. A failed publication
  may still have been mined.
\<close>

locale revision_log =
  fixes adapter :: "'w ChainAdapter" and chain_log :: "'w \<Rightarrow> RevisionEvent list" and tip :: "'w \<Rightarrow> u64"
  assumes publish_ok: "ad_publish adapter s w = (Inr a, w') \<Longrightarrow>
      chain_log w' = chain_log w @ [event_of s a] \<and> tip w < block_number a \<and> block_number a \<le> tip w'"
    and publish_err: "ad_publish adapter s w = (Inl e, w') \<Longrightarrow>
      tip w \<le> tip w' \<and> (chain_log w' = chain_log w \<or>
        (\<exists>a. chain_log w' = chain_log w @ [event_of s a] \<and> tip w < block_number a \<and> block_number a \<le> tip w'))"
    and pull_ok: "ad_pull_since adapter vault_id from_block None w = (Inr evs, w') \<Longrightarrow>
      w' = w \<and>
      set evs = {e \<in> set (chain_log w). ev_vault_id e = vault_id \<and> from_block < block_number (ev_anchor e)}"
    and pull_err: "ad_pull_since adapter vault_id from_block None w = (Inl e, w') \<Longrightarrow> w' = w"
    and balance_reads: "ad_pre_flight_batch_balance adapter n w = (r, w') \<Longrightarrow> w' = w"
begin

text \<open>What one publication attempt can add to the log, on either outcome.\<close>

definition added :: "SignedRevision \<Rightarrow> RevisionEvent list \<Rightarrow> bool" where
  "added s evs \<longleftrightarrow> evs = [] \<or> (\<exists>a. evs = [event_of s a])"

lemma publish_adds:
  assumes "ad_publish adapter s w = (r, w')"
  obtains evs where "chain_log w' = chain_log w @ evs" "added s evs" "r \<in> range Inr \<Longrightarrow> evs \<noteq> []"
    "tip w \<le> tip w'" "\<forall>e \<in> set evs. tip w < block_number (ev_anchor e)"
proof (cases r)
  case (Inl e)
  then show thesis using publish_err[of s w e w'] assms that[of "[]"] that[of "[event_of s a]" for a]
    by (auto simp: added_def event_of_def)
next
  case (Inr a)
  then show thesis using publish_ok[of s w a w'] assms that[of "[event_of s a]"]
    by (auto simp: added_def event_of_def)
qed

end

lemma checked_inc_Some: "checked_inc n = Some m \<Longrightarrow> m = n + 1 \<and> n < m"
proof -
  assume "checked_inc n = Some m"
  then have m: "m = n + 1" "n \<noteq> - 1" by (auto simp: checked_inc_def split: if_splits)
  then have "1 + n \<noteq> 0" by (metis add.commute add_eq_0_iff)
  then have "unat (1 + n) = Suc (unat n)" by (rule unatSuc)
  then show ?thesis using m by (simp add: word_less_nat_alt add.commute)
qed

lemma mock_append_ok:
  assumes "mock_append s st = (Inr a, st')"
  shows "mc_events st' = mc_events st @ [event_of s a] \<and> mc_next_block st < block_number a
    \<and> mc_next_block st' = block_number a"
  using assms checked_inc_Some[of "mc_next_block st"]
  by (auto simp: mock_append_def Let_def split: option.split_asm)

lemma mock_append_err:
  "mock_append s st = (Inl e, st') \<Longrightarrow> mc_events st' = mc_events st \<and> mc_next_block st' = mc_next_block st"
  by (auto simp: mock_append_def Let_def split: option.split_asm)

lemma mock_online_run: "mock_online w = (Inr u, w') \<longleftrightarrow> \<not> mk_disconnected w \<and> w' = w"
  "mock_online w = (Inl e, w') \<longleftrightarrow> mk_disconnected w \<and> e = offline_error \<and> w' = w"
  by (auto simp: mock_online_def)

lemmas mock_run = op_run mock_online_run

interpretation mock: revision_log "mock_adapter keccak256 verify" "\<lambda>w. mc_events (mk_state w)"
  "\<lambda>w. mc_next_block (mk_state w)"
proof
  fix s w a w'
  assume "ad_publish (mock_adapter keccak256 verify) s w = (Inr a, w')"
  then obtain st' where st': "mock_append s (mk_state w) = (Inr a, st')" "w' = w\<lparr>mk_state := st'\<rparr>"
    by (auto simp: mock_adapter_def mock_publish_def mock_run split: prod.splits)
  show "mc_events (mk_state w') = mc_events (mk_state w) @ [event_of s a] \<and>
      mc_next_block (mk_state w) < block_number a \<and> block_number a \<le> mc_next_block (mk_state w')"
    using mock_append_ok[OF st'(1)] st'(2) by simp
next
  fix s w e w'
  assume "ad_publish (mock_adapter keccak256 verify) s w = (Inl e, w')"
  then consider "w' = w" | st' where "mock_append s (mk_state w) = (Inl e, st')" "w' = w\<lparr>mk_state := st'\<rparr>"
    by (auto simp: mock_adapter_def mock_publish_def mock_run split: prod.splits)
  then show "mc_next_block (mk_state w) \<le> mc_next_block (mk_state w') \<and>
      (mc_events (mk_state w') = mc_events (mk_state w) \<or>
       (\<exists>a. mc_events (mk_state w') = mc_events (mk_state w) @ [event_of s a] \<and>
          mc_next_block (mk_state w) < block_number a \<and> block_number a \<le> mc_next_block (mk_state w')))"
    by cases (auto dest: mock_append_err)
qed (auto simp: mock_adapter_def mock_pull_since_def mock_run op_defs)

end
