(* ===== verification/Publish_Queue.thy ===== *)
theory Publish_Queue
  imports Chain_Adapter
begin

text \<open>
  The publish queue (\<open>crates/pangolin-store/src/publish.rs\<close> and the queue methods of
  \<open>vault.rs\<close>): dirty markers, coalescing, the pre-flight balance check, and the publication
  loop with its on-chain duplicate check. The state is the vault together with the chain; the
  adapter is an argument. The lemmas show that a run publishes nothing the chain already holds,
  that exactly the failed entries keep their markers, and what coalescing keeps.
\<close>

section \<open>Data\<close>

datatype PublishOutcome =
    is_Published: Published (po_anchor: ChainAnchor) (was_already_on_chain: bool)
  | is_Failed: Failed (po_error: string)

record PublishOutcomeRow =
  pr_account_id :: AccountId
  pr_revision_id :: RevisionId
  pr_outcome :: PublishOutcome

record PublishReport =
  rows :: "PublishOutcomeRow list"

definition published_count :: "PublishReport \<Rightarrow> nat" where
  "published_count r = length (filter (\<lambda>x. is_Published (pr_outcome x)) (rows r))"

definition failed_count :: "PublishReport \<Rightarrow> nat" where
  "failed_count r = length (filter (\<lambda>x. is_Failed (pr_outcome x)) (rows r))"

definition all_ok :: "PublishReport \<Rightarrow> bool" where
  "all_ok r \<longleftrightarrow> failed_count r = 0"

record BatchFlushReport =
  coalesced_markers_pruned :: nat
  publish_report :: PublishReport

datatype BatchFlushError =
    BalanceInsufficientForBatch (needed: u128) (available: u128) (queued_count: nat)
  | FlushChainError ChainError
  | FlushStore StoreError
  | NoActiveSession

record PublishQueueState =
  qs_window_started_at_unix_ms :: "int option"
  qs_dirty_count :: nat
  qs_dirty_byte_size :: u64
  qs_blocked_on_balance :: bool

datatype PublishOneError = OneStore StoreError | OneChain ChainError

record RevisionPublishPayload =
  pp_parent_revision :: RevisionId
  pp_schema_version :: u8
  pp_enc_payload :: bytes

section \<open>Dirty markers\<close>

definition read_publish_payload :: "AccountId \<Rightarrow> RevisionId \<Rightarrow> Vault \<Rightarrow> StoreError + RevisionPublishPayload" where
  "read_publish_payload a r v =
     and_then (ok_or (find_revision v a r) RevisionNotFound) (\<lambda>row.
     and_then (rid32 ''parent_revision_id not 32 bytes'' (rv_parent_revision_id row)) (\<lambda>parent.
     and_then (ok_or (u8_try_from (rv_schema_version row))
       (Corrupted ''revisions.schema_version out of u8 range'')) (\<lambda>schema.
     Inr \<lparr>pp_parent_revision = parent, pp_schema_version = schema,
          pp_enc_payload = rv_enc_payload row\<rparr>)))"

definition read_revision_for_publish :: "Ambient \<Rightarrow> AccountId \<Rightarrow> RevisionId \<Rightarrow> RevisionPublishPayload vault_op" where
  "read_revision_for_publish am a r =
     op_seq (op_modify (maybe_expire_active_session (am_t_check am)))
       (op_try (read_publish_payload a r))"

definition mark_dirty :: "Ambient \<Rightarrow> AccountId \<Rightarrow> RevisionId \<Rightarrow> unit vault_op" where
  "mark_dirty am a r =
     op_seq (op_modify (maybe_expire_active_session (am_t_check am)))
      (op_seq (op_try (refuse_if_frozen a))
       (op_bind (op_read (dirty_present a r)) (\<lambda>present.
        op_seq (op_modify (insert_dirty a r (am_now_ms am)))
         (op_seq (if present then op_ret () else op_modify (note_dirty_marker_stamped (am_now_ms am)))
           (op_modify (touch_session (am_t_touch am)))))))"

definition is_marker :: "AccountId \<Rightarrow> RevisionId \<Rightarrow> DirtyEntry \<Rightarrow> bool" where
  "is_marker a r d \<longleftrightarrow> de_account_id d = a \<and> de_revision_id d = r"

definition delete_marker :: "AccountId \<Rightarrow> RevisionId \<Rightarrow> Vault \<Rightarrow> Vault" where
  "delete_marker a r v = v\<lparr>v_dirty := filter (\<lambda>d. \<not> is_marker a r d) (v_dirty v)\<rparr>"

definition clear_dirty :: "Ambient \<Rightarrow> AccountId \<Rightarrow> RevisionId \<Rightarrow> unit vault_op" where
  "clear_dirty am a r =
     op_seq (op_modify (maybe_expire_active_session (am_t_check am)))
      (op_seq (op_modify (delete_marker a r)) (op_modify (touch_session (am_t_touch am))))"

definition dirty_key :: "DirtyEntry \<Rightarrow> int \<times> AccountId \<times> RevisionId" where
  "dirty_key d = (de_marked_at d, de_account_id d, de_revision_id d)"

definition decode_marker :: "DirtyEntry \<Rightarrow> StoreError + DirtyEntry" where
  "decode_marker d =
     and_then (aid32 ''dirty_accounts.account_id not 32 bytes'' (de_account_id d)) (\<lambda>_.
     and_then (rid32 ''dirty_accounts.revision_id not 32 bytes'' (de_revision_id d)) (\<lambda>_. Inr d))"

definition list_dirty :: "Vault \<Rightarrow> StoreError + DirtyEntry list" where
  "list_dirty v = collect_results decode_marker (sort_key dirty_key (v_dirty v))"

definition enable_window_elapsed_flush :: "bool \<Rightarrow> unit vault_op" where
  "enable_window_elapsed_flush on =
     with_active (op_modify (\<lambda>a. a\<lparr>as_window_elapsed_flush_enabled := on\<rparr>))"

definition payload_size :: "Vault \<Rightarrow> DirtyEntry \<Rightarrow> u64" where
  "payload_size v d =
     (case find_revision v (de_account_id d) (de_revision_id d) of
        None \<Rightarrow> 0 | Some row \<Rightarrow> u64_or_zero (int (length (rv_enc_payload row))))"

definition publish_queue_state :: "Vault \<Rightarrow> StoreError + PublishQueueState" where
  "publish_queue_state v =
     and_then (list_dirty v) (\<lambda>dirty.
     Inr \<lparr>qs_window_started_at_unix_ms = (case v_active v of None \<Rightarrow> None | Some a \<Rightarrow> as_window_started_at_unix_ms a),
          qs_dirty_count = length dirty,
          qs_dirty_byte_size = fold (\<lambda>d n. sat_add n (payload_size v d)) dirty 0,
          qs_blocked_on_balance = (case v_active v of None \<Rightarrow> False | Some a \<Rightarrow> as_last_flush_failed_balance a)\<rparr>)"

section \<open>Coalescing\<close>

text \<open>
  The markers are grouped by account. The groups are independent, so the order in which the
  hash map yields them does not matter: the transaction fails when the head of a group is
  malformed, and otherwise deletes the markers of each group except the head's.
\<close>

definition group_size :: "DirtyEntry list \<Rightarrow> AccountId \<Rightarrow> nat" where
  "group_size dirty a = length (filter (\<lambda>d. de_account_id d = a) dirty)"

definition malformed_head :: "Vault \<Rightarrow> DirtyEntry list \<Rightarrow> DirtyEntry \<Rightarrow> bool" where
  "malformed_head v dirty d \<longleftrightarrow> group_size dirty (de_account_id d) \<ge> 2
     \<and> (case find_account v (de_account_id d) of
          None \<Rightarrow> False | Some row \<Rightarrow> length (rid_bytes (ac_head_revision_id row)) \<noteq> REVISION_ID_LEN)"

definition to_prune :: "Vault \<Rightarrow> DirtyEntry list \<Rightarrow> DirtyEntry \<Rightarrow> bool" where
  "to_prune v dirty d \<longleftrightarrow> group_size dirty (de_account_id d) \<ge> 2
     \<and> (case find_account v (de_account_id d) of
          None \<Rightarrow> False | Some row \<Rightarrow> de_revision_id d \<noteq> ac_head_revision_id row)"

definition coalesce_dirty_markers :: "nat vault_op" where
  "coalesce_dirty_markers v =
     (case list_dirty v of
        Inl e \<Rightarrow> (Inl e, v)
      | Inr dirty \<Rightarrow>
          if list_ex (malformed_head v dirty) dirty
          then (Inl (Corrupted ''head_revision_id not 32 bytes''), v)
          else (Inr (length (filter (to_prune v dirty) (v_dirty v))),
                v\<lparr>v_dirty := filter (\<lambda>d. \<not> to_prune v dirty d) (v_dirty v)\<rparr>))"

section \<open>Publication\<close>

text \<open>Operations on the vault and on the chain, lifted to both.\<close>

definition on_store :: "('e \<Rightarrow> 'f) \<Rightarrow> (Vault, 'e, 'a) op \<Rightarrow> (Vault \<times> 'w, 'f, 'a) op" where
  "on_store f m vw = (let (r, v') = m (fst vw) in (map_sum f id r, (v', snd vw)))"

definition on_chain :: "('e \<Rightarrow> 'f) \<Rightarrow> ('w, 'e, 'a) op \<Rightarrow> (Vault \<times> 'w, 'f, 'a) op" where
  "on_chain f m vw = (let (r, w') = m (snd vw) in (map_sum f id r, (fst vw, w')))"

definition payload_revision :: "(bytes \<Rightarrow> bytes) \<Rightarrow> DeviceKey \<Rightarrow> bytes \<Rightarrow> AccountId
    \<Rightarrow> RevisionPublishPayload \<Rightarrow> SignedRevision" where
  "payload_revision keccak256 device vault_id account p =
     build_signed_revision keccak256 device vault_id (aid_bytes account)
       (rid_bytes (pp_parent_revision p)) (pp_schema_version p) (pp_enc_payload p)"

definition on_chain_event :: "(bytes \<Rightarrow> bytes) \<Rightarrow> SignedRevision \<Rightarrow> RevisionEvent list option
    \<Rightarrow> RevisionEvent option" where
  "on_chain_event keccak256 s view =
     (case view of
        None \<Rightarrow> None
      | Some events \<Rightarrow> find (\<lambda>ev. event_hash keccak256 ev = signed_hash keccak256 s) events)"

text \<open>
  The ambient inputs are indexed by the vault call that reads them: the payload read, the
  anchor, the marker.
\<close>

definition publish_one :: "(bytes \<Rightarrow> bytes) \<Rightarrow> 'w ChainAdapter \<Rightarrow> DeviceKey \<Rightarrow> (nat \<Rightarrow> Ambient) \<Rightarrow> DirtyEntry
    \<Rightarrow> RevisionEvent list option \<Rightarrow> (Vault \<times> 'w, PublishOneError, PublishOutcome) op" where
  "publish_one keccak256 adapter device am d view =
     (let a = de_account_id d; r = de_revision_id d
      in op_bind (on_store OneStore (read_revision_for_publish (am 0) a r)) (\<lambda>payload.
         op_bind (op_read (\<lambda>vw. payload_revision keccak256 device (v_vault_id (fst vw)) a payload)) (\<lambda>signed.
         case on_chain_event keccak256 signed view of
           Some ev \<Rightarrow>
             op_seq (on_store OneStore (mark_published (am 1) r (ev_anchor ev)))
              (op_seq (on_store OneStore (clear_dirty (am 2) a r))
                (op_ret (Published (ev_anchor ev) True)))
         | None \<Rightarrow>
             op_bind (on_chain OneChain (ad_publish adapter signed)) (\<lambda>anchor.
             op_seq (on_store OneStore (mark_published (am 1) r anchor))
              (op_seq (on_store OneStore (clear_dirty (am 2) a r))
                (op_ret (Published anchor False)))))))"

text \<open>\<open>display\<close> renders an error for the report.\<close>

definition outcome_row :: "(PublishOneError \<Rightarrow> string) \<Rightarrow> DirtyEntry \<Rightarrow> PublishOneError + PublishOutcome
    \<Rightarrow> PublishOutcomeRow" where
  "outcome_row display d r =
     \<lparr>pr_account_id = de_account_id d, pr_revision_id = de_revision_id d,
      pr_outcome = (case r of Inl e \<Rightarrow> Failed (display e) | Inr outcome \<Rightarrow> outcome)\<rparr>"

fun publish_entries :: "(bytes \<Rightarrow> bytes) \<Rightarrow> (PublishOneError \<Rightarrow> string) \<Rightarrow> 'w ChainAdapter \<Rightarrow> DeviceKey
    \<Rightarrow> (nat \<Rightarrow> nat \<Rightarrow> Ambient) \<Rightarrow> RevisionEvent list option \<Rightarrow> DirtyEntry list \<Rightarrow> Vault \<times> 'w
    \<Rightarrow> PublishOutcomeRow list \<times> (Vault \<times> 'w)" where
  "publish_entries keccak256 display adapter device am view [] vw = ([], vw)"
| "publish_entries keccak256 display adapter device am view (d # ds) vw =
     (let (r, vw1) = publish_one keccak256 adapter device (am (length ds)) d view vw;
          (rest, vw2) = publish_entries keccak256 display adapter device am view ds vw1
      in (outcome_row display d r # rest, vw2))"

definition publish_all_for_vault :: "(bytes \<Rightarrow> bytes) \<Rightarrow> (PublishOneError \<Rightarrow> string) \<Rightarrow> 'w ChainAdapter
    \<Rightarrow> DeviceKey \<Rightarrow> (nat \<Rightarrow> nat \<Rightarrow> Ambient) \<Rightarrow> (Vault \<times> 'w, StoreError, PublishReport) op" where
  "publish_all_for_vault keccak256 display adapter device am =
     op_bind (on_store id (op_try last_pulled_block)) (\<lambda>last_pulled.
     op_bind (on_store id (op_try list_dirty)) (\<lambda>dirty. \<lambda>vw.
     let (pulled, w1) = ad_pull_since adapter (v_vault_id (fst vw)) last_pulled None (snd vw);
         view = (case pulled of Inl _ \<Rightarrow> None | Inr evs \<Rightarrow> Some evs);
         (out, vw2) = publish_entries keccak256 display adapter device am view dirty (fst vw, w1)
     in (Inr \<lparr>rows = out\<rparr>, vw2)))"

definition set_flush_failed :: "Vault \<Rightarrow> Vault" where
  "set_flush_failed v = v\<lparr>v_active := map_option (\<lambda>a. a\<lparr>as_last_flush_failed_balance := True\<rparr>) (v_active v)\<rparr>"

definition reset_window :: "Vault \<Rightarrow> Vault" where
  "reset_window v = v\<lparr>v_active := map_option (\<lambda>a. a\<lparr>as_window_started_at_unix_ms := None,
     as_last_flush_failed_balance := False\<rparr>) (v_active v)\<rparr>"

definition balance_gate :: "nat \<Rightarrow> BatchBalanceCheck option \<Rightarrow> (Vault \<times> 'w, BatchFlushError, unit) op" where
  "balance_gate queued check =
     (case check of
        None \<Rightarrow> op_ret ()
      | Some c \<Rightarrow>
          if is_sufficient c then op_ret ()
          else op_seq (on_store FlushStore (op_modify set_flush_failed))
                 (op_fail (BalanceInsufficientForBatch (bc_total_estimated_cost_wei c)
                    (bc_current_balance_wei c) queued)))"

definition map_error :: "('e \<Rightarrow> 'f) \<Rightarrow> ('s, 'e, 'a) op \<Rightarrow> ('s, 'f, 'a) op" where
  "map_error f m s = (let (r, s') = m s in (map_sum f id r, s'))"

definition flush_publish_queue :: "(bytes \<Rightarrow> bytes) \<Rightarrow> (PublishOneError \<Rightarrow> string) \<Rightarrow> 'w ChainAdapter
    \<Rightarrow> DeviceKey \<Rightarrow> (nat \<Rightarrow> nat \<Rightarrow> Ambient) \<Rightarrow> (Vault \<times> 'w, BatchFlushError, BatchFlushReport) op" where
  "flush_publish_queue keccak256 display adapter device am =
     op_bind (op_read (\<lambda>vw. v_active (fst vw) = None)) (\<lambda>inactive.
     if inactive then op_fail NoActiveSession
     else op_bind (on_store FlushStore coalesce_dirty_markers) (\<lambda>pruned.
       op_bind (on_store FlushStore (op_try list_dirty)) (\<lambda>dirty.
       op_bind (on_chain FlushChainError (ad_pre_flight_batch_balance adapter (length dirty))) (\<lambda>check.
       op_seq (balance_gate (length dirty) check)
        (op_bind (map_error FlushStore (publish_all_for_vault keccak256 display adapter device am)) (\<lambda>report.
         op_seq (on_store FlushStore (op_modify reset_window))
          (op_ret \<lparr>coalesced_markers_pruned = pruned, publish_report = report\<rparr>)))))))"

section \<open>The batch window\<close>

definition BATCH_WINDOW_SECS_DEFAULT :: u64 where
  "BATCH_WINDOW_SECS_DEFAULT = 30"

definition BATCH_WINDOW_SECS_MIN :: u64 where
  "BATCH_WINDOW_SECS_MIN = 1"

definition BATCH_WINDOW_SECS_MAX :: u64 where
  "BATCH_WINDOW_SECS_MAX = 300"

definition resolve_batch_window_secs_from :: "bytes option \<Rightarrow> u64" where
  "resolve_batch_window_secs_from raw =
     (let parsed = Option.bind raw (parse_unsigned (2 ^ 64 - 1));
          v = (case parsed of None \<Rightarrow> BATCH_WINDOW_SECS_DEFAULT | Some n \<Rightarrow> of_nat n)
      in max BATCH_WINDOW_SECS_MIN (min BATCH_WINDOW_SECS_MAX v))"

section \<open>One publication\<close>

definition entry_revision :: "(bytes \<Rightarrow> bytes) \<Rightarrow> DeviceKey \<Rightarrow> Vault \<Rightarrow> DirtyEntry \<Rightarrow> StoreError + SignedRevision" where
  "entry_revision keccak256 device v d =
     and_then (read_publish_payload (de_account_id d) (de_revision_id d) v) (\<lambda>p.
       Inr (payload_revision keccak256 device (v_vault_id v) (de_account_id d) p))"

text \<open>The parts of the vault that a session transition leaves alone.\<close>

definition same_tables :: "Vault \<Rightarrow> Vault \<Rightarrow> bool" where
  "same_tables v v' \<longleftrightarrow> v_accounts v' = v_accounts v \<and> v_revisions v' = v_revisions v
     \<and> v_dirty v' = v_dirty v \<and> v_vault_id v' = v_vault_id v \<and> v_device_id v' = v_device_id v
     \<and> v_sync_state v' = v_sync_state v"

text \<open>What a finished publication does: the anchor is stamped and the marker is gone.\<close>

definition anchored :: "AccountId \<Rightarrow> RevisionId \<Rightarrow> ChainAnchor \<Rightarrow> Vault \<Rightarrow> Vault \<Rightarrow> bool" where
  "anchored a r anchor v v' \<longleftrightarrow>
     (\<exists>b l. i64_try_from (block_number anchor) = Some b \<and> i64_try_from (log_index anchor) = Some l
       \<and> v_revisions v' = map (\<lambda>x. if rv_revision_id x = r then stamp_anchor (tx_hash anchor) b l x else x)
           (v_revisions v))
     \<and> v_accounts v' = v_accounts v \<and> v_dirty v' = filter (\<lambda>d. \<not> is_marker a r d) (v_dirty v)
     \<and> v_vault_id v' = v_vault_id v \<and> v_device_id v' = v_device_id v \<and> v_sync_state v' = v_sync_state v"

lemma on_store_run [simp]:
  "on_store f m (v, w) = (case m v of (r, v') \<Rightarrow> (map_sum f id r, (v', w)))"
  by (simp add: on_store_def split: prod.splits)

lemma on_chain_run [simp]:
  "on_chain f m (v, w) = (case m w of (r, w') \<Rightarrow> (map_sum f id r, (v, w')))"
  by (simp add: on_chain_def split: prod.splits)

lemma read_payload_tables:
  "v_revisions v' = v_revisions v \<Longrightarrow> read_publish_payload a r v' = read_publish_payload a r v"
  by (simp add: read_publish_payload_def find_revision_def)

lemma read_for_publish_run:
  "read_revision_for_publish am a r v =
     (read_publish_payload a r v, maybe_expire_active_session (am_t_check am) v)"
  using read_payload_tables[of "maybe_expire_active_session (am_t_check am) v" v]
  by (simp add: read_revision_for_publish_def op_seq_def op_bind_def op_defs)

lemma expire_same_tables: "same_tables v (maybe_expire_active_session t v)"
  by (simp add: same_tables_def)

lemma mark_published_ok:
  assumes "mark_published am r anchor v = (Inr u, v')"
  obtains b l where "i64_try_from (block_number anchor) = Some b" "i64_try_from (log_index anchor) = Some l"
    "same_tables (update_revisions (\<lambda>x. rv_revision_id x = r) (stamp_anchor (tx_hash anchor) b l) v) v'"
  using assms
  by (auto simp: mark_published_def mark_published_commit_def op_run and_then_Inr same_tables_def update_revisions_def
      split: if_split_asm)

lemma mark_published_err: "mark_published am r anchor v = (Inl e, v') \<Longrightarrow> same_tables v v'"
  by (auto simp: mark_published_def op_run same_tables_def)

lemma clear_dirty_ok:
  obtains v' where "clear_dirty am a r v = (Inr (), v')" "same_tables (delete_marker a r v) v'"
  by (simp add: clear_dirty_def op_seq_def op_bind_def op_defs same_tables_def delete_marker_def)

lemma finish_publish:
  assumes "op_seq (on_store OneStore (mark_published am1 r anchor))
      (op_seq (on_store OneStore (clear_dirty am2 a r)) (op_ret out)) (v, w) = (res, (v', w'))"
  shows "w' = w \<and> (res = Inr out \<and> anchored a r anchor v v' \<or>
    (\<exists>e. res = Inl (OneStore e) \<and> same_tables v v'))"
proof (cases "mark_published am1 r anchor v")
  case (Pair r1 v1)
  show ?thesis
  proof (cases r1)
    case (Inl e)
    then show ?thesis using assms Pair mark_published_err[of am1 r anchor v e v1]
      by (auto simp: op_seq_def op_bind_def)
  next
    case (Inr u)
    obtain v2 where v2: "clear_dirty am2 a r v1 = (Inr (), v2)" "same_tables (delete_marker a r v1) v2"
      by (rule clear_dirty_ok)
    have "w' = w" "res = Inr out" "v' = v2"
      using assms Pair Inr v2(1) by (simp_all add: op_seq_def op_bind_def)
    moreover obtain b l where "i64_try_from (block_number anchor) = Some b"
      "i64_try_from (log_index anchor) = Some l"
      "same_tables (update_revisions (\<lambda>x. rv_revision_id x = r) (stamp_anchor (tx_hash anchor) b l) v) v1"
      using mark_published_ok Pair Inr by blast
    then have "anchored a r anchor v v2"
      using v2(2) by (simp add: anchored_def same_tables_def delete_marker_def update_revisions_def)
    ultimately show ?thesis by simp
  qed
qed

lemma publish_one_cases:
  assumes "publish_one keccak256 adapter device am d view (v, w) = (res, (v', w'))"
  obtains (unreadable) e where "entry_revision keccak256 device v d = Inl e" "res = Inl (OneStore e)"
      "w' = w" "same_tables v v'"
  | (present) s ev where "entry_revision keccak256 device v d = Inr s"
      "on_chain_event keccak256 s view = Some ev" "w' = w"
      "res = Inr (Published (ev_anchor ev) True) \<and> anchored (de_account_id d) (de_revision_id d) (ev_anchor ev) v v'
        \<or> (\<exists>e. res = Inl e \<and> same_tables v v')"
  | (refused) s e where "entry_revision keccak256 device v d = Inr s"
      "on_chain_event keccak256 s view = None" "ad_publish adapter s w = (Inl e, w')"
      "res = Inl (OneChain e)" "same_tables v v'"
  | (submitted) s anchor where "entry_revision keccak256 device v d = Inr s"
      "on_chain_event keccak256 s view = None" "ad_publish adapter s w = (Inr anchor, w')"
      "res = Inr (Published anchor False) \<and> anchored (de_account_id d) (de_revision_id d) anchor v v'
        \<or> (\<exists>e. res = Inl e \<and> same_tables v v')"
proof -
  let ?v0 = "maybe_expire_active_session (am_t_check (am 0)) v"
  have v0: "v_vault_id ?v0 = v_vault_id v" "same_tables v ?v0" by (simp_all add: same_tables_def)
  have lift: "same_tables ?v0 x \<Longrightarrow> same_tables v x" "anchored a r k ?v0 x \<Longrightarrow> anchored a r k v x" for x a r k
    by (simp_all add: same_tables_def anchored_def)
  show thesis
  proof (cases "read_publish_payload (de_account_id d) (de_revision_id d) v")
    case (Inl e)
    then show thesis using assms unreadable[of e] v0
      by (auto simp: Let_def publish_one_def entry_revision_def op_bind_def read_for_publish_run)
  next
    case (Inr p)
    let ?s = "payload_revision keccak256 device (v_vault_id v) (de_account_id d) p"
    have s: "entry_revision keccak256 device v d = Inr ?s" using Inr by (simp add: entry_revision_def)
    show thesis
    proof (cases "on_chain_event keccak256 ?s view")
      case (Some ev)
      have "op_seq (on_store OneStore (mark_published (am 1) (de_revision_id d) (ev_anchor ev)))
          (op_seq (on_store OneStore (clear_dirty (am 2) (de_account_id d) (de_revision_id d)))
            (op_ret (Published (ev_anchor ev) True))) (?v0, w) = (res, (v', w'))"
        using assms Inr Some v0(1)
        by (simp add: Let_def publish_one_def op_bind_def[of "on_store _ _"] read_for_publish_run op_bind_def[of "op_read _"])
      note f = finish_publish[OF this]
      show thesis using present[OF s Some] f lift by blast
    next
      case None
      obtain r w1 where pub: "ad_publish adapter ?s w = (r, w1)" by fastforce
      show thesis
      proof (cases r)
        case (Inl e)
        then show thesis using assms refused[OF s None, of e] pub \<open>read_publish_payload _ _ _ = _\<close> None v0
          by (auto simp: Let_def publish_one_def op_bind_def read_for_publish_run)
      next
        case (Inr anchor)
        have "op_seq (on_store OneStore (mark_published (am 1) (de_revision_id d) anchor))
          (op_seq (on_store OneStore (clear_dirty (am 2) (de_account_id d) (de_revision_id d)))
            (op_ret (Published anchor False))) (?v0, w1) = (res, (v', w'))"
          using assms Inr pub \<open>read_publish_payload _ _ _ = _\<close> None v0(1)
          by (simp add: Let_def publish_one_def op_bind_def[of "on_store _ _"] read_for_publish_run op_bind_def[of "op_read _"]
              op_bind_def[of "on_chain _ _"])
        note f = finish_publish[OF this]
        show thesis using submitted[OF s None, of anchor] pub Inr f lift by blast
      qed
    qed
  qed
qed

section \<open>The publication loop\<close>

lemma find_map_same: "(\<And>x. P (f x) = P x) \<Longrightarrow> find P (map f xs) = map_option f (find P xs)"
  by (induction xs) auto

lemma entry_same: "same_tables v v' \<Longrightarrow> entry_revision keccak256 device v' d = entry_revision keccak256 device v d"
  by (simp add: entry_revision_def same_tables_def read_publish_payload_def find_revision_def)

lemma stamp_anchor_fields [simp]:
  "rv_revision_id (stamp_anchor tx b l x) = rv_revision_id x"
  "rv_account_id (stamp_anchor tx b l x) = rv_account_id x"
  "rv_parent_revision_id (stamp_anchor tx b l x) = rv_parent_revision_id x"
  "rv_schema_version (stamp_anchor tx b l x) = rv_schema_version x"
  "rv_enc_payload (stamp_anchor tx b l x) = rv_enc_payload x"
  "rv_chain_tx_hash (stamp_anchor tx b l x) = Some tx"
  by (simp_all add: stamp_anchor_def)

lemma entry_anchored:
  assumes "anchored a r k v v'"
  shows "entry_revision keccak256 device v' d = entry_revision keccak256 device v d"
proof -
  obtain tx b l where "v_revisions v' = map (\<lambda>x. if rv_revision_id x = r then stamp_anchor tx b l x else x)
      (v_revisions v)" "v_vault_id v' = v_vault_id v" using assms unfolding anchored_def by blast
  then show ?thesis
    by (cases "find_revision v (de_account_id d) (de_revision_id d)")
      (simp_all add: entry_revision_def read_publish_payload_def find_revision_def find_map_same)
qed

lemma publish_one_entry:
  assumes "publish_one keccak256 adapter device am d view (v, w) = (res, (v', w'))"
  shows "entry_revision keccak256 device v' d' = entry_revision keccak256 device v d'"
  using assms by (cases rule: publish_one_cases) (auto simp: entry_same entry_anchored)

text \<open>The marker of an entry leaves the queue exactly when the entry was published.\<close>

lemma publish_one_dirty:
  assumes "publish_one keccak256 adapter device am d view (v, w) = (res, (v', w'))"
  shows "v_dirty v' = (if \<exists>out. res = Inr out \<and> is_Published out
      then filter (\<lambda>x. \<not> is_marker (de_account_id d) (de_revision_id d) x) (v_dirty v) else v_dirty v)"
    and "res = Inr out \<Longrightarrow> is_Published out"
  using assms by (cases rule: publish_one_cases; auto simp: same_tables_def anchored_def)+

definition cleared :: "PublishOutcomeRow list \<Rightarrow> DirtyEntry \<Rightarrow> bool" where
  "cleared out d \<longleftrightarrow> (\<exists>x \<in> set out. is_Published (pr_outcome x) \<and> is_marker (pr_account_id x) (pr_revision_id x) d)"

lemma publish_entries_rows:
  assumes "publish_entries keccak256 display adapter device am view ds (v, w) = (out, (v', w'))"
  shows "map (\<lambda>x. (pr_account_id x, pr_revision_id x)) out = map (\<lambda>d. (de_account_id d, de_revision_id d)) ds
    \<and> v_dirty v' = filter (\<lambda>d. \<not> cleared out d) (v_dirty v)"
  using assms
proof (induction ds arbitrary: v w out)
  case (Cons d ds)
  obtain r v1 w1 where one: "publish_one keccak256 adapter device (am (length ds)) d view (v, w) = (r, (v1, w1))"
    by (metis prod.exhaust_sel)
  obtain rest where rest: "publish_entries keccak256 display adapter device am view ds (v1, w1) = (rest, (v', w'))"
    "out = outcome_row display d r # rest"
    using Cons.prems one by (auto simp: Let_def split: prod.splits)
  have p: "is_Published (pr_outcome (outcome_row display d r)) \<longleftrightarrow> (\<exists>o'. r = Inr o' \<and> is_Published o')"
    by (cases r) (auto simp: outcome_row_def)
  have "v_dirty v' = filter (\<lambda>d. \<not> cleared rest d) (v_dirty v1)" using Cons.IH[OF rest(1)] by blast
  also have "\<dots> = filter (\<lambda>d. \<not> cleared out d) (v_dirty v)"
    using p unfolding publish_one_dirty(1)[OF one] rest(2)
    by (auto simp: cleared_def outcome_row_def intro!: filter_cong)
  finally show ?case using Cons.IH[OF rest(1)] rest(2) by (simp add: outcome_row_def)
qed (simp add: cleared_def)

abbreviation row_keys :: "RevisionRow \<Rightarrow> AccountId \<times> RevisionId" where
  "row_keys x \<equiv> (rv_account_id x, rv_revision_id x)"

abbreviation marker_key :: "DirtyEntry \<Rightarrow> AccountId \<times> RevisionId" where
  "marker_key d \<equiv> (de_account_id d, de_revision_id d)"

lemma entry_readable:
  "entry_revision keccak256 device v d = Inr s \<Longrightarrow> \<exists>x \<in> set (v_revisions v). row_keys x = marker_key d"
  by (auto simp: entry_revision_def read_publish_payload_def and_then_Inr dest!: find_revision_Some)

lemma anchored_rows:
  assumes "anchored a r anchor v v'" and "distinct (map rv_revision_id (v_revisions v))"
    and "x0 \<in> set (v_revisions v)" "row_keys x0 = (a, r)"
  shows "map rv_revision_id (v_revisions v') = map rv_revision_id (v_revisions v)"
    and "x \<in> set (v_revisions v) \<Longrightarrow> row_keys x \<noteq> (a, r) \<Longrightarrow> x \<in> set (v_revisions v')"
    and "\<exists>y \<in> set (v_revisions v'). row_keys y = (a, r) \<and> rv_chain_tx_hash y = Some (tx_hash anchor)"
proof -
  obtain b l where v': "v_revisions v' =
      map (\<lambda>x. if rv_revision_id x = r then stamp_anchor (tx_hash anchor) b l x else x) (v_revisions v)"
    using assms(1) unfolding anchored_def by blast
  show "map rv_revision_id (v_revisions v') = map rv_revision_id (v_revisions v)" unfolding v' by simp
  show "\<exists>y \<in> set (v_revisions v'). row_keys y = (a, r) \<and> rv_chain_tx_hash y = Some (tx_hash anchor)"
  proof (intro bexI)
    show "stamp_anchor (tx_hash anchor) b l x0 \<in> set (v_revisions v')"
      using assms(3,4) unfolding v' by (auto intro!: image_eqI[of _ _ x0])
  qed (use assms(4) in simp)
  show "x \<in> set (v_revisions v')" if "x \<in> set (v_revisions v)" "row_keys x \<noteq> (a, r)"
  proof -
    have "rv_revision_id x \<noteq> r" using that assms(2-4) by (metis distinct_map inj_onD prod.inject)
    then show ?thesis using that(1) unfolding v' by force
  qed
qed

lemma publish_one_rows:
  assumes "publish_one keccak256 adapter device am d view (v, w) = (res, (v', w'))"
    and "distinct (map rv_revision_id (v_revisions v))"
  shows "map rv_revision_id (v_revisions v') = map rv_revision_id (v_revisions v)"
    and "x \<in> set (v_revisions v) \<Longrightarrow> row_keys x \<noteq> marker_key d \<Longrightarrow> x \<in> set (v_revisions v')"
    and "res = Inr (Published anchor c) \<Longrightarrow>
      \<exists>y \<in> set (v_revisions v'). row_keys y = marker_key d \<and> rv_chain_tx_hash y = Some (tx_hash anchor)"
proof -
  consider "same_tables v v'" "\<exists>e. res = Inl e"
    | k c' x0 where "res = Inr (Published k c')" "anchored (de_account_id d) (de_revision_id d) k v v'"
      "x0 \<in> set (v_revisions v)" "row_keys x0 = marker_key d"
    using assms(1)
  proof (cases rule: publish_one_cases)
    case (present s ev)
    then show thesis using that entry_readable[OF present(1)] by blast
  next
    case (submitted s k)
    then show thesis using that entry_readable[OF submitted(1)] by blast
  qed (use that in blast)+
  note two = this
  show "map rv_revision_id (v_revisions v') = map rv_revision_id (v_revisions v)"
    using two by cases (auto simp: same_tables_def dest: anchored_rows(1)[OF _ assms(2)])
  show "x \<in> set (v_revisions v')" if "x \<in> set (v_revisions v)" "row_keys x \<noteq> marker_key d"
    using two
  proof cases
    case 2
    then show ?thesis using anchored_rows(2)[OF 2(2) assms(2) 2(3)] that by simp
  qed (use that in \<open>simp add: same_tables_def\<close>)
  show "\<exists>y \<in> set (v_revisions v'). row_keys y = marker_key d \<and> rv_chain_tx_hash y = Some (tx_hash anchor)"
    if "res = Inr (Published anchor c)"
    using two
  proof cases
    case 2
    then show ?thesis using anchored_rows(3)[OF 2(2) assms(2) 2(3,4)] that by simp
  qed (use that in simp)
qed

lemma publish_entries_anchors:
  assumes "publish_entries keccak256 display adapter device am view ds (v, w) = (out, (v', w'))"
    and "distinct (map rv_revision_id (v_revisions v))" and "distinct (map marker_key ds)"
  shows "(\<forall>x \<in> set (v_revisions v). row_keys x \<notin> set (map marker_key ds) \<longrightarrow> x \<in> set (v_revisions v'))
    \<and> (\<forall>o' \<in> set out. \<forall>anchor c. pr_outcome o' = Published anchor c \<longrightarrow>
        (\<exists>y \<in> set (v_revisions v'). row_keys y = (pr_account_id o', pr_revision_id o')
          \<and> rv_chain_tx_hash y = Some (tx_hash anchor)))"
  using assms
proof (induction ds arbitrary: v w out)
  case (Cons d ds)
  obtain r v1 w1 where one: "publish_one keccak256 adapter device (am (length ds)) d view (v, w) = (r, (v1, w1))"
    by (metis prod.exhaust_sel)
  obtain rest where rest: "publish_entries keccak256 display adapter device am view ds (v1, w1) = (rest, (v', w'))"
    "out = outcome_row display d r # rest"
    using Cons.prems(1) one by (auto simp: Let_def split: prod.splits)
  note step = publish_one_rows[OF one Cons.prems(2)]
  have d1: "distinct (map rv_revision_id (v_revisions v1))" using step(1) Cons.prems(2) by simp
  note ih = Cons.IH[OF rest(1) d1]
  have k: "marker_key d \<notin> set (map marker_key ds)" "distinct (map marker_key ds)" using Cons.prems(3) by auto
  have head: "\<exists>y \<in> set (v_revisions v'). row_keys y = marker_key d \<and> rv_chain_tx_hash y = Some (tx_hash anchor)"
    if "r = Inr (Published anchor c)" for anchor c
    using step(3)[OF that] ih[OF k(2)] k(1) by (metis (no_types, lifting))
  have "pr_outcome (outcome_row display d r) = Published anchor c \<Longrightarrow> r = Inr (Published anchor c)" for anchor c
    by (cases r) (simp_all add: outcome_row_def)
  then have "\<exists>y \<in> set (v_revisions v'). row_keys y = (pr_account_id o', pr_revision_id o')
      \<and> rv_chain_tx_hash y = Some (tx_hash anchor)"
    if "o' \<in> set out" "pr_outcome o' = Published anchor c" for o' anchor c
    using that ih[OF k(2)] head rest(2) by (auto simp: outcome_row_def)
  moreover have "\<forall>x \<in> set (v_revisions v). row_keys x \<notin> set (map marker_key (d # ds)) \<longrightarrow> x \<in> set (v_revisions v')"
    using step(2) ih[OF k(2)] by simp
  ultimately show ?case by blast
qed simp

lemma list_dirty_ok: "list_dirty v = Inr ds \<Longrightarrow> ds = sort_key dirty_key (v_dirty v)"
proof -
  have "collect_results decode_marker xs = Inr ys \<Longrightarrow> ys = xs" for xs ys
    by (induction xs arbitrary: ys) (auto simp: and_then_Inr decode_marker_def)
  then show "list_dirty v = Inr ds \<Longrightarrow> ds = sort_key dirty_key (v_dirty v)" by (simp add: list_dirty_def)
qed

text \<open>A run, taken apart: the checkpoint, the queue, the chain view, the loop.\<close>

lemma publish_all_ok:
  assumes "publish_all_for_vault keccak256 display adapter device am (v, w) = (Inr rep, (v', w'))"
  obtains b pulled w1 where "last_pulled_block v = Inr b"
    "list_dirty v = Inr (sort_key dirty_key (v_dirty v))"
    "ad_pull_since adapter (v_vault_id v) b None w = (pulled, w1)"
    "publish_entries keccak256 display adapter device am
       (case pulled of Inl _ \<Rightarrow> None | Inr evs \<Rightarrow> Some evs) (sort_key dirty_key (v_dirty v)) (v, w1)
     = (rows rep, (v', w'))"
proof (cases "last_pulled_block v")
  case (Inl e)
  then show thesis using assms by (simp add: publish_all_for_vault_def op_bind_def op_try_def)
next
  case (Inr b)
  note block = Inr
  show thesis
  proof (cases "list_dirty v")
    case (Inl e)
    then show thesis using assms block by (simp add: publish_all_for_vault_def op_bind_def op_try_def)
  next
    case (Inr ds)
    obtain pulled w1 where pull: "ad_pull_since adapter (v_vault_id v) b None w = (pulled, w1)" by fastforce
    obtain out vw where loop: "publish_entries keccak256 display adapter device am
       (case pulled of Inl _ \<Rightarrow> None | Inr evs \<Rightarrow> Some evs) ds (v, w1) = (out, vw)" by (metis prod.exhaust)
    have "out = rows rep" "vw = (v', w')"
      using assms block Inr pull loop
      by (auto simp: publish_all_for_vault_def op_bind_def op_try_def)
    then show thesis using that[OF block _ pull] Inr loop list_dirty_ok[OF Inr] by simp
  qed
qed


lemma sort_key_marker_keys:
  "distinct (map marker_key xs) \<Longrightarrow> distinct (map marker_key (sort_key f xs))"
  by (simp add: distinct_map)

lemma Failed_iff: "is_Failed o' \<longleftrightarrow> \<not> is_Published o'"
  by (cases o') auto

lemma not_cleared_iff:
  assumes "map (\<lambda>x. (pr_account_id x, pr_revision_id x)) out = map marker_key ds"
    and "distinct (map marker_key ds)" and "d \<in> set ds"
  shows "\<not> cleared out d \<longleftrightarrow> (\<exists>x \<in> set out. is_Failed (pr_outcome x)
    \<and> pr_account_id x = de_account_id d \<and> pr_revision_id x = de_revision_id d)"
proof -
  let ?key = "\<lambda>x. (pr_account_id x, pr_revision_id x)"
  have "marker_key d \<in> ?key ` set out" using assms(1,3) by (metis (mono_tags, lifting) image_eqI list.set_map)
  then obtain x where x: "x \<in> set out" "?key x = marker_key d" by auto
  have "distinct (map ?key out)" using assms(1,2) by simp
  then have "y = x" if "y \<in> set out" "?key y = marker_key d" for y
    using that x by (metis (no_types, lifting) distinct_map inj_onD)
  then show ?thesis using x Failed_iff unfolding cleared_def is_marker_def by (metis prod.inject)
qed

text \<open>
  A publish run accounts for every marker: the report has one row per dirty marker in queue
  order; afterwards exactly the markers whose row failed are still queued; every published row's
  revision carries the reported transaction; and the counters add up, so that the queue is empty
  after a run that reports success throughout.
\<close>

theorem publish_report_exact:
  assumes "tables_inv v"
    and "publish_all_for_vault keccak256 display adapter device am (v, w) = (Inr rep, (v', w'))"
  shows "map (\<lambda>x. (pr_account_id x, pr_revision_id x)) (rows rep)
      = map (\<lambda>d. (de_account_id d, de_revision_id d)) (sort_key dirty_key (v_dirty v))
    \<and> v_dirty v' = filter (\<lambda>d. \<exists>x \<in> set (rows rep). is_Failed (pr_outcome x)
        \<and> pr_account_id x = de_account_id d \<and> pr_revision_id x = de_revision_id d) (v_dirty v)
    \<and> (\<forall>x \<in> set (rows rep). is_Published (pr_outcome x) \<longrightarrow> (\<exists>y \<in> set (v_revisions v').
        rv_account_id y = pr_account_id x \<and> rv_revision_id y = pr_revision_id x
        \<and> rv_chain_tx_hash y = Some (tx_hash (po_anchor (pr_outcome x)))))
    \<and> published_count rep + failed_count rep = length (v_dirty v)
    \<and> (all_ok rep \<longrightarrow> v_dirty v' = [])"
proof -
  let ?ds = "sort_key dirty_key (v_dirty v)"
  let ?key = "\<lambda>x. (pr_account_id x, pr_revision_id x)"
  obtain view w1 where loop: "publish_entries keccak256 display adapter device am view ?ds (v, w1)
      = (rows rep, (v', w'))" using publish_all_ok[OF assms(2)] by metis
  have dist: "distinct (map marker_key ?ds)" "distinct (map rv_revision_id (v_revisions v))"
    using assms(1) by (auto simp: tables_inv_def intro: sort_key_marker_keys)
  note rows = publish_entries_rows[OF loop, THEN conjunct1] publish_entries_rows[OF loop, THEN conjunct2]
  note anchors = publish_entries_anchors[OF loop dist(2,1), THEN conjunct2]
  have "v_dirty v' = filter (\<lambda>d. \<exists>x \<in> set (rows rep). is_Failed (pr_outcome x)
        \<and> pr_account_id x = de_account_id d \<and> pr_revision_id x = de_revision_id d) (v_dirty v)"
    unfolding rows(2) by (rule filter_cong[OF refl not_cleared_iff[OF rows(1) dist(1)]]) simp
  note dirty = this
  have "published_count rep + failed_count rep = length (rows rep)"
    using sum_length_filter_compl[of "\<lambda>x. is_Published (pr_outcome x)" "rows rep"]
    by (simp add: published_count_def failed_count_def Failed_iff)
  moreover have "length (rows rep) = length (v_dirty v)" using arg_cong[OF rows(1), of length] by simp
  moreover have "all_ok rep \<longrightarrow> v_dirty v' = []"
    unfolding dirty by (auto simp: all_ok_def failed_count_def filter_empty_conv)
  moreover have "\<exists>y \<in> set (v_revisions v'). rv_account_id y = pr_account_id x
      \<and> rv_revision_id y = pr_revision_id x \<and> rv_chain_tx_hash y = Some (tx_hash (po_anchor (pr_outcome x)))"
    if "x \<in> set (rows rep)" "is_Published (pr_outcome x)" for x
    using that anchors by (cases "pr_outcome x") auto
  ultimately show ?thesis using rows(1) dirty by simp
qed

section \<open>What a run adds to the chain\<close>

text \<open>Every added event is an attempted entry that the chain view did not show.\<close>

definition attempt_of :: "(bytes \<Rightarrow> bytes) \<Rightarrow> DeviceKey \<Rightarrow> RevisionEvent list option \<Rightarrow> Vault \<Rightarrow> DirtyEntry
    \<Rightarrow> RevisionEvent \<Rightarrow> bool" where
  "attempt_of keccak256 device view v d e \<longleftrightarrow>
     (\<exists>s a. entry_revision keccak256 device v d = Inr s \<and> on_chain_event keccak256 s view = None \<and> e = event_of s a)"

text \<open>An entry that was published is in the view or among the added events.\<close>

definition settled_by :: "(bytes \<Rightarrow> bytes) \<Rightarrow> DeviceKey \<Rightarrow> RevisionEvent list option \<Rightarrow> Vault
    \<Rightarrow> RevisionEvent list \<Rightarrow> DirtyEntry \<Rightarrow> bool" where
  "settled_by keccak256 device view v new d \<longleftrightarrow>
     (\<exists>s. entry_revision keccak256 device v d = Inr s
       \<and> (on_chain_event keccak256 s view \<noteq> None \<or> (\<exists>a. event_of s a \<in> set new)))"

context revision_log
begin

lemma publish_one_log:
  assumes "publish_one keccak256 adapter device am d view (v, w) = (res, (v', w'))"
  obtains new where "chain_log w' = chain_log w @ new" "tip w \<le> tip w'"
    "\<forall>e \<in> set new. tip w < block_number (ev_anchor e) \<and> attempt_of keccak256 device view v d e"
    "(\<exists>out. res = Inr out) \<longrightarrow> settled_by keccak256 device view v new d"
  using assms
proof (cases rule: publish_one_cases)
  case (refused s e)
  obtain evs where evs: "chain_log w' = chain_log w @ evs" "added s evs" "tip w \<le> tip w'"
    "\<forall>e \<in> set evs. tip w < block_number (ev_anchor e)" by (rule publish_adds[OF refused(3)])
  have "\<forall>e \<in> set evs. attempt_of keccak256 device view v d e"
    using evs(2) refused(1,2) by (auto simp: added_def attempt_of_def)
  then show thesis using that[OF evs(1,3)] evs(4) refused(4) by blast
next
  case (submitted s a)
  note p = publish_ok[OF submitted(3)]
  then have p': "chain_log w' = chain_log w @ [event_of s a]" "tip w < block_number a" "tip w \<le> tip w'" by auto
  have "attempt_of keccak256 device view v d (event_of s a)" using submitted(1,2) by (auto simp: attempt_of_def)
  moreover have "settled_by keccak256 device view v [event_of s a] d"
    using submitted(1) by (auto simp: settled_by_def)
  moreover have "ev_anchor (event_of s a) = a" by (simp add: event_of_def)
  ultimately show thesis using that[OF p'(1,3)] p'(2) by simp
qed (rule that[of "[]"]; auto simp: settled_by_def)+

lemma attempt_entry:
  "(\<And>d. entry_revision keccak256 device v' d = entry_revision keccak256 device v d) \<Longrightarrow>
     attempt_of keccak256 device view v' d e = attempt_of keccak256 device view v d e"
  "(\<And>d. entry_revision keccak256 device v' d = entry_revision keccak256 device v d) \<Longrightarrow>
     settled_by keccak256 device view v' new d = settled_by keccak256 device view v new d"
  by (simp_all add: attempt_of_def settled_by_def)

lemma settled_mono: "settled_by keccak256 device view v new d \<Longrightarrow> set new \<subseteq> set new' \<Longrightarrow>
    settled_by keccak256 device view v new' d"
  by (auto simp: settled_by_def)

lemma publish_entries_log:
  assumes "publish_entries keccak256 display adapter device am view ds (v, w) = (out, (v', w'))"
  shows "\<exists>new. chain_log w' = chain_log w @ new \<and> tip w \<le> tip w'
    \<and> (\<forall>e \<in> set new. tip w < block_number (ev_anchor e) \<and> (\<exists>d \<in> set ds. attempt_of keccak256 device view v d e))
    \<and> ((\<forall>x \<in> set out. is_Published (pr_outcome x)) \<longrightarrow> (\<forall>d \<in> set ds. settled_by keccak256 device view v new d))"
  using assms
proof (induction ds arbitrary: v w out)
  case (Cons d ds)
  obtain r v1 w1 where one: "publish_one keccak256 adapter device (am (length ds)) d view (v, w) = (r, (v1, w1))"
    by (metis prod.exhaust_sel)
  obtain rest where rest: "publish_entries keccak256 display adapter device am view ds (v1, w1) = (rest, (v', w'))"
    "out = outcome_row display d r # rest"
    using Cons.prems one by (auto simp: Let_def split: prod.splits)
  obtain n1 where n1: "chain_log w1 = chain_log w @ n1" "tip w \<le> tip w1"
    "\<forall>e \<in> set n1. tip w < block_number (ev_anchor e) \<and> attempt_of keccak256 device view v d e"
    "(\<exists>out. r = Inr out) \<longrightarrow> settled_by keccak256 device view v n1 d" by (rule publish_one_log[OF one])
  note same = attempt_entry[of keccak256 device v1 v, OF publish_one_entry[OF one]]
  obtain n2 where n2: "chain_log w' = chain_log w1 @ n2" "tip w1 \<le> tip w'"
    "\<forall>e \<in> set n2. tip w1 < block_number (ev_anchor e) \<and> (\<exists>d \<in> set ds. attempt_of keccak256 device view v d e)"
    "(\<forall>x \<in> set rest. is_Published (pr_outcome x)) \<longrightarrow> (\<forall>d \<in> set ds. settled_by keccak256 device view v n2 d)"
    using Cons.IH[OF rest(1)] unfolding same by blast
  have "is_Published (pr_outcome (outcome_row display d r)) \<Longrightarrow> \<exists>out. r = Inr out"
    by (cases r) (simp_all add: outcome_row_def)
  then have s: "(\<forall>x \<in> set out. is_Published (pr_outcome x)) \<longrightarrow>
      (\<forall>d' \<in> set (d # ds). settled_by keccak256 device view v (n1 @ n2) d')"
    using n1(4) n2(4) rest(2) settled_mono[of keccak256 device view v _ _ "n1 @ n2"] by (auto simp: settled_mono)
  have "tip w < block_number (ev_anchor e)" if "e \<in> set (n1 @ n2)" for e
    using that n1(2,3) n2(3) by fastforce
  moreover have "\<exists>d' \<in> set (d # ds). attempt_of keccak256 device view v d' e" if "e \<in> set (n1 @ n2)" for e
    using that n1(3) n2(3) by auto
  ultimately show ?case using n1(1,2) n2(1,2) s
    by (intro exI[of _ "n1 @ n2"]) (simp add: order_trans[OF n1(2) n2(2)])
qed simp

lemma publish_run_log:
  assumes "publish_all_for_vault keccak256 display adapter device am (v, w) = (Inr rep, (v', w'))"
    and "last_pulled_block v = Inr b" and "is_ok (fst (ad_pull_since adapter (v_vault_id v) b None w))"
  obtains evs new where "set evs = {e \<in> set (chain_log w). ev_vault_id e = v_vault_id v \<and> b < block_number (ev_anchor e)}"
    "chain_log w' = chain_log w @ new" "tip w \<le> tip w'"
    "\<forall>e \<in> set new. tip w < block_number (ev_anchor e)
      \<and> (\<exists>d \<in> set (v_dirty v). attempt_of keccak256 device (Some evs) v d e)"
    "all_ok rep \<longrightarrow> (\<forall>d \<in> set (v_dirty v). settled_by keccak256 device (Some evs) v new d)"
proof -
  obtain pulled w1 where p: "ad_pull_since adapter (v_vault_id v) b None w = (pulled, w1)"
    "publish_entries keccak256 display adapter device am (case pulled of Inl _ \<Rightarrow> None | Inr evs \<Rightarrow> Some evs)
      (sort_key dirty_key (v_dirty v)) (v, w1) = (rows rep, (v', w'))"
    using publish_all_ok[OF assms(1)] assms(2) by (metis sum.inject(2))
  then obtain evs where evs: "pulled = Inr evs" using assms(3) by (cases pulled) auto
  note pull = pull_ok[OF p(1)[unfolded evs]]
  have ok: "all_ok rep \<longleftrightarrow> (\<forall>x \<in> set (rows rep). is_Published (pr_outcome x))"
    by (auto simp: all_ok_def failed_count_def filter_empty_conv Failed_iff)
  have "publish_entries keccak256 display adapter device am (Some evs) (sort_key dirty_key (v_dirty v)) (v, w)
      = (rows rep, (v', w'))" using p(2) evs pull by simp
  from publish_entries_log[OF this] pull show thesis
    unfolding set_sort ok[symmetric] by (auto intro: that)
qed

end

lemma entry_vault_id: "entry_revision keccak256 device v d = Inr s \<Longrightarrow> sg_vault_id s = v_vault_id v"
  by (auto simp: entry_revision_def and_then_Inr payload_revision_def build_signed_revision_def)

text \<open>
  C5. Publication is at most once: on any adapter that keeps the trait's contract, whatever
  earlier runs left on the chain (crashed runs and submissions whose failure was ambiguous
  included), a run whose pull succeeded only appends to the log, and every event it appends is
  one of the queued revisions, in a block above the previous tip, whose canonical hash no event
  of the vault above the checkpoint had.
\<close>

theorem publish_never_duplicates:
  assumes "revision_log adapter chain_log tip"
    and "publish_all_for_vault keccak256 display adapter device am (v, w) = (Inr rep, (v', w'))"
    and "last_pulled_block v = Inr b" and "is_ok (fst (ad_pull_since adapter (v_vault_id v) b None w))"
  shows "\<exists>new. chain_log w' = chain_log w @ new
    \<and> (\<forall>e \<in> set new. ev_vault_id e = v_vault_id v \<and> tip w < block_number (ev_anchor e)
      \<and> (\<exists>d \<in> set (v_dirty v). \<exists>s. entry_revision keccak256 device v d = Inr s
          \<and> event_hash keccak256 e = signed_hash keccak256 s)
      \<and> (\<forall>old \<in> set (chain_log w). ev_vault_id old = v_vault_id v \<and> b < block_number (ev_anchor old)
          \<longrightarrow> event_hash keccak256 old \<noteq> event_hash keccak256 e))"
proof -
  obtain evs new where run: "set evs = {e \<in> set (chain_log w). ev_vault_id e = v_vault_id v \<and> b < block_number (ev_anchor e)}"
    "chain_log w' = chain_log w @ new" "tip w \<le> tip w'"
    "\<forall>e \<in> set new. tip w < block_number (ev_anchor e)
      \<and> (\<exists>d \<in> set (v_dirty v). attempt_of keccak256 device (Some evs) v d e)"
    "all_ok rep \<longrightarrow> (\<forall>d \<in> set (v_dirty v). settled_by keccak256 device (Some evs) v new d)"
    by (rule revision_log.publish_run_log[OF assms(1-4)])
  have "ev_vault_id e = v_vault_id v \<and> tip w < block_number (ev_anchor e)
      \<and> (\<exists>d \<in> set (v_dirty v). \<exists>s. entry_revision keccak256 device v d = Inr s
          \<and> event_hash keccak256 e = signed_hash keccak256 s)
      \<and> (\<forall>old \<in> set (chain_log w). ev_vault_id old = v_vault_id v \<and> b < block_number (ev_anchor old)
          \<longrightarrow> event_hash keccak256 old \<noteq> event_hash keccak256 e)" if e: "e \<in> set new" for e
  proof -
    obtain d s a where d: "d \<in> set (v_dirty v)" "entry_revision keccak256 device v d = Inr s"
      "on_chain_event keccak256 s (Some evs) = None" "e = event_of s a"
      using run(4) e by (auto simp: attempt_of_def)
    have "\<forall>old \<in> set evs. event_hash keccak256 old \<noteq> event_hash keccak256 e"
      using d(3,4) by (auto simp: on_chain_event_def find_None_iff)
    moreover have "ev_vault_id e = v_vault_id v" using d(4) entry_vault_id[OF d(2)] by (simp add: event_of_def)
    moreover have "event_hash keccak256 e = signed_hash keccak256 s" using d(4) by simp
    ultimately show ?thesis using run(1,4) e d(1,2) by blast
  qed
  then show ?thesis using run(2) by blast
qed

text \<open>
  Crash safety of publication: when a run reports success for its whole queue but the vault's
  own writes are lost, so that the next run starts from the old vault against the new chain, the
  next run adds nothing to the log. The checkpoint must not be beyond the chain's tip.
\<close>

theorem retry_after_crash_publishes_nothing:
  assumes "revision_log adapter chain_log tip"
    and "publish_all_for_vault keccak256 display adapter device am (v, w) = (Inr rep, (v1, w1))"
    and "all_ok rep"
    and "publish_all_for_vault keccak256 display adapter device am2 (v, w1) = (Inr rep2, (v2, w2))"
    and "last_pulled_block v = Inr b" and "b \<le> tip w"
    and "is_ok (fst (ad_pull_since adapter (v_vault_id v) b None w))"
    and "is_ok (fst (ad_pull_since adapter (v_vault_id v) b None w1))"
  shows "chain_log w2 = chain_log w1"
proof -
  obtain evs new where run: "set evs = {e \<in> set (chain_log w). ev_vault_id e = v_vault_id v \<and> b < block_number (ev_anchor e)}"
    "chain_log w1 = chain_log w @ new" "tip w \<le> tip w1"
    "\<forall>e \<in> set new. tip w < block_number (ev_anchor e)
      \<and> (\<exists>d \<in> set (v_dirty v). attempt_of keccak256 device (Some evs) v d e)"
    "all_ok rep \<longrightarrow> (\<forall>d \<in> set (v_dirty v). settled_by keccak256 device (Some evs) v new d)"
    by (rule revision_log.publish_run_log[OF assms(1,2,5,7)])
  obtain evs2 new2 where run2: "set evs2 = {e \<in> set (chain_log w1). ev_vault_id e = v_vault_id v \<and> b < block_number (ev_anchor e)}"
    "chain_log w2 = chain_log w1 @ new2" "tip w1 \<le> tip w2"
    "\<forall>e \<in> set new2. tip w1 < block_number (ev_anchor e)
      \<and> (\<exists>d \<in> set (v_dirty v). attempt_of keccak256 device (Some evs2) v d e)"
    "all_ok rep2 \<longrightarrow> (\<forall>d \<in> set (v_dirty v). settled_by keccak256 device (Some evs2) v new2 d)"
    by (rule revision_log.publish_run_log[OF assms(1,4,5,8)])
  have "e \<in> set new2 \<Longrightarrow> False" for e
  proof -
    assume "e \<in> set new2"
    then obtain d s where d: "d \<in> set (v_dirty v)" "entry_revision keccak256 device v d = Inr s"
      "\<forall>old \<in> set evs2. event_hash keccak256 old \<noteq> signed_hash keccak256 s"
      using run2(4) by (fastforce simp: attempt_of_def on_chain_event_def find_None_iff)
    have "settled_by keccak256 device (Some evs) v new d" using run(5) assms(3) d(1) by blast
    then consider old where "old \<in> set evs" "event_hash keccak256 old = signed_hash keccak256 s"
      | a where "event_of s a \<in> set new"
      using d(2) by (auto simp: settled_by_def on_chain_event_def find_None_iff)
    then show False
    proof cases
      case 1
      then show False using d(3) run(1,2) run2(1) by auto
    next
      case 2
      have "ev_vault_id (event_of s a) = v_vault_id v" using entry_vault_id[OF d(2)] by (simp add: event_of_def)
      moreover have "b < block_number (ev_anchor (event_of s a))" using 2 run(4) assms(6) by fastforce
      ultimately have "event_of s a \<in> set evs2" using 2 run(2) run2(1) by simp
      then show False using d(3) by (metis event_of_hash)
    qed
  qed
  then show ?thesis using run2(2) by (cases new2) auto
qed

definition example_key :: DeviceKey where
  "example_key = \<lparr>dk_verifying_key = replicate 32 3, dk_sign = (\<lambda>m. m)\<rparr>"

definition example_chain :: "MockChainAdapter ChainAdapter" where
  "example_chain = mock_adapter (env_keccak256 example_env) (\<lambda>pk m s. m = s)"

definition example_run :: "Vault \<Rightarrow> MockChainAdapter \<Rightarrow> (StoreError + PublishReport) \<times> Vault \<times> MockChainAdapter" where
  "example_run v w = publish_all_for_vault (env_keccak256 example_env) (\<lambda>_. ''error'') example_chain example_key
     (\<lambda>_ _. example_ambient) (v, w)"

lemma example_run_ok:
  "is_ok (fst (example_run example_open mock_new))"
  "case fst (example_run example_open mock_new) of Inr rep \<Rightarrow> all_ok rep | Inl _ \<Rightarrow> False"
  "is_ok (fst (example_run example_open (snd (snd (example_run example_open mock_new)))))"
  by code_simp+

lemma run_ok_obtains:
  assumes "is_ok (fst p)"
  obtains a v w where "p = (Inr a, (v, w))"
  using assms by (cases p; cases "fst p") auto

lemma example_run_obtains:
  obtains rep v1 w1 rep2 v2 w2 where "example_run example_open mock_new = (Inr rep, (v1, w1))" "all_ok rep"
    "example_run example_open w1 = (Inr rep2, (v2, w2))"
proof -
  obtain rep v1 w1 where 1: "example_run example_open mock_new = (Inr rep, (v1, w1))"
    by (rule run_ok_obtains[OF example_run_ok(1)])
  moreover have "all_ok rep" using example_run_ok(2) unfolding 1 by simp
  moreover obtain rep2 v2 w2 where "example_run example_open w1 = (Inr rep2, (v2, w2))"
    using run_ok_obtains[OF example_run_ok(3)] unfolding 1 by auto
  ultimately show thesis using that by blast
qed

lemma example_chain_log:
  "revision_log example_chain (\<lambda>w. mc_events (mk_state w)) (\<lambda>w. mc_next_block (mk_state w))"
  unfolding example_chain_def by (rule mock.revision_log_axioms)

lemma example_checkpoint: "last_pulled_block example_open = Inr 0"
  by code_simp

lemma example_pull:
  "\<not> mk_disconnected w \<Longrightarrow> is_ok (fst (ad_pull_since example_chain (v_vault_id example_open) 0 None w))"
  by (simp add: example_chain_def mock_adapter_def mock_pull_since_def mock_online_def op_seq_def op_bind_def)

theorem publish_report_exact_witness:
  "\<exists>rep v1 w1. example_run example_open mock_new = (Inr rep, (v1, w1)) \<and> v_dirty v1 = []
     \<and> published_count rep + failed_count rep = length (v_dirty example_open)"
proof -
  obtain rep v1 w1 where run: "example_run example_open mock_new = (Inr rep, (v1, w1))" "all_ok rep"
    using example_run_obtains by blast
  have "tables_inv example_open" by code_simp
  from publish_report_exact[OF this run(1)[unfolded example_run_def]] run show ?thesis by blast
qed

theorem publish_never_duplicates_witness:
  "\<exists>rep v1 w1 new. example_run example_open mock_new = (Inr rep, (v1, w1))
     \<and> mc_events (mk_state w1) = mc_events (mk_state mock_new) @ new
     \<and> ev_vault_id ` set new \<subseteq> {v_vault_id example_open}"
proof -
  obtain rep v1 w1 where run: "example_run example_open mock_new = (Inr rep, (v1, w1))"
    using example_run_obtains by blast
  have "is_ok (fst (ad_pull_since example_chain (v_vault_id example_open) 0 None mock_new))"
    by (rule example_pull) (simp add: mock_new_def)
  from publish_never_duplicates[OF example_chain_log run[unfolded example_run_def] example_checkpoint this]
  show ?thesis using run by blast
qed

theorem retry_after_crash_publishes_nothing_witness:
  "\<exists>rep v1 w1 rep2 v2 w2. example_run example_open mock_new = (Inr rep, (v1, w1))
     \<and> example_run example_open w1 = (Inr rep2, (v2, w2)) \<and> length (mc_events (mk_state w1)) = 1
     \<and> mc_events (mk_state w2) = mc_events (mk_state w1)"
proof -
  obtain rep v1 w1 rep2 v2 w2 where run: "example_run example_open mock_new = (Inr rep, (v1, w1))" "all_ok rep"
    "example_run example_open w1 = (Inr rep2, (v2, w2))" by (rule example_run_obtains)
  have "length (mc_events (mk_state (snd (snd (example_run example_open mock_new))))) = 1
      \<and> \<not> mk_disconnected (snd (snd (example_run example_open mock_new)))" by code_simp
  then have w1: "length (mc_events (mk_state w1)) = 1" "\<not> mk_disconnected w1" using run(1) by simp_all
  have "(0 :: u64) \<le> mc_next_block (mk_state mock_new)" "\<not> mk_disconnected mock_new" by (simp_all add: mock_new_def)
  from retry_after_crash_publishes_nothing[OF example_chain_log run(1)[unfolded example_run_def] run(2)
      run(3)[unfolded example_run_def] example_checkpoint this(1) example_pull[OF this(2)] example_pull[OF w1(2)]]
  show ?thesis using run(1,3) w1(1) by blast
qed

section \<open>Coalescing keeps the head marker\<close>

lemma list_dirty_set: "list_dirty v = Inr dirty \<Longrightarrow> group_size dirty a = group_size (v_dirty v) a"
proof -
  assume "list_dirty v = Inr dirty"
  then have "mset dirty = mset (v_dirty v)" using list_dirty_ok by fastforce
  then have "size (filter_mset (\<lambda>d. de_account_id d = a) (mset dirty))
      = size (filter_mset (\<lambda>d. de_account_id d = a) (mset (v_dirty v)))" by simp
  then show ?thesis by (simp add: group_size_def flip: mset_filter)
qed

lemma coalesce_ok:
  assumes "coalesce_dirty_markers v = (Inr n, v')"
  shows "n = length (filter (to_prune v (v_dirty v)) (v_dirty v))"
    and "v' = v\<lparr>v_dirty := filter (\<lambda>d. \<not> to_prune v (v_dirty v) d) (v_dirty v)\<rparr>"
proof -
  obtain dirty where dirty: "list_dirty v = Inr dirty"
    using assms by (auto simp: coalesce_dirty_markers_def split: sum.splits)
  have "to_prune v dirty = to_prune v (v_dirty v)"
    by (rule ext) (simp add: to_prune_def list_dirty_set[OF dirty])
  then show "n = length (filter (to_prune v (v_dirty v)) (v_dirty v))"
    "v' = v\<lparr>v_dirty := filter (\<lambda>d. \<not> to_prune v (v_dirty v) d) (v_dirty v)\<rparr>"
    using assms dirty by (auto simp: coalesce_dirty_markers_def split: if_splits)
qed

lemma group_size_filter: "group_size (filter P xs) a \<le> group_size xs a"
  unfolding group_size_def by (induction xs) auto

lemma group_size_one:
  assumes "distinct (map marker_key xs)" and "\<forall>d \<in> set xs. de_account_id d = a \<longrightarrow> de_revision_id d = r"
  shows "group_size xs a \<le> 1"
  using assms unfolding group_size_def
proof (induction xs)
  case (Cons d xs)
  have "filter (\<lambda>d. de_account_id d = a) xs = []" if "de_account_id d = a"
    unfolding filter_empty_conv
  proof (intro ballI notI)
    fix x
    assume "x \<in> set xs" "de_account_id x = a"
    then have "marker_key x = marker_key d" using that Cons.prems(2) by simp
    then have "marker_key d \<in> marker_key ` set xs" using imageI[OF \<open>x \<in> set xs\<close>, of marker_key] by simp
    then show False using Cons.prems(1) by simp
  qed
  then show ?case using Cons by simp
qed simp

lemma coalesced_group:
  assumes "tables_inv v" and "find_account v a = Some row"
  shows "group_size (filter (\<lambda>d. \<not> to_prune v (v_dirty v) d) (v_dirty v)) a \<le> 1"
proof (cases "group_size (v_dirty v) a \<ge> 2")
  case True
  let ?xs = "filter (\<lambda>d. \<not> to_prune v (v_dirty v) d) (v_dirty v)"
  have "distinct (map marker_key (v_dirty v))" using assms(1) by (simp add: tables_inv_def)
  then have "distinct (map marker_key ?xs)" by (rule distinct_map_filter)
  then show ?thesis
    by (rule group_size_one[of _ _ "ac_head_revision_id row"]) (use True assms(2) in \<open>auto simp: to_prune_def\<close>)
next
  case False
  then show ?thesis using group_size_filter[of "\<lambda>d. \<not> to_prune v (v_dirty v) d" "v_dirty v" a] by linarith
qed

text \<open>
  Coalescing: the markers of an account collapse to at most one and every marker that points
  at its account's current head survives, as does the marker of an account that has only one and
  every marker of an unknown account; the returned count is the number of deleted markers.
\<close>

theorem coalesce_keeps_heads:
  assumes "tables_inv v" and "coalesce_dirty_markers v = (Inr n, v')"
  shows "n + length (v_dirty v') = length (v_dirty v) \<and> set (v_dirty v') \<subseteq> set (v_dirty v)
    \<and> (\<forall>a row. find_account v a = Some row \<longrightarrow> group_size (v_dirty v') a \<le> 1)
    \<and> (\<forall>d \<in> set (v_dirty v). (case find_account v (de_account_id d) of
          None \<Rightarrow> True | Some row \<Rightarrow> de_revision_id d = ac_head_revision_id row) \<longrightarrow> d \<in> set (v_dirty v'))
    \<and> (\<forall>d \<in> set (v_dirty v). group_size (v_dirty v) (de_account_id d) = 1 \<longrightarrow> d \<in> set (v_dirty v'))
    \<and> v_revisions v' = v_revisions v \<and> v_accounts v' = v_accounts v"
proof -
  note c = coalesce_ok[OF assms(2)]
  have "n + length (v_dirty v') = length (v_dirty v)"
    using sum_length_filter_compl[of "to_prune v (v_dirty v)" "v_dirty v"] c by simp
  moreover have "\<forall>a row. find_account v a = Some row \<longrightarrow> group_size (v_dirty v') a \<le> 1"
    using coalesced_group[OF assms(1)] c(2) by simp
  ultimately show ?thesis using c(2) by (auto simp: to_prune_def split: option.splits)
qed

text \<open>
  Coalescing can drop an account from the queue: when an account has two markers or more and
  none of them points at its head pointer, no marker of it survives.
\<close>

theorem coalesce_drops_unpublished_branch:
  assumes "find_account v a = Some row" and "group_size (v_dirty v) a \<ge> 2"
    and "\<forall>d \<in> set (v_dirty v). de_account_id d = a \<longrightarrow> de_revision_id d \<noteq> ac_head_revision_id row"
    and "coalesce_dirty_markers v = (Inr n, v')"
  shows "\<forall>d \<in> set (v_dirty v'). de_account_id d \<noteq> a"
  using assms(1-3) coalesce_ok(2)[OF assms(4)] by (auto simp: to_prune_def)

text \<open>
  Two local edits wait for publication; a foreign revision arrives, and the user keeps it. The
  local branch is still a head of the account, but the flush forgets it.
\<close>

definition example_two_edits :: Vault where
  "example_two_edits = snd (update_account example_env
     (example_ambient\<lparr>am_random_revision := RevisionId (replicate 32 77)\<rparr>) example_account example_snapshot example_open)"

definition example_kept_foreign :: Vault where
  "example_kept_foreign = snd (clear_frozen example_ambient example_account
     (event_revision_id example_env example_event)
     (snd (ingest_chain_revision example_env example_ambient example_event example_two_edits)))"

lemma example_two_edits_coalesce: "is_ok (fst (coalesce_dirty_markers example_two_edits))"
  by code_simp

theorem coalesce_keeps_heads_witness:
  "\<exists>v'. coalesce_dirty_markers example_two_edits = (Inr 1, v') \<and> length (v_dirty v') = 1"
proof -
  obtain n v' where r: "coalesce_dirty_markers example_two_edits = (Inr n, v')"
    using example_two_edits_coalesce by (cases "coalesce_dirty_markers example_two_edits"; cases "fst (coalesce_dirty_markers example_two_edits)") auto
  have "tables_inv example_two_edits" "length (v_dirty example_two_edits) = 2" by code_simp+
  moreover have "fst (coalesce_dirty_markers example_two_edits) = Inr 1" by code_simp
  then have "n = 1" using r by simp
  ultimately show ?thesis using coalesce_keeps_heads[OF _ r] r by auto
qed

theorem coalesce_drops_unpublished_branch_witness:
  "RevisionId (replicate 32 77) \<in> set (case account_heads example_account example_kept_foreign of Inr hs \<Rightarrow> hs | Inl _ \<Rightarrow> [])
   \<and> example_account \<notin> de_account_id ` set (v_dirty (snd (coalesce_dirty_markers example_kept_foreign)))"
proof -
  have head: "RevisionId (replicate 32 77)
      \<in> set (case account_heads example_account example_kept_foreign of Inr hs \<Rightarrow> hs | Inl _ \<Rightarrow> [])" by code_simp
  have "case find_account example_kept_foreign example_account of None \<Rightarrow> False
    | Some row \<Rightarrow> list_all (\<lambda>d. de_account_id d = example_account \<longrightarrow> de_revision_id d \<noteq> ac_head_revision_id row)
        (v_dirty example_kept_foreign)" by code_simp
  then obtain row where row: "find_account example_kept_foreign example_account = Some row"
    "\<forall>d \<in> set (v_dirty example_kept_foreign). de_account_id d = example_account \<longrightarrow> de_revision_id d \<noteq> ac_head_revision_id row"
    by (auto simp: list_all_iff split: option.splits)
  have two: "group_size (v_dirty example_kept_foreign) example_account \<ge> 2" by code_simp
  have "fst (coalesce_dirty_markers example_kept_foreign) = Inr 2" by code_simp
  then have "coalesce_dirty_markers example_kept_foreign = (Inr 2, snd (coalesce_dirty_markers example_kept_foreign))"
    by (metis prod.collapse)
  from coalesce_drops_unpublished_branch[OF row(1) two row(2) this]
  have "example_account \<notin> de_account_id ` set (v_dirty (snd (coalesce_dirty_markers example_kept_foreign)))" by auto
  then show ?thesis using head by (rule conjI[rotated])
qed

section \<open>The balance gate and the batch window\<close>

text \<open>
  All or nothing: when the pre-flight check finds the balance insufficient for the coalesced
  queue, the flush fails with the projected cost, the balance and the queue length, submits
  nothing, keeps every coalesced marker, keeps the open batch window and raises the blocked flag
  that the queue state reports.
\<close>

theorem flush_balance_gate:
  assumes "v_active v = Some active" and "coalesce_dirty_markers v = (Inr n, v1)"
    and "list_dirty v1 = Inr dirty"
    and "ad_pre_flight_batch_balance adapter (length dirty) w = (Inr (Some c), w1)" and "\<not> is_sufficient c"
  shows "\<exists>v'. flush_publish_queue keccak256 display adapter device am (v, w) =
      (Inl (BalanceInsufficientForBatch (bc_total_estimated_cost_wei c) (bc_current_balance_wei c) (length dirty)),
       (v', w1))
    \<and> v_dirty v' = v_dirty v1 \<and> v_revisions v' = v_revisions v
    \<and> (\<exists>q. publish_queue_state v' = Inr q \<and> qs_blocked_on_balance q \<and> qs_dirty_count q = length dirty
        \<and> qs_window_started_at_unix_ms q = as_window_started_at_unix_ms active)"
proof -
  let ?v' = "set_flush_failed v1"
  have v1: "v_active v1 = Some active" "v_revisions v1 = v_revisions v"
    using coalesce_ok(2)[OF assms(2)] assms(1) by simp_all
  have "flush_publish_queue keccak256 display adapter device am (v, w) =
      (Inl (BalanceInsufficientForBatch (bc_total_estimated_cost_wei c) (bc_current_balance_wei c) (length dirty)),
       (?v', w1))"
    using assms by (simp add: flush_publish_queue_def op_bind_def op_seq_def op_try_def balance_gate_def)
  moreover have "list_dirty ?v' = Inr dirty" using assms(3) by (simp add: list_dirty_def set_flush_failed_def)
  ultimately show ?thesis using v1 by (auto simp: publish_queue_state_def set_flush_failed_def)
qed

definition example_poor :: "MockChainAdapter ChainAdapter" where
  "example_poor = example_chain\<lparr>ad_pre_flight_batch_balance :=
     (\<lambda>n. op_ret (Some \<lparr>bc_total_estimated_cost_wei = of_nat n * 5, bc_current_balance_wei = 4\<rparr>))\<rparr>"

theorem flush_balance_gate_witness:
  "\<exists>v'. flush_publish_queue (env_keccak256 example_env) (\<lambda>_. ''error'') example_poor example_key
       (\<lambda>_ _. example_ambient) (example_two_edits, mock_new)
     = (Inl (BalanceInsufficientForBatch 5 4 1), (v', mock_new)) \<and> length (v_dirty v') = 1"
proof -
  let ?v1 = "snd (coalesce_dirty_markers example_two_edits)"
  have "fst (coalesce_dirty_markers example_two_edits) = Inr 1" by code_simp
  then have c: "coalesce_dirty_markers example_two_edits = (Inr 1, ?v1)" by (metis prod.collapse)
  have "v_active example_two_edits \<noteq> None" by code_simp
  then obtain active where a: "v_active example_two_edits = Some active" by blast
  have "case list_dirty ?v1 of Inl _ \<Rightarrow> False | Inr ds \<Rightarrow> length ds = 1" by code_simp
  then obtain ds where d: "list_dirty ?v1 = Inr ds" "length ds = 1" by (auto split: sum.splits)
  let ?c = "\<lparr>bc_total_estimated_cost_wei = 5, bc_current_balance_wei = 4\<rparr>"
  have b: "ad_pre_flight_batch_balance example_poor (length ds) mock_new = (Inr (Some ?c), mock_new)"
    using d(2) by (simp add: example_poor_def)
  have i: "\<not> is_sufficient ?c" by (simp add: is_sufficient_def)
  have "length (v_dirty ?v1) = 1" by code_simp
  then show ?thesis
    using flush_balance_gate[OF a c d(1) b i, of "env_keccak256 example_env" "\<lambda>_. ''error''" example_key
        "\<lambda>_ _. example_ambient"] d(2) by auto
qed

lemma parse_unsigned_le: "parse_unsigned m s = Some n \<Longrightarrow> n \<le> m"
  by (auto simp: parse_unsigned_def Let_def split: if_split_asm option.split_asm)

text \<open>
  The batch window is always between one second and five minutes, whatever the environment
  variable holds; a value that parses and lies in that range is used as it is, an unset or
  unparsable one means thirty seconds.
\<close>

lemma batch_window_bounds:
  "1 \<le> unat (resolve_batch_window_secs_from raw) \<and> unat (resolve_batch_window_secs_from raw) \<le> 300
   \<and> unat (resolve_batch_window_secs_from raw) =
       (case raw of None \<Rightarrow> 30 | Some s \<Rightarrow>
         (case parse_unsigned (2 ^ 64 - 1) s of None \<Rightarrow> 30 | Some n \<Rightarrow> max 1 (min 300 n)))"
proof -
  have clamp: "unat (max 1 (min 300 (of_nat n :: u64))) = max 1 (min 300 n)" if "n \<le> 2 ^ 64 - 1" for n
  proof -
    have "unat (of_nat n :: u64) = n" using that by (simp add: unat_of_nat take_bit_nat_eq_self)
    then show ?thesis by (simp add: max_def min_def word_le_nat_alt)
  qed
  define n where "n = (case Option.bind raw (parse_unsigned (2 ^ 64 - 1)) of None \<Rightarrow> 30 | Some n \<Rightarrow> n)"
  have "resolve_batch_window_secs_from raw = max 1 (min 300 (of_nat n))"
    by (cases "Option.bind raw (parse_unsigned (2 ^ 64 - 1))")
      (simp_all add: resolve_batch_window_secs_from_def BATCH_WINDOW_SECS_DEFAULT_def BATCH_WINDOW_SECS_MIN_def
        BATCH_WINDOW_SECS_MAX_def n_def)
  moreover have "n \<le> 2 ^ 64 - 1"
    unfolding n_def by (auto split: option.splits simp: bind_eq_Some_conv dest: parse_unsigned_le)
  ultimately have w: "unat (resolve_batch_window_secs_from raw) = max 1 (min 300 n)" using clamp by simp
  moreover have "max 1 (min 300 n) = (case raw of None \<Rightarrow> 30 | Some s \<Rightarrow>
      (case parse_unsigned (2 ^ 64 - 1) s of None \<Rightarrow> 30 | Some n \<Rightarrow> max 1 (min 300 n)))"
    unfolding n_def by (auto split: option.splits)
  moreover have "1 \<le> max 1 (min 300 n)" "max 1 (min 300 n) \<le> 300" by auto
  ultimately show ?thesis by argo
qed

end
