(* ===== verification/Vault_Machine.thy ===== *)
theory Vault_Machine
  imports Publish_Queue
begin

text \<open>
  The vault as one state machine: every operation of the modelled components that changes the
  vault is a rule of \<open>vault_step\<close>, with any clocks, randomness, events and adapters. The
  lemmas give, for every operation, that it keeps the table invariant, the session invariant and
  the validity of the head pointers; the properties are the reachable-state invariants.
\<close>

section \<open>Head pointers\<close>

abbreviation head_key :: "AccountRow \<Rightarrow> AccountId \<times> RevisionId" where
  "head_key row \<equiv> (ac_account_id row, ac_head_revision_id row)"

definition heads_inv :: "Vault \<Rightarrow> bool" where
  "heads_inv v \<longleftrightarrow> head_key ` set (v_accounts v) \<subseteq> row_keys ` set (v_revisions v)"

lemma heads_inv_session [simp]:
  "heads_inv (touch_session now v) = heads_inv v"
  "heads_inv (maybe_expire_active_session now v) = heads_inv v"
  "heads_inv (note_dirty_marker_stamped ms v) = heads_inv v"
  "heads_inv (insert_dirty a r ms v) = heads_inv v"
  "heads_inv (delete_marker a r v) = heads_inv v"
  "heads_inv (resolve_fork_sync_cache env a m now t v) = heads_inv v"
  by (simp_all add: heads_inv_def delete_marker_def)

lemma heads_inv_check [op_keeps]: "keeps heads_inv (check_session_freshness now)"
  by (auto simp: keeps_def check_session_freshness_def heads_inv_def split: SessionState.splits)

lemma heads_inv_with_active [op_keeps]: "keeps heads_inv (with_active m)"
  by (auto simp: keeps_def with_active_def heads_inv_def Let_def split: option.splits prod.splits)

lemma update_fields [simp]:
  "v_revisions (update_accounts a g v) = v_revisions v"
  "v_accounts (update_revisions P f v) = v_accounts v"
  "v_accounts (update_accounts a g v) = map (\<lambda>r. if ac_account_id r = a then g r else r) (v_accounts v)"
  "v_revisions (update_revisions P f v) = map (\<lambda>r. if P r then f r else r) (v_revisions v)"
  by (simp_all add: update_accounts_def update_revisions_def)

lemma heads_inv_update_revisions:
  assumes "\<And>r. rv_account_id (f r) = rv_account_id r" "\<And>r. rv_revision_id (f r) = rv_revision_id r"
  shows "heads_inv (update_revisions P f v) = heads_inv v"
proof -
  have "map row_keys (v_revisions (update_revisions P f v)) = map row_keys (v_revisions v)"
    using assms by simp
  from arg_cong[OF this, of set] show ?thesis by (simp only: heads_inv_def set_map update_fields)
qed

text \<open>An insertion, and a head move that names an existing revision.\<close>

lemma insert_revision_ok:
  "insert_revision row v = Inr v' \<Longrightarrow>
     v' = v\<lparr>v_revisions := v_revisions v @ [row]\<rparr> \<and> rv_revision_id row \<notin> rv_revision_id ` set (v_revisions v)"
  by (auto simp: insert_revision_def split: if_splits)

lemma insert_account_ok: "insert_account row v = Inr v' \<Longrightarrow> v' = v\<lparr>v_accounts := v_accounts v @ [row]\<rparr>"
  by (auto simp: insert_account_def split: if_splits)

lemma heads_inv_insert_revision: "insert_revision row v = Inr v' \<Longrightarrow> heads_inv v \<Longrightarrow> heads_inv v'"
  by (drule insert_revision_ok) (simp add: heads_inv_def subset_insertI2)

lemma heads_inv_move:
  assumes "heads_inv v" and "\<And>r. ac_account_id (f r) = ac_account_id r"
    and "\<And>r. ac_head_revision_id (f r) = ac_head_revision_id r \<or> (a, ac_head_revision_id (f r)) \<in> row_keys ` set (v_revisions v)"
  shows "heads_inv (update_accounts a f v)"
proof -
  have "head_key (if ac_account_id r = a then f r else r) \<in> row_keys ` set (v_revisions v)"
    if "r \<in> set (v_accounts v)" for r
  proof -
    have "head_key r \<in> row_keys ` set (v_revisions v)" using assms(1) that by (auto simp: heads_inv_def)
    then show ?thesis using assms(2,3)[of r] by auto
  qed
  note keys = this
  show ?thesis unfolding heads_inv_def
  proof (rule image_subsetI)
    fix x
    assume "x \<in> set (v_accounts (update_accounts a f v))"
    then obtain r where "r \<in> set (v_accounts v)" "x = (if ac_account_id r = a then f r else r)"
      by (auto simp: update_accounts_def)
    then show "head_key x \<in> row_keys ` set (v_revisions (update_accounts a f v))"
      using keys[of r] by (simp only: update_fields)
  qed
qed

lemma heads_inv_insert_account:
  assumes "insert_account row v = Inr v1" "insert_revision x v1 = Inr v2" "row_keys x = head_key row" "heads_inv v"
  shows "heads_inv v2"
  using insert_account_ok[OF assms(1)] insert_revision_ok[OF assms(2)] assms(3,4) by (auto simp: heads_inv_def)

lemma local_revision_keys [simp]: "rv_account_id (local_revision v a r p s now sealed t) = a"
  "rv_revision_id (local_revision v a r p s now sealed t) = r"
  by (simp_all add: local_revision_def)

lemma commit_add_heads: "commit_add a r now sealed v = Inr v' \<Longrightarrow> heads_inv v \<Longrightarrow> heads_inv v'"
  unfolding commit_add_def and_then_Inr
  by (elim exE conjE, drule heads_inv_insert_account, assumption) auto

lemma heads_inv_append:
  assumes "insert_revision x v = Inr v1" "rv_account_id x = a" "heads_inv v"
    and "\<And>r. ac_account_id (f r) = ac_account_id r" "\<And>r. ac_head_revision_id (f r) = rv_revision_id x"
  shows "heads_inv (update_accounts a f v1)"
  using heads_inv_insert_revision[OF assms(1,3)] insert_revision_ok[OF assms(1)] assms(2,4,5)
  by (intro heads_inv_move) auto

lemma commit_append_heads: "commit_append a r p now sealed t v = Inr v' \<Longrightarrow> heads_inv v \<Longrightarrow> heads_inv v'"
  by (auto simp: commit_append_def and_then_Inr elim!: heads_inv_append)

lemma fold_supersede_heads: "heads_inv (fold (supersede a m) L v) = heads_inv v"
  by (induction L arbitrary: v) (simp_all add: supersede_def heads_inv_update_revisions)

lemma resolve_commit_heads:
  "resolve_fork_commit a keep m s now sealed t v = Inr v' \<Longrightarrow> heads_inv v \<Longrightarrow> heads_inv v'"
  by (auto simp: resolve_fork_commit_def and_then_Inr fold_supersede_heads split: if_splits elim!: heads_inv_append)

lemma clear_frozen_heads: "clear_frozen_commit a chosen now v = Inr v' \<Longrightarrow> heads_inv v \<Longrightarrow> heads_inv v'"
proof -
  assume c: "clear_frozen_commit a chosen now v = Inr v'" and h: "heads_inv v"
  then obtain x where "find_revision v a chosen = Some x"
    and v': "v' = update_accounts a (\<lambda>r. r\<lparr>ac_frozen_pending_resolve := 0, ac_head_revision_id := chosen,
      ac_last_modified_at := now\<rparr>) v"
    by (auto simp: clear_frozen_commit_def and_then_Inr split: if_splits)
  then have "(a, chosen) \<in> row_keys ` set (v_revisions v)" using find_revision_Some by force
  then show "heads_inv v'" unfolding v' by (intro heads_inv_move h) simp_all
qed

lemma mark_published_heads: "mark_published_commit r anchor v = Inr v' \<Longrightarrow> heads_inv v \<Longrightarrow> heads_inv v'"
  by (auto simp: mark_published_commit_def and_then_Inr heads_inv_update_revisions split: if_splits)

text \<open>The two arms of a foreign insertion.\<close>

lemma ingest_commit_cases:
  assumes "ingest_commit env ev now b l v = Inr v'"
  obtains (known) f w tomb where "w = update_accounts (AccountId (ev_account_id ev)) f v"
      "\<And>r. ac_account_id (f r) = ac_account_id r" "\<And>r. ac_head_revision_id (f r) = ac_head_revision_id r"
      "\<And>r. account_ok r \<Longrightarrow> account_ok (f r)"
      "insert_revision (foreign_revision env ev now tomb b l) w = Inr v'" "tomb \<in> {0, 1}"
  | (fresh) row w tomb where "insert_account row v = Inr w" "ac_account_id row = AccountId (ev_account_id ev)"
      "ac_head_revision_id row = event_revision_id env ev" "ac_tombstoned row \<in> {0, 1}"
      "ac_frozen_pending_resolve row = 1"
      "insert_revision (foreign_revision env ev now tomb b l) w = Inr v'" "tomb \<in> {0, 1}"
proof -
  define tomb where "tomb = detect_tombstone_bit_at_ingest env ev (replicate NONCE_LEN 0) v"
  have t: "tomb \<in> {0, 1}"
    by (auto simp: tomb_def detect_tombstone_bit_at_ingest_def split: option.split sum.split DecodedPayload.split)
  show thesis
  proof (cases "find_account v (AccountId (ev_account_id ev)) = None")
    case True
    then obtain w where "insert_account \<lparr>ac_account_id = AccountId (ev_account_id ev), ac_created_at = now,
        ac_last_modified_at = now, ac_tombstoned = (if tomb = 1 then 1 else 0),
        ac_head_revision_id = event_revision_id env ev, ac_frozen_pending_resolve = 1\<rparr> v = Inr w"
      "insert_revision (foreign_revision env ev now tomb b l) w = Inr v'"
      using assms unfolding ingest_commit_def Let_def and_then_Inr tomb_def[symmetric] by auto
    then show thesis using fresh t by auto
  next
    case False
    let ?f = "\<lambda>r. r\<lparr>ac_frozen_pending_resolve := 1, ac_tombstoned := (if tomb = 1 then 1 else ac_tombstoned r),
      ac_last_modified_at := now\<rparr>"
    have "insert_revision (foreign_revision env ev now tomb b l)
        (update_accounts (AccountId (ev_account_id ev)) ?f v) = Inr v'"
      using False assms unfolding ingest_commit_def Let_def and_then_Inr tomb_def[symmetric] by auto
    then show thesis by (intro known[OF refl _ _ _ _ t]) (simp_all add: account_ok_def)
  qed
qed

lemma ingest_commit_heads:
  assumes "ingest_commit env ev now b l v = Inr v'" and "heads_inv v"
  shows "heads_inv v'"
  using assms(1)
proof (cases rule: ingest_commit_cases)
  case (known f w tomb)
  have "heads_inv w" unfolding known(1) by (rule heads_inv_move[OF assms(2)]) (simp_all add: known)
  then show ?thesis by (rule heads_inv_insert_revision[OF known(5)])
next
  case (fresh row w tomb)
  then show ?thesis using heads_inv_insert_account[OF fresh(1,6) _ assms(2)] by (simp add: foreign_revision_def)
qed

section \<open>The table invariant of the remaining operations\<close>

text \<open>Byte arrays of the event type and the hash have 32 bytes.\<close>

definition event_ok :: "RevisionEvent \<Rightarrow> bool" where
  "event_ok ev \<longleftrightarrow> length (ev_account_id ev) = 32 \<and> length (ev_parent_revision ev) = 32
     \<and> length (ev_device_id ev) = 32 \<and> length (tx_hash (ev_anchor ev)) = 32"

definition keccak_ok :: "VaultEnv \<Rightarrow> bool" where
  "keccak_ok env \<longleftrightarrow> (\<forall>m. length (env_keccak256 env m) = 32)"

lemma stamp_row_ok:
  "row_ok r \<Longrightarrow> length tx = 32 \<Longrightarrow> i64_try_from bw = Some b \<Longrightarrow> i64_try_from lw = Some l \<Longrightarrow>
     row_ok (stamp_anchor tx b l r)"
  by (auto simp: row_ok_def stamp_anchor_def i64_try_from_def split: if_splits)

lemma foreign_row_ok:
  assumes "event_ok ev" "keccak_ok env" "tomb \<in> {0, 1}"
    and "i64_try_from bw = Some b" "i64_try_from lw = Some l"
  shows "row_ok (foreign_revision env ev now tomb b l)"
proof -
  have "uint (ev_schema_version ev) \<le> 255" using uint_bounded[of "ev_schema_version ev"] by simp
  then show ?thesis using assms
    by (auto simp: row_ok_def foreign_revision_def event_ok_def keccak_ok_def event_revision_id_def canonical_hash_def
        i64_try_from_def split: if_splits)
qed

lemma tables_inv_ingest_commit:
  assumes "ingest_commit env ev now b l v = Inr v'" "tables_inv v" "event_ok ev" "keccak_ok env"
    and "i64_try_from bw = Some b" "i64_try_from lw = Some l"
  shows "tables_inv v'"
  using assms(1)
proof (cases rule: ingest_commit_cases)
  case (known f w tomb)
  have "tables_inv w" unfolding known(1) by (rule tables_inv_update_accounts[OF assms(2)]) (simp_all add: known)
  then show ?thesis by (rule tables_inv_insert_revision[OF known(5)]) (rule foreign_row_ok[OF assms(3,4) known(6) assms(5,6)])
next
  case (fresh row w tomb)
  have "account_ok row" using fresh(2-5) assms(3,4)
    by (simp add: account_ok_def event_ok_def keccak_ok_def event_revision_id_def canonical_hash_def)
  then have "tables_inv w" by (rule tables_inv_insert_account[OF fresh(1) assms(2)])
  then show ?thesis by (rule tables_inv_insert_revision[OF fresh(6)]) (rule foreign_row_ok[OF assms(3,4) fresh(7) assms(5,6)])
qed

lemma tables_inv_mark_published_commit:
  "mark_published_commit r anchor v = Inr v' \<Longrightarrow> length (tx_hash anchor) = 32 \<Longrightarrow> tables_inv v \<Longrightarrow> tables_inv v'"
  unfolding mark_published_commit_def and_then_Inr
  by (auto split: if_split_asm intro!: tables_inv_update_revisions stamp_row_ok)

lemma tables_inv_clear_frozen_commit:
  "clear_frozen_commit a chosen now v = Inr v' \<Longrightarrow> tables_inv v \<Longrightarrow> tables_inv v'"
proof -
  assume c: "clear_frozen_commit a chosen now v = Inr v'" and t: "tables_inv v"
  then obtain x where x: "find_revision v a chosen = Some x"
    and v': "v' = update_accounts a (\<lambda>r. r\<lparr>ac_frozen_pending_resolve := 0, ac_head_revision_id := chosen,
      ac_last_modified_at := now\<rparr>) v"
    by (auto simp: clear_frozen_commit_def and_then_Inr split: if_splits)
  have "length (rid_bytes chosen) = 32" using find_revision_Some[OF x] tables_row_ok[OF t] by (auto simp: row_ok_def)
  then show "tables_inv v'" unfolding v' by (intro tables_inv_update_accounts t) (auto simp: account_ok_def)
qed

lemma tables_inv_filter_revisions: "tables_inv v \<Longrightarrow> tables_inv (v\<lparr>v_revisions := filter P (v_revisions v)\<rparr>)"
  by (auto simp: tables_inv_def list_all_iff distinct_map_filter)

lemma tables_inv_filter_dirty: "tables_inv v \<Longrightarrow> tables_inv (v\<lparr>v_dirty := filter P (v_dirty v)\<rparr>)"
  by (auto simp: tables_inv_def distinct_map_filter)

section \<open>Predicates that every operation keeps\<close>

text \<open>
  The contract of a state predicate with the primitive updates of the vault. The operations are
  proved once to keep every such predicate; the three invariants are instances.
\<close>

locale vault_predicate =
  fixes P :: "Vault \<Rightarrow> bool" and env :: VaultEnv
  assumes touch: "P v \<Longrightarrow> P (touch_session t v)"
    and expire: "P v \<Longrightarrow> P (maybe_expire_active_session t v)"
    and check: "keeps P (check_session_freshness t)"
    and active: "P v \<Longrightarrow> v_active v = Some a \<Longrightarrow> P (v\<lparr>v_active := Some a'\<rparr>)"
    and merges: "P v \<Longrightarrow> P (v\<lparr>v_pending_merges := ms\<rparr>)"
    and checkpoint: "P v \<Longrightarrow> P (v\<lparr>v_sync_state := x\<rparr>)" "P v \<Longrightarrow> P (v\<lparr>v_sync_v1 := y\<rparr>)" "P v \<Longrightarrow> P (v\<lparr>v_sync_v2 := z\<rparr>)"
    and dirty: "P v \<Longrightarrow> P (insert_dirty i r now v)" "P v \<Longrightarrow> P (v\<lparr>v_dirty := filter D (v_dirty v)\<rparr>)"
    and rows: "P v \<Longrightarrow> (\<And>r. row_ok r \<Longrightarrow> Q r \<Longrightarrow> row_ok (f r)) \<Longrightarrow> (\<And>r. row_keys (f r) = row_keys r) \<Longrightarrow>
      P (update_revisions Q f v)"
    and add: "commit_add i r now sealed v = Inr v' \<Longrightarrow> P v \<Longrightarrow> length (aid_bytes i) = 32 \<Longrightarrow>
      length (rid_bytes r) = 32 \<Longrightarrow> P v'"
    and append: "commit_append i r p now sealed tomb v = Inr v' \<Longrightarrow> P v \<Longrightarrow> length (rid_bytes r) = 32 \<Longrightarrow>
      length (rid_bytes p) = 32 \<Longrightarrow> P v'"
    and resolve: "resolve_fork_commit i keep m s now sealed tomb v = Inr v' \<Longrightarrow> P v \<Longrightarrow> length (rid_bytes m) = 32 \<Longrightarrow> P v'"
    and unfreeze: "clear_frozen_commit i chosen now v = Inr v' \<Longrightarrow> P v \<Longrightarrow> P v'"
    and ingest: "ingest_commit env ev now b l v = Inr v' \<Longrightarrow> P v \<Longrightarrow> event_ok ev \<Longrightarrow> keccak_ok env \<Longrightarrow>
      i64_try_from bw = Some b \<Longrightarrow> i64_try_from lw = Some l \<Longrightarrow> P v'"
begin

lemma with_active_keeps: "keeps P (with_active m)"
  by (auto simp: keeps_def with_active_def Let_def intro: active split: option.splits prod.splits)

lemma map_active: "P v \<Longrightarrow> P (v\<lparr>v_active := map_option f (v_active v)\<rparr>)"
proof (cases "v_active v")
  case None
  then have "v\<lparr>v_active := map_option f (v_active v)\<rparr> = v" by simp
  then show "P v \<Longrightarrow> P (v\<lparr>v_active := map_option f (v_active v)\<rparr>)" by simp
qed (simp add: active)

lemma note_marker: "P v \<Longrightarrow> P (note_dirty_marker_stamped ms v)"
  unfolding note_dirty_marker_stamped_def by (rule map_active)

lemma sync_cache: "P v \<Longrightarrow> P (resolve_fork_sync_cache env' a m now t v)"
  by (auto simp: resolve_fork_sync_cache_def split: sum.splits intro: map_active)

lemmas primitives = keeps_seq keeps_bind keeps_pure keeps_modify keeps_ignore check with_active_keeps touch expire
  note_marker sync_cache dirty merges

lemma add_keeps:
  assumes "ambient_ok am"
  shows "keeps P (add_account env' am snapshot)"
proof -
  have draw: "length (aid_bytes a) = 32"
    if "derive_fresh_account_id (am_random_account am) v = Inr a" for a v
    using derive_account_id_draw[OF that[unfolded derive_fresh_account_id_def]] assms
    by (auto simp: ambient_ok_def)
  have commit: "keeps P (op_update (commit_add a (am_random_revision am) now sealed))"
    if "length (aid_bytes a) = 32" for a now sealed
    using that assms by (intro keeps_update) (auto intro: add simp: ambient_ok_def)
  show ?thesis unfolding add_account_def
    by (intro keeps_seq keeps_pure check)
      (rule keeps_bind_try, intro keeps_bind commit primitives draw)
qed

lemma append_keeps:
  assumes "ambient_ok am" "live_head i v = Inr p"
  shows "keeps P (op_update (commit_append a (am_random_revision am) p now sealed t))"
  using assms live_head_length[OF assms(2)]
  by (intro keeps_update) (auto intro: append simp: ambient_ok_def)

lemma update_keeps:
  assumes "ambient_ok am"
  shows "keeps P (update_account env' am i snapshot)"
  unfolding update_account_def
  by (intro keeps_seq keeps_pure check) (rule keeps_bind_try, intro primitives append_keeps[OF assms])

lemma delete_keeps:
  assumes "ambient_ok am"
  shows "keeps P (delete_account env' am i)"
  unfolding delete_account_def
  by (intro keeps_seq keeps_pure check) (rule keeps_bind_try, intro primitives append_keeps[OF assms])

lemma prune_keeps: "keeps P (prune_orphan_pending_merges t1 t2 a)"
  unfolding prune_orphan_pending_merges_def Let_def by (intro primitives)

lemma resolve_keeps:
  assumes "ambient_ok am"
  shows "keeps P (resolve_fork env' am a keep)"
proof -
  have "keeps P (op_update (resolve_fork_commit a keep (am_random_revision am) s now sealed t))" for s now t and sealed :: "bytes \<times> bytes"
    using assms by (intro keeps_update) (auto intro: resolve simp: ambient_ok_def)
  note commit = this
  have body: "keeps P (case st of (s, t) \<Rightarrow> F s t)" if "\<And>s t. keeps P (F s t)" for st F
    using that by (cases st) simp
  show ?thesis unfolding resolve_fork_def by (intro primitives body commit prune_keeps)
qed

lemma clear_frozen_keeps: "keeps P (clear_frozen am a chosen)"
proof -
  have "keeps P (op_update (clear_frozen_commit a chosen now))" for now
    by (rule keeps_update) (rule unfreeze)
  then show ?thesis unfolding clear_frozen_def by (intro primitives)
qed

lemma stamp:
  assumes "P v" "length tx = 32" "i64_try_from bw = Some b" "i64_try_from lw = Some l"
  shows "P (update_revisions Q (stamp_anchor tx b l) v)"
  by (rule rows[OF assms(1)]) (simp_all add: stamp_row_ok[OF _ assms(2-4)])

lemma mark_published_keeps:
  assumes "length (tx_hash anchor) = 32"
  shows "keeps P (mark_published am r anchor)"
proof -
  have "P v'" if "P v" "mark_published_commit r anchor v = Inr v'" for v v'
    using that assms unfolding mark_published_commit_def and_then_Inr by (auto split: if_split_asm intro: stamp)
  then have "keeps P (op_update (mark_published_commit r anchor))" by (rule keeps_update)
  then show ?thesis unfolding mark_published_def by (intro primitives)
qed

lemma ingest_keeps:
  assumes "event_ok ev" "keccak_ok env"
  shows "keeps P (ingest_chain_revision env am ev)"
proof (rule keepsI)
  fix v
  assume "P v"
  then have v0: "P (maybe_expire_active_session (am_t_check am) v)" by (rule expire)
  then show "P (snd (ingest_chain_revision env am ev v))"
    using assms unfolding ingest_run event_ok_def
    by (auto split: option.split sum.split intro!: touch stamp intro: ingest assms)
qed

lemma ingest_pending_keeps:
  assumes "event_ok ev" "keccak_ok env"
  shows "keeps P (ingest_pending_chain_revision env am ev blk hash)"
  unfolding ingest_pending_chain_revision_def
  by (intro primitives ingest_keeps[OF assms] rows) (auto simp: row_ok_def split: option.splits)

lemma promote_keeps: "keeps P (promote_finalized_revisions n)"
  unfolding promote_finalized_revisions_def
  by (intro primitives rows) (auto simp: row_ok_def split: option.splits)

lemma update_synced_keeps: "(\<And>v c. P v \<Longrightarrow> P (store c v)) \<Longrightarrow> keeps P (update_synced rd store ms n)"
  unfolding update_synced_def Let_def by (intro primitives keeps_if)

lemma pulled_keeps: "keeps P (advance_last_pulled_block n)"
  unfolding advance_last_pulled_block_def by (intro primitives keeps_if checkpoint)

lemma synced_v1_keeps: "keeps P (update_last_synced_block_v1 ms n)"
  unfolding update_last_synced_block_v1_def by (rule update_synced_keeps) (rule checkpoint)

lemma synced_v2_keeps: "keeps P (update_last_synced_block_v2 ms n)"
  unfolding update_last_synced_block_v2_def by (rule update_synced_keeps) (rule checkpoint)

lemma mark_dirty_keeps: "keeps P (mark_dirty am a r)"
  unfolding mark_dirty_def by (intro primitives keeps_if)

lemma clear_dirty_keeps: "keeps P (clear_dirty am a r)"
  unfolding clear_dirty_def delete_marker_def by (intro primitives)

lemma window_flush_keeps: "keeps P (enable_window_elapsed_flush on)"
  unfolding enable_window_elapsed_flush_def by (rule with_active_keeps)

lemma coalesce_keeps: "keeps P coalesce_dirty_markers"
  by (auto simp: keeps_def coalesce_dirty_markers_def intro: dirty split: sum.splits)

lemma read_keeps: "keeps P (read_revision_for_publish am a r)"
  unfolding read_revision_for_publish_def by (intro primitives)

text \<open>Publication: the predicate on the vault of the pair, whatever the chain does.\<close>

abbreviation on_vaults :: "Vault \<times> 'w \<Rightarrow> bool" where
  "on_vaults vw \<equiv> P (fst vw)"

lemma on_store_keeps: "keeps P m \<Longrightarrow> keeps on_vaults (on_store f m)"
  by (auto simp: keeps_def on_store_def Let_def split: prod.splits)

lemma on_chain_keeps: "keeps on_vaults (on_chain f m)"
  by (auto simp: keeps_def on_chain_def Let_def split: prod.splits)

lemma on_chain_bind_keeps:
  fixes m :: "('w, 'e, 'a) op"
  assumes "\<And>w a w'. m w = (Inr a, w') \<Longrightarrow> keeps on_vaults (g a)"
  shows "keeps on_vaults (op_bind (on_chain f m) g)"
proof (rule keepsI)
  fix vw :: "Vault \<times> 'w"
  assume vw: "P (fst vw)"
  obtain r w' where m: "m (snd vw) = (r, w')" by fastforce
  show "P (fst (snd (op_bind (on_chain f m) g vw)))"
  proof (cases r)
    case (Inr a)
    have "keeps on_vaults (g a)" using assms[of "snd vw" a w'] m Inr by simp
    then have "P (fst (snd (g a (fst vw, w'))))" using vw by (simp add: keeps_def)
    then show ?thesis using m Inr by (cases vw) (simp add: op_bind_def)
  qed (use vw m in \<open>cases vw; simp add: op_bind_def\<close>)
qed

lemma publish_one_keeps:
  assumes adapter: "\<And>s w a w'. ad_publish adapter s w = (Inr a, w') \<Longrightarrow> length (tx_hash a) = 32"
    and view: "\<And>evs ev. view = Some evs \<Longrightarrow> ev \<in> set evs \<Longrightarrow> length (tx_hash (ev_anchor ev)) = 32"
  shows "keeps on_vaults (publish_one keccak256 adapter device am d view)"
proof -
  have finish: "keeps on_vaults (op_seq (on_store OneStore (mark_published am1 r anchor))
      (op_seq (on_store OneStore (clear_dirty am2 a r)) (op_ret out)))"
    if "length (tx_hash anchor) = 32" for am1 r anchor am2 a out
    by (intro keeps_seq keeps_pure on_store_keeps mark_published_keeps clear_dirty_keeps that)
  have "keeps on_vaults (case on_chain_event keccak256 s view of
       Some ev \<Rightarrow> op_seq (on_store OneStore (mark_published am1 r (ev_anchor ev)))
              (op_seq (on_store OneStore (clear_dirty am2 a r)) (op_ret (Published (ev_anchor ev) True)))
     | None \<Rightarrow> op_bind (on_chain OneChain (ad_publish adapter s)) (\<lambda>anchor.
             op_seq (on_store OneStore (mark_published am1 r anchor))
              (op_seq (on_store OneStore (clear_dirty am2 a r)) (op_ret (Published anchor False)))))"
    for s am1 am2 a r
  proof (cases "on_chain_event keccak256 s view")
    case None
    then show ?thesis by (simp, intro on_chain_bind_keeps finish adapter)
  next
    case (Some ev)
    then have "length (tx_hash (ev_anchor ev)) = 32"
      using view by (auto simp: on_chain_event_def find_Some_iff split: option.split_asm)
    then show ?thesis using Some finish by simp
  qed
  then show ?thesis unfolding publish_one_def Let_def
    by (intro keeps_bind keeps_pure on_store_keeps read_keeps)
qed

lemma publish_entries_keeps:
  assumes "\<And>s w a w'. ad_publish adapter s w = (Inr a, w') \<Longrightarrow> length (tx_hash a) = 32"
    and "\<And>evs ev. view = Some evs \<Longrightarrow> ev \<in> set evs \<Longrightarrow> length (tx_hash (ev_anchor ev)) = 32"
  shows "P (fst vw) \<Longrightarrow> P (fst (snd (publish_entries keccak256 display adapter device am view ds vw)))"
proof (induction ds arbitrary: vw)
  case (Cons d ds)
  obtain r vw1 where one: "publish_one keccak256 adapter device (am (length ds)) d view vw = (r, vw1)" by (metis surj_pair)
  have "P (fst vw1)" using keepsD[OF publish_one_keeps[OF assms] Cons.prems one] .
  from Cons.IH[OF this] show ?case using one by (simp add: case_prod_beta Let_def)
qed simp

end

text \<open>The byte arrays an adapter returns have their declared length.\<close>

definition adapter_ok :: "'w ChainAdapter \<Rightarrow> bool" where
  "adapter_ok adapter \<longleftrightarrow>
     (\<forall>s w a w'. ad_publish adapter s w = (Inr a, w') \<longrightarrow> length (tx_hash a) = 32)
     \<and> (\<forall>vid b u w evs w'. ad_pull_since adapter vid b u w = (Inr evs, w') \<longrightarrow>
          (\<forall>ev \<in> set evs. length (tx_hash (ev_anchor ev)) = 32))"

context vault_predicate
begin

lemma publish_all_keeps:
  fixes adapter :: "'w ChainAdapter"
  assumes "adapter_ok adapter"
  shows "keeps on_vaults (publish_all_for_vault keccak256 display adapter device am)"
proof -
  have "keeps on_vaults (\<lambda>vw.
     let (pulled, w1) = ad_pull_since adapter (v_vault_id (fst vw)) last_pulled None (snd vw);
         view = (case pulled of Inl _ \<Rightarrow> None | Inr evs \<Rightarrow> Some evs);
         (out, vw2) = publish_entries keccak256 display adapter device am view dirty (fst vw, w1)
     in (Inr \<lparr>rows = out\<rparr> :: StoreError + PublishReport, vw2))" for last_pulled dirty
  proof (rule keepsI)
    fix vw :: "Vault \<times> 'w"
    assume vw: "P (fst vw)"
    obtain pulled w1 where p: "ad_pull_since adapter (v_vault_id (fst vw)) last_pulled None (snd vw) = (pulled, w1)"
      by fastforce
    have "P (fst (snd (publish_entries keccak256 display adapter device am
        (case pulled of Inl _ \<Rightarrow> None | Inr evs \<Rightarrow> Some evs) dirty (fst vw, w1))))"
    proof (rule publish_entries_keeps)
      show "length (tx_hash (ev_anchor ev)) = 32"
        if "(case pulled of Inl _ \<Rightarrow> None | Inr evs \<Rightarrow> Some evs) = Some evs" "ev \<in> set evs" for evs ev
        using that assms p unfolding adapter_ok_def by (cases pulled) (simp, metis option.inject sum.case(2))
    qed (use assms vw in \<open>auto simp: adapter_ok_def\<close>)
    then show "P (fst (snd (let (pulled, w1) = ad_pull_since adapter (v_vault_id (fst vw)) last_pulled None (snd vw);
         view = (case pulled of Inl _ \<Rightarrow> None | Inr evs \<Rightarrow> Some evs);
         (out, vw2) = publish_entries keccak256 display adapter device am view dirty (fst vw, w1)
     in (Inr \<lparr>rows = out\<rparr> :: StoreError + PublishReport, vw2))))"
      using p by (simp add: case_prod_beta Let_def)
  qed
  then show ?thesis unfolding publish_all_for_vault_def
    by (intro keeps_bind on_store_keeps keeps_pure)
qed

lemma flush_keeps:
  assumes "adapter_ok adapter"
  shows "keeps on_vaults (flush_publish_queue keccak256 display adapter device am)"
proof -
  have map_error: "keeps on_vaults (map_error FlushStore (publish_all_for_vault keccak256 display adapter device am))"
    using publish_all_keeps[OF assms, of keccak256 display device am]
    by (simp add: keeps_def map_error_def Let_def case_prod_beta)
  have "keeps on_vaults (balance_gate n c)" for n c
    unfolding balance_gate_def set_flush_failed_def
    by (cases c) (auto intro!: keeps_seq keeps_pure on_store_keeps keeps_modify map_active)
  then show ?thesis unfolding flush_publish_queue_def reset_window_def
    by (intro keeps_bind keeps_seq keeps_pure keeps_if keeps_modify on_store_keeps on_chain_keeps coalesce_keeps
        map_active map_error)
qed

end

section \<open>The three invariants are such predicates\<close>

lemma other_fields [simp]:
  "tables_inv (v\<lparr>v_active := act\<rparr>) = tables_inv v" "tables_inv (v\<lparr>v_pending_merges := pms\<rparr>) = tables_inv v"
  "tables_inv (v\<lparr>v_sync_state := x\<rparr>) = tables_inv v" "tables_inv (v\<lparr>v_sync_v1 := y\<rparr>) = tables_inv v"
  "tables_inv (v\<lparr>v_sync_v2 := y\<rparr>) = tables_inv v"
  "heads_inv (v\<lparr>v_active := act\<rparr>) = heads_inv v" "heads_inv (v\<lparr>v_pending_merges := pms\<rparr>) = heads_inv v"
  "heads_inv (v\<lparr>v_sync_state := x\<rparr>) = heads_inv v" "heads_inv (v\<lparr>v_sync_v1 := y\<rparr>) = heads_inv v"
  "heads_inv (v\<lparr>v_sync_v2 := y\<rparr>) = heads_inv v" "heads_inv (v\<lparr>v_dirty := ds\<rparr>) = heads_inv v"
  by (simp_all add: tables_inv_def heads_inv_def)

interpretation tables: vault_predicate tables_inv env
proof
  fix v and Q :: "RevisionRow \<Rightarrow> bool" and f :: "RevisionRow \<Rightarrow> RevisionRow"
  assume "tables_inv v" "\<And>r. row_ok r \<Longrightarrow> Q r \<Longrightarrow> row_ok (f r)" "\<And>r. row_keys (f r) = row_keys r"
  then show "tables_inv (update_revisions Q f v)" by (intro tables_inv_update_revisions) auto
qed (auto intro: tables_inv_check tables_inv_insert_dirty tables_inv_filter_dirty commit_add_inv commit_append_inv
    tables_inv_resolve_commit tables_inv_clear_frozen_commit tables_inv_ingest_commit)

interpretation heads: vault_predicate heads_inv env
proof
  fix v and Q :: "RevisionRow \<Rightarrow> bool" and f :: "RevisionRow \<Rightarrow> RevisionRow"
  assume "heads_inv v" "\<And>r. row_keys (f r) = row_keys r"
  then show "heads_inv (update_revisions Q f v)" by (simp add: heads_inv_update_revisions)
qed (auto intro: heads_inv_check commit_add_heads commit_append_heads resolve_commit_heads clear_frozen_heads
    ingest_commit_heads)

text \<open>A transaction on the tables leaves the session alone.\<close>

lemma session_frame:
  "v_active (update_accounts a g v) = v_active v" "v_session_state (update_accounts a g v) = v_session_state v"
  "v_active (update_revisions P f v) = v_active v" "v_session_state (update_revisions P f v) = v_session_state v"
  "v_active (insert_dirty a r ms v) = v_active v" "v_session_state (insert_dirty a r ms v) = v_session_state v"
  by (simp_all add: update_accounts_def update_revisions_def insert_dirty_def)

lemma session_inv_cong: "v_active v' = v_active v \<Longrightarrow> v_session_state v' = v_session_state v \<Longrightarrow> session_inv v' = session_inv v"
  by (simp add: session_inv_def)

lemma session_inv_tables [simp]:
  "session_inv (update_accounts a g v) = session_inv v" "session_inv (update_revisions P f v) = session_inv v"
  "session_inv (insert_dirty a r ms v) = session_inv v" "session_inv (fold (supersede a m) L v) = session_inv v"
  "session_inv (v\<lparr>v_revisions := rs\<rparr>) = session_inv v" "session_inv (v\<lparr>v_dirty := ds\<rparr>) = session_inv v"
  "session_inv (v\<lparr>v_pending_merges := pms\<rparr>) = session_inv v" "session_inv (v\<lparr>v_sync_state := x\<rparr>) = session_inv v"
  "session_inv (v\<lparr>v_sync_v1 := y\<rparr>) = session_inv v" "session_inv (v\<lparr>v_sync_v2 := y\<rparr>) = session_inv v"
proof -
  show "session_inv (fold (supersede a m) L v) = session_inv v"
    by (induction L arbitrary: v) (simp_all add: supersede_def session_inv_cong[OF session_frame(3,4)])
qed (simp_all add: session_inv_def session_frame)

lemma session_inv_insert:
  "insert_account row v = Inr v' \<Longrightarrow> session_inv v' = session_inv v"
  "insert_revision x v = Inr v' \<Longrightarrow> session_inv v' = session_inv v"
  by (auto simp: session_inv_def dest!: insert_account_ok insert_revision_ok)

lemma session_inv_active: "session_inv v \<Longrightarrow> v_active v = Some a \<Longrightarrow> session_inv (v\<lparr>v_active := Some a'\<rparr>)"
  by (simp add: session_inv_def)

interpretation session: vault_predicate session_inv env
proof
  fix ev now b l v v' bw lw
  assume "ingest_commit env ev now b l v = Inr v'" "session_inv v"
  then show "session_inv v'" by (cases rule: ingest_commit_cases) (auto simp: session_inv_insert)
qed (auto intro: session_inv_check session_inv_touch session_inv_expire simp: session_inv_insert commit_add_def commit_append_def
    resolve_fork_commit_def clear_frozen_commit_def and_then_Inr session_inv_active split: if_split_asm)

section \<open>The machine\<close>

text \<open>
  One operation on the vault. The flag says whether reorganisations, which delete pending
  revisions, are among the operations.
\<close>

inductive vault_step :: "bool \<Rightarrow> VaultEnv \<Rightarrow> Vault \<Rightarrow> Vault \<Rightarrow> bool" for reorg env where
  on_session: "session_step v v' \<Longrightarrow> length (did_bytes (v_device_id v')) = 32 \<Longrightarrow> vault_step reorg env v v'"
| on_add: "ambient_ok am \<Longrightarrow> vault_step reorg env v (snd (add_account env am snapshot v))"
| on_update: "ambient_ok am \<Longrightarrow> vault_step reorg env v (snd (update_account env am i snapshot v))"
| on_delete: "ambient_ok am \<Longrightarrow> vault_step reorg env v (snd (delete_account env am i v))"
| on_resolve: "ambient_ok am \<Longrightarrow> vault_step reorg env v (snd (resolve_fork env am i keep v))"
| on_unfreeze: "vault_step reorg env v (snd (clear_frozen am i chosen v))"
| on_prune: "vault_step reorg env v (snd (prune_orphan_pending_merges t1 t2 i v))"
| on_published: "length (tx_hash anchor) = 32 \<Longrightarrow> vault_step reorg env v (snd (mark_published am r anchor v))"
| on_ingest: "event_ok ev \<Longrightarrow> vault_step reorg env v (snd (ingest_chain_revision env am ev v))"
| on_ingest_pending: "event_ok ev \<Longrightarrow>
    vault_step reorg env v (snd (ingest_pending_chain_revision env am ev blk hash v))"
| on_promote: "vault_step reorg env v (snd (promote_finalized_revisions n v))"
| on_rollback: "reorg \<Longrightarrow> vault_step reorg env v (snd (rollback_pending_revisions_in_range low high v))"
| on_pulled: "vault_step reorg env v (snd (advance_last_pulled_block n v))"
| on_synced_v1: "vault_step reorg env v (snd (update_last_synced_block_v1 ms n v))"
| on_synced_v2: "vault_step reorg env v (snd (update_last_synced_block_v2 ms n v))"
| on_mark_dirty: "vault_step reorg env v (snd (mark_dirty am i r v))"
| on_clear_dirty: "vault_step reorg env v (snd (clear_dirty am i r v))"
| on_window: "vault_step reorg env v (snd (enable_window_elapsed_flush on v))"
| on_coalesce: "vault_step reorg env v (snd (coalesce_dirty_markers v))"

text \<open>The vault beside a chain that other parties write to at any time.\<close>

inductive machine_step :: "bool \<Rightarrow> VaultEnv \<Rightarrow> 'w ChainAdapter \<Rightarrow> Vault \<times> 'w \<Rightarrow> Vault \<times> 'w \<Rightarrow> bool"
  for reorg env adapter where
  local: "vault_step reorg env v v' \<Longrightarrow> machine_step reorg env adapter (v, w) (v', w)"
| publish: "machine_step reorg env adapter vw
    (snd (publish_all_for_vault (env_keccak256 env) display adapter device ams vw))"
| flush: "machine_step reorg env adapter vw
    (snd (flush_publish_queue (env_keccak256 env) display adapter device ams vw))"
| chain: "machine_step reorg env adapter (v, w) (v, w')"

text \<open>No session operation touches the tables.\<close>

definition contents :: "AccountRow list \<Rightarrow> RevisionRow list \<Rightarrow> DirtyEntry list \<Rightarrow> Vault \<Rightarrow> bool" where
  "contents as rs ds v \<longleftrightarrow> v_accounts v = as \<and> v_revisions v = rs \<and> v_dirty v = ds"

lemma contents_session:
  "contents as rs ds v \<Longrightarrow> contents as rs ds (touch_session t v)"
  "contents as rs ds v \<Longrightarrow> contents as rs ds (maybe_expire_active_session t v)"
  "contents as rs ds v \<Longrightarrow> contents as rs ds (lock v)"
  "contents as rs ds v \<Longrightarrow> contents as rs ds (device_locked v)"
  "contents as rs ds v \<Longrightarrow> contents as rs ds (set_last_presence t v)"
  "contents as rs ds v \<Longrightarrow> contents as rs ds (install_unlocked t m v)"
  "contents as rs ds v \<Longrightarrow> contents as rs ds (install_session_idle c t v)"
  by (simp_all add: contents_def lock_def device_locked_def set_last_presence_def install_unlocked_def
      install_session_idle_def)

lemma contents_check [op_keeps]: "keeps (contents as rs ds) (check_session_freshness t)"
  by (auto simp: keeps_def check_session_freshness_def contents_def split: SessionState.splits)

lemma contents_presence [op_keeps]:
  "keeps (\<lambda>vp. contents as rs ds (fst vp)) (ensure_presence_fresh now wall)"
  unfolding ensure_presence_fresh_def by (intro op_keeps contents_session)

lemma contents_authorize: "contents as rs ds (fst vp) \<Longrightarrow> contents as rs ds (fst (snd (authorize_lengthening t1 t2 wall vp)))"
proof -
  have "keeps (\<lambda>vp. contents as rs ds (fst vp))
      (op_seq (on_vault (check_session_freshness t1)) (ensure_presence_fresh t2 wall))"
    "keeps (\<lambda>vp. contents as rs ds (fst vp)) (verify_presence reveal_site_auth_error wall)"
    by (intro op_keeps)+
  then show "contents as rs ds (fst vp) \<Longrightarrow> ?thesis"
    by (cases vp) (simp add: authorize_lengthening_def keeps_def)
qed

lemma contents_set_idle:
  assumes "contents as rs ds v"
  shows "contents as rs ds (fst (snd (set_session_idle c t1 t2 wall t3 (v, q))))"
proof (cases q)
  case (Some pr)
  obtain r v' p' where a: "authorize_lengthening t1 t2 wall (v, pr) = (r, (v', p'))" by (metis surj_pair)
  then have "contents as rs ds v'" using contents_authorize[of as rs ds "(v, pr)" t1 t2 wall] assms by simp
  then show ?thesis using assms Some a
    by (cases r) (simp_all add: set_session_idle_def contents_session(7))
qed (use assms in \<open>simp add: set_session_idle_def contents_session(7)\<close>)

lemma session_step_contents: "session_step v v' \<Longrightarrow> contents as rs ds v \<Longrightarrow> contents as rs ds v'"
proof (induction rule: session_step.induct)
  case (step_unlock v material ident wall now p)
  have "keeps (\<lambda>vp. contents as rs ds (fst vp)) (unlock material ident wall now)"
    unfolding unlock_def by (intro op_keeps contents_session)
  then show ?case using step_unlock by (simp add: keeps_def)
next
  case (step_touch_explicit v t1 t2 wall t3 p)
  have "keeps (\<lambda>vp. contents as rs ds (fst vp)) (touch_session_explicit t1 t2 wall t3)"
    unfolding touch_session_explicit_def by (intro op_keeps contents_session)
  then show ?case using step_touch_explicit by (simp add: keeps_def)
next
  case (step_check v now)
  then show ?case using contents_check by (simp add: keeps_def)
next
  case (step_ensure v now wall p)
  then show ?case using contents_presence by (simp add: keeps_def)
qed (simp_all add: contents_session contents_set_idle)

lemma session_step_invs:
  assumes "session_step v v'"
  shows "heads_inv v \<Longrightarrow> heads_inv v'"
    and "tables_inv v \<Longrightarrow> length (did_bytes (v_device_id v')) = 32 \<Longrightarrow> tables_inv v'"
  using session_step_contents[OF assms, of "v_accounts v" "v_revisions v" "v_dirty v"]
  by (simp_all add: contents_def heads_inv_def tables_inv_def)

lemma rollback_keeps:
  "keeps tables_inv (rollback_pending_revisions_in_range low high)"
  "keeps session_inv (rollback_pending_revisions_in_range low high)"
  unfolding rollback_pending_revisions_in_range_def
  by (intro keeps_bind keeps_seq keeps_pure keeps_modify tables_inv_filter_revisions, simp)+

lemma keeps_snd: "keeps P m \<Longrightarrow> P v \<Longrightarrow> P (snd (m v))"
  by (simp add: keeps_def)

context vault_predicate
begin

lemmas operation_keeps = add_keeps update_keeps delete_keeps resolve_keeps clear_frozen_keeps prune_keeps
  mark_published_keeps ingest_keeps ingest_pending_keeps promote_keeps pulled_keeps synced_v1_keeps
  synced_v2_keeps mark_dirty_keeps clear_dirty_keeps window_flush_keeps coalesce_keeps

lemma vault_step_keeps:
  assumes "vault_step reorg env v v'" "keccak_ok env" "P v"
    and session: "\<And>v v'. session_step v v' \<Longrightarrow> length (did_bytes (v_device_id v')) = 32 \<Longrightarrow> P v \<Longrightarrow> P v'"
    and rollback: "\<And>low high. reorg \<Longrightarrow> keeps P (rollback_pending_revisions_in_range low high)"
  shows "P v'"
  using assms(1-3)
  by (induction rule: vault_step.induct) (auto intro: session keeps_snd[of P] operation_keeps rollback)

lemma machine_step_keeps:
  assumes "machine_step reorg env adapter vw vw'" "keccak_ok env" "adapter_ok adapter" "P (fst vw)"
    and "\<And>v v'. session_step v v' \<Longrightarrow> length (did_bytes (v_device_id v')) = 32 \<Longrightarrow> P v \<Longrightarrow> P v'"
    and "\<And>low high. reorg \<Longrightarrow> keeps P (rollback_pending_revisions_in_range low high)"
  shows "P (fst vw')"
  using assms(1,4)
proof (induction rule: machine_step.induct)
  case (local v v' w)
  then show ?case using vault_step_keeps[OF local(1) assms(2) _ assms(5,6)] by simp
next
  case (publish vw display device ams)
  then show ?case using publish_all_keeps[OF assms(3)] unfolding keeps_def by blast
next
  case (flush vw display device ams)
  then show ?case using flush_keeps[OF assms(3)] unfolding keeps_def by blast
qed simp

lemma machine_reachable:
  assumes "(machine_step reorg env adapter)\<^sup>*\<^sup>* vw vw'" "keccak_ok env" "adapter_ok adapter" "P (fst vw)"
    and "\<And>v v'. session_step v v' \<Longrightarrow> length (did_bytes (v_device_id v')) = 32 \<Longrightarrow> P v \<Longrightarrow> P v'"
    and "\<And>low high. reorg \<Longrightarrow> keeps P (rollback_pending_revisions_in_range low high)"
  shows "P (fst vw')"
  using assms(1,4)
  by (induction rule: rtranclp_induct) (auto intro: machine_step_keeps[OF _ assms(2,3) _ assms(5,6)])

end

text \<open>
  Head pointers never dangle: from a fresh vault, after any interleaving of operations that
  does not roll back a reorganisation, every account's head pointer names a stored revision of
  that account.
\<close>

lemma head_pointers_never_dangle:
  assumes "(machine_step False env adapter)\<^sup>*\<^sup>* (v, w) (v', w')" and "keccak_ok env" and "adapter_ok adapter"
    and "v_accounts v = []"
  shows "\<forall>row \<in> set (v_accounts v'). \<exists>x \<in> set (v_revisions v').
    rv_account_id x = ac_account_id row \<and> rv_revision_id x = ac_head_revision_id row"
proof -
  have "heads_inv (fst (v, w))" using assms(4) by (simp add: heads_inv_def)
  then have "heads_inv v'"
    using heads.machine_reachable[OF assms(1-3) _ session_step_invs(1)] by auto
  show ?thesis
  proof
    fix row
    assume "row \<in> set (v_accounts v')"
    then have "head_key row \<in> row_keys ` set (v_revisions v')"
      using \<open>heads_inv v'\<close> unfolding heads_inv_def by (rule subsetD[OF _ imageI, rotated])
    then show "\<exists>x \<in> set (v_revisions v'). rv_account_id x = ac_account_id row \<and> rv_revision_id x = ac_head_revision_id row"
      by auto
  qed
qed

text \<open>
  C1. The invariants of the account store: starting from a fresh vault, after any interleaving of
  session, account, fork, ingestion, reorganisation, checkpoint and publication operations with
  any clocks, fresh identifiers and chain behaviour, the tables satisfy their schema (unique
  keys, fixed-width identifiers, every revision owned by an account, flags that are bits, chain
  columns set together) and the session invariant holds; and if no reorganisation was rolled back,
  every account's head pointer names a stored revision of that account. The key operations (rotation,
  recovery, pairing, onboarding) are not among these steps: a rotation that fails breaks the session
  invariant.
\<close>

theorem reachable_vault_invariant:
  assumes "(machine_step reorg env adapter)\<^sup>*\<^sup>* (v, w) (v', w')" and "keccak_ok env" and "adapter_ok adapter"
    and "v_accounts v = []" and "v_revisions v = []" and "v_dirty v = []"
    and "length (did_bytes (v_device_id v)) = 32" and "v_active v = None" and "v_session_state v = Locked"
  shows "tables_inv v' \<and> session_inv v' \<and> (reorg \<or> (\<forall>row \<in> set (v_accounts v'). \<exists>x \<in> set (v_revisions v').
    rv_account_id x = ac_account_id row \<and> rv_revision_id x = ac_head_revision_id row))"
proof (intro conjI)
  have "tables_inv v" "session_inv v" using assms(4-9) by (simp_all add: tables_inv_def session_inv_def)
  then show "tables_inv v'" "session_inv v'"
    using tables.machine_reachable[OF assms(1-3) _ session_step_invs(2) rollback_keeps(1)]
      session.machine_reachable[OF assms(1-3) _ session_step_inv rollback_keeps(2)] by auto
  show "reorg \<or> (\<forall>row \<in> set (v_accounts v'). \<exists>x \<in> set (v_revisions v').
    rv_account_id x = ac_account_id row \<and> rv_revision_id x = ac_head_revision_id row)"
  proof (cases reorg)
    case False
    then show ?thesis using head_pointers_never_dangle[OF _ assms(2-4)] assms(1) by auto
  qed simp
qed

text \<open>The running example as a run of the machine, on an adapter that only passes typed events.\<close>

definition example_typed_chain :: "MockChainAdapter ChainAdapter" where
  "example_typed_chain = example_chain\<lparr>ad_pull_since := (\<lambda>vid b u w.
     (map_sum id (filter (\<lambda>ev. length (tx_hash (ev_anchor ev)) = 32)) (fst (mock_pull_since vid b u w)), w))\<rparr>"

lemma example_adapter_ok: "adapter_ok example_typed_chain"
  unfolding adapter_ok_def
proof (intro conjI allI impI ballI)
  fix s w a w'
  assume "ad_publish example_typed_chain s w = (Inr a, w')"
  then have "fst (mock_append s (mk_state w)) = Inr a"
    by (auto simp: example_typed_chain_def example_chain_def mock_adapter_def mock_publish_def mock_run split: prod.splits)
  then show "length (tx_hash a) = 32"
    by (auto simp: mock_append_def Let_def u64_to_be_bytes_def split: option.split_asm)
next
  fix vid b u w evs w' ev
  assume "ad_pull_since example_typed_chain vid b u w = (Inr evs, w')" "ev \<in> set evs"
  then show "length (tx_hash (ev_anchor ev)) = 32"
    by (cases "fst (mock_pull_since vid b u w)") (auto simp: example_typed_chain_def)
qed

lemma example_keccak_ok: "keccak_ok example_env"
  by (simp add: keccak_ok_def example_env_def min_def)

lemma example_machine_run:
  "(machine_step False example_env example_typed_chain)\<^sup>*\<^sup>* (example_vault, mock_new)
     (snd (publish_all_for_vault (env_keccak256 example_env) (\<lambda>_. ''error'') example_typed_chain example_key
        (\<lambda>_ _. example_ambient) (example_open, mock_new)))"
proof -
  let ?M = "machine_step False example_env example_typed_chain"
  have "session_step example_vault example_session"
    unfolding example_session_def example_unlocked_def by (rule step_unlock)
  moreover have "length (did_bytes (v_device_id example_session)) = 32" by code_simp
  ultimately have 1: "?M (example_vault, mock_new) (example_session, mock_new)" by (intro local on_session)
  have "ambient_ok (example_ambient\<lparr>am_random_revision := RevisionId (replicate 32 76)\<rparr>)"
    using example_ambient_ok by (simp add: ambient_ok_def)
  then have 2: "?M (example_session, mock_new) (example_open, mock_new)"
    unfolding example_open_def by (intro local on_add)
  have "?M\<^sup>*\<^sup>* (example_vault, mock_new) (example_open, mock_new)"
    by (rule converse_rtranclp_into_rtranclp[of ?M, OF 1 r_into_rtranclp[of ?M, OF 2]])
  then show ?thesis by (rule rtranclp.rtrancl_into_rtrancl) (rule publish)
qed

lemma example_fresh:
  "v_accounts example_vault = []" "v_revisions example_vault = []" "v_dirty example_vault = []"
  "length (did_bytes (v_device_id example_vault)) = 32" "v_active example_vault = None"
  "v_session_state example_vault = Locked"
  by (simp_all add: example_vault_def)

definition example_published_vault :: Vault where
  "example_published_vault = fst (snd (publish_all_for_vault (env_keccak256 example_env) (\<lambda>_. ''error'')
     example_typed_chain example_key (\<lambda>_ _. example_ambient) (example_open, mock_new)))"

theorem reachable_vault_invariant_witness:
  "tables_inv example_published_vault \<and> session_inv example_published_vault
   \<and> length (v_revisions example_published_vault) = 1"
proof -
  have "length (v_revisions example_published_vault) = 1" by code_simp
  then show ?thesis unfolding example_published_vault_def
    using reachable_vault_invariant[OF _ example_keccak_ok example_adapter_ok example_fresh, of False mock_new]
      example_machine_run by (metis prod.collapse)
qed

theorem head_pointers_never_dangle_witness:
  "\<exists>x \<in> set (v_revisions example_published_vault). rv_account_id x = example_account
     \<and> rv_revision_id x = RevisionId (replicate 32 76)"
proof -
  have "map head_key (v_accounts example_published_vault) = [(example_account, RevisionId (replicate 32 76))]"
    by code_simp
  then obtain row where row: "row \<in> set (v_accounts example_published_vault)"
    "head_key row = (example_account, RevisionId (replicate 32 76))" by auto
  have "\<forall>row \<in> set (v_accounts example_published_vault). \<exists>x \<in> set (v_revisions example_published_vault).
    rv_account_id x = ac_account_id row \<and> rv_revision_id x = ac_head_revision_id row"
    unfolding example_published_vault_def
    using head_pointers_never_dangle[OF _ example_keccak_ok example_adapter_ok example_fresh(1)]
      example_machine_run by (metis prod.collapse)
  from bspec[OF this row(1)] show ?thesis using row(2) by simp
qed

end
