(* ===== verification/Pairing_Transport.thy ===== *)
theory Pairing_Transport
  imports Bit_Strings
begin

text \<open>
  The pairing payload two devices exchange out of band
  (\<open>crates/pangolin-core/src/pairing_transport.rs\<close>): the fixed-layout byte form, the base32 text
  form with its truncated checksum, and the checksummed text form of arbitrary blobs. The SHA-256
  digest comes from an external crate and is the parameter \<open>sha256\<close>; the only fact used of it is
  that a digest has 32 bytes. A Rust string is the list of its UTF-8 bytes. The lemmas show that
  both decoders are exact: which strings they accept, and with which value.
\<close>

section \<open>Layout\<close>

definition PP_DOMAIN :: bytes where
  "PP_DOMAIN = map of_char ''pangolin-pairing-payload-v0''"

definition PP_SCHEMA_VERSION :: u8 where
  "PP_SCHEMA_VERSION = 2"

definition SIGNER_LEN :: nat where "SIGNER_LEN = 20"

definition FRESHNESS_NONCE_LEN :: nat where "FRESHNESS_NONCE_LEN = 16"

definition VAULT_ID_LEN :: nat where "VAULT_ID_LEN = 32"

definition PAIR_DEVICE_ID_LEN :: nat where "PAIR_DEVICE_ID_LEN = 32"

definition X25519_KEY_LEN :: nat where "X25519_KEY_LEN = 32"

definition TEXT_CHECKSUM_LEN :: nat where "TEXT_CHECKSUM_LEN = 4"

definition PAYLOAD_LEN :: nat where
  "PAYLOAD_LEN = length PP_DOMAIN + 1 + VAULT_ID_LEN + PAIR_DEVICE_ID_LEN + X25519_KEY_LEN
     + SIGNER_LEN + FRESHNESS_NONCE_LEN"

definition OFFSET_SCHEMA_VERSION :: nat where "OFFSET_SCHEMA_VERSION = length PP_DOMAIN"

definition OFFSET_VAULT_ID :: nat where "OFFSET_VAULT_ID = OFFSET_SCHEMA_VERSION + 1"

definition OFFSET_DEVICE_ID :: nat where "OFFSET_DEVICE_ID = OFFSET_VAULT_ID + VAULT_ID_LEN"

definition OFFSET_PAIRING_PUB :: nat where "OFFSET_PAIRING_PUB = OFFSET_DEVICE_ID + PAIR_DEVICE_ID_LEN"

definition OFFSET_SIGNER :: nat where "OFFSET_SIGNER = OFFSET_PAIRING_PUB + X25519_KEY_LEN"

definition OFFSET_FRESHNESS_NONCE :: nat where "OFFSET_FRESHNESS_NONCE = OFFSET_SIGNER + SIGNER_LEN"

lemma domain_length [simp]: "length PP_DOMAIN = 27"
  by (simp add: PP_DOMAIN_def)

lemmas layout = PAYLOAD_LEN_def OFFSET_SCHEMA_VERSION_def OFFSET_VAULT_ID_def OFFSET_DEVICE_ID_def
  OFFSET_PAIRING_PUB_def OFFSET_SIGNER_def OFFSET_FRESHNESS_NONCE_def SIGNER_LEN_def
  FRESHNESS_NONCE_LEN_def VAULT_ID_LEN_def PAIR_DEVICE_ID_LEN_def X25519_KEY_LEN_def
  TEXT_CHECKSUM_LEN_def

record PairingPayload =
  pp_schema_version :: u8
  pp_vault_id :: bytes
  pp_device_id :: bytes
  pp_x25519_pairing_pub :: bytes
  pp_signer :: bytes
  pp_freshness_nonce :: bytes

datatype PairingTransportError =
    WrongLength
  | DomainMismatch
  | UnsupportedVersion
  | ChecksumMismatch
  | InvalidEncoding

section \<open>Byte form\<close>

definition encode_bytes :: "PairingPayload \<Rightarrow> bytes" where
  "encode_bytes p = PP_DOMAIN @ [pp_schema_version p] @ pp_vault_id p @ pp_device_id p
     @ pp_x25519_pairing_pub p @ pp_signer p @ pp_freshness_nonce p"

text \<open>A Rust slice \<open>&bytes[from..from + len]\<close> of a buffer that is long enough.\<close>

definition slice :: "nat \<Rightarrow> nat \<Rightarrow> bytes \<Rightarrow> bytes" where
  "slice from n bs = take n (drop from bs)"

definition decode_bytes :: "bytes \<Rightarrow> PairingTransportError + PairingPayload" where
  "decode_bytes bs =
     (if length bs \<noteq> PAYLOAD_LEN then Inl WrongLength
      else if take (length PP_DOMAIN) bs \<noteq> PP_DOMAIN then Inl DomainMismatch
      else let schema_version = bs ! OFFSET_SCHEMA_VERSION
      in if schema_version \<noteq> PP_SCHEMA_VERSION then Inl UnsupportedVersion
      else Inr \<lparr> pp_schema_version = schema_version,
                 pp_vault_id = slice OFFSET_VAULT_ID VAULT_ID_LEN bs,
                 pp_device_id = slice OFFSET_DEVICE_ID PAIR_DEVICE_ID_LEN bs,
                 pp_x25519_pairing_pub = slice OFFSET_PAIRING_PUB X25519_KEY_LEN bs,
                 pp_signer = slice OFFSET_SIGNER SIGNER_LEN bs,
                 pp_freshness_nonce = slice OFFSET_FRESHNESS_NONCE FRESHNESS_NONCE_LEN bs \<rparr>)"

section \<open>Base32\<close>

definition BASE32_ALPHABET :: bytes where
  "BASE32_ALPHABET = map of_char ''abcdefghijklmnopqrstuvwxyz234567''"

text \<open>The inner loop \<open>while bits >= 5\<close>, the loop over the bytes, and the trailing group.\<close>

fun base32_emit :: "u64 \<Rightarrow> nat \<Rightarrow> bytes \<Rightarrow> nat \<times> bytes" where
  "base32_emit buf bits out =
     (if 5 \<le> bits
      then base32_emit buf (bits - 5) (out @ [BASE32_ALPHABET ! unat (drop_bit (bits - 5) buf AND 0x1F)])
      else (bits, out))"

declare base32_emit.simps [simp del]

fun base32_encode_loop :: "u64 \<Rightarrow> nat \<Rightarrow> bytes \<Rightarrow> bytes \<Rightarrow> u64 \<times> nat \<times> bytes" where
  "base32_encode_loop buf bits out [] = (buf, bits, out)"
| "base32_encode_loop buf bits out (b # bs) =
     (let buf' = push_bit 8 buf OR ucast b; (bits', out') = base32_emit buf' (bits + 8) out
      in base32_encode_loop buf' bits' out' bs)"

definition base32_encode :: "bytes \<Rightarrow> bytes" where
  "base32_encode bs =
     (let (buf, bits, out) = base32_encode_loop 0 0 [] bs
      in if 0 < bits then out @ [BASE32_ALPHABET ! unat (push_bit (5 - bits) buf AND 0x1F)] else out)"

definition base32_decode_char :: "u8 \<Rightarrow> PairingTransportError + u8" where
  "base32_decode_char c =
     (if 97 \<le> c \<and> c \<le> 122 then Inr (c - 97)
      else if 50 \<le> c \<and> c \<le> 55 then Inr (c - 50 + 26)
      else Inl InvalidEncoding)"

fun base32_decode_loop :: "u64 \<Rightarrow> nat \<Rightarrow> bytes \<Rightarrow> bytes \<Rightarrow> PairingTransportError + u64 \<times> nat \<times> bytes" where
  "base32_decode_loop buf bits out [] = Inr (buf, bits, out)"
| "base32_decode_loop buf bits out (c # cs) =
     and_then (base32_decode_char c) (\<lambda>idx.
       let buf' = push_bit 5 buf OR ucast idx; bits' = bits + 5
       in if 8 \<le> bits'
          then base32_decode_loop buf' (bits' - 8) (out @ [ucast (drop_bit (bits' - 8) buf' AND 0xFF)]) cs
          else base32_decode_loop buf' bits' out cs)"

definition base32_decode :: "bytes \<Rightarrow> PairingTransportError + bytes" where
  "base32_decode cs =
     (if cs = [] then Inl InvalidEncoding
      else and_then (base32_decode_loop 0 0 [] cs) (\<lambda>(buf, bits, out).
        if 0 < bits \<and> buf AND (push_bit bits 1 - 1) \<noteq> 0 then Inl InvalidEncoding else Inr out))"

section \<open>Text form\<close>

definition payload_checksum :: "(bytes \<Rightarrow> bytes) \<Rightarrow> bytes \<Rightarrow> bytes" where
  "payload_checksum sha256 bs = take TEXT_CHECKSUM_LEN (sha256 bs)"

definition encode_string :: "(bytes \<Rightarrow> bytes) \<Rightarrow> PairingPayload \<Rightarrow> bytes" where
  "encode_string sha256 payload =
     (let bs = encode_bytes payload in base32_encode (bs @ payload_checksum sha256 bs))"

definition decode_string :: "(bytes \<Rightarrow> bytes) \<Rightarrow> bytes \<Rightarrow> PairingTransportError + PairingPayload" where
  "decode_string sha256 s =
     and_then (base32_decode s) (\<lambda>decoded.
       if length decoded \<noteq> PAYLOAD_LEN + TEXT_CHECKSUM_LEN then Inl WrongLength
       else let payload_bytes = take PAYLOAD_LEN decoded; checksum = drop PAYLOAD_LEN decoded
       in if checksum \<noteq> payload_checksum sha256 payload_bytes then Inl ChecksumMismatch
       else decode_bytes payload_bytes)"

definition encode_text_with_checksum :: "(bytes \<Rightarrow> bytes) \<Rightarrow> bytes \<Rightarrow> bytes" where
  "encode_text_with_checksum sha256 bs = base32_encode (bs @ payload_checksum sha256 bs)"

definition decode_text_with_checksum :: "(bytes \<Rightarrow> bytes) \<Rightarrow> bytes \<Rightarrow> PairingTransportError + bytes" where
  "decode_text_with_checksum sha256 s =
     and_then (base32_decode s) (\<lambda>decoded.
       if length decoded < TEXT_CHECKSUM_LEN then Inl WrongLength
       else let split = length decoded - TEXT_CHECKSUM_LEN;
                body = take split decoded; checksum = drop split decoded
       in if checksum \<noteq> payload_checksum sha256 body then Inl ChecksumMismatch
       else Inr body)"

section \<open>The alphabet\<close>

text \<open>The value of a character, and the bits that a text spells.\<close>

definition char_value :: "u8 \<Rightarrow> u8" where
  "char_value c = (case base32_decode_char c of Inl _ \<Rightarrow> 0 | Inr v \<Rightarrow> v)"

definition text_valid :: "bytes \<Rightarrow> bool" where
  "text_valid cs \<longleftrightarrow> list_all (\<lambda>c. is_ok (base32_decode_char c)) cs"

definition text_bits :: "bytes \<Rightarrow> bool list" where
  "text_bits cs = group_bits 5 (map char_value cs)"

lemma text_simps [simp]:
  "text_valid []" "text_valid (c # cs) \<longleftrightarrow> is_ok (base32_decode_char c) \<and> text_valid cs"
  "text_valid (cs @ cs') \<longleftrightarrow> text_valid cs \<and> text_valid cs'"
  "text_bits [] = []" "text_bits (c # cs) = low_bits 5 (char_value c) @ text_bits cs"
  "text_bits (cs @ cs') = text_bits cs @ text_bits cs'"
  "length (text_bits cs) = 5 * length cs"
  by (simp_all add: text_valid_def text_bits_def)

lemma alphabet_value:
  assumes "i < 32"
  shows "base32_decode_char (BASE32_ALPHABET ! i) = Inr (of_nat i)"
proof -
  have "list_all (\<lambda>i. base32_decode_char (BASE32_ALPHABET ! i) = Inr (of_nat i)) [0..<32]" by code_simp
  then show ?thesis using assms by (simp add: list_all_iff)
qed

lemma value_alphabet:
  assumes "base32_decode_char c = Inr v"
  shows "v < 32" "c = BASE32_ALPHABET ! unat v"
proof -
  have all: "list_all (\<lambda>n. case base32_decode_char (of_nat n) of Inl _ \<Rightarrow> True
      | Inr v \<Rightarrow> v < 32 \<and> of_nat n = BASE32_ALPHABET ! unat v) [0..<256]" by code_simp
  have "unat c < 256" using unsigned_less[of c] by simp
  then have "v < 32 \<and> c = BASE32_ALPHABET ! unat v"
    using all assms by (force simp: list_all_iff dest!: bspec[of _ _ "unat c"])
  then show "v < 32" "c = BASE32_ALPHABET ! unat v" by simp_all
qed

lemma text_bits_inj:
  assumes "text_bits cs = text_bits cs'" "text_valid cs" "text_valid cs'"
  shows "cs = cs'"
proof -
  have len: "length cs = length cs'" using arg_cong[OF assms(1), of length] by simp
  then show ?thesis using assms
  proof (induction cs cs' rule: list_induct2)
    case (Cons c cs c' cs')
    then obtain v v' where v: "base32_decode_char c = Inr v" "base32_decode_char c' = Inr v'"
      by (auto simp: is_ok_def split: sum.splits)
    moreover have "low_bits 5 v = low_bits 5 v'" "text_bits cs = text_bits cs'"
      using Cons(3) v by (simp_all add: char_value_def)
    moreover have "v = v'" using low_bits_word_inj[of 5 v v'] value_alphabet(1) v calculation(3) by simp
    ultimately show ?case using value_alphabet(2) Cons.IH Cons.prems by simp metis
  qed simp
qed

lemma alphabet_bits:
  "text_valid [BASE32_ALPHABET ! unat (w AND 0x1F :: u64)]"
  "text_bits [BASE32_ALPHABET ! unat (w AND 0x1F :: u64)] = low_bits 5 w"
proof -
  have m: "(0x1F :: u64) = mask 5" by (simp add: mask_eq_exp_minus_1)
  have "unat (w AND 0x1F) < 32"
    using word_and_le1[of w "0x1F"] by (simp add: word_le_nat_alt)
  then have v: "base32_decode_char (BASE32_ALPHABET ! unat (w AND 0x1F)) = Inr (ucast (w AND 0x1F))"
    using alphabet_value by (simp add: unsigned_of_nat)
  then show "text_valid [BASE32_ALPHABET ! unat (w AND 0x1F)]" by simp
  have "low_bits 5 (ucast (w AND mask 5) :: u8) = low_bits 5 w"
    by (simp only: low_bits_ucast low_bits_mask len_of_numeral_defs)
  then show "text_bits [BASE32_ALPHABET ! unat (w AND 0x1F)] = low_bits 5 w"
    using v m by (simp add: char_value_def)
qed

section \<open>Base32 on bits\<close>

lemma base32_emit_bits:
  "base32_emit buf n out = (n', out') \<Longrightarrow> text_valid out \<Longrightarrow>
     n' < 5 \<and> text_valid out' \<and> text_bits out' @ low_bits n' buf = text_bits out @ low_bits n buf"
proof (induction buf n out rule: base32_emit.induct)
  case (1 buf n out)
  show ?case
  proof (cases "5 \<le> n")
    case True
    let ?c = "BASE32_ALPHABET ! unat (drop_bit (n - 5) buf AND 0x1F)"
    have "low_bits n buf = text_bits [?c] @ low_bits (n - 5) buf"
      using low_bits_append[of "n - 5" 5 buf] True by (simp only: alphabet_bits) simp
    moreover have "base32_emit buf (n - 5) (out @ [?c]) = (n', out')"
      using 1(2) True by (simp add: base32_emit.simps[of buf n])
    moreover have "text_valid (out @ [?c])"
      using 1(3) alphabet_bits(1) by (simp only: text_simps)
    ultimately show ?thesis using 1(1)[OF True] by (simp only: text_simps append.assoc)
  next
    case False
    then show ?thesis using 1(2,3) by (auto simp: base32_emit.simps[of buf n])
  qed
qed

lemma base32_encode_loop_bits:
  "base32_encode_loop buf n out bs = (buf', n', out') \<Longrightarrow> n < 5 \<Longrightarrow> text_valid out \<Longrightarrow>
     n' < 5 \<and> text_valid out'
     \<and> text_bits out' @ low_bits n' buf' = text_bits out @ low_bits n buf @ group_bits 8 bs"
proof (induction buf n out bs rule: base32_encode_loop.induct)
  case (2 buf n out b bs)
  let ?b = "push_bit 8 buf OR ucast b"
  obtain n1 out1 where e: "base32_emit ?b (n + 8) out = (n1, out1)" by fastforce
  have "(ucast b :: u64) < 2 ^ 8"
    using unsigned_less[of b] by (simp add: word_less_nat_alt unat_ucast_widen)
  then have "low_bits (n + 8) ?b = low_bits n buf @ low_bits 8 (ucast b :: u64)"
    using 2(3) by (intro low_bits_push) simp_all
  then have push: "low_bits (n + 8) ?b = low_bits n buf @ low_bits 8 b"
    by (simp add: low_bits_ucast)
  have "base32_encode_loop ?b n1 out1 bs = (buf', n', out')" using 2(2) e by (simp add: Let_def)
  then show ?case
    using 2(1)[OF refl e[symmetric] refl] base32_emit_bits[OF e 2(4)] push by simp
qed simp

lemma base32_encode_bits:
  "text_valid (base32_encode bs)"
  "\<exists>k < 5. text_bits (base32_encode bs) = group_bits 8 bs @ replicate k False"
proof -
  obtain buf n out where e: "base32_encode_loop 0 0 [] bs = (buf, n, out)" by (metis surj_pair)
  have l: "n < 5" "text_valid out" "text_bits out @ low_bits n buf = group_bits 8 bs"
    using base32_encode_loop_bits[OF e] by simp_all
  have "low_bits 5 (push_bit (5 - n) buf) = low_bits n buf @ replicate (5 - n) False"
    using low_bits_fill[of n "5 - n" buf] l(1) by simp
  then have "text_bits (base32_encode bs) = group_bits 8 bs @ replicate (if 0 < n then 5 - n else 0) False"
    using l(3) e by (auto simp: base32_encode_def alphabet_bits simp del: text_simps(5) simp flip: l(3))
  then show "\<exists>k < 5. text_bits (base32_encode bs) = group_bits 8 bs @ replicate k False"
    by (intro exI[of _ "if 0 < n then 5 - n else 0"]) simp
  show "text_valid (base32_encode bs)"
    using l(2) e alphabet_bits(1) by (simp add: base32_encode_def del: text_simps(2))
qed

lemma base32_decode_loop_bits:
  "base32_decode_loop buf n out cs = Inr (buf', n', out') \<Longrightarrow> n < 8 \<Longrightarrow>
     n' < 8 \<and> group_bits 8 out' @ low_bits n' buf' = group_bits 8 out @ low_bits n buf @ text_bits cs"
proof (induction buf n out cs rule: base32_decode_loop.induct)
  case (2 buf n out c cs)
  obtain v where v: "base32_decode_char c = Inr v" using 2(3) by (auto simp: and_then_Inr)
  let ?b = "push_bit 5 buf OR ucast v"
  have "(ucast v :: u64) < 2 ^ 5"
    using value_alphabet(1)[OF v] by (simp add: word_less_nat_alt unat_ucast_widen)
  then have "low_bits (n + 5) ?b = low_bits n buf @ low_bits 5 (ucast v :: u64)"
    using 2(4) by (intro low_bits_push) simp_all
  then have push: "low_bits (n + 5) ?b = low_bits n buf @ low_bits 5 (char_value c)"
    using v by (simp add: low_bits_ucast char_value_def)
  show ?case
  proof (cases "8 \<le> n + 5")
    case True
    let ?B = "ucast (drop_bit (n + 5 - 8) ?b AND 0xFF) :: u8"
    have "low_bits (n + 5) ?b = low_bits 8 ?B @ low_bits (n + 5 - 8) ?b"
      using low_bits_append[of "n + 5 - 8" 8 ?b] low_bits_byte[of "drop_bit (n + 5 - 8) ?b"] True
      by (simp add: add.commute)
    then have "low_bits 8 ?B @ low_bits (n + 5 - 8) ?b = low_bits n buf @ low_bits 5 (char_value c)"
      using push by simp
    moreover have "base32_decode_loop ?b (n + 5 - 8) (out @ [?B]) cs = Inr (buf', n', out')"
      using 2(3) v True by (simp add: Let_def)
    moreover have "n + 5 - 8 < 8" using 2(4) by simp
    ultimately show ?thesis using 2(1)[OF refl refl True] by simp
  next
    case False
    then show ?thesis using 2 v push by (simp add: Let_def)
  qed
qed simp

lemma base32_decode_loop_ok: "is_ok (base32_decode_loop buf n out cs) \<longleftrightarrow> text_valid cs"
proof (induction cs arbitrary: buf n out)
  case (Cons c cs)
  then show ?case by (cases "base32_decode_char c") (simp_all add: Let_def)
qed simp

lemma base32_decode_bits:
  "base32_decode cs = Inr out \<longleftrightarrow>
     cs \<noteq> [] \<and> text_valid cs \<and> (\<exists>k < 8. text_bits cs = group_bits 8 out @ replicate k False)"
proof (cases "base32_decode_loop 0 0 [] cs")
  case (Inl e)
  then show ?thesis using base32_decode_loop_ok[of 0 0 "[]" cs] by (simp add: base32_decode_def)
next
  case (Inr r)
  obtain buf n out' where r: "r = (buf, n, out')" by (cases r)
  have bits: "n < 8" "group_bits 8 out' @ low_bits n buf = text_bits cs"
    using base32_decode_loop_bits[of 0 0 "[]" cs buf n out'] Inr r by simp_all
  have "base32_decode cs = Inr out \<longleftrightarrow>
      cs \<noteq> [] \<and> low_bits n buf = replicate n False \<and> out' = out"
    using Inr r trailing_zero[of n buf] bits(1)
    by (cases "n = 0") (auto simp: base32_decode_def)
  also have "\<dots> \<longleftrightarrow> cs \<noteq> [] \<and> (\<exists>k < 8. text_bits cs = group_bits 8 out @ replicate k False)"
    using bits bits_decomposition[of out' "low_bits n buf" out "replicate _ False"]
    by (metis length_replicate low_bits_length)
  finally show ?thesis using base32_decode_loop_ok[of 0 0 "[]" cs] Inr by simp
qed

lemma low_bits_zero: "low_bits n 0 = replicate n False"
  by (auto simp: list_eq_iff_nth_eq low_bits_nth)

lemma letter_a: "text_valid [97]" "text_bits [97] = replicate 5 False"
  by (simp_all add: base32_decode_char_def char_value_def low_bits_zero)

lemma padding_mod:
  fixes l m k :: nat
  assumes "5 * l = 8 * m + k" "k < 5"
  shows "k < 3 \<longleftrightarrow> m mod 5 \<in> {0, 1, 3}"
proof -
  define q r where "q = m div 5" and "r = m mod 5"
  have "m = 5 * q + r" by (simp add: q_def r_def)
  then have "3 * r + k = 5 * (l - (8 * q + r))" using assms(1) by simp
  then have "3 * (m mod 5) + k = 5 * (l - (8 * q + r))" by (simp add: r_def)
  then have "5 dvd 3 * (m mod 5) + k" by simp
  moreover have "m mod 5 \<in> {0, 1, 2, 3, 4}" "k \<in> {0, 1, 2, 3, 4}" using assms(2) by auto
  ultimately show ?thesis by auto
qed

text \<open>
  Which texts decode to given bytes: their encoding, and the encoding followed by one superfluous
  letter when the padding of the last group leaves room for five more zero bits.
\<close>

lemma base32_decode_exact_texts:
  "base32_decode cs = Inr out \<longleftrightarrow>
     cs \<noteq> [] \<and> (cs = base32_encode out
                \<or> (length out mod 5 \<in> {0, 1, 3} \<and> cs = base32_encode out @ [97]))"
proof -
  obtain k' where k': "k' < 5" "text_bits (base32_encode out) = group_bits 8 out @ replicate k' False"
    using base32_encode_bits(2) by blast
  have L': "5 * length (base32_encode out) = 8 * length out + k'"
    using arg_cong[OF k'(2), of length] by simp
  then have mod: "k' < 3 \<longleftrightarrow> length out mod 5 \<in> {0, 1, 3}" using k'(1) by (rule padding_mod)
  have more: "text_bits (base32_encode out @ [97]) = group_bits 8 out @ replicate (k' + 5) False"
    using k'(2) letter_a(2) by (simp add: replicate_add del: text_simps(5))
  have val: "text_valid (base32_encode out)" "text_valid (base32_encode out @ [97])"
    using base32_encode_bits(1) letter_a(1) by (simp_all del: text_simps(2))
  have "text_valid cs \<and> (\<exists>k < 8. text_bits cs = group_bits 8 out @ replicate k False) \<longleftrightarrow>
      cs = base32_encode out \<or> (k' < 3 \<and> cs = base32_encode out @ [97])" (is "?l \<longleftrightarrow> ?r")
  proof
    assume ?l
    then obtain k where k: "text_valid cs" "k < 8" "text_bits cs = group_bits 8 out @ replicate k False"
      by blast
    have "5 * length cs = 8 * length out + k" using arg_cong[OF k(3), of length] by simp
    then have "length cs = length (base32_encode out) \<or> length cs = Suc (length (base32_encode out))"
      using L' k'(1) k(2) by linarith
    then have "k = k' \<or> (k = k' + 5 \<and> k' < 3)"
      using L' k'(1) k(2) \<open>5 * length cs = 8 * length out + k\<close> by auto
    then show ?r using text_bits_inj[OF _ k(1) val(1)] text_bits_inj[OF _ k(1) val(2)] k(3) k'(2) more
      by auto
  next
    assume ?r
    then show ?l
    proof
      assume "cs = base32_encode out"
      then show ?thesis using k' val by (auto intro!: exI[of _ k'])
    next
      assume "k' < 3 \<and> cs = base32_encode out @ [97]"
      then show ?thesis using more val by (intro conjI exI[of _ "k' + 5"]) simp_all
    qed
  qed
  then show ?thesis unfolding base32_decode_bits mod by simp
qed

lemma base32_encode_nonempty: "0 < length bs \<Longrightarrow> base32_encode bs \<noteq> []"
  using base32_encode_bits(2)[of bs] by (auto dest: arg_cong[of _ _ length])

lemma base32_decode_encode: "0 < length bs \<Longrightarrow> base32_decode (base32_encode bs) = Inr bs"
  by (simp add: base32_decode_exact_texts base32_encode_nonempty)

lemma base32_decode_empty: "base32_decode cs = Inr [] \<longleftrightarrow> cs = [97]"
proof -
  have "base32_encode [] = []" by (simp add: base32_encode_def)
  then show ?thesis by (auto simp: base32_decode_exact_texts)
qed

section \<open>Exactness of the decoders\<close>

definition payload_wf :: "PairingPayload \<Rightarrow> bool" where
  "payload_wf p \<longleftrightarrow> pp_schema_version p = PP_SCHEMA_VERSION \<and> length (pp_vault_id p) = VAULT_ID_LEN
     \<and> length (pp_device_id p) = PAIR_DEVICE_ID_LEN \<and> length (pp_x25519_pairing_pub p) = X25519_KEY_LEN
     \<and> length (pp_signer p) = SIGNER_LEN \<and> length (pp_freshness_nonce p) = FRESHNESS_NONCE_LEN"

lemma encode_bytes_length: "payload_wf p \<Longrightarrow> length (encode_bytes p) = PAYLOAD_LEN"
  by (simp add: payload_wf_def encode_bytes_def layout)

lemma decode_encode_bytes: "payload_wf p \<Longrightarrow> decode_bytes (encode_bytes p) = Inr p"
  using encode_bytes_length[of p]
  by (simp add: payload_wf_def decode_bytes_def slice_def layout nth_append encode_bytes_def)

lemma take_slice: "take n (drop k xs) @ drop (k + n) xs = drop k xs"
  by (metis append_take_drop_id drop_drop add.commute)

lemma decode_bytes_sound:
  assumes "decode_bytes bs = Inr p"
  shows "payload_wf p" "bs = encode_bytes p"
proof -
  have len: "length bs = 160" and dom: "take 27 bs = PP_DOMAIN" and ver: "bs ! 27 = PP_SCHEMA_VERSION"
    and p: "p = \<lparr> pp_schema_version = bs ! 27, pp_vault_id = take 32 (drop 28 bs),
      pp_device_id = take 32 (drop 60 bs), pp_x25519_pairing_pub = take 32 (drop 92 bs),
      pp_signer = take 20 (drop 124 bs), pp_freshness_nonce = take 16 (drop 144 bs) \<rparr>"
    using assms by (auto simp: decode_bytes_def Let_def slice_def layout split: if_splits)
  show "payload_wf p" using len ver by (simp add: p payload_wf_def layout)
  have "drop 160 bs = []" "bs ! 27 # drop 28 bs = drop 27 bs"
    using len Cons_nth_drop_Suc[of 27 bs] by simp_all
  then have "encode_bytes p = take 27 bs @ drop 27 bs"
    using take_slice[of 32 28 bs] take_slice[of 32 60 bs] take_slice[of 32 92 bs]
      take_slice[of 20 124 bs] take_slice[of 16 144 bs]
    by (simp add: encode_bytes_def p dom)
  then show "bs = encode_bytes p" by simp
qed

interpretation payload_codec: codec_on payload_wf encode_bytes "\<lambda>bs. ok_option (decode_bytes bs)"
  by unfold_locales (auto simp: decode_encode_bytes dest: decode_bytes_sound)

lemma checksum_length: "(\<And>bs. length (sha256 bs) = 32) \<Longrightarrow> length (payload_checksum sha256 bs) = 4"
  by (simp add: payload_checksum_def layout)

text \<open>
  C31. The pairing text codec is exact: for a digest function with 32-byte digests, decoding a text
  returns a payload precisely when the payload is well formed (this schema version, fields of
  their fixed lengths) and the text is its encoding. In particular every payload round-trips,
  two payloads never share a text, and no other text is accepted.
\<close>

theorem pairing_text_codec_exact:
  assumes "\<And>bs. length (sha256 bs) = 32"
  shows "decode_string sha256 s = Inr p \<longleftrightarrow> payload_wf p \<and> s = encode_string sha256 p"
proof
  assume d: "decode_string sha256 s = Inr p"
  then obtain decoded where dec: "base32_decode s = Inr decoded" "length decoded = 164"
    "drop 160 decoded = payload_checksum sha256 (take 160 decoded)" "decode_bytes (take 160 decoded) = Inr p"
    by (auto simp: decode_string_def and_then_Inr Let_def layout split: if_splits)
  have "take 160 decoded = encode_bytes p" using decode_bytes_sound(2)[OF dec(4)] .
  then have "decoded = encode_bytes p @ payload_checksum sha256 (encode_bytes p)"
    using dec(3) by (metis append_take_drop_id)
  moreover have "s = base32_encode decoded" using dec(1,2) by (simp add: base32_decode_exact_texts)
  ultimately show "payload_wf p \<and> s = encode_string sha256 p"
    using decode_bytes_sound(1)[OF dec(4)] by (simp add: encode_string_def Let_def)
next
  assume a: "payload_wf p \<and> s = encode_string sha256 p"
  let ?bs = "encode_bytes p @ payload_checksum sha256 (encode_bytes p)"
  have len: "length (encode_bytes p) = PAYLOAD_LEN"
    "length (payload_checksum sha256 (encode_bytes p)) = TEXT_CHECKSUM_LEN"
    using a encode_bytes_length checksum_length[OF assms] by (simp_all add: TEXT_CHECKSUM_LEN_def)
  have "base32_decode s = Inr ?bs"
    using a base32_decode_encode[of ?bs] len(1) by (simp add: encode_string_def Let_def PAYLOAD_LEN_def)
  then show "decode_string sha256 s = Inr p"
    using len decode_encode_bytes a by (simp add: decode_string_def Let_def)
qed

text \<open>
  The checksummed text form of arbitrary blobs is exact up to one superfluous letter: a text
  decodes to a blob precisely when it is the blob's encoding or, for blobs whose length modulo
  five is 1, 2 or 4, the encoding followed by the letter \<open>a\<close>. So every blob round-trips and two
  blobs never share a text, but a decoded text need not be the re-encoding of its blob.
\<close>

theorem checksummed_text_accepts:
  assumes "\<And>bs. length (sha256 bs) = 32"
  shows "decode_text_with_checksum sha256 s = Inr bs \<longleftrightarrow>
     s = encode_text_with_checksum sha256 bs
     \<or> (length bs mod 5 \<in> {1, 2, 4} \<and> s = encode_text_with_checksum sha256 bs @ [97])"
proof -
  let ?all = "bs @ payload_checksum sha256 bs"
  have len: "length ?all = length bs + 4" using checksum_length[OF assms] by simp
  then have mod: "length ?all mod 5 \<in> {0, 1, 3} \<longleftrightarrow> length bs mod 5 \<in> {1, 2, 4}"
  proof -
    have "length bs mod 5 \<in> {0, 1, 2, 3, 4}" by auto
    then show ?thesis unfolding len by (auto simp: mod_add_left_eq[of "length bs" 5 4, symmetric])
  qed
  have "decode_text_with_checksum sha256 s = Inr bs \<longleftrightarrow> base32_decode s = Inr ?all"
  proof
    assume "decode_text_with_checksum sha256 s = Inr bs"
    then obtain decoded where "base32_decode s = Inr decoded"
      "take (length decoded - 4) decoded = bs"
      "drop (length decoded - 4) decoded = payload_checksum sha256 bs"
      by (auto simp: decode_text_with_checksum_def and_then_Inr Let_def layout split: if_splits)
    then show "base32_decode s = Inr ?all" by (metis append_take_drop_id)
  next
    assume "base32_decode s = Inr ?all"
    then show "decode_text_with_checksum sha256 s = Inr bs"
      using checksum_length[OF assms] by (simp add: decode_text_with_checksum_def Let_def layout)
  qed
  also have "\<dots> \<longleftrightarrow> s = base32_encode ?all \<or> (length ?all mod 5 \<in> {0, 1, 3} \<and> s = base32_encode ?all @ [97])"
  proof -
    have "base32_encode ?all \<noteq> []" using len by (intro base32_encode_nonempty) simp
    then show ?thesis using base32_decode_exact_texts[of s ?all] by (metis Nil_is_append_conv)
  qed
  finally show ?thesis unfolding mod by (simp only: encode_text_with_checksum_def)
qed

section \<open>Examples\<close>

text \<open>A stand-in for the digest: the sum of the bytes, padded to 32 bytes.\<close>

definition example_digest :: "bytes \<Rightarrow> bytes" where
  "example_digest bs = replicate 31 0xAB @ [foldl (+) 0 bs]"

definition example_payload :: PairingPayload where
  "example_payload = \<lparr> pp_schema_version = 2, pp_vault_id = replicate 32 7, pp_device_id = replicate 32 8,
     pp_x25519_pairing_pub = replicate 32 9, pp_signer = replicate 20 10, pp_freshness_nonce = replicate 16 11 \<rparr>"

theorem pairing_text_codec_exact_witness:
  "decode_string example_digest (encode_string example_digest example_payload) = Inr example_payload
   \<and> decode_string example_digest (encode_string example_digest example_payload @ [97]) \<noteq> Inr example_payload"
proof -
  have "length (example_digest bs) = 32" for bs by (simp add: example_digest_def)
  moreover have "payload_wf example_payload"
    by (simp add: payload_wf_def example_payload_def layout PP_SCHEMA_VERSION_def)
  ultimately show ?thesis using pairing_text_codec_exact[of example_digest] by simp
qed

theorem checksummed_text_accepts_witness:
  "decode_text_with_checksum example_digest (encode_text_with_checksum example_digest [1] @ [97]) = Inr [1]
   \<and> encode_text_with_checksum example_digest [1] = map of_char ''agv2xk5l''"
proof -
  have "length (example_digest bs) = 32" for bs by (simp add: example_digest_def)
  then have "decode_text_with_checksum example_digest (encode_text_with_checksum example_digest [1] @ [97]) = Inr [1]"
    using checksummed_text_accepts[of example_digest] by simp
  moreover have "encode_text_with_checksum example_digest [1] = map of_char ''agv2xk5l''" by code_simp
  ultimately show ?thesis by simp
qed

end
