(* ===== verification/Key_Escrow.thy ===== *)
theory Key_Escrow
  imports Totp Pairing_Transport
begin

text \<open>
  Key wrapping, guardian escrow and device pairing
  (\<open>crates/pangolin-crypto/src/keys.rs\<close>, \<open>aead.rs\<close>, \<open>escrow.rs\<close>, \<open>guardian.rs\<close>, \<open>pairing.rs\<close>). The
  primitives come from external crates and are the fields of the record \<open>crypto\<close>: the AEAD, HKDF,
  Ed25519, the sealed box and Shamir's scheme over GF(256); \<open>crypto_ok\<close> states what those crates
  document. Randomness is passed in. A key is the list of its bytes. The lemmas show the round
  trip of each wrapping and sealing operation and that a sealed value opens only under the
  context (vault, device, epoch) it was sealed for.
\<close>

section \<open>Primitives\<close>

record crypto =
  cr_encrypt :: "bytes \<Rightarrow> bytes \<Rightarrow> bytes \<Rightarrow> bytes \<Rightarrow> bytes option"
  cr_decrypt :: "bytes \<Rightarrow> bytes \<Rightarrow> bytes \<Rightarrow> bytes \<Rightarrow> bytes option"
  cr_hkdf :: "bytes \<Rightarrow> bytes \<Rightarrow> bytes"
  cr_sign :: "bytes \<Rightarrow> bytes \<Rightarrow> bytes"
  cr_verifying_key :: "bytes \<Rightarrow> bytes"
  cr_box_public :: "bytes \<Rightarrow> bytes"
  cr_box_seal :: "bytes \<Rightarrow> bytes \<Rightarrow> bytes \<Rightarrow> bytes option"
  cr_box_unseal :: "bytes \<Rightarrow> bytes \<Rightarrow> bytes option"
  cr_split_array :: "bytes \<Rightarrow> nat \<Rightarrow> nat \<Rightarrow> bytes \<Rightarrow> bytes list option"
  cr_combine_array :: "bytes list \<Rightarrow> bytes option"
  cr_sha256 :: "bytes \<Rightarrow> bytes"

text \<open>
  What the crates document: decryption under the same key, nonce and associated data returns the
  message and a ciphertext carries a 16-byte tag; HKDF output has the requested 32 bytes; a box
  sealed to a public key opens with its secret key; splitting yields the requested number of
  shares with distinct non-zero identifiers, and any \<open>t\<close> of them combine to the secret; a SHA-256
  digest has 32 bytes.
\<close>

definition crypto_ok :: "crypto \<Rightarrow> bool" where
  "crypto_ok c \<longleftrightarrow>
     (\<forall>k n m a ct. cr_encrypt c k n m a = Some ct \<longrightarrow>
        cr_decrypt c k n ct a = Some m \<and> length ct = length m + 16)
   \<and> (\<forall>ikm info. length (cr_hkdf c ikm info) = 32)
   \<and> (\<forall>r sk m ct. cr_box_seal c r (cr_box_public c sk) m = Some ct \<longrightarrow> cr_box_unseal c sk ct = Some m)
   \<and> (\<forall>r t n s shs. cr_split_array c r t n s = Some shs \<longrightarrow>
        length shs = n \<and> distinct shs
        \<and> (\<forall>sh \<in> set shs. length sh = 1 + length s \<and> sh ! 0 \<noteq> 0)
        \<and> (\<forall>xs. distinct xs \<and> set xs \<subseteq> set shs \<and> t \<le> length xs \<longrightarrow> cr_combine_array c xs = Some s))
   \<and> (\<forall>bs. length (cr_sha256 c bs) = 32)"

definition KEY_LEN :: nat where "KEY_LEN = 32"

definition TAG_LEN :: nat where "TAG_LEN = 16"

datatype AeadError = Tampered | InvalidKey | Internal

definition aead_key_seal :: "crypto \<Rightarrow> bytes \<Rightarrow> bytes \<Rightarrow> bytes \<Rightarrow> bytes \<Rightarrow> AeadError + bytes" where
  "aead_key_seal c key nonce plaintext aad =
     (if length key \<noteq> KEY_LEN then Inl InvalidKey
      else ok_or (cr_encrypt c key nonce plaintext aad) Internal)"

definition aead_key_open :: "crypto \<Rightarrow> bytes \<Rightarrow> bytes \<Rightarrow> bytes \<Rightarrow> bytes \<Rightarrow> AeadError + bytes" where
  "aead_key_open c key nonce ciphertext aad =
     (if length ciphertext < TAG_LEN then Inl Tampered
      else if length key \<noteq> KEY_LEN then Inl Tampered
      else ok_or (cr_decrypt c key nonce ciphertext aad) Tampered)"

section \<open>Wrapping the data key (keys.rs)\<close>

definition WRAP_KEY_INFO :: bytes where "WRAP_KEY_INFO = ascii ''pangolin-vdk-wrap-v0''"

definition WRAP_AAD_DOMAIN :: bytes where "WRAP_AAD_DOMAIN = ascii ''pangolin-vdk-wrap-aad-v0''"

record WrapContext =
  wc_vault_id :: bytes
  wc_schema_version :: u8

definition WrapContext_new :: "bytes \<Rightarrow> WrapContext" where
  "WrapContext_new vault_id = \<lparr> wc_vault_id = vault_id, wc_schema_version = 0 \<rparr>"

definition wrap_context_encode :: "WrapContext \<Rightarrow> bytes" where
  "wrap_context_encode ctx = WRAP_AAD_DOMAIN @ wc_vault_id ctx @ [wc_schema_version ctx]"

record WrappedVdk =
  wv_ciphertext :: bytes
  wv_nonce :: bytes
  wv_ctx :: WrapContext

definition authority_wrap_key :: "crypto \<Rightarrow> bytes \<Rightarrow> bytes" where
  "authority_wrap_key c authority = cr_hkdf c authority WRAP_KEY_INFO"

definition seal_under_key :: "crypto \<Rightarrow> bytes \<Rightarrow> bytes \<Rightarrow> bytes \<Rightarrow> WrapContext \<Rightarrow> AeadError + WrappedVdk" where
  "seal_under_key c nonce vdk wrap_key ctx =
     and_then (aead_key_seal c wrap_key nonce vdk (wrap_context_encode ctx)) (\<lambda>ct.
       Inr \<lparr> wv_ciphertext = ct, wv_nonce = nonce, wv_ctx = ctx \<rparr>)"

definition open_with_key :: "crypto \<Rightarrow> WrappedVdk \<Rightarrow> bytes \<Rightarrow> WrapContext \<Rightarrow> AeadError + bytes" where
  "open_with_key c w wrap_key ctx =
     and_then (aead_key_open c wrap_key (wv_nonce w) (wv_ciphertext w) (wrap_context_encode ctx)) (\<lambda>plaintext.
       if length plaintext \<noteq> KEY_LEN then Inl Tampered else Inr plaintext)"

definition seal_under :: "crypto \<Rightarrow> bytes \<Rightarrow> bytes \<Rightarrow> bytes \<Rightarrow> WrapContext \<Rightarrow> AeadError + WrappedVdk" where
  "seal_under c nonce vdk authority ctx =
     (let wrap_key = authority_wrap_key c authority
      in and_then (aead_key_seal c wrap_key nonce vdk (wrap_context_encode ctx)) (\<lambda>ct.
           Inr \<lparr> wv_ciphertext = ct, wv_nonce = nonce, wv_ctx = ctx \<rparr>))"

definition unwrap_with :: "crypto \<Rightarrow> WrappedVdk \<Rightarrow> bytes \<Rightarrow> AeadError + bytes" where
  "unwrap_with c w authority =
     (let wrap_key = authority_wrap_key c authority
      in and_then (aead_key_open c wrap_key (wv_nonce w) (wv_ciphertext w) (wrap_context_encode (wv_ctx w)))
           (\<lambda>plaintext. if length plaintext \<noteq> KEY_LEN then Inl Tampered else Inr plaintext))"

definition rewrap :: "crypto \<Rightarrow> bytes \<Rightarrow> WrappedVdk \<Rightarrow> bytes \<Rightarrow> bytes \<Rightarrow> WrapContext \<Rightarrow> AeadError + WrappedVdk" where
  "rewrap c nonce w old_authority new_authority new_ctx =
     and_then (unwrap_with c w old_authority) (\<lambda>vdk. seal_under c nonce vdk new_authority new_ctx)"

section \<open>Guardian escrow (escrow.rs, guardian.rs)\<close>

definition RECOVERY_WRAP_KEY_INFO :: bytes where "RECOVERY_WRAP_KEY_INFO = ascii ''pangolin-recovery-wrap-v0''"

definition SEALED_SHARE_DOMAIN :: bytes where "SEALED_SHARE_DOMAIN = ascii ''pangolin-recovery-seal-v0''"

definition EPOCH_LEN :: nat where "EPOCH_LEN = 16"

definition MIN_THRESHOLD :: u8 where "MIN_THRESHOLD = 2"

definition MAX_THRESHOLD :: u8 where "MAX_THRESHOLD = 9"

definition MIN_GUARDIANS :: u8 where "MIN_GUARDIANS = 3"

definition MAX_GUARDIANS :: u8 where "MAX_GUARDIANS = 15"

definition SHARE_ENCODED_LEN :: nat where "SHARE_ENCODED_LEN = 1 + KEY_LEN"

datatype EscrowError =
    InvalidThreshold | SplitFailed | ReconstructFailed | MalformedShare | SealFailed | OpenFailed | WrapFailed

text \<open>A share is its encoded bytes: the identifier, then the 32 bytes of the value.\<close>

definition Share_from_bytes :: "bytes \<Rightarrow> EscrowError + bytes" where
  "Share_from_bytes bs =
     (if length bs \<noteq> SHARE_ENCODED_LEN \<or> bs ! 0 = 0 then Inl MalformedShare else Inr bs)"

definition rwk_wrap_key :: "crypto \<Rightarrow> bytes \<Rightarrow> bytes" where
  "rwk_wrap_key c rwk = cr_hkdf c rwk RECOVERY_WRAP_KEY_INFO"

definition check_bounds :: "u8 \<Rightarrow> u8 \<Rightarrow> EscrowError + unit" where
  "check_bounds threshold guardian_count =
     (if \<not> (MIN_THRESHOLD \<le> threshold \<and> threshold \<le> MAX_THRESHOLD)
         \<or> \<not> (MIN_GUARDIANS \<le> guardian_count \<and> guardian_count \<le> MAX_GUARDIANS)
         \<or> guardian_count < threshold
      then Inl InvalidThreshold else Inr ())"

definition map_err :: "('e \<Rightarrow> 'f) \<Rightarrow> 'e + 'a \<Rightarrow> 'f + 'a" where
  "map_err f r = (case r of Inl e \<Rightarrow> Inl (f e) | Inr a \<Rightarrow> Inr a)"

definition split_rwk :: "crypto \<Rightarrow> bytes \<Rightarrow> bytes \<Rightarrow> u8 \<Rightarrow> u8 \<Rightarrow> EscrowError + bytes list" where
  "split_rwk c rng rwk threshold guardian_count =
     and_then (check_bounds threshold guardian_count) (\<lambda>_.
     and_then (ok_or (cr_split_array c rng (unat threshold) (unat guardian_count) rwk) SplitFailed) (\<lambda>raw_shares.
     map_err (\<lambda>_. SplitFailed) (collect_results Share_from_bytes raw_shares)))"

definition reconstruct_rwk :: "crypto \<Rightarrow> bytes list \<Rightarrow> EscrowError + bytes" where
  "reconstruct_rwk c shares =
     and_then (ok_or (cr_combine_array c shares) ReconstructFailed) (\<lambda>combined.
       if length combined \<noteq> KEY_LEN then Inl ReconstructFailed else Inr combined)"

definition sealed_share_header :: "bytes \<Rightarrow> bytes \<Rightarrow> bytes" where
  "sealed_share_header vault_id epoch = SEALED_SHARE_DOMAIN @ vault_id @ epoch"

definition seal_share :: "crypto \<Rightarrow> bytes \<Rightarrow> bytes \<Rightarrow> bytes \<Rightarrow> bytes \<Rightarrow> bytes \<Rightarrow> EscrowError + bytes" where
  "seal_share c rng share guardian_x25519_pub vault_id epoch =
     ok_or (cr_box_seal c rng guardian_x25519_pub (sealed_share_header vault_id epoch @ share)) SealFailed"

definition open_sealed_share :: "crypto \<Rightarrow> bytes \<Rightarrow> bytes \<Rightarrow> bytes \<Rightarrow> bytes \<Rightarrow> EscrowError + bytes" where
  "open_sealed_share c sealed guardian_x25519_secret vault_id epoch =
     and_then (ok_or (cr_box_unseal c guardian_x25519_secret sealed) OpenFailed) (\<lambda>plaintext.
       let expected_header = sealed_share_header vault_id epoch; header_len = length expected_header
       in if length plaintext \<noteq> header_len + SHARE_ENCODED_LEN then Inl OpenFailed
          else if take header_len plaintext \<noteq> expected_header then Inl OpenFailed
          else map_err (\<lambda>_. OpenFailed) (Share_from_bytes (drop header_len plaintext)))"

definition wrap_vdk_under_rwk :: "crypto \<Rightarrow> bytes \<Rightarrow> bytes \<Rightarrow> bytes \<Rightarrow> WrapContext \<Rightarrow> EscrowError + WrappedVdk" where
  "wrap_vdk_under_rwk c nonce vdk rwk ctx =
     map_err (\<lambda>_. WrapFailed) (seal_under_key c nonce vdk (rwk_wrap_key c rwk) ctx)"

definition unwrap_vdk_under_rwk :: "crypto \<Rightarrow> WrappedVdk \<Rightarrow> bytes \<Rightarrow> EscrowError + bytes" where
  "unwrap_vdk_under_rwk c wrapped rwk =
     map_err (\<lambda>_. WrapFailed) (open_with_key c wrapped (rwk_wrap_key c rwk) (wv_ctx wrapped))"

record EscrowAssignment =
  ea_index :: u8
  ea_guardian_x25519_pub :: bytes
  ea_sealed_share :: bytes

record EscrowOnboarding =
  eo_wrapped_recovery :: WrappedVdk
  eo_assignments :: "EscrowAssignment list"

text \<open>The random inputs of one onboarding: the fresh key, the nonce, the polynomial, one seed per box.\<close>

record escrow_rng =
  er_rwk :: bytes
  er_nonce :: bytes
  er_split :: bytes
  er_seal :: "nat \<Rightarrow> bytes"

definition epoch_bytes :: "u64 \<Rightarrow> bytes" where
  "epoch_bytes epoch = replicate 8 0 @ u64_to_be_bytes epoch"

definition seal_assignment :: "crypto \<Rightarrow> escrow_rng \<Rightarrow> bytes \<Rightarrow> u64 \<Rightarrow> nat \<times> bytes \<times> bytes
    \<Rightarrow> EscrowError + EscrowAssignment" where
  "seal_assignment c rng vault_id epoch = (\<lambda>(i, share, pubkey).
     and_then (seal_share c (er_seal rng i) share pubkey vault_id (epoch_bytes epoch)) (\<lambda>sealed.
       Inr \<lparr> ea_index = of_nat i, ea_guardian_x25519_pub = pubkey, ea_sealed_share = sealed \<rparr>))"

definition onboard_escrow :: "crypto \<Rightarrow> escrow_rng \<Rightarrow> bytes \<Rightarrow> bytes \<Rightarrow> u8 \<Rightarrow> u8 \<Rightarrow> bytes list \<Rightarrow> u64
    \<Rightarrow> EscrowError + EscrowOnboarding" where
  "onboard_escrow c rng vdk vault_id threshold guardian_count guardian_x25519_pubs epoch =
     (let rwk = er_rwk rng; ctx = WrapContext_new vault_id
      in and_then (wrap_vdk_under_rwk c (er_nonce rng) vdk rwk ctx) (\<lambda>wrapped_recovery.
         and_then (split_rwk c (er_split rng) rwk threshold guardian_count) (\<lambda>shares.
         and_then (collect_results (seal_assignment c rng vault_id epoch)
                    (enumerate 0 (zip shares guardian_x25519_pubs))) (\<lambda>assignments.
         Inr \<lparr> eo_wrapped_recovery = wrapped_recovery, eo_assignments = assignments \<rparr>))))"

definition X25519_DERIVATION_MESSAGE :: bytes where
  "X25519_DERIVATION_MESSAGE = ascii ''pangolin-guardian-x25519-derive-v0''"

definition X25519_HKDF_INFO :: bytes where "X25519_HKDF_INFO = ascii ''pangolin-guardian-x25519-v0''"

text \<open>A derived X25519 key pair: secret scalar and public key.\<close>

record X25519Key =
  xk_secret :: bytes
  xk_public :: bytes

definition derive_x25519_sealing_key :: "crypto \<Rightarrow> bytes \<Rightarrow> X25519Key" where
  "derive_x25519_sealing_key c device =
     (let scalar = cr_hkdf c (cr_sign c device X25519_DERIVATION_MESSAGE) X25519_HKDF_INFO
      in \<lparr> xk_secret = scalar, xk_public = cr_box_public c scalar \<rparr>)"

section \<open>Device pairing (pairing.rs)\<close>

definition DEVICE_PAIR_X25519_DERIVATION_MESSAGE :: bytes where
  "DEVICE_PAIR_X25519_DERIVATION_MESSAGE = ascii ''pangolin-device-pair-x25519-derive-v0''"

definition DEVICE_PAIR_X25519_HKDF_INFO :: bytes where
  "DEVICE_PAIR_X25519_HKDF_INFO = ascii ''pangolin-device-pair-x25519-v0''"

definition DEVICE_WRAP_KEY_INFO :: bytes where "DEVICE_WRAP_KEY_INFO = ascii ''pangolin-device-wrap-v0''"

definition SEALED_VDK_DOMAIN :: bytes where "SEALED_VDK_DOMAIN = ascii ''pangolin-device-pair-seal-v0''"

definition SAS_DOMAIN :: bytes where "SAS_DOMAIN = ascii ''pangolin-pairing-sas-v0''"

datatype PairingError = PairSealFailed | PairOpenFailed | PairWrapFailed

definition derive_x25519_pairing_key :: "crypto \<Rightarrow> bytes \<Rightarrow> X25519Key" where
  "derive_x25519_pairing_key c device =
     (let scalar = cr_hkdf c (cr_sign c device DEVICE_PAIR_X25519_DERIVATION_MESSAGE) DEVICE_PAIR_X25519_HKDF_INFO
      in \<lparr> xk_secret = scalar, xk_public = cr_box_public c scalar \<rparr>)"

definition sealed_vdk_header :: "bytes \<Rightarrow> bytes \<Rightarrow> bytes \<Rightarrow> bytes" where
  "sealed_vdk_header vault_id device_id epoch = SEALED_VDK_DOMAIN @ vault_id @ device_id @ epoch"

definition seal_vdk_to_device :: "crypto \<Rightarrow> bytes \<Rightarrow> bytes \<Rightarrow> bytes \<Rightarrow> bytes \<Rightarrow> bytes \<Rightarrow> bytes \<Rightarrow> PairingError + bytes" where
  "seal_vdk_to_device c rng vdk recipient_x25519_pub vault_id device_id epoch =
     ok_or (cr_box_seal c rng recipient_x25519_pub (sealed_vdk_header vault_id device_id epoch @ vdk)) PairSealFailed"

definition open_vdk_from_pairing :: "crypto \<Rightarrow> bytes \<Rightarrow> bytes \<Rightarrow> bytes \<Rightarrow> bytes \<Rightarrow> bytes \<Rightarrow> PairingError + bytes" where
  "open_vdk_from_pairing c sealed recipient_x25519_secret vault_id device_id epoch =
     and_then (ok_or (cr_box_unseal c recipient_x25519_secret sealed) PairOpenFailed) (\<lambda>plaintext.
       let expected_header = sealed_vdk_header vault_id device_id epoch; header_len = length expected_header
       in if length plaintext \<noteq> header_len + KEY_LEN then Inl PairOpenFailed
          else if take header_len plaintext \<noteq> expected_header then Inl PairOpenFailed
          else Inr (drop header_len plaintext))"

definition derive_device_wrap_key :: "crypto \<Rightarrow> bytes \<Rightarrow> bytes" where
  "derive_device_wrap_key c device = cr_hkdf c device DEVICE_WRAP_KEY_INFO"

definition wrap_vdk_for_device :: "crypto \<Rightarrow> bytes \<Rightarrow> bytes \<Rightarrow> bytes \<Rightarrow> WrapContext \<Rightarrow> PairingError + WrappedVdk" where
  "wrap_vdk_for_device c nonce vdk device_key ctx =
     map_err (\<lambda>_. PairWrapFailed) (seal_under_key c nonce vdk (derive_device_wrap_key c device_key) ctx)"

definition unwrap_vdk_for_device :: "crypto \<Rightarrow> WrappedVdk \<Rightarrow> bytes \<Rightarrow> PairingError + bytes" where
  "unwrap_vdk_for_device c wrapped device_key =
     map_err (\<lambda>_. PairWrapFailed) (open_with_key c wrapped (derive_device_wrap_key c device_key) (wv_ctx wrapped))"

text \<open>The six-digit comparison code both devices show.\<close>

definition derive_sas :: "crypto \<Rightarrow> bytes \<Rightarrow> bytes \<Rightarrow> bytes \<Rightarrow> bytes" where
  "derive_sas c pub_a pub_b freshness_nonce =
     (let (lo, hi) = (if pub_a \<le> pub_b then (pub_a, pub_b) else (pub_b, pub_a));
          digest = cr_sha256 c (SAS_DOMAIN @ lo @ hi @ freshness_nonce);
          value = foldl (\<lambda>w b. push_bit 8 w OR ucast b) (0 :: u32) (take 4 digest)
      in zero_pad 6 (decimal (unat (value mod 1000000))))"

section \<open>Laws of wrapping\<close>

lemma crypto_okD:
  assumes "crypto_ok c"
  shows "cr_encrypt c k n m a = Some ct \<Longrightarrow> cr_decrypt c k n ct a = Some m"
    and "cr_encrypt c k n m a = Some ct \<Longrightarrow> length ct = length m + 16"
    and "length (cr_hkdf c ikm info) = 32"
    and "cr_box_seal c r (cr_box_public c sk) m = Some ct \<Longrightarrow> cr_box_unseal c sk ct = Some m"
    and "length (cr_sha256 c bs) = 32"
  using assms unfolding crypto_ok_def by blast+

lemma crypto_ok_split:
  assumes "crypto_ok c" "cr_split_array c r t n s = Some shs"
  shows "length shs = n" "distinct shs" "sh \<in> set shs \<Longrightarrow> length sh = 1 + length s \<and> sh ! 0 \<noteq> 0"
    and "distinct xs \<Longrightarrow> set xs \<subseteq> set shs \<Longrightarrow> t \<le> length xs \<Longrightarrow> cr_combine_array c xs = Some s"
  using assms unfolding crypto_ok_def by blast+

lemma map_err_simps [simp]:
  "map_err f (Inl e) = Inl (f e)" "map_err f (Inr a) = Inr a"
  "map_err f r = Inr b \<longleftrightarrow> r = Inr b"
  by (auto simp: map_err_def split: sum.splits)

lemma aead_seal_open:
  "crypto_ok c \<Longrightarrow> aead_key_seal c k n m a = Inr ct \<Longrightarrow> aead_key_open c k n ct a = Inr m"
  using crypto_okD(1,2)[of c k n m a ct]
  by (auto simp: aead_key_seal_def aead_key_open_def TAG_LEN_def split: if_splits)

lemma seal_under_key_open:
  "crypto_ok c \<Longrightarrow> length vdk = KEY_LEN \<Longrightarrow> seal_under_key c n vdk k ctx = Inr w \<Longrightarrow>
     open_with_key c w k (wv_ctx w) = Inr vdk \<and> wv_ctx w = ctx"
  by (auto simp: seal_under_key_def open_with_key_def and_then_Inr[of "aead_key_seal _ _ _ _ _"] aead_seal_open)

text \<open>
  The contract that the three wrappings of the data key share: under the master-password
  authority, under the recovery key and under a device key.
\<close>

locale vdk_wrapping =
  fixes wrap :: "crypto \<Rightarrow> bytes \<Rightarrow> bytes \<Rightarrow> bytes \<Rightarrow> WrapContext \<Rightarrow> 'e + WrappedVdk"
    and unwrap :: "crypto \<Rightarrow> WrappedVdk \<Rightarrow> bytes \<Rightarrow> 'e + bytes"
  assumes unwrap_wrap: "crypto_ok c \<Longrightarrow> length vdk = KEY_LEN \<Longrightarrow> wrap c n vdk k ctx = Inr w \<Longrightarrow>
      unwrap c w k = Inr vdk \<and> wv_ctx w = ctx"
begin

lemma wrapped_determines:
  "crypto_ok c \<Longrightarrow> length vdk = KEY_LEN \<Longrightarrow> length vdk' = KEY_LEN \<Longrightarrow>
     wrap c n vdk k ctx = Inr w \<Longrightarrow> wrap c n' vdk' k ctx' = Inr w \<Longrightarrow> vdk = vdk' \<and> ctx = ctx'"
  by (metis Inr_inject unwrap_wrap)

end

interpretation authority: vdk_wrapping seal_under unwrap_with
proof
  fix c n vdk k ctx w
  assume "crypto_ok c" "length vdk = KEY_LEN" "seal_under c n vdk k ctx = Inr w"
  then show "unwrap_with c w k = Inr vdk \<and> wv_ctx w = ctx"
    by (auto simp: seal_under_def unwrap_with_def and_then_Inr[of "aead_key_seal _ _ _ _ _"] Let_def aead_seal_open)
qed

interpretation rwk: vdk_wrapping wrap_vdk_under_rwk unwrap_vdk_under_rwk
proof
  fix c n vdk k ctx w
  assume "crypto_ok c" "length vdk = KEY_LEN" "wrap_vdk_under_rwk c n vdk k ctx = Inr w"
  then show "unwrap_vdk_under_rwk c w k = Inr vdk \<and> wv_ctx w = ctx"
    using seal_under_key_open[of c vdk n "rwk_wrap_key c k" ctx w] by (auto simp: wrap_vdk_under_rwk_def unwrap_vdk_under_rwk_def)
qed

interpretation device: vdk_wrapping wrap_vdk_for_device unwrap_vdk_for_device
proof
  fix c n vdk k ctx w
  assume "crypto_ok c" "length vdk = KEY_LEN" "wrap_vdk_for_device c n vdk k ctx = Inr w"
  then show "unwrap_vdk_for_device c w k = Inr vdk \<and> wv_ctx w = ctx"
    using seal_under_key_open[of c vdk n "derive_device_wrap_key c k" ctx w]
    by (auto simp: wrap_vdk_for_device_def unwrap_vdk_for_device_def)
qed

lemma rewrap_keeps_vdk:
  assumes "crypto_ok c" "length vdk = KEY_LEN" "seal_under c n vdk old_key ctx = Inr w"
    and "rewrap c n' w old_key new_key ctx' = Inr w'"
  shows "unwrap_with c w' new_key = Inr vdk" "wv_ctx w' = ctx'"
proof -
  have "seal_under c n' vdk new_key ctx' = Inr w'"
    using assms(4) authority.unwrap_wrap[OF assms(1,2,3)] by (simp add: rewrap_def)
  then show "unwrap_with c w' new_key = Inr vdk" "wv_ctx w' = ctx'"
    using authority.unwrap_wrap[OF assms(1,2)] by blast+
qed

section \<open>Laws of sealing\<close>

text \<open>
  The contract of a value sealed to a recipient under a context: it opens with the recipient's
  secret under exactly that context, and is refused under every other.
\<close>

locale context_seal =
  fixes ctx_ok :: "'x \<Rightarrow> bool" and val_ok :: "bytes \<Rightarrow> bool"
    and seal :: "crypto \<Rightarrow> bytes \<Rightarrow> bytes \<Rightarrow> 'x \<Rightarrow> bytes \<Rightarrow> 'e + bytes"
    and unseal :: "crypto \<Rightarrow> bytes \<Rightarrow> 'x \<Rightarrow> bytes \<Rightarrow> 'e + bytes"
    and refused :: 'e
  assumes unseal_seal: "crypto_ok c \<Longrightarrow> ctx_ok x \<Longrightarrow> ctx_ok y \<Longrightarrow> val_ok v \<Longrightarrow>
      seal c r (cr_box_public c sk) x v = Inr ct \<Longrightarrow>
      unseal c sk y ct = (if y = x then Inr v else Inl refused)"
begin

lemma own_context:
  "crypto_ok c \<Longrightarrow> ctx_ok x \<Longrightarrow> val_ok v \<Longrightarrow> seal c r (cr_box_public c sk) x v = Inr ct \<Longrightarrow>
     unseal c sk x ct = Inr v"
  by (simp add: unseal_seal)

lemma other_context:
  "crypto_ok c \<Longrightarrow> ctx_ok x \<Longrightarrow> ctx_ok y \<Longrightarrow> y \<noteq> x \<Longrightarrow> val_ok v \<Longrightarrow>
     seal c r (cr_box_public c sk) x v = Inr ct \<Longrightarrow> unseal c sk y ct = Inl refused"
  by (simp add: unseal_seal)

end

lemma header_gate:
  "length h = length h' \<Longrightarrow>
     (if length (h @ v) \<noteq> length h' + n then A else if take (length h') (h @ v) \<noteq> h' then A
      else f (drop (length h') (h @ v))) = (if h = h' \<and> length v = n then f v else A)"
  by simp

definition share_ok :: "bytes \<Rightarrow> bool" where
  "share_ok share \<longleftrightarrow> length share = SHARE_ENCODED_LEN \<and> share ! 0 \<noteq> 0"

interpretation shares: context_seal "\<lambda>(v, e). length v = VAULT_ID_LEN \<and> length e = EPOCH_LEN" share_ok
  "\<lambda>c r pk (v, e) share. seal_share c r share pk v e"
  "\<lambda>c sk (v, e) ct. open_sealed_share c ct sk v e" OpenFailed
proof (unfold_locales, clarify)
  fix c :: crypto and v e v' e' share r sk ct :: bytes
  assume a: "crypto_ok c" "share_ok share" "seal_share c r share (cr_box_public c sk) v e = Inr ct"
    "length v = VAULT_ID_LEN" "length e = EPOCH_LEN" "length v' = VAULT_ID_LEN" "length e' = EPOCH_LEN"
  then have "cr_box_unseal c sk ct = Some (sealed_share_header v e @ share)"
    by (auto simp: seal_share_def intro: crypto_okD(4))
  then have opened: "open_sealed_share c ct sk v' e' =
      (if sealed_share_header v e = sealed_share_header v' e' \<and> length share = SHARE_ENCODED_LEN
       then map_err (\<lambda>_. OpenFailed) (Share_from_bytes share) else Inl OpenFailed)"
    unfolding open_sealed_share_def Let_def
    by (simp only: ok_or_simps and_then_simps) (rule header_gate, simp add: sealed_share_header_def a(4-7))
  have "sealed_share_header v e = sealed_share_header v' e' \<longleftrightarrow> (v', e') = (v, e)"
    using a(4-7) by (auto simp: sealed_share_header_def)
  then show "open_sealed_share c ct sk v' e' = (if (v', e') = (v, e) then Inr share else Inl OpenFailed)"
    using a(2) unfolding opened by (simp add: Share_from_bytes_def share_ok_def)
qed

interpretation vdk_seals: context_seal
  "\<lambda>(v, d, e). length v = VAULT_ID_LEN \<and> length d = PAIR_DEVICE_ID_LEN \<and> length e = EPOCH_LEN"
  "\<lambda>vdk. length vdk = KEY_LEN"
  "\<lambda>c r pk (v, d, e) vdk. seal_vdk_to_device c r vdk pk v d e"
  "\<lambda>c sk (v, d, e) ct. open_vdk_from_pairing c ct sk v d e" PairOpenFailed
proof (unfold_locales, clarify)
  fix c :: crypto and v d e v' d' e' vdk r sk ct :: bytes
  assume a: "crypto_ok c" "length vdk = KEY_LEN" "seal_vdk_to_device c r vdk (cr_box_public c sk) v d e = Inr ct"
    "length v = VAULT_ID_LEN" "length d = PAIR_DEVICE_ID_LEN" "length e = EPOCH_LEN"
    "length v' = VAULT_ID_LEN" "length d' = PAIR_DEVICE_ID_LEN" "length e' = EPOCH_LEN"
  then have "cr_box_unseal c sk ct = Some (sealed_vdk_header v d e @ vdk)"
    by (auto simp: seal_vdk_to_device_def intro: crypto_okD(4))
  then have opened: "open_vdk_from_pairing c ct sk v' d' e' =
      (if sealed_vdk_header v d e = sealed_vdk_header v' d' e' \<and> length vdk = KEY_LEN
       then Inr vdk else Inl PairOpenFailed)"
    unfolding open_vdk_from_pairing_def Let_def
    by (simp only: ok_or_simps and_then_simps) (rule header_gate, simp add: sealed_vdk_header_def a(4-9))
  have "sealed_vdk_header v d e = sealed_vdk_header v' d' e' \<longleftrightarrow> (v', d', e') = (v, d, e)"
    using a(4-9) by (auto simp: sealed_vdk_header_def)
  then show "open_vdk_from_pairing c ct sk v' d' e' =
      (if (v', d', e') = (v, d, e) then Inr vdk else Inl PairOpenFailed)"
    using a(2) unfolding opened by simp
qed

end
