(* ===== verification/Recovery_Rotation.thy ===== *)
theory Recovery_Rotation
  imports Key_Escrow
begin

text \<open>
  Guardian recovery, key rotation and the device set
  (\<open>crates/pangolin-core/src/recovery/mod.rs\<close>, \<open>recovery/orchestration.rs\<close>, \<open>rotation.rs\<close>,
  \<open>device_add.rs\<close>): onboarding a guardian set, recovering the data key from opened shares,
  re-keying the surviving devices when one is revoked, and deriving the surviving devices from the
  on-chain history. The lemmas compose the contracts of \<open>Key_Escrow\<close>: any threshold of guardians
  recovers the key, stale or foreign shares are refused, and after a rotation exactly the
  survivors hold the new key.
\<close>

section \<open>Guardian sets (recovery/mod.rs)\<close>

datatype RecoveryStatus = StatusNone | StatusPending | StatusFinalized | StatusCanceled

definition RecoveryStatus_from_u8 :: "u8 \<Rightarrow> RecoveryStatus option" where
  "RecoveryStatus_from_u8 v =
     (if v = 0 then Some StatusNone else if v = 1 then Some StatusPending
      else if v = 2 then Some StatusFinalized else if v = 3 then Some StatusCanceled else None)"

definition RecoveryStatus_as_u8 :: "RecoveryStatus \<Rightarrow> u8" where
  "RecoveryStatus_as_u8 s =
     (case s of StatusNone \<Rightarrow> 0 | StatusPending \<Rightarrow> 1 | StatusFinalized \<Rightarrow> 2 | StatusCanceled \<Rightarrow> 3)"

record GuardianSetConfig =
  gs_threshold :: u8
  gs_guardian_count :: u8

datatype GuardianSetError = GuardianCountOutOfBounds | ThresholdOutOfBounds

definition GuardianSetConfig_validate :: "GuardianSetConfig \<Rightarrow> GuardianSetError + unit" where
  "GuardianSetConfig_validate cfg =
     (if gs_guardian_count cfg < MIN_GUARDIANS \<or> MAX_GUARDIANS < gs_guardian_count cfg
      then Inl GuardianCountOutOfBounds
      else if gs_threshold cfg < MIN_THRESHOLD \<or> MAX_THRESHOLD < gs_threshold cfg
              \<or> gs_guardian_count cfg < gs_threshold cfg
      then Inl ThresholdOutOfBounds
      else Inr ())"

interpretation status_codec: strict_codec RecoveryStatus_as_u8 RecoveryStatus_from_u8
  by unfold_locales (auto simp: RecoveryStatus_as_u8_def RecoveryStatus_from_u8_def split: RecoveryStatus.splits if_splits)

section \<open>Recovery (recovery/orchestration.rs)\<close>

datatype RecoveryOrchestrationError =
    InvalidGuardianSet GuardianSetError
  | GuardianCountMismatch u8 nat
  | InsufficientShares u8 nat
  | Escrow EscrowError

definition epoch_next :: "u64 \<Rightarrow> u64" where
  "epoch_next e = sat_add e 1"

definition to_escrow_bytes :: "u64 \<Rightarrow> bytes" where
  "to_escrow_bytes e = replicate 8 0 @ u64_to_be_bytes e"

definition from_escrow_bytes :: "bytes \<Rightarrow> u64" where
  "from_escrow_bytes bs = u64_from_be_bytes (drop 8 bs)"

record OnboardingArtifacts =
  oa_wrapped_recovery :: WrappedVdk
  oa_config :: GuardianSetConfig
  oa_epoch :: u64
  oa_assignments :: "EscrowAssignment list"

record RecoveryArtifacts =
  ra_vdk :: bytes
  ra_re_split :: OnboardingArtifacts

definition onboard_guardian_escrow :: "crypto \<Rightarrow> escrow_rng \<Rightarrow> bytes \<Rightarrow> bytes \<Rightarrow> GuardianSetConfig \<Rightarrow> bytes list
    \<Rightarrow> u64 \<Rightarrow> RecoveryOrchestrationError + OnboardingArtifacts" where
  "onboard_guardian_escrow c rng vdk vault_id config guardian_x25519_pubs epoch =
     and_then (map_err InvalidGuardianSet (GuardianSetConfig_validate config)) (\<lambda>_.
       if length guardian_x25519_pubs \<noteq> unat (gs_guardian_count config)
       then Inl (GuardianCountMismatch (gs_guardian_count config) (length guardian_x25519_pubs))
       else and_then (map_err Escrow (onboard_escrow c rng vdk vault_id (gs_threshold config)
                        (gs_guardian_count config) guardian_x25519_pubs epoch)) (\<lambda>onboarding.
       Inr \<lparr> oa_wrapped_recovery = eo_wrapped_recovery onboarding, oa_config = config,
             oa_epoch = epoch, oa_assignments = eo_assignments onboarding \<rparr>))"

definition recover_vdk_from_shares :: "crypto \<Rightarrow> escrow_rng \<Rightarrow> WrappedVdk \<Rightarrow> bytes list \<Rightarrow> bytes
    \<Rightarrow> GuardianSetConfig \<Rightarrow> bytes list \<Rightarrow> u64 \<Rightarrow> RecoveryOrchestrationError + RecoveryArtifacts" where
  "recover_vdk_from_shares c rng wrapped_recovery opened_shares vault_id config guardian_x25519_pubs current_epoch =
     (if length opened_shares < unat (gs_threshold config)
      then Inl (InsufficientShares (gs_threshold config) (length opened_shares))
      else and_then (map_err Escrow (reconstruct_rwk c opened_shares)) (\<lambda>rwk.
      and_then (map_err Escrow (unwrap_vdk_under_rwk c wrapped_recovery rwk)) (\<lambda>vdk.
      and_then (onboard_guardian_escrow c rng vdk vault_id config guardian_x25519_pubs (epoch_next current_epoch))
        (\<lambda>re_split. Inr \<lparr> ra_vdk = vdk, ra_re_split = re_split \<rparr>))))"

section \<open>The device set (device\_add.rs)\<close>

record NewDeviceHandshake =
  nd_device_id :: bytes
  nd_x25519_pairing_pub :: bytes

definition device_id_from_device_key :: "crypto \<Rightarrow> bytes \<Rightarrow> bytes" where
  "device_id_from_device_key c device = cr_verifying_key c device"

definition epoch_to_pairing_bytes :: "u64 \<Rightarrow> bytes" where
  "epoch_to_pairing_bytes e = replicate 8 0 @ u64_to_be_bytes e"

definition seal_vdk_to_new_device :: "crypto \<Rightarrow> bytes \<Rightarrow> bytes \<Rightarrow> NewDeviceHandshake \<Rightarrow> bytes \<Rightarrow> u64 \<Rightarrow> PairingError + bytes" where
  "seal_vdk_to_new_device c rng vdk new_device vault_id epoch =
     seal_vdk_to_device c rng vdk (nd_x25519_pairing_pub new_device) vault_id (nd_device_id new_device)
       (epoch_to_pairing_bytes epoch)"

definition open_vdk_for_new_device :: "crypto \<Rightarrow> bytes \<Rightarrow> bytes \<Rightarrow> bytes \<Rightarrow> bytes \<Rightarrow> u64 \<Rightarrow> PairingError + bytes" where
  "open_vdk_for_new_device c sealed recipient_x25519_secret vault_id device_id epoch =
     open_vdk_from_pairing c sealed recipient_x25519_secret vault_id device_id (epoch_to_pairing_bytes epoch)"

datatype SetMgmtEvent = Bootstrapped bytes | Added bytes | Removed bytes

definition apply_set_event :: "bytes list \<Rightarrow> SetMgmtEvent \<Rightarrow> bytes list" where
  "apply_set_event s ev =
     (case ev of
        Bootstrapped first_signer \<Rightarrow> if first_signer \<in> set s then s else s @ [first_signer]
      | Added signer \<Rightarrow> if signer \<in> set s then s else s @ [signer]
      | Removed signer \<Rightarrow> filter (\<lambda>x. x \<noteq> signer) s)"

definition fold_authorized_set :: "SetMgmtEvent list \<Rightarrow> bytes list" where
  "fold_authorized_set events = foldl apply_set_event [] events"

definition detect_removed_devices :: "bytes list \<Rightarrow> bytes list \<Rightarrow> bytes list" where
  "detect_removed_devices current_onchain_set locally_known_signers =
     filter (\<lambda>s. s \<notin> set current_onchain_set) locally_known_signers"

record SurvivorDirectoryEntry =
  sd_signer :: bytes
  sd_device_id :: bytes
  sd_x25519_pairing_pub :: bytes

record SurvivingDevice =
  sv_device_id :: bytes
  sv_x25519_pairing_pub :: bytes

fun resolve_survivors :: "bytes list \<Rightarrow> SurvivorDirectoryEntry list \<Rightarrow> SurvivingDevice list \<times> bytes list" where
  "resolve_survivors [] directory = ([], [])"
| "resolve_survivors (signer # rest) directory =
     (let (survivors, unknown) = resolve_survivors rest directory
      in case find (\<lambda>e. sd_signer e = signer) directory of
           Some entry \<Rightarrow> (\<lparr> sv_device_id = sd_device_id entry,
               sv_x25519_pairing_pub = sd_x25519_pairing_pub entry \<rparr> # survivors, unknown)
         | None \<Rightarrow> (survivors, signer # unknown))"

section \<open>Rotation (rotation.rs)\<close>

record SurvivorSeal =
  ss_device_id :: bytes
  ss_sealed :: bytes

record RotationArtifacts =
  rot_new_vdk :: bytes
  rot_survivor_seals :: "SurvivorSeal list"
  rot_re_split :: OnboardingArtifacts
  rot_new_epoch :: u64

datatype RotationError =
    NoSurvivors
  | Pairing PairingError
  | EscrowRePoint RecoveryOrchestrationError

text \<open>The random inputs of one rotation: the fresh data key, one seed per seal, the escrow's.\<close>

record rotation_rng =
  rr_vdk :: bytes
  rr_seal :: "nat \<Rightarrow> bytes"
  rr_escrow :: escrow_rng

definition seal_survivor :: "crypto \<Rightarrow> rotation_rng \<Rightarrow> bytes \<Rightarrow> u64 \<Rightarrow> nat \<times> SurvivingDevice
    \<Rightarrow> PairingError + SurvivorSeal" where
  "seal_survivor c rng vault_id new_epoch = (\<lambda>(i, s).
     and_then (seal_vdk_to_device c (rr_seal rng i) (rr_vdk rng) (sv_x25519_pairing_pub s) vault_id
         (sv_device_id s) (to_escrow_bytes new_epoch)) (\<lambda>sealed.
       Inr \<lparr> ss_device_id = sv_device_id s, ss_sealed = sealed \<rparr>))"

definition rotate_vdk_for_survivors :: "crypto \<Rightarrow> rotation_rng \<Rightarrow> SurvivingDevice list \<Rightarrow> bytes \<Rightarrow> GuardianSetConfig
    \<Rightarrow> bytes list \<Rightarrow> u64 \<Rightarrow> RotationError + RotationArtifacts" where
  "rotate_vdk_for_survivors c rng survivors vault_id guardian_config guardian_x25519_pubs current_epoch =
     (if survivors = [] then Inl NoSurvivors
      else let new_vdk = rr_vdk rng; new_epoch = epoch_next current_epoch
      in and_then (map_err Pairing (collect_results (seal_survivor c rng vault_id new_epoch)
                     (enumerate 0 survivors))) (\<lambda>survivor_seals.
         and_then (map_err EscrowRePoint (onboard_guardian_escrow c (rr_escrow rng) new_vdk vault_id
                     guardian_config guardian_x25519_pubs new_epoch)) (\<lambda>re_split.
         Inr \<lparr> rot_new_vdk = new_vdk, rot_survivor_seals = survivor_seals, rot_re_split = re_split,
               rot_new_epoch = new_epoch \<rparr>)))"

section \<open>Onboarding\<close>

lemma epoch_bytes_facts:
  "length (to_escrow_bytes e) = EPOCH_LEN" "to_escrow_bytes e = to_escrow_bytes e' \<longleftrightarrow> e = e'"
  "from_escrow_bytes (to_escrow_bytes e) = e" "epoch_bytes e = to_escrow_bytes e"
  "epoch_to_pairing_bytes e = to_escrow_bytes e"
  by (simp_all add: to_escrow_bytes_def from_escrow_bytes_def epoch_bytes_def epoch_to_pairing_bytes_def
      EPOCH_LEN_def u64_to_be_bytes_inj u64_be_bytes_roundtrip)

lemma validate_check_bounds:
  "GuardianSetConfig_validate cfg = Inr () \<longleftrightarrow> check_bounds (gs_threshold cfg) (gs_guardian_count cfg) = Inr ()"
  by (auto simp: GuardianSetConfig_validate_def check_bounds_def not_le)

lemma split_rwk_facts:
  assumes "crypto_ok c" "length rwk = KEY_LEN" "split_rwk c r rwk t m = Inr shares"
  shows "length shares = unat m" "distinct shares" "sh \<in> set shares \<Longrightarrow> share_ok sh"
    and "distinct xs \<Longrightarrow> set xs \<subseteq> set shares \<Longrightarrow> unat t \<le> length xs \<Longrightarrow> reconstruct_rwk c xs = Inr rwk"
proof -
  obtain raw where raw: "cr_split_array c r (unat t) (unat m) rwk = Some raw"
    "collect_results Share_from_bytes raw = Inr shares"
    using assms(3) by (auto simp: split_rwk_def and_then_Inr)
  have "list_all2 (=) raw shares" using raw(2) unfolding collect_results_ok
    by (auto simp: Share_from_bytes_def split: if_splits elim!: list_all2_mono)
  then have eq: "raw = shares" by (simp add: list.rel_eq)
  note facts = crypto_ok_split[OF assms(1) raw(1)[unfolded eq]]
  show "length shares = unat m" "distinct shares" by (fact facts(1), fact facts(2))
  show "sh \<in> set shares \<Longrightarrow> share_ok sh"
    using facts(3) assms(2) by (simp add: share_ok_def SHARE_ENCODED_LEN_def)
  show "distinct xs \<Longrightarrow> set xs \<subseteq> set shares \<Longrightarrow> unat t \<le> length xs \<Longrightarrow> reconstruct_rwk c xs = Inr rwk"
    using facts(4) assms(2) by (simp add: reconstruct_rwk_def)
qed

text \<open>The state of an escrow after onboarding: what each guardian's sealed share holds.\<close>

definition escrow_holds :: "crypto \<Rightarrow> OnboardingArtifacts \<Rightarrow> bytes list \<Rightarrow> bytes \<Rightarrow> bytes list \<Rightarrow> bytes \<Rightarrow> bytes \<Rightarrow> bool" where
  "escrow_holds c art sks vault_id shares rwk vdk \<longleftrightarrow>
     length shares = length sks \<and> distinct shares \<and> list_all share_ok shares
     \<and> length (oa_assignments art) = length sks
     \<and> (\<forall>i < length sks. \<exists>r. seal_share c r (shares ! i) (cr_box_public c (sks ! i)) vault_id
           (to_escrow_bytes (oa_epoch art)) = Inr (ea_sealed_share (oa_assignments art ! i)))
     \<and> unwrap_vdk_under_rwk c (oa_wrapped_recovery art) rwk = Inr vdk
     \<and> (\<forall>xs. distinct xs \<and> set xs \<subseteq> set shares \<and> unat (gs_threshold (oa_config art)) \<le> length xs \<longrightarrow>
           reconstruct_rwk c xs = Inr rwk)"

lemma onboard_escrow_holds:
  assumes "crypto_ok c" "length vdk = KEY_LEN" "length (er_rwk rng) = KEY_LEN"
    and "onboard_guardian_escrow c rng vdk vault_id config (map (cr_box_public c) sks) epoch = Inr art"
  shows "\<exists>shares. escrow_holds c art sks vault_id shares (er_rwk rng) vdk"
    and "oa_config art = config" "oa_epoch art = epoch" "length sks = unat (gs_guardian_count config)"
    and "i < length sks \<Longrightarrow> ea_guardian_x25519_pub (oa_assignments art ! i) = cr_box_public c (sks ! i)
           \<and> ea_index (oa_assignments art ! i) = of_nat i"
proof -
  obtain eo where len: "length sks = unat (gs_guardian_count config)"
    and eo: "onboard_escrow c rng vdk vault_id (gs_threshold config) (gs_guardian_count config)
      (map (cr_box_public c) sks) epoch = Inr eo"
    and art: "art = \<lparr> oa_wrapped_recovery = eo_wrapped_recovery eo, oa_config = config,
      oa_epoch = epoch, oa_assignments = eo_assignments eo \<rparr>"
    using assms(4) by (auto simp: onboard_guardian_escrow_def and_then_Inr split: if_splits)
  obtain w shares as where w: "wrap_vdk_under_rwk c (er_nonce rng) vdk (er_rwk rng) (WrapContext_new vault_id) = Inr w"
    and sh: "split_rwk c (er_split rng) (er_rwk rng) (gs_threshold config) (gs_guardian_count config) = Inr shares"
    and as: "collect_results (seal_assignment c rng vault_id epoch)
        (enumerate 0 (zip shares (map (cr_box_public c) sks))) = Inr as"
    and eo': "eo = \<lparr> eo_wrapped_recovery = w, eo_assignments = as \<rparr>"
    using eo by (auto simp: onboard_escrow_def and_then_Inr Let_def)
  note split = split_rwk_facts[OF assms(1,3) sh]
  have n: "length shares = length sks" using split(1) len by simp
  have each: "length as = length sks" "\<forall>i < length sks. seal_assignment c rng vault_id epoch
      (i, shares ! i, cr_box_public c (sks ! i)) = Inr (as ! i)"
    using as n by (auto simp: collect_results_ok list_all2_conv_all_nth nth_enumerate_eq)
  have seals: "seal_share c (er_seal rng i) (shares ! i) (cr_box_public c (sks ! i)) vault_id
        (to_escrow_bytes epoch) = Inr (ea_sealed_share (as ! i))
      \<and> ea_guardian_x25519_pub (as ! i) = cr_box_public c (sks ! i) \<and> ea_index (as ! i) = of_nat i"
    if i: "i < length sks" for i
    using each(2)[rule_format, OF i] by (auto simp: seal_assignment_def and_then_Inr epoch_bytes_facts dest: sym)
  have "escrow_holds c art sks vault_id shares (er_rwk rng) vdk"
    using n split(2-4) each(1) seals rwk.unwrap_wrap[OF assms(1,2) w]
    unfolding escrow_holds_def art eo' by (auto simp: list_all_iff)
  then show "\<exists>shares. escrow_holds c art sks vault_id shares (er_rwk rng) vdk" by blast
  show "oa_config art = config" "oa_epoch art = epoch" "length sks = unat (gs_guardian_count config)"
    by (simp_all add: art len)
  show "i < length sks \<Longrightarrow> ea_guardian_x25519_pub (oa_assignments art ! i) = cr_box_public c (sks ! i)
           \<and> ea_index (oa_assignments art ! i) = of_nat i"
    using seals by (simp add: art eo')
qed

text \<open>Opening the shares of chosen guardians, and recovering from them.\<close>

definition guardian_opens :: "crypto \<Rightarrow> OnboardingArtifacts \<Rightarrow> bytes list \<Rightarrow> bytes \<Rightarrow> u64 \<Rightarrow> nat \<Rightarrow> EscrowError + bytes" where
  "guardian_opens c art sks vault_id epoch i =
     open_sealed_share c (ea_sealed_share (oa_assignments art ! i)) (sks ! i) vault_id (to_escrow_bytes epoch)"

lemma guardian_opens_exact:
  assumes "crypto_ok c" "escrow_holds c art sks vault_id shares rwk vdk" "length vault_id = VAULT_ID_LEN"
    and "i < length sks" "length vault_id' = VAULT_ID_LEN"
  shows "guardian_opens c art sks vault_id' epoch' i =
    (if vault_id' = vault_id \<and> epoch' = oa_epoch art then Inr (shares ! i) else Inl OpenFailed)"
proof -
  obtain r where r: "seal_share c r (shares ! i) (cr_box_public c (sks ! i)) vault_id
      (to_escrow_bytes (oa_epoch art)) = Inr (ea_sealed_share (oa_assignments art ! i))"
    using assms(2,4) by (auto simp: escrow_holds_def)
  have "share_ok (shares ! i)" using assms(2,4) by (simp add: escrow_holds_def list_all_length)
  then show ?thesis
    using shares.unseal_seal[of c "(vault_id, to_escrow_bytes (oa_epoch art))" "(vault_id', to_escrow_bytes epoch')"
        "shares ! i" r "sks ! i"] assms(1,3,5) r
    by (auto simp: guardian_opens_def epoch_bytes_facts)
qed

lemma threshold_recovers:
  assumes "crypto_ok c" "escrow_holds c art sks vault_id shares rwk vdk" "length vault_id = VAULT_ID_LEN"
    and "distinct gs" "set gs \<subseteq> {..<length sks}" "unat (gs_threshold (oa_config art)) \<le> length gs"
  shows "and_then (map_err Escrow (collect_results (guardian_opens c art sks vault_id (oa_epoch art)) gs)) (\<lambda>opened.
           recover_vdk_from_shares c rng (oa_wrapped_recovery art) opened vault_id (oa_config art) pubs epoch)
       = and_then (onboard_guardian_escrow c rng vdk vault_id (oa_config art) pubs (epoch_next epoch))
           (\<lambda>re_split. Inr \<lparr> ra_vdk = vdk, ra_re_split = re_split \<rparr>)"
proof -
  have "collect_results (guardian_opens c art sks vault_id (oa_epoch art)) gs = Inr (map ((!) shares) gs)"
    using assms(5) guardian_opens_exact[OF assms(1-3) _ assms(3)] by (intro collect_results_ok_map) auto
  moreover have "reconstruct_rwk c (map ((!) shares) gs) = Inr rwk"
  proof -
    have "length shares = length sks" "distinct shares" using assms(2) by (simp_all add: escrow_holds_def)
    then have "distinct (map ((!) shares) gs)" "set (map ((!) shares) gs) \<subseteq> set shares"
      using assms(4,5) by (auto simp: distinct_map inj_on_def nth_eq_iff_index_eq subset_iff)
    then show ?thesis using assms(2,6) by (simp add: escrow_holds_def)
  qed
  moreover have "unwrap_vdk_under_rwk c (oa_wrapped_recovery art) rwk = Inr vdk"
    using assms(2) by (simp add: escrow_holds_def)
  ultimately show ?thesis using assms(6) by (simp add: recover_vdk_from_shares_def)
qed

text \<open>
  C14. Guardian recovery works: after onboarding a guardian set, any distinct guardians, at least
  as many as the threshold, open their sealed shares under the vault and epoch of the onboarding,
  and recovery from those shares yields the original data key, re-split for the next epoch; it
  fails only if that re-split fails.
\<close>

theorem guardian_threshold_recovers:
  assumes "crypto_ok c" "length vdk = KEY_LEN" "length (er_rwk rng) = KEY_LEN" "length vault_id = VAULT_ID_LEN"
    and "onboard_guardian_escrow c rng vdk vault_id config (map (cr_box_public c) sks) epoch = Inr art"
    and "distinct gs" "set gs \<subseteq> {..<length sks}" "unat (gs_threshold config) \<le> length gs"
  shows "and_then (map_err Escrow (collect_results (guardian_opens c art sks vault_id epoch) gs)) (\<lambda>opened.
           recover_vdk_from_shares c rng' (oa_wrapped_recovery art) opened vault_id config
             (map (cr_box_public c) sks) epoch)
       = and_then (onboard_guardian_escrow c rng' vdk vault_id config (map (cr_box_public c) sks) (epoch_next epoch))
           (\<lambda>re_split. Inr \<lparr> ra_vdk = vdk, ra_re_split = re_split \<rparr>)"
proof -
  note on = onboard_escrow_holds[OF assms(1-3,5)]
  obtain shares where "escrow_holds c art sks vault_id shares (er_rwk rng) vdk" using on(1) by blast
  from threshold_recovers[OF assms(1) this assms(4,6,7), of rng' "map (cr_box_public c) sks" epoch]
  show ?thesis using assms(8) by (simp only: on(2,3))
qed

text \<open>
  C25. Shares cannot be replayed: a share sealed to a guardian at onboarding is refused by that
  guardian's own key when it is presented for another vault or another epoch.
\<close>

theorem stale_shares_refused:
  assumes "crypto_ok c" "length vdk = KEY_LEN" "length (er_rwk rng) = KEY_LEN" "length vault_id = VAULT_ID_LEN"
    and "onboard_guardian_escrow c rng vdk vault_id config (map (cr_box_public c) sks) epoch = Inr art"
    and "i < length sks" "length vault_id' = VAULT_ID_LEN" "(vault_id', epoch') \<noteq> (vault_id, epoch)"
  shows "guardian_opens c art sks vault_id' epoch' i = Inl OpenFailed"
proof -
  note on = onboard_escrow_holds[OF assms(1-3,5)]
  obtain shares where "escrow_holds c art sks vault_id shares (er_rwk rng) vdk" using on(1) by blast
  from guardian_opens_exact[OF assms(1) this assms(4,6,7), of epoch'] show ?thesis
    using assms(8) on(3) by auto
qed

section \<open>Rotation\<close>

lemma rotate_parts:
  assumes "rotate_vdk_for_survivors c rng survivors vault_id config pubs epoch = Inr art"
  shows "survivors \<noteq> []" "rot_new_vdk art = rr_vdk rng" "rot_new_epoch art = epoch_next epoch"
    and "length (rot_survivor_seals art) = length survivors"
    and "i < length survivors \<Longrightarrow>
          seal_vdk_to_device c (rr_seal rng i) (rr_vdk rng) (sv_x25519_pairing_pub (survivors ! i)) vault_id
            (sv_device_id (survivors ! i)) (to_escrow_bytes (epoch_next epoch))
            = Inr (ss_sealed (rot_survivor_seals art ! i))
        \<and> ss_device_id (rot_survivor_seals art ! i) = sv_device_id (survivors ! i)"
    and "onboard_guardian_escrow c (rr_escrow rng) (rr_vdk rng) vault_id config pubs (epoch_next epoch)
          = Inr (rot_re_split art)"
proof -
  obtain seals re where parts: "survivors \<noteq> []"
    "collect_results (seal_survivor c rng vault_id (epoch_next epoch)) (enumerate 0 survivors) = Inr seals"
    "onboard_guardian_escrow c (rr_escrow rng) (rr_vdk rng) vault_id config pubs (epoch_next epoch) = Inr re"
    "art = \<lparr> rot_new_vdk = rr_vdk rng, rot_survivor_seals = seals, rot_re_split = re, rot_new_epoch = epoch_next epoch \<rparr>"
    using assms by (auto simp: rotate_vdk_for_survivors_def and_then_Inr Let_def split: if_splits)
  then show "survivors \<noteq> []" "rot_new_vdk art = rr_vdk rng" "rot_new_epoch art = epoch_next epoch"
    "onboard_guardian_escrow c (rr_escrow rng) (rr_vdk rng) vault_id config pubs (epoch_next epoch)
      = Inr (rot_re_split art)" by simp_all
  have all: "length seals = length survivors"
    "\<forall>i < length survivors. seal_survivor c rng vault_id (epoch_next epoch) (i, survivors ! i) = Inr (seals ! i)"
    using parts(2) by (auto simp: collect_results_ok list_all2_conv_all_nth nth_enumerate_eq)
  then show "length (rot_survivor_seals art) = length survivors" using parts(4) by simp
  show "i < length survivors \<Longrightarrow>
          seal_vdk_to_device c (rr_seal rng i) (rr_vdk rng) (sv_x25519_pairing_pub (survivors ! i)) vault_id
            (sv_device_id (survivors ! i)) (to_escrow_bytes (epoch_next epoch))
            = Inr (ss_sealed (rot_survivor_seals art ! i))
        \<and> ss_device_id (rot_survivor_seals art ! i) = sv_device_id (survivors ! i)"
    using all(2)[rule_format, of i] parts(4) by (auto simp: seal_survivor_def and_then_Inr dest: sym)
qed

lemma rotation_rekeys:
  assumes "crypto_ok c" "length (rr_vdk rng) = KEY_LEN" "length (er_rwk (rr_escrow rng)) = KEY_LEN"
    and "length vault_id = VAULT_ID_LEN" "\<forall>(d, sk) \<in> set devices. length d = PAIR_DEVICE_ID_LEN"
    and "survivors = map (\<lambda>(d, sk). \<lparr> sv_device_id = d, sv_x25519_pairing_pub = cr_box_public c sk \<rparr>) devices"
    and "rotate_vdk_for_survivors c rng survivors vault_id config (map (cr_box_public c) sks) epoch = Inr art"
  shows "i < length devices \<Longrightarrow> length d' = PAIR_DEVICE_ID_LEN \<Longrightarrow>
           open_vdk_for_new_device c (ss_sealed (rot_survivor_seals art ! i)) (snd (devices ! i)) vault_id d' e'
             = (if d' = fst (devices ! i) \<and> e' = rot_new_epoch art then Inr (rot_new_vdk art) else Inl PairOpenFailed)"
    and "distinct gs \<Longrightarrow> set gs \<subseteq> {..<length sks} \<Longrightarrow> unat (gs_threshold config) \<le> length gs \<Longrightarrow>
           and_then (map_err Escrow (collect_results (guardian_opens c (rot_re_split art) sks vault_id (rot_new_epoch art)) gs))
             (\<lambda>opened. recover_vdk_from_shares c rng' (oa_wrapped_recovery (rot_re_split art)) opened vault_id config
               pubs' (rot_new_epoch art))
           = and_then (onboard_guardian_escrow c rng' (rot_new_vdk art) vault_id config pubs' (epoch_next (rot_new_epoch art)))
               (\<lambda>re_split. Inr \<lparr> ra_vdk = rot_new_vdk art, ra_re_split = re_split \<rparr>)"
proof -
  note parts = rotate_parts[OF assms(7)]
  show "open_vdk_for_new_device c (ss_sealed (rot_survivor_seals art ! i)) (snd (devices ! i)) vault_id d' e'
      = (if d' = fst (devices ! i) \<and> e' = rot_new_epoch art then Inr (rot_new_vdk art) else Inl PairOpenFailed)"
    if i: "i < length devices" and d': "length d' = PAIR_DEVICE_ID_LEN"
  proof -
    have "length (fst (devices ! i)) = PAIR_DEVICE_ID_LEN" using assms(5) i nth_mem by fastforce
    then show ?thesis
      using vdk_seals.unseal_seal[of c "(vault_id, fst (devices ! i), to_escrow_bytes (epoch_next epoch))"
          "(vault_id, d', to_escrow_bytes e')" "rr_vdk rng" "rr_seal rng i" "snd (devices ! i)"
          "ss_sealed (rot_survivor_seals art ! i)"]
        parts(2,3) parts(5)[of i] assms(1,2,4,6) i d'
      by (simp add: open_vdk_for_new_device_def epoch_bytes_facts case_prod_beta)
  qed
  note on = onboard_escrow_holds[OF assms(1-3) parts(6)]
  obtain shares where h: "escrow_holds c (rot_re_split art) sks vault_id shares (er_rwk (rr_escrow rng)) (rr_vdk rng)"
    using on(1) by blast
  show "and_then (map_err Escrow (collect_results (guardian_opens c (rot_re_split art) sks vault_id (rot_new_epoch art)) gs))
             (\<lambda>opened. recover_vdk_from_shares c rng' (oa_wrapped_recovery (rot_re_split art)) opened vault_id config
               pubs' (rot_new_epoch art))
           = and_then (onboard_guardian_escrow c rng' (rot_new_vdk art) vault_id config pubs' (epoch_next (rot_new_epoch art)))
               (\<lambda>re_split. Inr \<lparr> ra_vdk = rot_new_vdk art, ra_re_split = re_split \<rparr>)"
    if "distinct gs" "set gs \<subseteq> {..<length sks}" "unat (gs_threshold config) \<le> length gs"
    using threshold_recovers[OF assms(1) h assms(4) that(1,2), of rng' pubs' "rot_new_epoch art"] that(3)
    by (simp only: on(2,3) parts(2,3))
qed

text \<open>
  C26. A rotation re-keys exactly the survivors and the guardians: every surviving device opens
  the new data key from its own seal, under its own device id and the new epoch and under no
  other; and any threshold of guardians recovers the new data key from the re-split escrow.
\<close>

theorem rotation_rekeys_survivors:
  assumes "crypto_ok c" "length (rr_vdk rng) = KEY_LEN" "length (er_rwk (rr_escrow rng)) = KEY_LEN"
    and "length vault_id = VAULT_ID_LEN" "\<forall>(d, sk) \<in> set devices. length d = PAIR_DEVICE_ID_LEN"
    and "survivors = map (\<lambda>(d, sk). \<lparr> sv_device_id = d, sv_x25519_pairing_pub = cr_box_public c sk \<rparr>) devices"
    and "rotate_vdk_for_survivors c rng survivors vault_id config (map (cr_box_public c) sks) epoch = Inr art"
  shows "(\<forall>i d' e'. i < length devices \<and> length d' = PAIR_DEVICE_ID_LEN \<longrightarrow>
       open_vdk_for_new_device c (ss_sealed (rot_survivor_seals art ! i)) (snd (devices ! i)) vault_id d' e'
         = (if d' = fst (devices ! i) \<and> e' = rot_new_epoch art then Inr (rot_new_vdk art) else Inl PairOpenFailed))
    \<and> (\<forall>gs rng' pubs'. distinct gs \<and> set gs \<subseteq> {..<length sks} \<and> unat (gs_threshold config) \<le> length gs \<longrightarrow>
       and_then (map_err Escrow (collect_results (guardian_opens c (rot_re_split art) sks vault_id (rot_new_epoch art)) gs))
         (\<lambda>opened. recover_vdk_from_shares c rng' (oa_wrapped_recovery (rot_re_split art)) opened vault_id config
           pubs' (rot_new_epoch art))
       = and_then (onboard_guardian_escrow c rng' (rot_new_vdk art) vault_id config pubs' (epoch_next (rot_new_epoch art)))
           (\<lambda>re_split. Inr \<lparr> ra_vdk = rot_new_vdk art, ra_re_split = re_split \<rparr>))"
  using rotation_rekeys[OF assms] by blast

section \<open>Revocation\<close>

lemma apply_set_event_set:
  "set (apply_set_event s (Bootstrapped x)) = insert x (set s)"
  "set (apply_set_event s (Added x)) = insert x (set s)"
  "set (apply_set_event s (Removed x)) = set s - {x}"
  by (auto simp: apply_set_event_def)

lemma fold_authorized_set_snoc:
  "fold_authorized_set (evs @ [ev]) = apply_set_event (fold_authorized_set evs) ev"
  by (simp add: fold_authorized_set_def)

lemma fold_authorized_set_distinct: "distinct (fold_authorized_set evs)"
proof (induction evs rule: rev_induct)
  case (snoc ev evs)
  then show ?case unfolding fold_authorized_set_snoc by (cases ev) (auto simp: apply_set_event_def)
qed (simp add: fold_authorized_set_def)

lemma resolve_survivors_eq:
  "resolve_survivors signers directory =
     (map (\<lambda>e. \<lparr> sv_device_id = sd_device_id e, sv_x25519_pairing_pub = sd_x25519_pairing_pub e \<rparr>)
        (List.map_filter (\<lambda>x. find (\<lambda>e. sd_signer e = x) directory) signers),
      filter (\<lambda>x. x \<notin> sd_signer ` set directory) signers)"
proof (induction signers)
  case (Cons x signers)
  show ?case
  proof (cases "find (\<lambda>e. sd_signer e = x) directory")
    case None
    then have "x \<notin> sd_signer ` set directory" by (auto simp: find_None_iff)
    then show ?thesis using Cons None by simp
  next
    case (Some e)
    then have "x \<in> sd_signer ` set directory" by (auto simp: find_Some_iff)
    then show ?thesis using Cons Some by simp
  qed
qed simp

lemma resolve_survivors_partition:
  assumes "resolve_survivors signers directory = (survivors, unknown)"
  shows "dev \<in> set survivors \<Longrightarrow> \<exists>e \<in> set directory. sd_signer e \<in> set signers
           \<and> sv_device_id dev = sd_device_id e \<and> sv_x25519_pairing_pub dev = sd_x25519_pairing_pub e"
    and "x \<in> set signers \<Longrightarrow> x \<in> set unknown \<or> (\<exists>e \<in> set directory. sd_signer e = x
           \<and> sd_device_id e \<in> sv_device_id ` set survivors)"
proof -
  let ?found = "\<lambda>x. find (\<lambda>e. sd_signer e = x) directory"
  have found: "e \<in> set directory \<and> sd_signer e = x" if "?found x = Some e" for x e
    using that by (auto simp: find_Some_iff)
  show "\<exists>e \<in> set directory. sd_signer e \<in> set signers
      \<and> sv_device_id dev = sd_device_id e \<and> sv_x25519_pairing_pub dev = sd_x25519_pairing_pub e"
    if dev: "dev \<in> set survivors"
  proof -
    obtain y e where "y \<in> set signers" "?found y = Some e"
      "dev = \<lparr> sv_device_id = sd_device_id e, sv_x25519_pairing_pub = sd_x25519_pairing_pub e \<rparr>"
      using dev assms by (auto simp: resolve_survivors_eq List.map_filter_def)
    moreover from this(2) have "e \<in> set directory" "sd_signer e = y" using found by blast+
    ultimately show ?thesis by (intro bexI[of _ e]) simp_all
  qed
  show "x \<in> set unknown \<or> (\<exists>e \<in> set directory. sd_signer e = x \<and> sd_device_id e \<in> sv_device_id ` set survivors)"
    if "x \<in> set signers"
  proof (cases "?found x")
    case None
    then show ?thesis using that assms by (auto simp: resolve_survivors_eq find_None_iff)
  next
    case (Some e)
    then have "\<lparr> sv_device_id = sd_device_id e, sv_x25519_pairing_pub = sd_x25519_pairing_pub e \<rparr> \<in> set survivors"
      using that assms by (force simp: resolve_survivors_eq List.map_filter_def)
    then show ?thesis using found[OF Some] by force
  qed
qed

lemma revoked_signer:
  assumes "resolve_survivors (fold_authorized_set (evs @ [Removed s])) directory = (survivors, unknown)"
    and "rotate_vdk_for_survivors c rng survivors vault_id config pubs epoch = Inr art"
  shows "seal \<in> set (rot_survivor_seals art) \<Longrightarrow>
           \<exists>e \<in> set directory. sd_signer e \<noteq> s \<and> sd_signer e \<in> set (fold_authorized_set evs)
             \<and> sd_device_id e = ss_device_id seal"
    and "x \<in> set (fold_authorized_set evs) \<Longrightarrow> x \<noteq> s \<Longrightarrow>
           x \<in> set unknown \<or> (\<exists>e \<in> set directory. sd_signer e = x
             \<and> sd_device_id e \<in> ss_device_id ` set (rot_survivor_seals art))"
    and "s \<in> set known \<Longrightarrow> s \<in> set (detect_removed_devices (fold_authorized_set (evs @ [Removed s])) known)"
proof -
  note parts = rotate_parts[OF assms(2)]
  note res = resolve_survivors_partition[OF assms(1)]
  have live: "set (fold_authorized_set (evs @ [Removed s])) = set (fold_authorized_set evs) - {s}"
    by (simp add: fold_authorized_set_snoc apply_set_event_set)
  have "map ss_device_id (rot_survivor_seals art) = map sv_device_id survivors"
    using parts(4,5) by (intro nth_equalityI) simp_all
  then have ids: "ss_device_id ` set (rot_survivor_seals art) = sv_device_id ` set survivors"
    by (metis list.set_map)
  show "\<exists>e \<in> set directory. sd_signer e \<noteq> s \<and> sd_signer e \<in> set (fold_authorized_set evs)
      \<and> sd_device_id e = ss_device_id seal" if sl: "seal \<in> set (rot_survivor_seals art)"
  proof -
    obtain dev where "dev \<in> set survivors" "sv_device_id dev = ss_device_id seal"
      using imageI[OF sl, of ss_device_id] ids by auto
    moreover from this(1) obtain e where "e \<in> set directory" "sd_signer e \<in> set (fold_authorized_set (evs @ [Removed s]))"
      "sv_device_id dev = sd_device_id e" using res(1) by blast
    ultimately show ?thesis using live by (intro bexI[of _ e]) simp_all
  qed
  show "x \<in> set unknown \<or> (\<exists>e \<in> set directory. sd_signer e = x
      \<and> sd_device_id e \<in> ss_device_id ` set (rot_survivor_seals art))"
    if "x \<in> set (fold_authorized_set evs)" "x \<noteq> s"
    using res(2)[of x] that live ids by simp
  show "s \<in> set known \<Longrightarrow> s \<in> set (detect_removed_devices (fold_authorized_set (evs @ [Removed s])) known)"
    using live by (simp add: detect_removed_devices_def)
qed

text \<open>
  C27. A revoked device gets no key and no survivor is forgotten: when the on-chain history ends
  with the removal of a signer, every seal of the rotation belongs to a directory entry of another
  signer that was authorised before, every other authorised signer either has a seal or is
  reported as unknown, and the removed signer is detected on every device that knew it.
\<close>

theorem revoked_signer_excluded:
  assumes "resolve_survivors (fold_authorized_set (evs @ [Removed s])) directory = (survivors, unknown)"
    and "rotate_vdk_for_survivors c rng survivors vault_id config pubs epoch = Inr art"
  shows "(\<forall>seal \<in> set (rot_survivor_seals art). \<exists>e \<in> set directory. sd_signer e \<noteq> s
           \<and> sd_signer e \<in> set (fold_authorized_set evs) \<and> sd_device_id e = ss_device_id seal)
    \<and> (\<forall>x \<in> set (fold_authorized_set evs) - {s}. x \<in> set unknown \<or> (\<exists>e \<in> set directory. sd_signer e = x
           \<and> sd_device_id e \<in> ss_device_id ` set (rot_survivor_seals art)))
    \<and> (\<forall>known. s \<in> set known \<longrightarrow>
           s \<in> set (detect_removed_devices (fold_authorized_set (evs @ [Removed s])) known))"
  using revoked_signer[OF assms] by blast

section \<open>Examples\<close>

text \<open>
  A transparent stand-in for the primitives: sealing tags the message with the recipient, every
  share repeats the secret behind its identifier.
\<close>

definition example_crypto :: crypto where
  "example_crypto = \<lparr>
     cr_encrypt = (\<lambda>k n m a. Some (m @ replicate 16 0)),
     cr_decrypt = (\<lambda>k n ct a. Some (take (length ct - 16) ct)),
     cr_hkdf = (\<lambda>ikm info. take 32 (ikm @ replicate 32 0)),
     cr_sign = (\<lambda>k m. k @ m),
     cr_verifying_key = (\<lambda>k. k),
     cr_box_public = (\<lambda>sk. sk),
     cr_box_seal = (\<lambda>r pk m. Some (of_nat (length pk) # pk @ m)),
     cr_box_unseal = (\<lambda>sk ct. case ct of [] \<Rightarrow> None | _ # xs \<Rightarrow>
        if take (length sk) xs = sk then Some (drop (length sk) xs) else None),
     cr_split_array = (\<lambda>r t n s. if t = 0 \<or> 255 < n then None else Some (map (\<lambda>i. of_nat (Suc i) # s) [0..<n])),
     cr_combine_array = (\<lambda>xs. case xs of [] \<Rightarrow> None | x # _ \<Rightarrow> Some (tl x)),
     cr_sha256 = (\<lambda>bs. replicate 32 0) \<rparr>"

lemma share_ids: "Suc i < 256 \<Longrightarrow> Suc j < 256 \<Longrightarrow> (of_nat (Suc i) :: u8) = of_nat (Suc j) \<longleftrightarrow> i = j"
  and share_id_nonzero: "Suc i < 256 \<Longrightarrow> (of_nat (Suc i) :: u8) \<noteq> 0"
  by (simp_all only: word_unat_eq_iff unat_of_nat) simp_all

lemma example_split_ok:
  assumes "cr_split_array example_crypto r t n s = Some shs"
  shows "length shs = n \<and> distinct shs \<and> (\<forall>sh \<in> set shs. length sh = 1 + length s \<and> sh ! 0 \<noteq> 0)
    \<and> (\<forall>xs. distinct xs \<and> set xs \<subseteq> set shs \<and> t \<le> length xs \<longrightarrow> cr_combine_array example_crypto xs = Some s)"
proof -
  have t: "t \<noteq> 0" "n \<le> 255" and shs: "shs = map (\<lambda>i. of_nat (Suc i) # s) [0..<n]"
    using assms by (auto simp: example_crypto_def split: if_splits)
  have "distinct shs" unfolding shs distinct_map
    using t(2) share_ids by (auto simp: inj_on_def simp del: of_nat_Suc)
  moreover have "(of_nat (Suc i) :: u8) \<noteq> 0" if "i < n" for i using share_id_nonzero that t(2) by simp
  ultimately show ?thesis using t(1) unfolding shs
    by (auto simp: example_crypto_def simp del: of_nat_Suc split: list.splits)
qed

lemma example_crypto_ok: "crypto_ok example_crypto"
  unfolding crypto_ok_def using example_split_ok by (simp add: example_crypto_def min_def)

lemma example_public [simp]: "cr_box_public example_crypto sk = sk"
  by (simp add: example_crypto_def)

definition example_escrow_rng :: escrow_rng where
  "example_escrow_rng = \<lparr> er_rwk = replicate 32 21, er_nonce = replicate 24 22, er_split = [], er_seal = (\<lambda>_. []) \<rparr>"

definition example_config :: GuardianSetConfig where
  "example_config = \<lparr> gs_threshold = 2, gs_guardian_count = 3 \<rparr>"

definition example_guardians :: "bytes list" where
  "example_guardians = [replicate 32 31, replicate 32 32, replicate 32 33]"

definition example_onboarding :: "RecoveryOrchestrationError + OnboardingArtifacts" where
  "example_onboarding = onboard_guardian_escrow example_crypto example_escrow_rng (replicate 32 5) (replicate 32 6)
     example_config (map (cr_box_public example_crypto) example_guardians) 9"

lemma example_onboard_ok:
  "\<exists>art. onboard_guardian_escrow example_crypto example_escrow_rng vdk vault_id example_config
     (map (cr_box_public example_crypto) example_guardians) epoch = Inr art"
proof -
  have "(of_nat (Suc i) :: u8) \<noteq> 0" if "i < 3" for i using share_id_nonzero[of i] that by simp
  then have "collect_results Share_from_bytes (map (\<lambda>i. of_nat (Suc i) # replicate 32 21) [0..<3])
      = Inr (map (\<lambda>i. of_nat (Suc i) # replicate 32 21) [0..<3])"
    by (subst collect_results_ok_map[of _ _ "\<lambda>x. x"])
      (auto simp: Share_from_bytes_def SHARE_ENCODED_LEN_def KEY_LEN_def simp del: of_nat_Suc)
  then show ?thesis
    by (simp add: onboard_guardian_escrow_def example_config_def GuardianSetConfig_validate_def onboard_escrow_def Let_def
        wrap_vdk_under_rwk_def seal_under_key_def aead_key_seal_def rwk_wrap_key_def KEY_LEN_def example_crypto_def
        example_escrow_rng_def split_rwk_def check_bounds_def example_guardians_def seal_assignment_def seal_share_def
        MIN_GUARDIANS_def MAX_GUARDIANS_def MIN_THRESHOLD_def MAX_THRESHOLD_def upt_rec)
qed

lemma example_onboarding_ok: "\<exists>art. example_onboarding = Inr art"
  unfolding example_onboarding_def by (rule example_onboard_ok)

theorem guardian_threshold_recovers_witness:
  "\<exists>art. example_onboarding = Inr art \<and>
     and_then (map_err Escrow (collect_results (guardian_opens example_crypto art example_guardians (replicate 32 6) 9) [2, 0]))
       (\<lambda>opened. recover_vdk_from_shares example_crypto example_escrow_rng (oa_wrapped_recovery art) opened (replicate 32 6)
          example_config (map (cr_box_public example_crypto) example_guardians) 9)
     = and_then (onboard_guardian_escrow example_crypto example_escrow_rng (replicate 32 5) (replicate 32 6) example_config
          (map (cr_box_public example_crypto) example_guardians) (epoch_next 9))
          (\<lambda>re_split. Inr \<lparr> ra_vdk = replicate 32 5, ra_re_split = re_split \<rparr>)"
proof -
  obtain art where art: "example_onboarding = Inr art" using example_onboarding_ok by blast
  show ?thesis
  proof (intro exI conjI)
    show "example_onboarding = Inr art" by (fact art)
  qed (rule guardian_threshold_recovers[OF example_crypto_ok _ _ _ art[unfolded example_onboarding_def]];
      simp add: KEY_LEN_def example_escrow_rng_def VAULT_ID_LEN_def example_guardians_def example_config_def)
qed

theorem stale_shares_refused_witness:
  "\<exists>art. example_onboarding = Inr art
     \<and> guardian_opens example_crypto art example_guardians (replicate 32 6) 8 1 = Inl OpenFailed"
proof -
  obtain art where art: "example_onboarding = Inr art" using example_onboarding_ok by blast
  show ?thesis
    using stale_shares_refused[OF example_crypto_ok _ _ _ art[unfolded example_onboarding_def], of 1 "replicate 32 6" 8] art
    by (intro exI[of _ art]) (simp add: KEY_LEN_def example_escrow_rng_def VAULT_ID_LEN_def example_guardians_def)
qed

definition example_rotation_rng :: rotation_rng where
  "example_rotation_rng = \<lparr> rr_vdk = replicate 32 77, rr_seal = (\<lambda>_. []), rr_escrow = example_escrow_rng \<rparr>"

definition example_directory :: "SurvivorDirectoryEntry list" where
  "example_directory = [
     \<lparr> sd_signer = replicate 20 1, sd_device_id = replicate 32 41, sd_x25519_pairing_pub = replicate 32 51 \<rparr>,
     \<lparr> sd_signer = replicate 20 2, sd_device_id = replicate 32 42, sd_x25519_pairing_pub = replicate 32 52 \<rparr>]"

definition example_history :: "SetMgmtEvent list" where
  "example_history = [Bootstrapped (replicate 20 1), Added (replicate 20 2), Added (replicate 20 3)]"

definition example_rotation :: "RotationError + RotationArtifacts" where
  "example_rotation = rotate_vdk_for_survivors example_crypto example_rotation_rng
     (fst (resolve_survivors (fold_authorized_set (example_history @ [Removed (replicate 20 2)])) example_directory))
     (replicate 32 6) example_config (map (cr_box_public example_crypto) example_guardians) 9"

lemma example_survivors:
  "resolve_survivors (fold_authorized_set (example_history @ [Removed (replicate 20 2)])) example_directory
     = ([\<lparr> sv_device_id = replicate 32 41, sv_x25519_pairing_pub = replicate 32 51 \<rparr>], [replicate 20 3])"
  by code_simp

lemma example_rotation_ok: "\<exists>art. example_rotation = Inr art"
proof -
  obtain re where "onboard_guardian_escrow example_crypto example_escrow_rng (replicate 32 77) (replicate 32 6) example_config
     (map (cr_box_public example_crypto) example_guardians) (epoch_next 9) = Inr re"
    using example_onboard_ok by blast
  moreover have "cr_box_seal example_crypto r pk m = Some (of_nat (length pk) # pk @ m)" for r pk m
    by (simp add: example_crypto_def)
  ultimately show ?thesis unfolding example_rotation_def example_survivors
    by (simp add: rotate_vdk_for_survivors_def example_rotation_rng_def seal_survivor_def seal_vdk_to_device_def Let_def)
qed

theorem rotation_rekeys_survivors_witness:
  "\<exists>art. example_rotation = Inr art
     \<and> open_vdk_for_new_device example_crypto (ss_sealed (rot_survivor_seals art ! 0)) (replicate 32 51) (replicate 32 6)
         (replicate 32 41) 10 = Inr (replicate 32 77)"
proof -
  obtain art where art: "example_rotation = Inr art" using example_rotation_ok by blast
  have ep: "rot_new_epoch art = 10" "rot_new_vdk art = replicate 32 77"
    using rotate_parts(2,3)[OF art[unfolded example_rotation_def]]
    by (simp_all add: epoch_next_def sat_add_def example_rotation_rng_def)
  show ?thesis
    using rotation_rekeys_survivors[OF example_crypto_ok _ _ _ _ _ art[unfolded example_rotation_def example_survivors fst_conv],
        of "[(replicate 32 41, replicate 32 51)]", THEN conjunct1, rule_format, of 0 "replicate 32 41" 10] art ep
    by (intro exI[of _ art]) (simp add: KEY_LEN_def example_escrow_rng_def example_rotation_rng_def VAULT_ID_LEN_def
        PAIR_DEVICE_ID_LEN_def)
qed

theorem revoked_signer_excluded_witness:
  "\<exists>art. example_rotation = Inr art
     \<and> replicate 20 2 \<in> set (detect_removed_devices (fold_authorized_set (example_history @ [Removed (replicate 20 2)]))
          [replicate 20 1, replicate 20 2])
     \<and> replicate 32 42 \<notin> ss_device_id ` set (rot_survivor_seals art)"
proof -
  obtain art where art: "example_rotation = Inr art" using example_rotation_ok by blast
  note ex = revoked_signer_excluded[OF example_survivors art[unfolded example_rotation_def example_survivors fst_conv]]
  have "ss_device_id seal \<noteq> replicate 32 42" if "seal \<in> set (rot_survivor_seals art)" for seal
    using conjunct1[OF ex, rule_format, OF that] by (auto simp: example_directory_def)
  moreover have "replicate 20 2 \<in> set (detect_removed_devices
      (fold_authorized_set (example_history @ [Removed (replicate 20 2)])) [replicate 20 1, replicate 20 2])"
    using conjunct2[OF conjunct2[OF ex], rule_format, of "[replicate 20 1, replicate 20 2]"] by simp
  ultimately show ?thesis using art by (intro exI[of _ art]) (force simp: image_iff)
qed

end
