(* ===== verification/Key_Tables.thy ===== *)
theory Key_Tables
  imports Vault_Forks Recovery_Rotation
begin

text \<open>
  The tables that hold key material and their readers and writers: password derivation
  (\<open>crates/pangolin-crypto/src/kdf.rs\<close>), the \<open>meta\<close> row (\<open>crates/pangolin-store/src/meta.rs\<close>), the
  chain of retained data keys (\<open>vdk_chain.rs\<close>), the guardian escrow (\<open>recovery_escrow.rs\<close>), the
  device identity and its sealed seed (\<open>device.rs\<close>), the wallet derivation
  (\<open>crates/pangolin-chain/src/evm.rs\<close>) and the multi-device tables (\<open>multi_device.rs\<close>). A table is
  the list of its rows, a nullable column an option. Argon2id, the scalar check of secp256k1 and the
  address of a scalar come from external crates and are parameters. The lemmas show that what a
  writer stores its reader returns, and the laws of the rotation queue.
\<close>

section \<open>Password derivation (kdf.rs)\<close>

definition SALT_LEN :: nat where "SALT_LEN = 16"

definition MIN_MEMORY_KIB :: u32 where "MIN_MEMORY_KIB = 64 * 1024"

definition MIN_TIME_COST :: u32 where "MIN_TIME_COST = 3"

definition MIN_PARALLELISM :: u32 where "MIN_PARALLELISM = 1"

record KdfParams =
  kp_memory_kib :: u32
  kp_time_cost :: u32
  kp_parallelism :: u32

definition RECOMMENDED :: KdfParams where
  "RECOMMENDED = \<lparr> kp_memory_kib = 256 * 1024, kp_time_cost = 3, kp_parallelism = 1 \<rparr>"

datatype KdfError = SaltTooShort | ParamsTooWeak | KdfInternal

definition KdfParams_validate :: "KdfParams \<Rightarrow> KdfError + unit" where
  "KdfParams_validate p =
     (if kp_memory_kib p < MIN_MEMORY_KIB then Inl ParamsTooWeak
      else if kp_time_cost p < MIN_TIME_COST then Inl ParamsTooWeak
      else if kp_parallelism p < MIN_PARALLELISM then Inl ParamsTooWeak
      else Inr ())"

text \<open>Argon2id: password, salt, parameters; \<open>None\<close> when the crate refuses them.\<close>

type_synonym argon2 = "bytes \<Rightarrow> bytes \<Rightarrow> KdfParams \<Rightarrow> bytes option"

definition derive_seed :: "argon2 \<Rightarrow> bytes \<Rightarrow> bytes \<Rightarrow> KdfParams \<Rightarrow> KdfError + bytes" where
  "derive_seed argon password salt params =
     and_then (KdfParams_validate params) (\<lambda>_. ok_or (argon password salt params) KdfInternal)"

text \<open>Every failure of the AEAD or of the derivation becomes the one store error.\<close>

definition auth_err :: "'e + 'a \<Rightarrow> StoreError + 'a" where
  "auth_err r = map_err (\<lambda>_. AuthenticationFailed) r"

section \<open>The meta row (meta.rs)\<close>

record VaultMeta =
  vm_vault_id :: bytes
  vm_created_at :: int
  vm_kdf_params :: KdfParams
  vm_kdf_salt :: bytes
  vm_wrap_context :: WrapContext
  vm_wrapped_ciphertext :: bytes
  vm_wrapped_nonce :: bytes

definition wrapped_vdk :: "VaultMeta \<Rightarrow> WrappedVdk" where
  "wrapped_vdk m =
     \<lparr> wv_ciphertext = vm_wrapped_ciphertext m, wv_nonce = vm_wrapped_nonce m, wv_ctx = vm_wrap_context m \<rparr>"

section \<open>The key tables\<close>

record VdkChainRow =
  vc_epoch :: int
  vc_anchor_ct :: bytes
  vc_anchor_nonce :: bytes
  vc_anchor_wrap_schema :: int
  vc_device_ct :: bytes
  vc_device_nonce :: bytes
  vc_device_wrap_schema :: int
  vc_schema_version :: int

record EscrowRow =
  es_wrapped_ct :: bytes
  es_wrapped_nonce :: bytes
  es_wrap_schema_version :: int
  es_threshold :: int
  es_guardian_count :: int
  es_epoch :: int
  es_schema_version :: int

record GuardianRow =
  gr_guardian_index :: int
  gr_guardian_x25519_pub :: bytes
  gr_guardian_signer :: bytes
  gr_enc_sealed_share :: bytes
  gr_enc_nonce :: bytes
  gr_schema_version :: int

record DeviceKeyRow =
  dk_enc_seed :: bytes
  dk_enc_nonce :: bytes
  dk_schema_version :: int

record DeviceRow =
  dr_device_id :: DeviceId
  dr_label :: bytes
  dr_added_at :: int
  dr_capabilities :: int
  dr_last_sync_at :: "int option"
  dr_public_key :: "bytes option"
  dr_schema_version :: int
  dr_evm_address :: "bytes option"
  dr_discovered_via_chain_sync :: int
  dr_discovered_at_block :: "int option"

record DirectoryRow =
  dd_signer :: bytes
  dd_device_id :: bytes
  dd_pairing_pub :: bytes
  dd_discovered_at :: int

record RotationPendingRow =
  rp_removed_signer :: bytes
  rp_observed_epoch :: int
  rp_observed_at :: int
  rp_resolved :: int

text \<open>
  The \<open>meta\<close> row is the part that \<open>meta::write\<close> lists, \<open>kt_meta\<close>, and the columns it does not:
  \<open>kt_sync_mode_preference\<close> and \<open>kt_revisionlog_version\<close> here, the idle choice in the vault state.
  The handle's copy of the row is replaced after the commit that writes it and never otherwise, so
  one field stands for both.
\<close>

record KeyTables =
  kt_meta :: VaultMeta
  kt_sync_mode_preference :: "string option"
  kt_revisionlog_version :: "int option"
  kt_chain_state :: "int option"
  kt_chain :: "VdkChainRow list"
  kt_escrow :: "EscrowRow option"
  kt_guardians :: "GuardianRow list"
  kt_device_key :: "DeviceKeyRow option"
  kt_devices :: "DeviceRow list"
  kt_directory :: "DirectoryRow list"
  kt_rotation_pending :: "RotationPendingRow list"

text \<open>
  \<open>meta::write\<close> is \<open>INSERT OR REPLACE\<close> on the listed columns: SQLite deletes the old row, so the
  columns that are not listed become \<open>NULL\<close>.
\<close>

definition meta_write :: "VaultMeta \<Rightarrow> KeyTables \<Rightarrow> KeyTables" where
  "meta_write m t = t \<lparr> kt_meta := m, kt_sync_mode_preference := None, kt_revisionlog_version := None \<rparr>"

datatype RevisionLogVersion = V1 | V2

definition RevisionLogVersion_from_meta_int :: "int option \<Rightarrow> StoreError + RevisionLogVersion" where
  "RevisionLogVersion_from_meta_int v =
     (case v of None \<Rightarrow> Inr V1
      | Some n \<Rightarrow> if n = 1 then Inr V1 else if n = 2 then Inr V2
                  else Inl (Corrupted ''meta.revisionlog_version not one of {1, 2}''))"

fun RevisionLogVersion_to_meta_int :: "RevisionLogVersion \<Rightarrow> int" where
  "RevisionLogVersion_to_meta_int V1 = 1"
| "RevisionLogVersion_to_meta_int V2 = 2"

definition revisionlog_version :: "KeyTables \<Rightarrow> StoreError + RevisionLogVersion" where
  "revisionlog_version t = RevisionLogVersion_from_meta_int (kt_revisionlog_version t)"

definition set_revisionlog_version :: "RevisionLogVersion \<Rightarrow> KeyTables \<Rightarrow> KeyTables" where
  "set_revisionlog_version v t = t \<lparr> kt_revisionlog_version := Some (RevisionLogVersion_to_meta_int v) \<rparr>"

definition u16_try_from :: "int \<Rightarrow> u16 option" where
  "u16_try_from v = (if 0 \<le> v \<and> v \<le> 65535 then Some (word_of_int v) else None)"

section \<open>The chain of data keys (vdk\_chain.rs)\<close>

definition VDK_CHAIN_SCHEMA_VERSION :: u16 where "VDK_CHAIN_SCHEMA_VERSION = 1"

record StoredEpochVdk =
  se_epoch :: u64
  se_password_anchor :: WrappedVdk
  se_device_wrapped :: WrappedVdk

record VdkChain =
  ch_retained :: "u64 \<rightharpoonup> bytes"
  ch_current_epoch :: u64

definition aead_for_epoch :: "VdkChain \<Rightarrow> u64 \<Rightarrow> bytes option" where
  "aead_for_epoch chain epoch = ch_retained chain epoch"

definition read_current_epoch :: "KeyTables \<Rightarrow> StoreError + u64" where
  "read_current_epoch t =
     (case kt_chain_state t of
        None \<Rightarrow> Inr 0
      | Some e \<Rightarrow> ok_or (u64_try_from e) (Corrupted ''vdk_chain_state.epoch negative''))"

definition decode_nonce :: "bytes \<Rightarrow> string \<Rightarrow> StoreError + bytes" where
  "decode_nonce blob what =
     (if length blob = NONCE_LEN then Inr blob else Inl (Corrupted (what @ '' length'')))"

definition decode_schema_u8 :: "int \<Rightarrow> string \<Rightarrow> StoreError + u8" where
  "decode_schema_u8 v what = ok_or (u8_try_from v) (Corrupted (what @ '' out of u8''))"

definition decode_chain_row :: "bytes \<Rightarrow> VdkChainRow \<Rightarrow> StoreError + StoredEpochVdk" where
  "decode_chain_row vault_id raw =
     and_then (ok_or (u16_try_from (vc_schema_version raw))
         (Corrupted ''vdk_chain.schema_version out of u16'')) (\<lambda>schema.
     if VDK_CHAIN_SCHEMA_VERSION < schema
     then Inl (UnsupportedFormatVersion (ucast schema) (ucast VDK_CHAIN_SCHEMA_VERSION))
     else and_then (ok_or (u64_try_from (vc_epoch raw)) (Corrupted ''vdk_chain.epoch negative'')) (\<lambda>epoch.
     and_then (decode_nonce (vc_anchor_nonce raw) ''vdk_chain.anchor_nonce'') (\<lambda>an.
     and_then (decode_schema_u8 (vc_anchor_wrap_schema raw) ''vdk_chain.anchor_wrap_schema'') (\<lambda>as.
     and_then (decode_nonce (vc_device_nonce raw) ''vdk_chain.device_nonce'') (\<lambda>dn.
     and_then (decode_schema_u8 (vc_device_wrap_schema raw) ''vdk_chain.device_wrap_schema'') (\<lambda>ds.
     Inr \<lparr> se_epoch = epoch,
           se_password_anchor = \<lparr> wv_ciphertext = vc_anchor_ct raw, wv_nonce = an,
             wv_ctx = \<lparr> wc_vault_id = vault_id, wc_schema_version = as \<rparr> \<rparr>,
           se_device_wrapped = \<lparr> wv_ciphertext = vc_device_ct raw, wv_nonce = dn,
             wv_ctx = \<lparr> wc_vault_id = vault_id, wc_schema_version = ds \<rparr> \<rparr> \<rparr>))))))"

definition read_chain :: "KeyTables \<Rightarrow> bytes \<Rightarrow> StoreError + StoredEpochVdk list" where
  "read_chain t vault_id = collect_results (decode_chain_row vault_id) (sort_key vc_epoch (kt_chain t))"

fun load_retained :: "crypto \<Rightarrow> bytes \<Rightarrow> u64 \<Rightarrow> (u64 \<rightharpoonup> bytes) \<Rightarrow> StoredEpochVdk list
    \<Rightarrow> StoreError + (u64 \<rightharpoonup> bytes)" where
  "load_retained c authority current retained [] = Inr retained"
| "load_retained c authority current retained (s # rest) =
     (if se_epoch s = current then load_retained c authority current retained rest
      else and_then (auth_err (unwrap_with c (se_password_anchor s) authority)) (\<lambda>vdk.
        load_retained c authority current (retained(se_epoch s \<mapsto> vdk)) rest))"

definition build_on_unlock :: "crypto \<Rightarrow> KeyTables \<Rightarrow> bytes \<Rightarrow> bytes \<Rightarrow> StoreError + VdkChain" where
  "build_on_unlock c t vault_id authority =
     and_then (read_current_epoch t) (\<lambda>current_epoch.
     and_then (read_chain t vault_id) (\<lambda>rows.
     and_then (load_retained c authority current_epoch Map.empty rows) (\<lambda>retained.
     Inr \<lparr> ch_retained = retained, ch_current_epoch = current_epoch \<rparr>)))"

definition chain_row :: "int \<Rightarrow> WrappedVdk \<Rightarrow> WrappedVdk \<Rightarrow> VdkChainRow" where
  "chain_row retained_i password_anchor dev =
     \<lparr> vc_epoch = retained_i, vc_anchor_ct = wv_ciphertext password_anchor,
       vc_anchor_nonce = wv_nonce password_anchor,
       vc_anchor_wrap_schema = uint (wc_schema_version (wv_ctx password_anchor)),
       vc_device_ct = wv_ciphertext dev, vc_device_nonce = wv_nonce dev,
       vc_device_wrap_schema = uint (wc_schema_version (wv_ctx dev)),
       vc_schema_version = uint VDK_CHAIN_SCHEMA_VERSION \<rparr>"

definition append_retained_and_advance_tx :: "u64 \<Rightarrow> WrappedVdk \<Rightarrow> WrappedVdk \<Rightarrow> u64 \<Rightarrow> KeyTables
    \<Rightarrow> StoreError + KeyTables" where
  "append_retained_and_advance_tx retained_epoch password_anchor dev new_current_epoch t =
     and_then (ok_or (i64_try_from retained_epoch) (Corrupted ''vdk_chain.epoch overflows i64'')) (\<lambda>retained_i.
     and_then (ok_or (i64_try_from new_current_epoch) (Corrupted ''vdk_chain_state.epoch overflows i64'')) (\<lambda>new_current_i.
     Inr (t \<lparr> kt_chain := filter (\<lambda>r. vc_epoch r \<noteq> retained_i) (kt_chain t)
                @ [chain_row retained_i password_anchor dev],
              kt_chain_state := Some new_current_i \<rparr>)))"

section \<open>The guardian escrow (recovery\_escrow.rs)\<close>

definition RECOVERY_ESCROW_SCHEMA_VERSION :: u16 where "RECOVERY_ESCROW_SCHEMA_VERSION = 2"

definition GUARDIAN_SIGNER_LEN :: nat where "GUARDIAN_SIGNER_LEN = 20"

definition RECOVERY_SHARE_AAD_DOMAIN :: bytes where
  "RECOVERY_SHARE_AAD_DOMAIN = ascii ''pgresh0'' @ [0]"

definition recovery_share_aad :: "bytes \<Rightarrow> u64 \<Rightarrow> u8 \<Rightarrow> bytes" where
  "recovery_share_aad vault_id epoch guardian_index =
     RECOVERY_SHARE_AAD_DOMAIN @ vault_id @ replicate 8 0 @ u64_to_be_bytes epoch @ [guardian_index]"

record GuardianRecord =
  gd_index :: u8
  gd_guardian_x25519_pub :: bytes
  gd_signer :: bytes
  gd_sealed_share :: bytes

record StoredRecoveryEscrow =
  sr_wrapped_recovery :: WrappedVdk
  sr_threshold :: u8
  sr_guardian_count :: u8
  sr_epoch :: u64
  sr_guardians :: "GuardianRecord list"

definition insert_guardian :: "GuardianRow \<Rightarrow> GuardianRow list \<Rightarrow> GuardianRow list" where
  "insert_guardian row rows = filter (\<lambda>r. gr_guardian_index r \<noteq> gr_guardian_index row) rows @ [row]"

fun write_guardians :: "crypto \<Rightarrow> (nat \<Rightarrow> bytes) \<Rightarrow> bytes \<Rightarrow> bytes \<Rightarrow> u64 \<Rightarrow> nat \<Rightarrow> GuardianRecord list
    \<Rightarrow> GuardianRow list \<Rightarrow> StoreError + GuardianRow list" where
  "write_guardians c nonces vault_id vdk epoch k [] rows = Inr rows"
| "write_guardians c nonces vault_id vdk epoch k (g # rest) rows =
     and_then (auth_err (aead_key_seal c vdk (nonces k) (gd_sealed_share g)
         (recovery_share_aad vault_id epoch (gd_index g)))) (\<lambda>enc.
       write_guardians c nonces vault_id vdk epoch (Suc k) rest
         (insert_guardian \<lparr> gr_guardian_index = uint (gd_index g),
            gr_guardian_x25519_pub = gd_guardian_x25519_pub g, gr_guardian_signer = gd_signer g,
            gr_enc_sealed_share = enc, gr_enc_nonce = nonces k,
            gr_schema_version = uint RECOVERY_ESCROW_SCHEMA_VERSION \<rparr> rows))"

definition write_recovery_escrow_tx :: "crypto \<Rightarrow> (nat \<Rightarrow> bytes) \<Rightarrow> bytes \<Rightarrow> bytes \<Rightarrow> WrappedVdk \<Rightarrow> u8 \<Rightarrow> u8
    \<Rightarrow> u64 \<Rightarrow> GuardianRecord list \<Rightarrow> KeyTables \<Rightarrow> StoreError + KeyTables" where
  "write_recovery_escrow_tx c nonces vault_id vdk wrapped_recovery threshold guardian_count epoch guardians t =
     and_then (ok_or (i64_try_from epoch) (Corrupted ''recovery_escrow.epoch overflows i64'')) (\<lambda>epoch_i.
     and_then (write_guardians c nonces vault_id vdk epoch 0 guardians []) (\<lambda>rows.
     Inr (t \<lparr> kt_escrow := Some \<lparr> es_wrapped_ct = wv_ciphertext wrapped_recovery,
                es_wrapped_nonce = wv_nonce wrapped_recovery,
                es_wrap_schema_version = uint (wc_schema_version (wv_ctx wrapped_recovery)),
                es_threshold = uint threshold, es_guardian_count = uint guardian_count,
                es_epoch = epoch_i, es_schema_version = uint RECOVERY_ESCROW_SCHEMA_VERSION \<rparr>,
              kt_guardians := rows \<rparr>)))"

record EscrowMetaRow =
  em_wrapped_ct :: bytes
  em_wrapped_nonce :: bytes
  em_wrap_schema_version :: u8
  em_threshold :: u8
  em_guardian_count :: u8
  em_epoch :: u64
  em_schema_version :: u16

definition read_escrow_meta_row :: "KeyTables \<Rightarrow> StoreError + EscrowMetaRow option" where
  "read_escrow_meta_row t =
     (case kt_escrow t of
        None \<Rightarrow> Inr None
      | Some r \<Rightarrow>
          and_then (ok_or (u8_try_from (es_wrap_schema_version r))
            (Corrupted ''recovery_escrow.wrap_schema_version out of u8'')) (\<lambda>wrap_schema.
          and_then (ok_or (u8_try_from (es_threshold r))
            (Corrupted ''recovery_escrow.threshold out of u8'')) (\<lambda>threshold.
          and_then (ok_or (u8_try_from (es_guardian_count r))
            (Corrupted ''recovery_escrow.guardian_count out of u8'')) (\<lambda>guardian_count.
          and_then (ok_or (u64_try_from (es_epoch r))
            (Corrupted ''recovery_escrow.epoch negative'')) (\<lambda>epoch.
          and_then (ok_or (u16_try_from (es_schema_version r))
            (Corrupted ''recovery_escrow.schema_version out of u16'')) (\<lambda>schema.
          Inr (Some \<lparr> em_wrapped_ct = es_wrapped_ct r, em_wrapped_nonce = es_wrapped_nonce r,
            em_wrap_schema_version = wrap_schema, em_threshold = threshold,
            em_guardian_count = guardian_count, em_epoch = epoch, em_schema_version = schema \<rparr>)))))))"

definition decode_guardian_row :: "crypto \<Rightarrow> bytes \<Rightarrow> u64 \<Rightarrow> bytes \<Rightarrow> GuardianRow \<Rightarrow> StoreError + GuardianRecord" where
  "decode_guardian_row c vault_id epoch vdk raw =
     and_then (ok_or (u16_try_from (gr_schema_version raw))
       (Corrupted ''recovery_guardians.schema_version out of u16'')) (\<lambda>g_schema.
     if RECOVERY_ESCROW_SCHEMA_VERSION < g_schema
     then Inl (UnsupportedFormatVersion (ucast g_schema) (ucast RECOVERY_ESCROW_SCHEMA_VERSION))
     else and_then (ok_or (u8_try_from (gr_guardian_index raw))
       (Corrupted ''recovery_guardians.guardian_index out of u8'')) (\<lambda>index.
     if length (gr_guardian_x25519_pub raw) \<noteq> 32
     then Inl (Corrupted ''recovery_guardians.guardian_x25519_pub length'')
     else if length (gr_guardian_signer raw) \<noteq> GUARDIAN_SIGNER_LEN
     then Inl (Corrupted ''recovery_guardians.guardian_signer length'')
     else if list_all (\<lambda>b. b = 0) (gr_guardian_signer raw)
     then Inl (Corrupted ''recovery_guardians.guardian_signer is all-zero'')
     else if length (gr_enc_nonce raw) \<noteq> NONCE_LEN
     then Inl (Corrupted ''recovery_guardians.enc_nonce length'')
     else and_then (auth_err (aead_key_open c vdk (gr_enc_nonce raw) (gr_enc_sealed_share raw)
         (recovery_share_aad vault_id epoch index))) (\<lambda>plaintext.
     Inr \<lparr> gd_index = index, gd_guardian_x25519_pub = gr_guardian_x25519_pub raw,
           gd_signer = gr_guardian_signer raw, gd_sealed_share = plaintext \<rparr>)))"

definition read_recovery_escrow :: "crypto \<Rightarrow> bytes \<Rightarrow> bytes \<Rightarrow> KeyTables
    \<Rightarrow> StoreError + StoredRecoveryEscrow option" where
  "read_recovery_escrow c vault_id vdk t =
     and_then (read_escrow_meta_row t) (\<lambda>row.
     case row of
       None \<Rightarrow> Inr None
     | Some meta \<Rightarrow>
         if RECOVERY_ESCROW_SCHEMA_VERSION < em_schema_version meta
         then Inl (UnsupportedFormatVersion (ucast (em_schema_version meta)) (ucast RECOVERY_ESCROW_SCHEMA_VERSION))
         else if length (em_wrapped_nonce meta) \<noteq> NONCE_LEN
         then Inl (Corrupted ''recovery_escrow.wrapped_nonce length'')
         else and_then (collect_results (decode_guardian_row c vault_id (em_epoch meta) vdk)
                (sort_key gr_guardian_index (kt_guardians t))) (\<lambda>guardians.
         Inr (Some \<lparr> sr_wrapped_recovery = \<lparr> wv_ciphertext = em_wrapped_ct meta,
               wv_nonce = em_wrapped_nonce meta,
               wv_ctx = \<lparr> wc_vault_id = vault_id, wc_schema_version = em_wrap_schema_version meta \<rparr> \<rparr>,
             sr_threshold = em_threshold meta, sr_guardian_count = em_guardian_count meta,
             sr_epoch = em_epoch meta, sr_guardians = guardians \<rparr>)))"

section \<open>The wallet (evm.rs)\<close>

definition DERIVATION_MESSAGE :: bytes where
  "DERIVATION_MESSAGE = ascii ''pangolin-chain-evm-wallet-derive-v0''"

definition HKDF_INFO :: bytes where "HKDF_INFO = ascii ''pangolin-chain-evm-wallet-v0''"

definition MAX_DERIVATION_ATTEMPTS :: nat where "MAX_DERIVATION_ATTEMPTS = 255"

text \<open>
  The secp256k1 crate: whether 32 bytes are a valid scalar, and the address of a scalar. A wallet is
  its scalar; the derivation takes the first candidate that is one.
\<close>

record secp256k1 =
  ec_valid_scalar :: "bytes \<Rightarrow> bool"
  ec_address :: "bytes \<Rightarrow> bytes"

definition wallet_candidate :: "crypto \<Rightarrow> bytes \<Rightarrow> nat \<Rightarrow> bytes" where
  "wallet_candidate c device counter =
     cr_hkdf c (cr_sign c device DERIVATION_MESSAGE) (HKDF_INFO @ [of_nat counter])"

definition derive_evm_wallet :: "crypto \<Rightarrow> secp256k1 \<Rightarrow> bytes \<Rightarrow> bytes option" where
  "derive_evm_wallet c ec device =
     find (ec_valid_scalar ec) (map (wallet_candidate c device) [0..<Suc MAX_DERIVATION_ATTEMPTS])"

definition derive_evm_address :: "crypto \<Rightarrow> secp256k1 \<Rightarrow> bytes \<Rightarrow> bytes option" where
  "derive_evm_address c ec device = map_option (ec_address ec) (derive_evm_wallet c ec device)"

section \<open>The device identity (device.rs)\<close>

definition DEVICE_IDENTITY_SCHEMA_VERSION :: u16 where "DEVICE_IDENTITY_SCHEMA_VERSION = 1"

definition EVM_ADDRESS_LEN :: nat where "EVM_ADDRESS_LEN = 20"

definition SECRET_KEY_LEN :: nat where "SECRET_KEY_LEN = 32"

definition DEVICE_KEY_AAD_DOMAIN :: bytes where "DEVICE_KEY_AAD_DOMAIN = ascii ''pgdvk0'' @ [0, 0]"

definition device_key_aad :: "bytes \<Rightarrow> DeviceId \<Rightarrow> bytes" where
  "device_key_aad vault_id dev_id = DEVICE_KEY_AAD_DOMAIN @ vault_id @ did_bytes dev_id"

definition device_id_from_key :: "crypto \<Rightarrow> bytes \<Rightarrow> DeviceId" where
  "device_id_from_key c key = DeviceId (cr_verifying_key c key)"

text \<open>\<open>ORDER BY added_at ASC, device_id ASC LIMIT 1\<close>.\<close>

definition read_registered_device_id :: "KeyTables \<Rightarrow> StoreError + DeviceId option" where
  "read_registered_device_id t =
     (case sort_key (\<lambda>r. (dr_added_at r, did_bytes (dr_device_id r))) (kt_devices t) of
        [] \<Rightarrow> Inr None
      | r # _ \<Rightarrow> if length (did_bytes (dr_device_id r)) = 32 then Inr (Some (dr_device_id r))
                 else Inl (Corrupted ''devices.device_id not 32 bytes''))"

definition backfill_evm_address_if_missing :: "crypto \<Rightarrow> secp256k1 \<Rightarrow> bytes \<Rightarrow> DeviceId \<Rightarrow> KeyTables
    \<Rightarrow> StoreError + KeyTables" where
  "backfill_evm_address_if_missing c ec key dev_id t =
     (let existing = (case find (\<lambda>r. dr_device_id r = dev_id) (kt_devices t) of
                        None \<Rightarrow> None | Some r \<Rightarrow> dr_evm_address r)
      in and_then (ok_or (derive_evm_address c ec key)
           (Corrupted ''evm address derivation failed during backfill'')) (\<lambda>address.
         case existing of
           Some cached \<Rightarrow>
             if length cached \<noteq> EVM_ADDRESS_LEN
             then Inl (Corrupted ''devices.evm_address (cached) length'')
             else if cached = address then Inr t
             else Inl (Corrupted ''devices.evm_address (cached) does not match address derived from device key'')
         | None \<Rightarrow>
             if dev_id \<notin> dr_device_id ` set (kt_devices t)
             then Inl (Corrupted ''devices row vanished mid-backfill of evm_address'')
             else Inr (t \<lparr> kt_devices := map (\<lambda>r. if dr_device_id r = dev_id
                     then r \<lparr> dr_evm_address := Some address \<rparr> else r) (kt_devices t) \<rparr>)))"

definition load_device_key_with_id :: "crypto \<Rightarrow> secp256k1 \<Rightarrow> bytes \<Rightarrow> bytes \<Rightarrow> DeviceId \<Rightarrow> KeyTables
    \<Rightarrow> StoreError + (bytes \<times> KeyTables) option" where
  "load_device_key_with_id c ec vault_id vdk dev_id t =
     (case kt_device_key t of
        None \<Rightarrow> Inr None
      | Some row \<Rightarrow>
          and_then (ok_or (u16_try_from (dk_schema_version row))
            (Corrupted ''device_key.schema_version out of u16 range'')) (\<lambda>schema.
          if DEVICE_IDENTITY_SCHEMA_VERSION < schema
          then Inl (UnsupportedFormatVersion (ucast schema) (ucast DEVICE_IDENTITY_SCHEMA_VERSION))
          else if length (dk_enc_nonce row) \<noteq> NONCE_LEN
          then Inl (Corrupted ''device_key.enc_nonce length mismatch'')
          else and_then (auth_err (aead_key_open c vdk (dk_enc_nonce row) (dk_enc_seed row)
                 (device_key_aad vault_id dev_id))) (\<lambda>seed.
          if length seed \<noteq> SECRET_KEY_LEN then Inl AuthenticationFailed
          else if device_id_from_key c seed \<noteq> dev_id then Inl AuthenticationFailed
          else and_then (backfill_evm_address_if_missing c ec seed dev_id t) (\<lambda>t'.
          Inr (Some (seed, t'))))))"

datatype DeviceCapabilities = Full

fun DeviceCapabilities_to_repr :: "DeviceCapabilities \<Rightarrow> int" where
  "DeviceCapabilities_to_repr Full = 0"

definition device_key_row :: "bytes \<Rightarrow> bytes \<Rightarrow> DeviceKeyRow" where
  "device_key_row ct nonce =
     \<lparr> dk_enc_seed = ct, dk_enc_nonce = nonce, dk_schema_version = uint DEVICE_IDENTITY_SCHEMA_VERSION \<rparr>"

definition reseal_device_key_tx :: "crypto \<Rightarrow> bytes \<Rightarrow> bytes \<Rightarrow> bytes \<Rightarrow> bytes \<Rightarrow> KeyTables \<Rightarrow> StoreError + KeyTables" where
  "reseal_device_key_tx c nonce vault_id new_vdk key t =
     (if kt_device_key t = None then Inr t
      else and_then (auth_err (aead_key_seal c new_vdk nonce key
             (device_key_aad vault_id (device_id_from_key c key)))) (\<lambda>ct.
           Inr (t \<lparr> kt_device_key := Some (device_key_row ct nonce) \<rparr>)))"

definition register_device :: "crypto \<Rightarrow> secp256k1 \<Rightarrow> bytes \<Rightarrow> bytes \<Rightarrow> bytes \<Rightarrow> bytes \<Rightarrow> bytes \<Rightarrow> int \<Rightarrow> KeyTables
    \<Rightarrow> StoreError + DeviceId \<times> KeyTables" where
  "register_device c ec nonce vault_id vdk key label now_ms t =
     (let dev_id = device_id_from_key c key
      in and_then (auth_err (aead_key_seal c vdk nonce key (device_key_aad vault_id dev_id))) (\<lambda>ct.
         and_then (ok_or (derive_evm_address c ec key)
           (Corrupted ''evm address derivation failed during register'')) (\<lambda>evm_address.
         Inr (dev_id, t \<lparr> kt_device_key := Some (device_key_row ct nonce),
            kt_devices := filter (\<lambda>r. dr_device_id r \<noteq> dev_id) (kt_devices t) @
              [\<lparr> dr_device_id = dev_id, dr_label = label, dr_added_at = now_ms,
                 dr_capabilities = DeviceCapabilities_to_repr Full, dr_last_sync_at = None,
                 dr_public_key = Some (cr_verifying_key c key),
                 dr_schema_version = uint DEVICE_IDENTITY_SCHEMA_VERSION,
                 dr_evm_address = Some evm_address, dr_discovered_via_chain_sync = 0,
                 dr_discovered_at_block = None \<rparr>] \<rparr>))))"

section \<open>Multi-device tables (multi\_device.rs)\<close>

record DirectoryEntry =
  di_signer :: bytes
  di_device_id :: bytes
  di_pairing_pub :: bytes

definition upsert_directory_entry :: "DirectoryEntry \<Rightarrow> int \<Rightarrow> KeyTables \<Rightarrow> KeyTables" where
  "upsert_directory_entry entry now_ms t =
     t \<lparr> kt_directory := filter (\<lambda>r. dd_signer r \<noteq> di_signer entry) (kt_directory t) @
          [\<lparr> dd_signer = di_signer entry, dd_device_id = di_device_id entry,
             dd_pairing_pub = di_pairing_pub entry, dd_discovered_at = now_ms \<rparr>] \<rparr>"

definition lookup_directory_entry :: "bytes \<Rightarrow> KeyTables \<Rightarrow> StoreError + DirectoryEntry option" where
  "lookup_directory_entry signer t =
     (case find (\<lambda>r. dd_signer r = signer) (kt_directory t) of
        None \<Rightarrow> Inr None
      | Some r \<Rightarrow>
          if length (dd_device_id r) \<noteq> 32 then Inl (Corrupted ''device_directory.device_id not 32 bytes'')
          else if length (dd_pairing_pub r) \<noteq> 32 then Inl (Corrupted ''device_directory.pairing_pub not 32 bytes'')
          else Inr (Some \<lparr> di_signer = signer, di_device_id = dd_device_id r, di_pairing_pub = dd_pairing_pub r \<rparr>))"

definition decode_directory_row :: "DirectoryRow \<Rightarrow> StoreError + DirectoryEntry" where
  "decode_directory_row r =
     (if length (dd_signer r) \<noteq> EVM_ADDRESS_LEN then Inl (Corrupted ''device_directory.signer not 20 bytes'')
      else if length (dd_device_id r) \<noteq> 32 then Inl (Corrupted ''device_directory.device_id not 32 bytes'')
      else if length (dd_pairing_pub r) \<noteq> 32 then Inl (Corrupted ''device_directory.pairing_pub not 32 bytes'')
      else Inr \<lparr> di_signer = dd_signer r, di_device_id = dd_device_id r, di_pairing_pub = dd_pairing_pub r \<rparr>)"

definition read_directory :: "KeyTables \<Rightarrow> StoreError + DirectoryEntry list" where
  "read_directory t = collect_results decode_directory_row (sort_key dd_signer (kt_directory t))"

record RotationPending =
  rq_removed_signer :: bytes
  rq_observed_epoch :: u64
  rq_observed_at :: int

text \<open>\<open>INSERT OR IGNORE\<close> on the primary key \<open>removed_signer\<close>: the result is whether a row was added.\<close>

definition queue_rotation_pending :: "RotationPending \<Rightarrow> KeyTables \<Rightarrow> StoreError + bool \<times> KeyTables" where
  "queue_rotation_pending pending t =
     and_then (ok_or (i64_try_from (rq_observed_epoch pending))
       (Corrupted ''rotation_pending.observed_epoch overflow'')) (\<lambda>epoch_i.
     if rq_removed_signer pending \<in> rp_removed_signer ` set (kt_rotation_pending t) then Inr (False, t)
     else Inr (True, t \<lparr> kt_rotation_pending := kt_rotation_pending t @
            [\<lparr> rp_removed_signer = rq_removed_signer pending, rp_observed_epoch = epoch_i,
               rp_observed_at = rq_observed_at pending, rp_resolved = 0 \<rparr>] \<rparr>))"

definition decode_pending_row :: "RotationPendingRow \<Rightarrow> StoreError + RotationPending" where
  "decode_pending_row r =
     (if length (rp_removed_signer r) \<noteq> EVM_ADDRESS_LEN
      then Inl (Corrupted ''rotation_pending.removed_signer not 20 bytes'')
      else and_then (ok_or (u64_try_from (rp_observed_epoch r))
        (Corrupted ''rotation_pending.observed_epoch out of range'')) (\<lambda>epoch.
      Inr \<lparr> rq_removed_signer = rp_removed_signer r, rq_observed_epoch = epoch, rq_observed_at = rp_observed_at r \<rparr>))"

definition read_pending_rotations :: "KeyTables \<Rightarrow> StoreError + RotationPending list" where
  "read_pending_rotations t =
     collect_results decode_pending_row
       (sort_key (\<lambda>r. (rp_observed_at r, rp_removed_signer r))
         (filter (\<lambda>r. rp_resolved r = 0) (kt_rotation_pending t)))"

definition mark_rotation_resolved :: "bytes \<Rightarrow> KeyTables \<Rightarrow> KeyTables" where
  "mark_rotation_resolved removed_signer t =
     t \<lparr> kt_rotation_pending := map (\<lambda>r. if rp_removed_signer r = removed_signer
           then r \<lparr> rp_resolved := 1 \<rparr> else r) (kt_rotation_pending t) \<rparr>"

definition consume_survivor_seal :: "crypto \<Rightarrow> bytes \<Rightarrow> bytes \<Rightarrow> bytes \<Rightarrow> bytes \<Rightarrow> bytes \<Rightarrow> u64
    \<Rightarrow> StoreError + bytes \<times> WrappedVdk" where
  "consume_survivor_seal c nonce sealed local_device vault_id dev_id new_epoch =
     (let secret = xk_secret (derive_x25519_pairing_key c local_device)
      in and_then (auth_err (open_vdk_from_pairing c sealed secret vault_id dev_id (epoch_bytes new_epoch))) (\<lambda>vdk.
         and_then (auth_err (wrap_vdk_for_device c nonce vdk local_device (WrapContext_new vault_id))) (\<lambda>wrapped.
         Inr (vdk, wrapped))))"

definition is_signer_honored :: "bytes \<Rightarrow> bytes list \<Rightarrow> bool" where
  "is_signer_honored signer current_onchain_set = (signer \<in> set current_onchain_set)"

text \<open>The trigger of \<open>Vault::process_device_removed_trigger\<close>: one row per known signer that left the set.\<close>

fun queue_removed :: "int \<Rightarrow> u64 \<Rightarrow> bytes list \<Rightarrow> bytes list \<Rightarrow> u32 \<Rightarrow> KeyTables \<Rightarrow> StoreError + u32 \<times> KeyTables" where
  "queue_removed now epoch current_onchain_set [] queued t = Inr (queued, t)"
| "queue_removed now epoch current_onchain_set (signer # rest) queued t =
     (if signer \<in> set current_onchain_set then queue_removed now epoch current_onchain_set rest queued t
      else and_then (queue_rotation_pending
             \<lparr> rq_removed_signer = signer, rq_observed_epoch = epoch, rq_observed_at = now \<rparr> t) (\<lambda>(new, t').
        queue_removed now epoch current_onchain_set rest (if new then sat_add queued 1 else queued) t'))"

definition process_device_removed_trigger :: "int \<Rightarrow> bytes list \<Rightarrow> bytes list \<Rightarrow> u64 \<Rightarrow> KeyTables
    \<Rightarrow> StoreError + u32 \<times> KeyTables" where
  "process_device_removed_trigger now current_onchain_set locally_known_signers observed_epoch t =
     queue_removed now observed_epoch current_onchain_set locally_known_signers 0 t"

section \<open>Reading back what was written\<close>

lemma auth_err_simps [simp]:
  "auth_err (Inr a) = Inr a" "auth_err (Inl e) = Inl AuthenticationFailed"
  "auth_err r = Inr a \<longleftrightarrow> r = Inr a"
  by (simp_all add: auth_err_def)

lemma auth_err_Inl: "auth_err r = Inl e \<longleftrightarrow> e = AuthenticationFailed \<and> (\<exists>x. r = Inl x)"
  by (cases r) auto

lemma try_from_uint [simp]:
  "u8_try_from (uint (b :: u8)) = Some b" "u16_try_from (uint (h :: u16)) = Some h"
proof -
  have "uint b < 2 ^ LENGTH(8)" "uint h < 2 ^ LENGTH(16)" by (rule unsigned_less)+
  then show "u8_try_from (uint b) = Some b" "u16_try_from (uint h) = Some h"
    by (simp_all add: u8_try_from_def u16_try_from_def)
qed

lemma u64_try_from_uint: "uint (w :: u64) \<le> i64_max \<Longrightarrow> u64_try_from (uint w) = Some w"
  by (simp add: u64_try_from_def)

text \<open>Rows written in ascending order of their key are already in the order the reader asks for.\<close>

lemma sort_key_ascending: "sorted_wrt (\<lambda>x y. k x < k y) xs \<Longrightarrow> sort_key k xs = xs"
  by (rule sort_key_sorted) (auto simp: sorted_map elim: sorted_wrt_mono_rel[rotated])

text \<open>The records an escrow write gets: ascending positions, keys and signers of the column widths.\<close>

definition guardian_records_typed :: "GuardianRecord list \<Rightarrow> bool" where
  "guardian_records_typed gs \<longleftrightarrow>
     sorted_wrt (\<lambda>g h. gd_index g < gd_index h) gs
     \<and> (\<forall>g \<in> set gs. length (gd_guardian_x25519_pub g) = 32 \<and> length (gd_signer g) = GUARDIAN_SIGNER_LEN)"

abbreviation zero_signer :: "bytes \<Rightarrow> bool" where
  "zero_signer s \<equiv> list_all (\<lambda>b. b = 0) s"

definition guardian_records_ok :: "GuardianRecord list \<Rightarrow> bool" where
  "guardian_records_ok gs \<longleftrightarrow> guardian_records_typed gs \<and> (\<forall>g \<in> set gs. \<not> zero_signer (gd_signer g))"

definition sealed_guardian :: "bytes \<Rightarrow> bytes \<Rightarrow> GuardianRecord \<Rightarrow> GuardianRow" where
  "sealed_guardian nonce enc g =
     \<lparr> gr_guardian_index = uint (gd_index g), gr_guardian_x25519_pub = gd_guardian_x25519_pub g,
       gr_guardian_signer = gd_signer g, gr_enc_sealed_share = enc, gr_enc_nonce = nonce,
       gr_schema_version = uint RECOVERY_ESCROW_SCHEMA_VERSION \<rparr>"

lemma decode_sealed_guardian:
  assumes "crypto_ok c" "aead_key_seal c vdk nonce (gd_sealed_share g) (recovery_share_aad vault_id epoch (gd_index g)) = Inr enc"
    and "length nonce = NONCE_LEN" "length (gd_guardian_x25519_pub g) = 32" "length (gd_signer g) = GUARDIAN_SIGNER_LEN"
  shows "decode_guardian_row c vault_id epoch vdk (sealed_guardian nonce enc g) =
    (if zero_signer (gd_signer g) then Inl (Corrupted ''recovery_guardians.guardian_signer is all-zero'') else Inr g)"
  using assms aead_seal_open[OF assms(1,2)] by (simp add: decode_guardian_row_def sealed_guardian_def)

lemma write_guardians_ok:
  assumes "write_guardians c nonces vault_id vdk epoch k gs rows = Inr rows'"
    and "sorted_wrt (\<lambda>g h. gd_index g < gd_index h) gs"
    and "\<forall>r \<in> set rows. \<forall>g \<in> set gs. gr_guardian_index r < uint (gd_index g)"
  shows "\<exists>new. rows' = rows @ new \<and> sorted_wrt (\<lambda>r s. gr_guardian_index r < gr_guardian_index s) new
    \<and> (\<forall>r \<in> set new. \<exists>g \<in> set gs. gr_guardian_index r = uint (gd_index g))
    \<and> list_all2 (\<lambda>g r. \<exists>j enc. r = sealed_guardian (nonces j) enc g \<and>
         aead_key_seal c vdk (nonces j) (gd_sealed_share g) (recovery_share_aad vault_id epoch (gd_index g)) = Inr enc) gs new"
  using assms
proof (induction gs arbitrary: k rows)
  case Nil
  then show ?case by simp
next
  case (Cons g gs)
  obtain enc where enc: "aead_key_seal c vdk (nonces k) (gd_sealed_share g) (recovery_share_aad vault_id epoch (gd_index g)) = Inr enc"
    and rest: "write_guardians c nonces vault_id vdk epoch (Suc k) gs
       (insert_guardian (sealed_guardian (nonces k) enc g) rows) = Inr rows'"
    using Cons.prems(1) by (auto simp: and_then_Inr sealed_guardian_def)
  have ins: "insert_guardian (sealed_guardian (nonces k) enc g) rows = rows @ [sealed_guardian (nonces k) enc g]"
    using Cons.prems(3) by (auto simp: insert_guardian_def sealed_guardian_def filter_id_conv)
  have "\<forall>r \<in> set (rows @ [sealed_guardian (nonces k) enc g]). \<forall>h \<in> set gs. gr_guardian_index r < uint (gd_index h)"
    using Cons.prems(2,3) by (auto simp: sealed_guardian_def word_less_def)
  from Cons.IH[OF rest[unfolded ins] _ this] Cons.prems(2) obtain new where new:
      "rows' = rows @ sealed_guardian (nonces k) enc g # new"
      "sorted_wrt (\<lambda>r s. gr_guardian_index r < gr_guardian_index s) new"
      "\<forall>r \<in> set new. \<exists>g \<in> set gs. gr_guardian_index r = uint (gd_index g)"
      "list_all2 (\<lambda>g r. \<exists>j enc. r = sealed_guardian (nonces j) enc g \<and>
         aead_key_seal c vdk (nonces j) (gd_sealed_share g) (recovery_share_aad vault_id epoch (gd_index g)) = Inr enc) gs new"
    by auto
  have "\<forall>r \<in> set new. uint (gd_index g) < gr_guardian_index r"
    using new(3) Cons.prems(2) by (auto simp: word_less_def)
  with new enc show ?case
    by (intro exI[of _ "sealed_guardian (nonces k) enc g # new"]) (auto simp: sealed_guardian_def)
qed

lemma collect_results_refused:
  "list_all2 (\<lambda>y x. f x = (if P y then Inl e else Inr y)) ys xs \<Longrightarrow>
     collect_results f xs = (if \<forall>y \<in> set ys. \<not> P y then Inr ys else Inl e)"
  by (induction ys xs rule: list_all2_induct) auto

lemma escrow_read_exact:
  assumes "crypto_ok c" "guardian_records_typed guardians" "\<And>k. length (nonces k) = NONCE_LEN"
    and "length (wv_nonce w) = NONCE_LEN" "wc_vault_id (wv_ctx w) = vault_id"
    and wr: "write_recovery_escrow_tx c nonces vault_id vdk w threshold guardian_count epoch guardians t = Inr t'"
  shows "read_recovery_escrow c vault_id vdk t' =
    (if \<forall>g \<in> set guardians. \<not> zero_signer (gd_signer g)
     then Inr (Some \<lparr> sr_wrapped_recovery = w, sr_threshold = threshold, sr_guardian_count = guardian_count,
       sr_epoch = epoch, sr_guardians = guardians \<rparr>)
     else Inl (Corrupted ''recovery_guardians.guardian_signer is all-zero''))"
proof -
  from wr obtain rows where ep: "uint epoch \<le> i64_max"
    and rows: "write_guardians c nonces vault_id vdk epoch 0 guardians [] = Inr rows"
    and t': "kt_guardians t' = rows" "kt_escrow t' = Some \<lparr> es_wrapped_ct = wv_ciphertext w, es_wrapped_nonce = wv_nonce w,
        es_wrap_schema_version = uint (wc_schema_version (wv_ctx w)), es_threshold = uint threshold,
        es_guardian_count = uint guardian_count, es_epoch = uint epoch,
        es_schema_version = uint RECOVERY_ESCROW_SCHEMA_VERSION \<rparr>"
    by (auto simp: write_recovery_escrow_tx_def and_then_Inr i64_try_from_Some)
  from write_guardians_ok[OF rows] assms(2)
  have srt: "sorted_wrt (\<lambda>r s. gr_guardian_index r < gr_guardian_index s) rows"
    and rel: "list_all2 (\<lambda>g r. \<exists>j enc. r = sealed_guardian (nonces j) enc g \<and>
         aead_key_seal c vdk (nonces j) (gd_sealed_share g) (recovery_share_aad vault_id epoch (gd_index g)) = Inr enc) guardians rows"
    by (auto simp: guardian_records_typed_def)
  let ?refused = "Corrupted ''recovery_guardians.guardian_signer is all-zero''"
  have "list_all2 (\<lambda>g r. decode_guardian_row c vault_id epoch vdk r = (if zero_signer (gd_signer g) then Inl ?refused else Inr g)) guardians rows"
    by (rule list.rel_mono_strong[OF rel]) (use assms(1-3) in \<open>auto simp: guardian_records_typed_def decode_sealed_guardian\<close>)
  then have "collect_results (decode_guardian_row c vault_id epoch vdk) (sort_key gr_guardian_index rows)
      = (if \<forall>g \<in> set guardians. \<not> zero_signer (gd_signer g) then Inr guardians else Inl ?refused)"
    using srt collect_results_refused[of "decode_guardian_row c vault_id epoch vdk" "\<lambda>g. zero_signer (gd_signer g)" ?refused guardians rows]
    by (simp add: sort_key_ascending)
  moreover have "\<lparr>wc_vault_id = vault_id, wc_schema_version = wc_schema_version (wv_ctx w)\<rparr> = wv_ctx w"
    using assms(5) by simp
  ultimately show ?thesis
    using ep assms(4) by (simp add: read_recovery_escrow_def read_escrow_meta_row_def t' u64_try_from_uint)
qed

lemma escrow_read_back:
  assumes "crypto_ok c" "guardian_records_ok guardians" "\<And>k. length (nonces k) = NONCE_LEN"
    and "length (wv_nonce w) = NONCE_LEN" "wc_vault_id (wv_ctx w) = vault_id"
    and wr: "write_recovery_escrow_tx c nonces vault_id vdk w threshold guardian_count epoch guardians t = Inr t'"
  shows "read_recovery_escrow c vault_id vdk t' =
    Inr (Some \<lparr> sr_wrapped_recovery = w, sr_threshold = threshold, sr_guardian_count = guardian_count,
      sr_epoch = epoch, sr_guardians = guardians \<rparr>)"
  using assms(2) escrow_read_exact[OF assms(1) _ assms(3-6)] by (simp add: guardian_records_ok_def)

text \<open>A chain row decodes to the wrappers it was written from.\<close>

lemma decode_chain_written:
  assumes "uint e \<le> i64_max" "length (wv_nonce a) = NONCE_LEN" "length (wv_nonce d) = NONCE_LEN"
    and "wc_vault_id (wv_ctx a) = vault_id" "wc_vault_id (wv_ctx d) = vault_id"
  shows "decode_chain_row vault_id (chain_row (uint e) a d) =
    Inr \<lparr> se_epoch = e, se_password_anchor = a, se_device_wrapped = d \<rparr>"
proof -
  have "\<lparr>wc_vault_id = vault_id, wc_schema_version = wc_schema_version (wv_ctx a)\<rparr> = wv_ctx a"
    "\<lparr>wc_vault_id = vault_id, wc_schema_version = wc_schema_version (wv_ctx d)\<rparr> = wv_ctx d"
    using assms(4,5) by simp_all
  then show ?thesis using assms
    by (simp add: decode_chain_row_def chain_row_def decode_nonce_def decode_schema_u8_def u64_try_from_uint)
qed

lemma load_retained_ok:
  "(\<And>s. s \<in> set rows \<Longrightarrow> se_epoch s \<noteq> cur \<Longrightarrow> unwrap_with c (se_password_anchor s) a = Inr (k (se_epoch s))) \<Longrightarrow>
   load_retained c a cur m rows =
     Inr (\<lambda>e. if e \<noteq> cur \<and> e \<in> se_epoch ` set rows then Some (k e) else m e)"
  by (induction rows arbitrary: m) auto

lemma load_retained_refused:
  "s \<in> set rows \<Longrightarrow> se_epoch s \<noteq> cur \<Longrightarrow> unwrap_with c (se_password_anchor s) a = Inl x \<Longrightarrow>
   load_retained c a cur m rows = Inl AuthenticationFailed"
proof (induction rows arbitrary: m)
  case (Cons r rows)
  show ?case
  proof (cases "r = s")
    case True
    then show ?thesis using Cons.prems by simp
  next
    case False
    then show ?thesis using Cons by (auto simp: auth_err_def map_err_def split: sum.splits)
  qed
qed simp

section \<open>The rotation queue\<close>

definition queued_signers :: "KeyTables \<Rightarrow> bytes set" where
  "queued_signers t = rp_removed_signer ` set (kt_rotation_pending t)"

definition pending_signers :: "KeyTables \<Rightarrow> bytes set" where
  "pending_signers t = rp_removed_signer ` set (filter (\<lambda>r. rp_resolved r = 0) (kt_rotation_pending t))"

definition queue_ok :: "KeyTables \<Rightarrow> bool" where
  "queue_ok t \<longleftrightarrow> distinct (map rp_removed_signer (kt_rotation_pending t))
     \<and> (\<forall>r \<in> set (kt_rotation_pending t). length (rp_removed_signer r) = EVM_ADDRESS_LEN
          \<and> 0 \<le> rp_observed_epoch r \<and> rp_observed_epoch r \<le> i64_max)"

lemma queue_rotation_pending_cases:
  assumes "queue_rotation_pending p t = Inr (new, t')"
  obtains "rq_removed_signer p \<in> queued_signers t" "\<not> new" "t' = t"
  | row where "rq_removed_signer p \<notin> queued_signers t" "new"
    "kt_rotation_pending t' = kt_rotation_pending t @ [row]" "rp_removed_signer row = rq_removed_signer p"
    "rp_resolved row = 0" "0 \<le> rp_observed_epoch row" "rp_observed_epoch row \<le> i64_max"
  using assms by (fastforce simp: queue_rotation_pending_def and_then_Inr queued_signers_def
      i64_try_from_Some split: if_splits)

lemma queue_rotation_pending_ok:
  assumes "queue_rotation_pending p t = Inr (new, t')"
  shows "new \<longleftrightarrow> rq_removed_signer p \<notin> queued_signers t"
    and "queued_signers t' = insert (rq_removed_signer p) (queued_signers t)"
    and "pending_signers t' = pending_signers t \<union> ({rq_removed_signer p} - queued_signers t)"
    and "queue_ok t \<Longrightarrow> length (rq_removed_signer p) = EVM_ADDRESS_LEN \<Longrightarrow> queue_ok t'"
  by (cases rule: queue_rotation_pending_cases[OF assms];
      auto simp: queued_signers_def pending_signers_def queue_ok_def simp del: set_filter)+

lemma queue_removed_ok:
  assumes "queue_removed now e S known q t = Inr (q', t')"
  shows "pending_signers t' = pending_signers t \<union> (set known - set S - queued_signers t)"
    and "queued_signers t' = queued_signers t \<union> (set known - set S)"
    and "queue_ok t \<Longrightarrow> \<forall>s \<in> set known. length s = EVM_ADDRESS_LEN \<Longrightarrow> queue_ok t'"
proof -
  have "pending_signers t' = pending_signers t \<union> (set known - set S - queued_signers t)
    \<and> queued_signers t' = queued_signers t \<union> (set known - set S)
    \<and> (queue_ok t \<longrightarrow> (\<forall>s \<in> set known. length s = EVM_ADDRESS_LEN) \<longrightarrow> queue_ok t')"
    using assms
  proof (induction known arbitrary: q t)
    case (Cons s known)
    show ?case
    proof (cases "s \<in> set S")
      case True
      then show ?thesis using Cons by auto
    next
      case False
      then obtain new t1 where q1: "queue_rotation_pending
            \<lparr> rq_removed_signer = s, rq_observed_epoch = e, rq_observed_at = now \<rparr> t = Inr (new, t1)"
        and rest: "queue_removed now e S known (if new then sat_add q 1 else q) t1 = Inr (q', t')"
        using Cons.prems by (auto simp: and_then_Inr)
      from Cons.IH[OF rest] queue_rotation_pending_ok[OF q1] False show ?thesis by auto
    qed
  qed simp
  then show "pending_signers t' = pending_signers t \<union> (set known - set S - queued_signers t)"
    and "queued_signers t' = queued_signers t \<union> (set known - set S)"
    and "queue_ok t \<Longrightarrow> \<forall>s \<in> set known. length s = EVM_ADDRESS_LEN \<Longrightarrow> queue_ok t'"
    by blast+
qed

lemma queue_removed_idle:
  "set known - set S \<subseteq> queued_signers t \<Longrightarrow> uint e \<le> i64_max \<Longrightarrow> queue_removed now e S known q t = Inr (q, t)"
proof (induction known arbitrary: q)
  case (Cons s known)
  then show ?case
    by (auto simp: queue_rotation_pending_def queued_signers_def i64_try_from_def)
qed simp

lemma queue_removed_epoch:
  "queue_removed now e S known q t = Inr r \<Longrightarrow> \<not> set known \<subseteq> set S \<Longrightarrow> uint e \<le> i64_max"
proof (induction known arbitrary: q t)
  case (Cons s known)
  then show ?case
    by (cases "s \<in> set S") (auto simp: and_then_Inr queue_rotation_pending_def i64_try_from_Some)
qed simp

lemma read_pending_ok:
  assumes "queue_ok t"
  shows "\<exists>ps. read_pending_rotations t = Inr ps \<and> rq_removed_signer ` set ps = pending_signers t"
proof -
  let ?rows = "sort_key (\<lambda>r. (rp_observed_at r, rp_removed_signer r)) (filter (\<lambda>r. rp_resolved r = 0) (kt_rotation_pending t))"
  let ?g = "\<lambda>r. \<lparr> rq_removed_signer = rp_removed_signer r,
      rq_observed_epoch = word_of_int (rp_observed_epoch r), rq_observed_at = rp_observed_at r \<rparr>"
  have "collect_results decode_pending_row ?rows = Inr (map ?g ?rows)"
    by (rule collect_results_ok_map)
      (use assms in \<open>auto simp: queue_ok_def decode_pending_row_def u64_try_from_def\<close>)
  then show ?thesis
    by (simp add: read_pending_rotations_def pending_signers_def image_image)
qed

text \<open>
  Observing removals: after the trigger ran on the signers known locally, the outstanding rows
  are those that were outstanding before and one for every known signer that left the on-chain set
  and was never queued; running the trigger again on the same observation adds nothing.
\<close>

theorem removal_queue_exact:
  assumes ok: "queue_ok t" and len: "\<forall>s \<in> set known. length s = EVM_ADDRESS_LEN"
    and run: "process_device_removed_trigger now onchain known epoch t = Inr (n, t')"
  shows "(\<exists>ps. read_pending_rotations t' = Inr ps
      \<and> rq_removed_signer ` set ps = pending_signers t \<union> (set known - set onchain - queued_signers t))
    \<and> process_device_removed_trigger later onchain known epoch t' = Inr (0, t')"
proof -
  note q = queue_removed_ok[OF run[unfolded process_device_removed_trigger_def]]
  have "process_device_removed_trigger later onchain known epoch t' = Inr (0, t')"
  proof (cases "set known \<subseteq> set onchain")
    case True
    then have "queue_removed later epoch onchain known 0 t' = Inr (0, t')"
      by (induction known) auto
    then show ?thesis by (simp add: process_device_removed_trigger_def)
  next
    case False
    from queue_removed_epoch[OF run[unfolded process_device_removed_trigger_def] False] q(2)
    show ?thesis unfolding process_device_removed_trigger_def by (intro queue_removed_idle) auto
  qed
  with read_pending_ok[OF q(3)[OF ok len]] q(1) show ?thesis by simp
qed

definition example_queue :: KeyTables where
  "example_queue = \<lparr> kt_meta = \<lparr> vm_vault_id = replicate 32 6, vm_created_at = 0, vm_kdf_params = RECOMMENDED,
       vm_kdf_salt = replicate 16 1, vm_wrap_context = WrapContext_new (replicate 32 6),
       vm_wrapped_ciphertext = [], vm_wrapped_nonce = replicate 24 0 \<rparr>,
     kt_sync_mode_preference = None, kt_revisionlog_version = Some 2, kt_chain_state = None, kt_chain = [],
     kt_escrow = None, kt_guardians = [], kt_device_key = None, kt_devices = [], kt_directory = [],
     kt_rotation_pending = [\<lparr> rp_removed_signer = replicate 20 1, rp_observed_epoch = 0, rp_observed_at = 5,
       rp_resolved = 0 \<rparr>] \<rparr>"

lemma example_queue_ok: "queue_ok example_queue"
  by (simp add: queue_ok_def example_queue_def EVM_ADDRESS_LEN_def)

theorem removal_queue_exact_witness:
  "\<exists>t' ps. process_device_removed_trigger 7 [replicate 20 3] [replicate 20 1, replicate 20 2, replicate 20 3] 0 example_queue
       = Inr (1, t')
     \<and> read_pending_rotations t' = Inr ps \<and> rq_removed_signer ` set ps = {replicate 20 1, replicate 20 2}
     \<and> process_device_removed_trigger 8 [replicate 20 3] [replicate 20 1, replicate 20 2, replicate 20 3] 0 t' = Inr (0, t')"
proof -
  have ne: "replicate 20 (1::u8) \<noteq> replicate 20 3" "replicate 20 (2::u8) \<noteq> replicate 20 3"
    "replicate 20 (2::u8) \<noteq> replicate 20 1" by (simp_all add: replicate_eq_replicate)
  then obtain t' where t': "process_device_removed_trigger 7 [replicate 20 3] [replicate 20 1, replicate 20 2, replicate 20 3] 0
      example_queue = Inr (1, t')"
    by (simp add: process_device_removed_trigger_def queue_rotation_pending_def i64_try_from_def example_queue_def sat_add_def)
  have "pending_signers example_queue = {replicate 20 1}" "queued_signers example_queue = {replicate 20 1}"
    by (simp_all add: pending_signers_def queued_signers_def example_queue_def)
  with removal_queue_exact[OF example_queue_ok _ t', of 8] ne show ?thesis
    by (intro exI[of _ t']) (use t' in \<open>auto simp: EVM_ADDRESS_LEN_def\<close>)
qed

text \<open>A series of observations, one trigger after the other.\<close>

fun run_triggers :: "(int \<times> bytes list \<times> bytes list \<times> u64) list \<Rightarrow> KeyTables \<Rightarrow> StoreError + KeyTables" where
  "run_triggers [] t = Inr t"
| "run_triggers ((now, onchain, known, epoch) # rest) t =
     and_then (process_device_removed_trigger now onchain known epoch t) (\<lambda>(n, t'). run_triggers rest t')"

lemma run_triggers_resolved:
  "run_triggers obs t = Inr t' \<Longrightarrow> s \<in> queued_signers t \<Longrightarrow> s \<notin> pending_signers t \<Longrightarrow> queue_ok t \<Longrightarrow>
     \<forall>(now, onchain, known, epoch) \<in> set obs. \<forall>x \<in> set known. length x = EVM_ADDRESS_LEN \<Longrightarrow>
     s \<notin> pending_signers t' \<and> queue_ok t'"
proof (induction obs arbitrary: t)
  case (Cons ob obs)
  obtain now onchain known epoch where ob: "ob = (now, onchain, known, epoch)" by (cases ob)
  from Cons.prems(1) obtain n t1 where t1: "process_device_removed_trigger now onchain known epoch t = Inr (n, t1)"
    and rest: "run_triggers obs t1 = Inr t'" by (auto simp: ob and_then_Inr)
  note q = queue_removed_ok[OF t1[unfolded process_device_removed_trigger_def]]
  show ?case by (rule Cons.IH[OF rest]) (use Cons.prems q in \<open>auto simp: ob\<close>)
qed simp

lemma mark_rotation_resolved_ok:
  assumes "queue_ok t" "s \<in> queued_signers t"
  shows "s \<in> queued_signers (mark_rotation_resolved s t)" "s \<notin> pending_signers (mark_rotation_resolved s t)"
    and "queue_ok (mark_rotation_resolved s t)"
    and "pending_signers (mark_rotation_resolved s t) = pending_signers t - {s}"
proof -
  have map_eq: "map rp_removed_signer (kt_rotation_pending (mark_rotation_resolved s t)) = map rp_removed_signer (kt_rotation_pending t)"
    by (simp add: mark_rotation_resolved_def)
  then show "s \<in> queued_signers (mark_rotation_resolved s t)"
    using assms(2) unfolding queued_signers_def by (metis list.set_map)
  show "queue_ok (mark_rotation_resolved s t)"
    using assms(1) unfolding queue_ok_def map_eq by (auto simp: mark_rotation_resolved_def)
  have eq: "filter (\<lambda>r. rp_resolved r = 0) (map (\<lambda>r. if rp_removed_signer r = s then r\<lparr>rp_resolved := 1\<rparr> else r) rows)
      = filter (\<lambda>r. rp_removed_signer r \<noteq> s) (filter (\<lambda>r. rp_resolved r = 0) rows)" for rows
    by (induction rows) simp_all
  have rows: "kt_rotation_pending (mark_rotation_resolved s t)
      = map (\<lambda>r. if rp_removed_signer r = s then r\<lparr>rp_resolved := 1\<rparr> else r) (kt_rotation_pending t)"
    by (simp add: mark_rotation_resolved_def)
  show pend: "pending_signers (mark_rotation_resolved s t) = pending_signers t - {s}"
    unfolding pending_signers_def rows eq by auto
  then show "s \<notin> pending_signers (mark_rotation_resolved s t)" by simp
qed

text \<open>
  A removal that was resolved once is never queued again: whatever is observed later, also that
  the device was authorised again and removed again, the signer is not among the outstanding
  rotations, so that second removal triggers no rotation.
\<close>

theorem removed_again_not_queued:
  assumes "queue_ok t" "s \<in> queued_signers t"
    and "\<forall>(now, onchain, known, epoch) \<in> set obs. \<forall>x \<in> set known. length x = EVM_ADDRESS_LEN"
    and "run_triggers obs (mark_rotation_resolved s t) = Inr t'"
  shows "\<exists>ps. read_pending_rotations t' = Inr ps \<and> s \<notin> rq_removed_signer ` set ps"
  using run_triggers_resolved[OF assms(4) mark_rotation_resolved_ok(1,2,3)[OF assms(1,2)] assms(3)] read_pending_ok
  by fastforce

theorem removed_again_not_queued_witness:
  "\<exists>t' ps. run_triggers [(9, [replicate 20 1], [replicate 20 1], 1), (10, [], [replicate 20 1], 1)]
       (mark_rotation_resolved (replicate 20 1) example_queue) = Inr t'
     \<and> read_pending_rotations t' = Inr ps \<and> replicate 20 1 \<notin> rq_removed_signer ` set ps"
proof -
  obtain t' where t': "run_triggers [(9, [replicate 20 1], [replicate 20 1], 1), (10, [], [replicate 20 1], 1)]
       (mark_rotation_resolved (replicate 20 1) example_queue) = Inr t'"
    by (simp add: process_device_removed_trigger_def queue_rotation_pending_def i64_try_from_def example_queue_def
        mark_rotation_resolved_def)
  have "replicate 20 1 \<in> queued_signers example_queue" by (simp add: queued_signers_def example_queue_def)
  from removed_again_not_queued[OF example_queue_ok this _ t'] t' show ?thesis
    by (auto simp: EVM_ADDRESS_LEN_def)
qed

end
