(* ===== verification/Vault_Rekey.thy ===== *)
theory Vault_Rekey
  imports Key_Tables
begin

text \<open>
  Unlocking and re-keying a vault (\<open>crates/pangolin-store/src/vault.rs\<close>: \<open>create\<close>, \<open>open\<close>, the key
  steps of \<open>unlock\<close>, \<open>build_active_state_data\<close>, \<open>recover_with_new_password\<close>,
  \<open>commit_recovery_rekey\<close>, \<open>commit_vdk_rotation\<close>, \<open>onboard_guardians\<close>, \<open>install_paired_vdk\<close> and
  the pairing and guardian methods) and the composition layer
  (\<open>crates/pangolin-core/src/composition.rs\<close>). The state is the open vault together with the key
  tables and the retained keys of the session. Fresh random values are arguments. A panic is the
  error \<open>Internal\<close>. The lemmas show what a re-keying keeps and what it loses: after a first rotation
  every entry still decodes, while the preferences of the meta row are reset, an older retained key
  locks the vault, and a backup names an epoch its shares were not sealed for.
\<close>

section \<open>State and environment\<close>

record KeyVault =
  kv_vault :: Vault
  kv_keys :: KeyTables
  kv_chain :: "VdkChain option"

record KeyEnv =
  ke_crypto :: crypto
  ke_secp256k1 :: secp256k1
  ke_argon2 :: argon2
  ke_vault_env :: VaultEnv

type_synonym 'a key_op = "(KeyVault, StoreError, 'a) op"

section \<open>Decoding the heads\<close>

datatype HeadDecodeOutcome =
    HeadLive AccountIdentity
  | HeadTombstone
  | HeadFutureVersion
  | HeadPlaceholderNonce

text \<open>The key of an entry: the session's for the current epoch, a retained one for an older epoch.\<close>

definition entry_key :: "bytes \<Rightarrow> VdkChain \<Rightarrow> u64 \<Rightarrow> bytes option" where
  "entry_key vdk chain epoch = (if epoch = ch_current_epoch chain then Some vdk else aead_for_epoch chain epoch)"

fun is_unsupported_schema :: "StoreError \<Rightarrow> bool" where
  "is_unsupported_schema (UnsupportedRevisionSchemaVersion _ _ _ _) = True"
| "is_unsupported_schema _ = False"

text \<open>The part of \<open>decode_head_row\<close> after the key is chosen.\<close>

definition open_head_row :: "VaultEnv \<Rightarrow> bytes \<Rightarrow> AccountId \<Rightarrow> RevisionRow \<Rightarrow> bytes \<Rightarrow> StoreError + HeadDecodeOutcome" where
  "open_head_row env vault_id account row key =
     and_then (rid32 ''parent_revision_id not 32 bytes'' (rv_parent_revision_id row)) (\<lambda>parent.
     if length (rv_enc_nonce row) \<noteq> NONCE_LEN then Inl (Corrupted ''enc_nonce length mismatch'')
     else and_then (ok_or (u8_try_from (rv_schema_version row))
       (Corrupted ''revisions.schema_version out of u8 range'')) (\<lambda>schema.
     if rv_enc_nonce row = replicate NONCE_LEN 0 then Inr HeadPlaceholderNonce
     else (case open_identity_payload env key (rv_enc_nonce row) (rv_enc_payload row)
             (build_aad vault_id account parent schema) of
             Inl e \<Rightarrow> if is_unsupported_schema e then Inr HeadFutureVersion else Inl e
           | Inr payload \<Rightarrow>
               if REVISION_SCHEMA_VERSION_MAX < schema then Inr HeadFutureVersion
               else (case payload of LiveIdentity i \<Rightarrow> Inr (HeadLive i) | TombIdentity _ \<Rightarrow> Inr HeadTombstone))))"

definition decode_head_row :: "VaultEnv \<Rightarrow> Vault \<Rightarrow> bytes \<Rightarrow> VdkChain \<Rightarrow> AccountId \<Rightarrow> RevisionId
    \<Rightarrow> StoreError + HeadDecodeOutcome" where
  "decode_head_row env v vdk chain account rid =
     and_then (ok_or (find_revision v account rid)
       (Corrupted ''account_identities head_revision_id has no matching revisions row'')) (\<lambda>row.
     and_then (ok_or (u64_try_from (rv_vdk_epoch row)) (Corrupted ''revisions.vdk_epoch negative'')) (\<lambda>epoch.
     case entry_key vdk chain epoch of
       None \<Rightarrow> Inr HeadPlaceholderNonce
     | Some key \<Rightarrow> open_head_row env (v_vault_id v) account row key))"

definition account_heads_inline :: "Vault \<Rightarrow> AccountId \<Rightarrow> StoreError + RevisionId list" where
  "account_heads_inline v a =
     collect_rids ''head revision_id not 32 bytes'' (map rv_revision_id (head_rows v a))"

definition read_revision_rows_inline :: "Vault \<Rightarrow> AccountId \<Rightarrow> StoreError + RevisionMeta list" where
  "read_revision_rows_inline v a = into_metas (graph_rows a v)"

text \<open>The canonical head of an account, and every leaf of a forked one.\<close>

definition unlock_leaves :: "Vault \<Rightarrow> AccountId \<Rightarrow> RevisionId \<Rightarrow> StoreError + RevisionId \<times> RevisionId list" where
  "unlock_leaves v account cached_head =
     and_then (account_heads_inline v account) (\<lambda>hs.
     if 1 < length hs
     then and_then (and_then (read_revision_rows_inline v account) build) (\<lambda>graph.
       Inr (case canonical_head graph of None \<Rightarrow> cached_head | Some h \<Rightarrow> h, heads graph))
     else Inr (cached_head, [cached_head]))"

text \<open>The loop over the leaves: the requires-upgrade flag and the outcome at the canonical head.\<close>

fun decode_leaves :: "(RevisionId \<Rightarrow> StoreError + HeadDecodeOutcome) \<Rightarrow> RevisionId
    \<Rightarrow> bool \<times> HeadDecodeOutcome option \<Rightarrow> RevisionId list \<Rightarrow> StoreError + bool \<times> HeadDecodeOutcome option" where
  "decode_leaves decode canonical acc [] = Inr acc"
| "decode_leaves decode canonical (upgrade, outcome) (leaf # rest) =
     and_then (decode leaf) (\<lambda>res.
       if res = HeadFutureVersion then decode_leaves decode canonical (True, outcome) rest
       else decode_leaves decode canonical (upgrade, if leaf = canonical then Some res else outcome) rest)"

definition fallback_outcome :: "(RevisionId \<Rightarrow> StoreError + HeadDecodeOutcome) \<Rightarrow> RevisionId \<Rightarrow> RevisionId
    \<Rightarrow> HeadDecodeOutcome option \<Rightarrow> StoreError + HeadDecodeOutcome option" where
  "fallback_outcome decode canonical cached_head outcome =
     (if outcome = Some HeadPlaceholderNonce
      then if cached_head = canonical then Inr None else map_sum id Some (decode cached_head)
      else Inr outcome)"

record ActiveData =
  ad_cache :: "AccountId \<rightharpoonup> AccountSnapshot"
  ad_search_index :: SearchIndex
  ad_requires_upgrade :: "AccountId set"

text \<open>
  The last arm is \<open>unreachable!()\<close> in the source. It is reached when the canonical head carries the
  placeholder nonce and the cached head has a future version.
\<close>

definition hydrate_account_into_state :: "VaultEnv \<Rightarrow> Vault \<Rightarrow> bytes \<Rightarrow> VdkChain \<Rightarrow> AccountRow
    \<Rightarrow> ActiveData \<Rightarrow> StoreError + ActiveData" where
  "hydrate_account_into_state env v vdk chain row d =
     (let account = ac_account_id row; cached_head = ac_head_revision_id row;
          decode = decode_head_row env v vdk chain account
      in and_then (unlock_leaves v account cached_head) (\<lambda>(canonical, leaves).
         and_then (decode_leaves decode canonical (False, None) leaves) (\<lambda>(upgrade, outcome).
         and_then (fallback_outcome decode canonical cached_head outcome) (\<lambda>final.
         let d1 = (if upgrade then d \<lparr> ad_requires_upgrade := insert account (ad_requires_upgrade d) \<rparr> else d)
         in case final of
              Some (HeadLive identity) \<Rightarrow>
                (case si_insert account (ac_last_modified_at row) (env_projection_of_identity env identity) (ad_search_index d1) of
                   (Inl e, _) \<Rightarrow> Inl e
                 | (Inr _, ix) \<Rightarrow> Inr (d1 \<lparr> ad_search_index := ix,
                     ad_cache := (ad_cache d1)(account \<mapsto> downgrade_identity_to_snapshot identity) \<rparr>))
            | Some HeadFutureVersion \<Rightarrow> Inl (StoreError.Internal ''internal error: entered unreachable code'')
            | _ \<Rightarrow>
                (case si_remove account (ad_search_index d1) of
                   (Inl e, _) \<Rightarrow> Inl e
                 | (Inr _, ix) \<Rightarrow> Inr (d1 \<lparr> ad_search_index := ix, ad_cache := (ad_cache d1)(account := None) \<rparr>))))))"

fun hydrate_all :: "VaultEnv \<Rightarrow> Vault \<Rightarrow> bytes \<Rightarrow> VdkChain \<Rightarrow> AccountRow list \<Rightarrow> ActiveData \<Rightarrow> StoreError + ActiveData" where
  "hydrate_all env v vdk chain [] d = Inr d"
| "hydrate_all env v vdk chain (row # rest) d =
     and_then (hydrate_account_into_state env v vdk chain row d) (hydrate_all env v vdk chain rest)"

fun check_account_rows :: "AccountRow list \<Rightarrow> StoreError + AccountRow list" where
  "check_account_rows [] = Inr []"
| "check_account_rows (row # rest) =
     and_then (aid32 ''account_id not 32 bytes'' (ac_account_id row)) (\<lambda>_.
     and_then (rid32 ''head_revision_id not 32 bytes'' (ac_head_revision_id row)) (\<lambda>_.
     and_then (check_account_rows rest) (\<lambda>rows. Inr (row # rows))))"

definition build_active_state_data :: "VaultEnv \<Rightarrow> Vault \<Rightarrow> bytes \<Rightarrow> VdkChain \<Rightarrow> StoreError + ActiveData" where
  "build_active_state_data env v vdk chain =
     and_then (check_account_rows (filter (\<lambda>r. ac_tombstoned r = 0) (v_accounts v))) (\<lambda>rows.
       hydrate_all env v vdk chain rows
         \<lparr> ad_cache = Map.empty, ad_search_index = si_new_empty, ad_requires_upgrade = {} \<rparr>)"

section \<open>Creating, opening and unlocking\<close>

text \<open>The random values one re-keying draws.\<close>

record rekey_rng =
  rk_salt :: bytes
  rk_meta_nonce :: bytes
  rk_anchor_nonce :: bytes
  rk_device_nonce :: bytes
  rk_guardian_nonce :: "nat \<Rightarrow> bytes"
  rk_seed_nonce :: bytes

definition rekey_rng_ok :: "rekey_rng \<Rightarrow> bool" where
  "rekey_rng_ok rng \<longleftrightarrow> length (rk_salt rng) = SALT_LEN \<and> length (rk_meta_nonce rng) = NONCE_LEN
     \<and> length (rk_anchor_nonce rng) = NONCE_LEN \<and> length (rk_device_nonce rng) = NONCE_LEN
     \<and> (\<forall>k. length (rk_guardian_nonce rng k) = NONCE_LEN) \<and> length (rk_seed_nonce rng) = NONCE_LEN"

text \<open>
  The meta row for a data key under a new password: fresh salt, recommended parameters, the key
  wrapped under the derived authority for the vault's identifier. \<open>create\<close>, the recoveries, the
  rotation and the pairing build it the same way.
\<close>

definition build_meta :: "KeyEnv \<Rightarrow> rekey_rng \<Rightarrow> bytes \<Rightarrow> int \<Rightarrow> bytes \<Rightarrow> bytes \<Rightarrow> StoreError + bytes \<times> VaultMeta" where
  "build_meta ke rng vault_id created vdk password =
     and_then (auth_err (derive_seed (ke_argon2 ke) password (rk_salt rng) RECOMMENDED)) (\<lambda>authority.
     and_then (auth_err (seal_under (ke_crypto ke) (rk_meta_nonce rng) vdk authority (WrapContext_new vault_id))) (\<lambda>wrapped.
     Inr (authority, \<lparr> vm_vault_id = vault_id, vm_created_at = created, vm_kdf_params = RECOMMENDED,
       vm_kdf_salt = rk_salt rng, vm_wrap_context = WrapContext_new vault_id,
       vm_wrapped_ciphertext = wv_ciphertext wrapped, vm_wrapped_nonce = wv_nonce wrapped \<rparr>)))"

text \<open>The handle after a commit that wrote a new meta row: the row installed, no session.\<close>

definition adopt_meta :: "VaultMeta \<Rightarrow> KeyTables \<Rightarrow> KeyVault \<Rightarrow> KeyVault" where
  "adopt_meta m t kv =
     kv \<lparr> kv_vault := (lock (kv_vault kv)) \<lparr> v_vault_id := vm_vault_id m,
            v_wrap_schema_version := wc_schema_version (vm_wrap_context m),
            v_meta_session_idle_secs := None \<rparr>,
          kv_keys := t, kv_chain := None \<rparr>"

definition empty_tables :: "VaultMeta \<Rightarrow> KeyTables" where
  "empty_tables m = \<lparr> kt_meta = m, kt_sync_mode_preference = None, kt_revisionlog_version = None,
     kt_chain_state = None, kt_chain = [], kt_escrow = None, kt_guardians = [], kt_device_key = None,
     kt_devices = [], kt_directory = [], kt_rotation_pending = [] \<rparr>"

text \<open>
  \<open>create\<close> without the file system: the vault identifier, the data key and the placeholder device
  identifier are drawn at random.
\<close>

definition create :: "KeyEnv \<Rightarrow> rekey_rng \<Rightarrow> bytes \<Rightarrow> bytes \<Rightarrow> DeviceId \<Rightarrow> int \<Rightarrow> bytes \<Rightarrow> StoreError + KeyVault" where
  "create ke rng vault_id vdk placeholder now_ms password =
     and_then (build_meta ke rng vault_id now_ms vdk password) (\<lambda>(_, m).
     Inr \<lparr> kv_vault = \<lparr> v_vault_id = vault_id, v_wrap_schema_version = wc_schema_version (vm_wrap_context m),
             v_device_id = placeholder, v_session_state = Locked, v_active = None,
             v_session_idle = SessionDuration_DEFAULT, v_meta_session_idle_secs = None, v_accounts = [], v_revisions = [],
             v_dirty = [], v_pending_merges = [], v_sync_state = None, v_sync_v1 = None, v_sync_v2 = None \<rparr>,
           kv_keys = set_revisionlog_version V1 (empty_tables m), kv_chain = None \<rparr>)"

text \<open>
  The part of \<open>open\<close> that builds the handle from the tables: a fresh handle, locked, with the
  registered device and the stored idle choice. The steps before it act on the file (its lock, the
  pragmas and schema, the WAL and integrity checks, a missing meta row reported as \<open>BadMagic\<close>) and are
  not modelled: the tables here always have their meta row.
\<close>

definition reopen :: "DeviceId \<Rightarrow> KeyVault \<Rightarrow> StoreError + KeyVault" where
  "reopen placeholder kv =
     and_then (read_registered_device_id (kv_keys kv)) (\<lambda>did.
     let m = kt_meta (kv_keys kv); v = lock (kv_vault kv)
     in Inr (kv \<lparr> kv_vault := v \<lparr> v_vault_id := vm_vault_id m,
               v_wrap_schema_version := wc_schema_version (vm_wrap_context m),
               v_device_id := (case did of None \<Rightarrow> placeholder | Some i \<Rightarrow> i),
               v_session_idle := from_meta_secs (v_meta_session_idle_secs v) \<rparr>,
             kv_chain := None \<rparr>))"

text \<open>
  The key steps of \<open>unlock\<close>: the authority from the password, the data key, the retained keys, the
  caches, the device key (registered on the first unlock) and the wallet. A failing step leaves the
  tables as they were: the wallet is derived from the key whose address the step before it derived.
\<close>

record unlock_rng =
  ur_device_key :: bytes
  ur_nonce :: bytes

definition this_device_label :: bytes where "this_device_label = ascii ''This device''"

definition unlock_device_key :: "KeyEnv \<Rightarrow> unlock_rng \<Rightarrow> int \<Rightarrow> bytes \<Rightarrow> KeyTables
    \<Rightarrow> StoreError + (DeviceId \<times> bytes) \<times> KeyTables" where
  "unlock_device_key ke rng now_ms vdk t =
     (let vault_id = vm_vault_id (kt_meta t); c = ke_crypto ke; ec = ke_secp256k1 ke
      in and_then (read_registered_device_id t) (\<lambda>registered.
         case registered of
           Some existing_id \<Rightarrow>
             and_then (load_device_key_with_id c ec vault_id vdk existing_id t) (\<lambda>loaded.
             case loaded of
               None \<Rightarrow> Inl (Corrupted ''devices row present but device_key row missing'')
             | Some (key, t') \<Rightarrow> Inr ((existing_id, key), t'))
         | None \<Rightarrow>
             and_then (register_device c ec (ur_nonce rng) vault_id vdk (ur_device_key rng) this_device_label now_ms t)
               (\<lambda>(did, t'). Inr ((did, ur_device_key rng), t'))))"

definition unlock_material :: "KeyEnv \<Rightarrow> unlock_rng \<Rightarrow> int \<Rightarrow> bytes \<Rightarrow> KeyVault
    \<Rightarrow> StoreError + UnlockMaterial \<times> VdkChain \<times> KeyTables" where
  "unlock_material ke rng now_ms password kv =
     (let t = kv_keys kv; m = kt_meta t; c = ke_crypto ke
      in and_then (auth_err (derive_seed (ke_argon2 ke) password (vm_kdf_salt m) (vm_kdf_params m))) (\<lambda>authority.
         and_then (auth_err (unwrap_with c (wrapped_vdk m) authority)) (\<lambda>vdk.
         and_then (build_on_unlock c t (vm_vault_id m) authority) (\<lambda>chain.
         and_then (build_active_state_data (ke_vault_env ke) (kv_vault kv) vdk chain) (\<lambda>data.
         and_then (unlock_device_key ke rng now_ms vdk t) (\<lambda>((did, device_key), t').
         and_then (ok_or (derive_evm_wallet c (ke_secp256k1 ke) device_key)
           (Corrupted ''evm wallet derivation failed during unlock'')) (\<lambda>wallet.
         Inr (\<lparr> um_vdk = vdk, um_vdk_epoch = ch_current_epoch chain, um_cache = ad_cache data,
               um_search_index = ad_search_index data, um_requires_upgrade = ad_requires_upgrade data,
               um_device_id = did, um_device_key = device_key, um_evm_wallet = wallet \<rparr>, chain, t'))))))))"

definition install_material :: "system_time \<Rightarrow> UnlockMaterial \<times> VdkChain \<times> KeyTables \<Rightarrow> KeyVault \<Rightarrow> KeyVault" where
  "install_material now = (\<lambda>(m, chain, t) kv.
     kv \<lparr> kv_vault := install_unlocked now m (kv_vault kv), kv_keys := t, kv_chain := Some chain \<rparr>)"

definition unlock_keys :: "KeyEnv \<Rightarrow> unlock_rng \<Rightarrow> int \<Rightarrow> PinIdentityProof \<Rightarrow> system_time \<Rightarrow> system_time
    \<Rightarrow> (KeyVault \<times> PressYPresenceProof, StoreError, unit) op" where
  "unlock_keys ke rng now_ms ident wall now s =
     (let (kv, proof0) = s;
          (presence, proof1) = presence_verify wall proof0
      in case and_then (lift_auth presence) (\<lambda>_. and_then (lift_auth (identity_verify ident)) (\<lambda>_.
                and_then (lift_auth (derive_secret ident)) (\<lambda>password. unlock_material ke rng now_ms password kv))) of
           Inl e \<Rightarrow> (Inl e, (kv, proof1))
         | Inr m \<Rightarrow> (Inr (), (install_material now m kv, proof1)))"

section \<open>Re-keying\<close>

definition build_recovery_meta :: "KeyEnv \<Rightarrow> rekey_rng \<Rightarrow> bytes \<Rightarrow> bytes \<Rightarrow> KeyTables \<Rightarrow> StoreError + VaultMeta" where
  "build_recovery_meta ke rng recovered_vdk new_password t =
     map_sum id snd (build_meta ke rng (vm_vault_id (kt_meta t)) (vm_created_at (kt_meta t)) recovered_vdk new_password)"

definition recover_with_new_password :: "KeyEnv \<Rightarrow> rekey_rng \<Rightarrow> bytes \<Rightarrow> bytes \<Rightarrow> unit key_op" where
  "recover_with_new_password ke rng recovered_vdk new_password =
     op_update (\<lambda>kv.
       and_then (build_recovery_meta ke rng recovered_vdk new_password (kv_keys kv)) (\<lambda>m.
       Inr (adopt_meta m (meta_write m (kv_keys kv)) kv)))"

definition commit_recovery_rekey :: "KeyEnv \<Rightarrow> rekey_rng \<Rightarrow> bytes \<Rightarrow> bytes \<Rightarrow> WrappedVdk \<Rightarrow> u8 \<Rightarrow> u8 \<Rightarrow> u64
    \<Rightarrow> GuardianRecord list \<Rightarrow> unit key_op" where
  "commit_recovery_rekey ke rng recovered_vdk new_password wrapped_recovery threshold guardian_count epoch guardians =
     op_update (\<lambda>kv.
       and_then (build_recovery_meta ke rng recovered_vdk new_password (kv_keys kv)) (\<lambda>m.
       and_then (write_recovery_escrow_tx (ke_crypto ke) (rk_guardian_nonce rng) (vm_vault_id (kt_meta (kv_keys kv)))
           recovered_vdk wrapped_recovery threshold guardian_count epoch guardians
           (meta_write m (kv_keys kv))) (\<lambda>t.
       Inr (adopt_meta m t kv))))"

text \<open>
  The rotation: the new key's anchor in the meta row, the old key retained under the new authority
  and the local device, the escrow for the new key, the device seed under the new key.
\<close>

definition commit_vdk_rotation :: "KeyEnv \<Rightarrow> rekey_rng \<Rightarrow> bytes \<Rightarrow> bytes \<Rightarrow> bytes \<Rightarrow> bytes \<Rightarrow> u64
    \<Rightarrow> WrappedVdk \<Rightarrow> u8 \<Rightarrow> u8 \<Rightarrow> u64 \<Rightarrow> GuardianRecord list \<Rightarrow> unit key_op" where
  "commit_vdk_rotation ke rng new_vdk old_vdk local_device new_password new_epoch
       wrapped_recovery threshold guardian_count escrow_epoch guardians =
     op_update (\<lambda>kv.
       let t = kv_keys kv; vault_id = vm_vault_id (kt_meta t); c = ke_crypto ke; ctx = WrapContext_new vault_id
       in and_then (read_current_epoch t) (\<lambda>current_epoch.
          and_then (build_meta ke rng vault_id (vm_created_at (kt_meta t)) new_vdk new_password) (\<lambda>(authority, m).
          and_then (auth_err (seal_under c (rk_anchor_nonce rng) old_vdk authority ctx)) (\<lambda>retained_anchor.
          and_then (auth_err (wrap_vdk_for_device c (rk_device_nonce rng) old_vdk local_device ctx)) (\<lambda>retained_device_wrap.
          and_then (append_retained_and_advance_tx current_epoch retained_anchor retained_device_wrap new_epoch
              (meta_write m t)) (\<lambda>t2.
          and_then (write_recovery_escrow_tx c (rk_guardian_nonce rng) vault_id new_vdk wrapped_recovery threshold
              guardian_count escrow_epoch guardians t2) (\<lambda>t3.
          and_then (reseal_device_key_tx c (rk_seed_nonce rng) vault_id new_vdk local_device t3) (\<lambda>t4.
          Inr (adopt_meta m t4 kv)))))))))"

text \<open>\<open>self.active.take()\<close> empties the session before the commit runs.\<close>

definition take_active :: "ActiveState key_op" where
  "take_active kv =
     (case v_active (kv_vault kv) of
        None \<Rightarrow> (Inl NotUnlocked, kv)
      | Some a \<Rightarrow> (Inr a, kv \<lparr> kv_vault := (kv_vault kv) \<lparr> v_active := None \<rparr>, kv_chain := None \<rparr>))"

definition commit_vdk_rotation_from_active :: "KeyEnv \<Rightarrow> rekey_rng \<Rightarrow> bytes \<Rightarrow> bytes \<Rightarrow> u64
    \<Rightarrow> WrappedVdk \<Rightarrow> u8 \<Rightarrow> u8 \<Rightarrow> u64 \<Rightarrow> GuardianRecord list \<Rightarrow> unit key_op" where
  "commit_vdk_rotation_from_active ke rng new_vdk new_password new_epoch wrapped_recovery threshold
       guardian_count escrow_epoch guardians =
     op_bind take_active (\<lambda>active.
       commit_vdk_rotation ke rng new_vdk (as_vdk active) (as_device_key active) new_password new_epoch
         wrapped_recovery threshold guardian_count escrow_epoch guardians)"

definition GENESIS_EPOCH :: u64 where "GENESIS_EPOCH = 0"

definition guardian_record :: "bytes list \<Rightarrow> EscrowAssignment \<Rightarrow> GuardianRecord" where
  "guardian_record signers a =
     \<lparr> gd_index = ea_index a, gd_guardian_x25519_pub = ea_guardian_x25519_pub a,
       gd_signer = signers ! unat (ea_index a), gd_sealed_share = ea_sealed_share a \<rparr>"

definition onboard_guardians :: "KeyEnv \<Rightarrow> rekey_rng \<Rightarrow> escrow_rng \<Rightarrow> u8 \<Rightarrow> bytes list \<Rightarrow> bytes list \<Rightarrow> u64 key_op" where
  "onboard_guardians ke rng erng threshold guardian_x25519_pubs guardian_signers =
     op_seq (op_guard (length guardian_x25519_pubs = length guardian_signers)
       (Corrupted ''onboard_guardians: guardian_x25519_pubs.len() differs from guardian_signers.len()''))
      (op_bind (op_try (\<lambda>kv. require_active (kv_vault kv))) (\<lambda>active.
       op_seq (op_guard (length guardian_x25519_pubs \<le> 255) (Corrupted ''guardian count overflows u8''))
        (op_seq (op_update (\<lambda>kv.
           let vault_id = vm_vault_id (kt_meta (kv_keys kv)); guardian_count = of_nat (length guardian_x25519_pubs)
           in and_then (auth_err (onboard_escrow (ke_crypto ke) erng (as_vdk active) vault_id threshold guardian_count
                guardian_x25519_pubs GENESIS_EPOCH)) (\<lambda>onboarding.
              and_then (write_recovery_escrow_tx (ke_crypto ke) (rk_guardian_nonce rng) vault_id (as_vdk active)
                  (eo_wrapped_recovery onboarding) threshold guardian_count GENESIS_EPOCH
                  (map (guardian_record guardian_signers) (eo_assignments onboarding)) (kv_keys kv)) (\<lambda>t.
              Inr (kv \<lparr> kv_keys := t \<rparr>)))))
         (op_ret GENESIS_EPOCH))))"

definition install_paired_vdk :: "KeyEnv \<Rightarrow> rekey_rng \<Rightarrow> bytes \<Rightarrow> bytes \<Rightarrow> bytes \<Rightarrow> unit key_op" where
  "install_paired_vdk ke rng recovered_vdk vault_id new_password =
     op_bind (op_try (\<lambda>kv. require_active (kv_vault kv))) (\<lambda>active.
     op_update (\<lambda>kv.
       let local_device = as_device_key active
       in and_then (build_meta ke rng vault_id (vm_created_at (kt_meta (kv_keys kv))) recovered_vdk new_password) (\<lambda>(_, m).
          and_then (reseal_device_key_tx (ke_crypto ke) (rk_seed_nonce rng) vault_id recovered_vdk local_device
              (meta_write m (kv_keys kv))) (\<lambda>t.
          let kv' = adopt_meta m t kv
          in Inr (kv' \<lparr> kv_vault := (kv_vault kv') \<lparr> v_device_id := device_id_from_key (ke_crypto ke) local_device \<rparr> \<rparr>)))))"

section \<open>Session-gated reads\<close>

record RecoveryEscrowParams =
  ep_threshold :: u8
  ep_guardian_count :: u8
  ep_guardian_x25519_pubs :: "bytes list"
  ep_guardian_signers :: "bytes list"
  ep_current_epoch :: u64

definition recovery_escrow_params :: "KeyEnv \<Rightarrow> KeyVault \<Rightarrow> StoreError + RecoveryEscrowParams option" where
  "recovery_escrow_params ke kv =
     and_then (require_active (kv_vault kv)) (\<lambda>active.
     and_then (read_recovery_escrow (ke_crypto ke) (vm_vault_id (kt_meta (kv_keys kv))) (as_vdk active) (kv_keys kv)) (\<lambda>escrow.
     and_then (read_current_epoch (kv_keys kv)) (\<lambda>current_epoch.
     Inr (map_option (\<lambda>e. \<lparr> ep_threshold = sr_threshold e, ep_guardian_count = sr_guardian_count e,
       ep_guardian_x25519_pubs = map gd_guardian_x25519_pub (sr_guardians e),
       ep_guardian_signers = map gd_signer (sr_guardians e), ep_current_epoch = current_epoch \<rparr>) escrow))))"

record BackupContents =
  bc_wrapped_recovery :: bytes
  bc_vault_id :: bytes
  bc_epoch :: u64
  bc_threshold :: u8
  bc_guardian_count :: u8
  bc_guardian_x25519_pubs :: "bytes list"
  bc_sealed_shares :: "bytes list"
  bc_guardian_evm_addrs :: "bytes list"
  bc_vault_display_name :: bytes
  bc_created_at_unix :: u64

text \<open>\<open>create_recovery_backup\<close> up to the sealing of the envelope, which \<open>recovery_backup.rs\<close> does.\<close>

definition recovery_backup_contents :: "KeyEnv \<Rightarrow> KeyVault \<Rightarrow> StoreError + BackupContents option" where
  "recovery_backup_contents ke kv =
     and_then (require_active (kv_vault kv)) (\<lambda>active.
     let t = kv_keys kv; vault_id = vm_vault_id (kt_meta t)
     in and_then (read_recovery_escrow (ke_crypto ke) vault_id (as_vdk active) t) (\<lambda>escrow.
     case escrow of
       None \<Rightarrow> Inr None
     | Some e \<Rightarrow>
         and_then (read_current_epoch t) (\<lambda>current_epoch.
         Inr (Some \<lparr> bc_wrapped_recovery = wc_schema_version (wv_ctx (sr_wrapped_recovery e))
               # wv_nonce (sr_wrapped_recovery e) @ wv_ciphertext (sr_wrapped_recovery e),
             bc_vault_id = vault_id, bc_epoch = current_epoch, bc_threshold = sr_threshold e,
             bc_guardian_count = sr_guardian_count e,
             bc_guardian_x25519_pubs = map gd_guardian_x25519_pub (sr_guardians e),
             bc_sealed_shares = map gd_sealed_share (sr_guardians e),
             bc_guardian_evm_addrs = map gd_signer (sr_guardians e),
             bc_vault_display_name = [], bc_created_at_unix = u64_or_zero (vm_created_at (kt_meta t)) \<rparr>))))"

definition guardian_open_sealed_share :: "KeyEnv \<Rightarrow> bytes \<Rightarrow> bytes \<Rightarrow> bytes \<Rightarrow> KeyVault \<Rightarrow> StoreError + bytes" where
  "guardian_open_sealed_share ke sealed_share vault_id epoch kv =
     and_then (require_active (kv_vault kv)) (\<lambda>active.
     auth_err (open_sealed_share (ke_crypto ke) sealed_share
       (xk_secret (derive_x25519_sealing_key (ke_crypto ke) (as_device_key active))) vault_id epoch))"

definition seal_vdk_for_new_device :: "KeyEnv \<Rightarrow> bytes \<Rightarrow> bytes \<Rightarrow> bytes \<Rightarrow> bytes \<Rightarrow> u64 \<Rightarrow> KeyVault \<Rightarrow> StoreError + bytes" where
  "seal_vdk_for_new_device ke rng recipient_x25519_pairing_pub recipient_device_id vault_id epoch kv =
     and_then (require_active (kv_vault kv)) (\<lambda>active.
     auth_err (seal_vdk_to_device (ke_crypto ke) rng (as_vdk active) recipient_x25519_pairing_pub vault_id
       recipient_device_id (epoch_bytes epoch)))"

definition open_paired_vdk_seal :: "KeyEnv \<Rightarrow> bytes \<Rightarrow> bytes \<Rightarrow> u64 \<Rightarrow> KeyVault \<Rightarrow> StoreError + bytes" where
  "open_paired_vdk_seal ke sealed vault_id epoch kv =
     and_then (require_active (kv_vault kv)) (\<lambda>active.
     auth_err (open_vdk_from_pairing (ke_crypto ke) sealed
       (xk_secret (derive_x25519_pairing_key (ke_crypto ke) (as_device_key active))) vault_id
       (cr_verifying_key (ke_crypto ke) (as_device_key active)) (epoch_bytes epoch)))"

definition device_pairing_pubkey :: "KeyEnv \<Rightarrow> KeyVault \<Rightarrow> StoreError + bytes" where
  "device_pairing_pubkey ke kv =
     and_then (require_active (kv_vault kv)) (\<lambda>active.
     Inr (xk_public (derive_x25519_pairing_key (ke_crypto ke) (as_device_key active))))"

definition guardian_sealing_pubkey :: "KeyEnv \<Rightarrow> KeyVault \<Rightarrow> StoreError + bytes" where
  "guardian_sealing_pubkey ke kv =
     and_then (require_active (kv_vault kv)) (\<lambda>active.
     Inr (xk_public (derive_x25519_sealing_key (ke_crypto ke) (as_device_key active))))"

definition device_pairing_device_id :: "KeyEnv \<Rightarrow> KeyVault \<Rightarrow> StoreError + bytes" where
  "device_pairing_device_id ke kv =
     and_then (require_active (kv_vault kv)) (\<lambda>active. Inr (cr_verifying_key (ke_crypto ke) (as_device_key active)))"

section \<open>The composition layer (composition.rs)\<close>

record RotationOutcome =
  ro_new_epoch :: u64
  ro_unknown_survivors :: "bytes list"

record GuardianRoster =
  gx_threshold :: u8
  gx_guardian_count :: u8
  gx_x25519_pubs :: "bytes list"
  gx_evm_addrs :: "bytes list"

datatype CompositionError =
    CompStore StoreError
  | CompRotation RotationError
  | CompRecovery RecoveryOrchestrationError
  | NoRecoveryEscrow

definition re_split_records :: "OnboardingArtifacts \<Rightarrow> bytes list \<Rightarrow> GuardianRecord list" where
  "re_split_records re_split guardian_signers = map (guardian_record guardian_signers) (oa_assignments re_split)"

definition directory_survivor :: "DirectoryEntry \<Rightarrow> SurvivorDirectoryEntry" where
  "directory_survivor e =
     \<lparr> sd_signer = di_signer e, sd_device_id = di_device_id e, sd_x25519_pairing_pub = di_pairing_pub e \<rparr>"

fun resolve_pending :: "bytes list \<Rightarrow> RotationPending list \<Rightarrow> KeyTables \<Rightarrow> KeyTables" where
  "resolve_pending onchain [] t = t"
| "resolve_pending onchain (p # rest) t =
     resolve_pending onchain rest
       (if rq_removed_signer p \<notin> set onchain then mark_rotation_resolved (rq_removed_signer p) t else t)"

definition store_op :: "'a key_op \<Rightarrow> (KeyVault, CompositionError, 'a) op" where
  "store_op m kv = (let (r, kv') = m kv in (map_err CompStore r, kv'))"

definition complete_rotation :: "KeyEnv \<Rightarrow> rekey_rng \<Rightarrow> rotation_rng \<Rightarrow> bytes \<Rightarrow> bytes list
    \<Rightarrow> (KeyVault, CompositionError, RotationOutcome) op" where
  "complete_rotation ke rng rrng master_password current_onchain_set =
     op_bind (op_try (\<lambda>kv. map_err CompStore (read_directory (kv_keys kv)))) (\<lambda>directory.
     let (survivors, unknown) = resolve_survivors current_onchain_set (map directory_survivor directory)
     in op_bind (op_try (\<lambda>kv. and_then (map_err CompStore (recovery_escrow_params ke kv)) (\<lambda>p. ok_or p NoRecoveryEscrow))) (\<lambda>params.
     op_bind (op_try (\<lambda>kv. map_err CompRotation (rotate_vdk_for_survivors (ke_crypto ke) rrng survivors
         (v_vault_id (kv_vault kv)) \<lparr> gs_threshold = ep_threshold params, gs_guardian_count = ep_guardian_count params \<rparr>
         (ep_guardian_x25519_pubs params) (ep_current_epoch params)))) (\<lambda>art.
     let re_split = rot_re_split art
     in op_seq (store_op (commit_vdk_rotation_from_active ke rng (rot_new_vdk art) master_password (rot_new_epoch art)
          (oa_wrapped_recovery re_split) (gs_threshold (oa_config re_split)) (gs_guardian_count (oa_config re_split))
          (oa_epoch re_split) (re_split_records re_split (ep_guardian_signers params))))
      (op_bind (op_try (\<lambda>kv. map_err CompStore (read_pending_rotations (kv_keys kv)))) (\<lambda>pending.
       op_seq (op_modify (\<lambda>kv. kv \<lparr> kv_keys := resolve_pending current_onchain_set pending (kv_keys kv) \<rparr>))
        (op_ret \<lparr> ro_new_epoch = rot_new_epoch art, ro_unknown_survivors = unknown \<rparr>))))))"

definition recover_from_shares :: "KeyEnv \<Rightarrow> rekey_rng \<Rightarrow> escrow_rng \<Rightarrow> WrappedVdk \<Rightarrow> bytes list \<Rightarrow> GuardianRoster
    \<Rightarrow> bytes \<Rightarrow> u64 \<Rightarrow> bytes \<Rightarrow> (KeyVault, CompositionError, u64) op" where
  "recover_from_shares ke rng erng wrapped_recovery opened_shares roster new_password current_epoch vault_id =
     (let m = unat (gx_guardian_count roster);
          config = \<lparr> gs_threshold = gx_threshold roster, gs_guardian_count = gx_guardian_count roster \<rparr>
      in op_seq (op_guard (length (gx_x25519_pubs roster) = m \<and> length (gx_evm_addrs roster) = m)
           (CompStore (Corrupted ''recover_from_shares: guardian_count does not match the roster'')))
         (op_bind (op_try (\<lambda>_. map_err CompRecovery (recover_vdk_from_shares (ke_crypto ke) erng wrapped_recovery
             opened_shares vault_id config (gx_x25519_pubs roster) current_epoch))) (\<lambda>art.
          let re_split = ra_re_split art
          in op_seq (store_op (commit_recovery_rekey ke rng (ra_vdk art) new_password (oa_wrapped_recovery re_split)
               (gs_threshold (oa_config re_split)) (gs_guardian_count (oa_config re_split)) (oa_epoch re_split)
               (re_split_records re_split (gx_evm_addrs roster))))
             (op_ret (oa_epoch re_split)))))"

section \<open>Unlocking implements the abstract unlock\<close>

text \<open>
  What the crates document beyond \<open>crypto_ok\<close>: an Ed25519 verifying key has 32 bytes, an address 20.
\<close>

definition key_env_ok :: "KeyEnv \<Rightarrow> bool" where
  "key_env_ok ke \<longleftrightarrow> crypto_ok (ke_crypto ke)
     \<and> (\<forall>k. length (cr_verifying_key (ke_crypto ke) k) = 32)
     \<and> (\<forall>s. length (ec_address (ke_secp256k1 ke) s) = EVM_ADDRESS_LEN)"

lemma key_env_okD:
  assumes "key_env_ok ke"
  shows "crypto_ok (ke_crypto ke)" "length (cr_verifying_key (ke_crypto ke) k) = 32"
    and "length (ec_address (ke_secp256k1 ke) x) = EVM_ADDRESS_LEN"
  using assms by (simp_all add: key_env_ok_def)

text \<open>
  The two models of unlocking agree. \<open>unlock\<close> of the session theory takes the key steps as a parameter;
  \<open>unlock_keys\<close> has them from the key tables. Seen through the open vault and the presence proof, the
  second is the first with these key steps as its material, on every branch; on success the session
  holds the tables and the retained keys those steps return.
\<close>

lemma unlock_keys_refines:
  "(case unlock_keys ke rng now_ms ident wall now (kv, p) of
      (r, (kv', p')) \<Rightarrow> (r, (kv_vault kv', p'))
        = unlock (\<lambda>password _. map_sum id fst (unlock_material ke rng now_ms password kv)) ident wall now (kv_vault kv, p)
      \<and> (case r of Inl _ \<Rightarrow> kv' = kv
         | Inr _ \<Rightarrow> \<exists>password m chain t. derive_secret ident = Inr password
             \<and> unlock_material ke rng now_ms password kv = Inr (m, chain, t)
             \<and> kv_keys kv' = t \<and> kv_chain kv' = Some chain))"
proof -
  obtain pr p1 where pr: "presence_verify wall p = (pr, p1)" by (cases "presence_verify wall p")
  show ?thesis
    by (cases pr; cases "identity_verify ident"; cases "derive_secret ident";
        cases "unlock_material ke rng now_ms (projr (derive_secret ident)) kv")
      (auto simp: unlock_keys_def unlock_def pr verify_presence_def op_seq_def op_bind_def op_try_def on_vault_def
        op_modify_def lift_auth_def install_material_def and_then_def split: prod.splits)
qed

section \<open>Lemmas of a rotation\<close>

lemma build_meta_ok:
  assumes "crypto_ok (ke_crypto ke)" "length vdk = KEY_LEN" "build_meta ke rng vault_id created vdk password = Inr (authority, m)"
  shows "derive_seed (ke_argon2 ke) password (vm_kdf_salt m) (vm_kdf_params m) = Inr authority"
    and "unwrap_with (ke_crypto ke) (wrapped_vdk m) authority = Inr vdk"
    and "vm_vault_id m = vault_id" "vm_created_at m = created" "vm_wrap_context m = WrapContext_new vault_id"
    and "vm_kdf_salt m = rk_salt rng" "vm_kdf_params m = RECOMMENDED"
proof -
  from assms(3) obtain w where w: "derive_seed (ke_argon2 ke) password (rk_salt rng) RECOMMENDED = Inr authority"
    "seal_under (ke_crypto ke) (rk_meta_nonce rng) vdk authority (WrapContext_new vault_id) = Inr w"
    "m = \<lparr> vm_vault_id = vault_id, vm_created_at = created, vm_kdf_params = RECOMMENDED,
       vm_kdf_salt = rk_salt rng, vm_wrap_context = WrapContext_new vault_id,
       vm_wrapped_ciphertext = wv_ciphertext w, vm_wrapped_nonce = wv_nonce w \<rparr>"
    by (auto simp: build_meta_def and_then_Inr)
  note open_w = authority.unwrap_wrap[OF assms(1,2) w(2)]
  then have "wrapped_vdk m = w" by (simp add: wrapped_vdk_def w(3))
  with open_w w show "derive_seed (ke_argon2 ke) password (vm_kdf_salt m) (vm_kdf_params m) = Inr authority"
    "unwrap_with (ke_crypto ke) (wrapped_vdk m) authority = Inr vdk"
    "vm_vault_id m = vault_id" "vm_created_at m = created" "vm_wrap_context m = WrapContext_new vault_id"
    "vm_kdf_salt m = rk_salt rng" "vm_kdf_params m = RECOMMENDED" by simp_all
qed

text \<open>What a successful rotation leaves in the tables.\<close>

definition rotated :: "KeyEnv \<Rightarrow> rekey_rng \<Rightarrow> bytes \<Rightarrow> bytes \<Rightarrow> bytes \<Rightarrow> bytes \<Rightarrow> u64 \<Rightarrow> u64 \<Rightarrow> bytes \<Rightarrow> WrappedVdk \<Rightarrow> WrappedVdk
    \<Rightarrow> VaultMeta \<Rightarrow> KeyTables \<Rightarrow> KeyTables \<Rightarrow> bool" where
  "rotated ke rng new_vdk old_vdk local_device new_password cur new_epoch authority anchor dev m t t' \<longleftrightarrow>
     read_current_epoch t = Inr cur
     \<and> build_meta ke rng (vm_vault_id (kt_meta t)) (vm_created_at (kt_meta t)) new_vdk new_password = Inr (authority, m)
     \<and> seal_under (ke_crypto ke) (rk_anchor_nonce rng) old_vdk authority (WrapContext_new (vm_vault_id (kt_meta t))) = Inr anchor
     \<and> wrap_vdk_for_device (ke_crypto ke) (rk_device_nonce rng) old_vdk local_device
         (WrapContext_new (vm_vault_id (kt_meta t))) = Inr dev
     \<and> uint cur \<le> i64_max \<and> uint new_epoch \<le> i64_max
     \<and> kt_meta t' = m \<and> kt_sync_mode_preference t' = None \<and> kt_revisionlog_version t' = None
     \<and> kt_chain_state t' = Some (uint new_epoch)
     \<and> kt_chain t' = filter (\<lambda>r. vc_epoch r \<noteq> uint cur) (kt_chain t) @ [chain_row (uint cur) anchor dev]
     \<and> kt_devices t' = kt_devices t \<and> kt_directory t' = kt_directory t \<and> kt_rotation_pending t' = kt_rotation_pending t
     \<and> (case kt_device_key t of None \<Rightarrow> kt_device_key t' = None
        | Some _ \<Rightarrow> \<exists>ct. aead_key_seal (ke_crypto ke) new_vdk (rk_seed_nonce rng) local_device
            (device_key_aad (vm_vault_id (kt_meta t)) (device_id_from_key (ke_crypto ke) local_device)) = Inr ct
            \<and> kt_device_key t' = Some (device_key_row ct (rk_seed_nonce rng)))"

lemma write_escrow_frame:
  assumes "write_recovery_escrow_tx c nonces vault_id vdk w threshold guardian_count epoch guardians t = Inr t'"
  shows "kt_meta t' = kt_meta t" "kt_sync_mode_preference t' = kt_sync_mode_preference t"
    "kt_revisionlog_version t' = kt_revisionlog_version t" "kt_chain_state t' = kt_chain_state t"
    "kt_chain t' = kt_chain t" "kt_device_key t' = kt_device_key t" "kt_devices t' = kt_devices t"
    "kt_directory t' = kt_directory t" "kt_rotation_pending t' = kt_rotation_pending t"
  using assms by (auto simp: write_recovery_escrow_tx_def and_then_Inr)

lemma commit_rotation_ok:
  assumes "commit_vdk_rotation ke rng new_vdk old_vdk local_device new_password new_epoch
      wrapped_recovery threshold guardian_count escrow_epoch guardians kv = (Inr (), kv')"
  shows "\<exists>cur authority anchor dev m.
      rotated ke rng new_vdk old_vdk local_device new_password cur new_epoch authority anchor dev m (kv_keys kv) (kv_keys kv')
    \<and> kv' = adopt_meta m (kv_keys kv') kv
    \<and> write_recovery_escrow_tx (ke_crypto ke) (rk_guardian_nonce rng) (vm_vault_id (kt_meta (kv_keys kv))) new_vdk
        wrapped_recovery threshold guardian_count escrow_epoch guardians
        ((meta_write m (kv_keys kv)) \<lparr> kt_chain := kt_chain (kv_keys kv'), kt_chain_state := kt_chain_state (kv_keys kv') \<rparr>)
      = Inr ((kv_keys kv') \<lparr> kt_device_key := kt_device_key (kv_keys kv) \<rparr>)"
proof -
  let ?t = "kv_keys kv" and ?vid = "vm_vault_id (kt_meta (kv_keys kv))" and ?c = "ke_crypto ke"
  from assms obtain cur authority anchor dev m t2 t3 t4 where
      cur: "read_current_epoch ?t = Inr cur"
    and m: "build_meta ke rng ?vid (vm_created_at (kt_meta ?t)) new_vdk new_password = Inr (authority, m)"
    and anchor: "seal_under ?c (rk_anchor_nonce rng) old_vdk authority (WrapContext_new ?vid) = Inr anchor"
    and dev: "wrap_vdk_for_device ?c (rk_device_nonce rng) old_vdk local_device (WrapContext_new ?vid) = Inr dev"
    and t2: "append_retained_and_advance_tx cur anchor dev new_epoch (meta_write m ?t) = Inr t2"
    and t3: "write_recovery_escrow_tx ?c (rk_guardian_nonce rng) ?vid new_vdk wrapped_recovery threshold
        guardian_count escrow_epoch guardians t2 = Inr t3"
    and t4: "reseal_device_key_tx ?c (rk_seed_nonce rng) ?vid new_vdk local_device t3 = Inr t4"
    and kv': "kv' = adopt_meta m t4 kv"
    by (auto simp: commit_vdk_rotation_def op_update_Inr and_then_Inr Let_def)
  have t2_eq: "t2 = (meta_write m ?t) \<lparr> kt_chain := filter (\<lambda>r. vc_epoch r \<noteq> uint cur) (kt_chain ?t) @ [chain_row (uint cur) anchor dev],
      kt_chain_state := Some (uint new_epoch) \<rparr>" and le: "uint cur \<le> i64_max" "uint new_epoch \<le> i64_max"
    using t2 by (auto simp: append_retained_and_advance_tx_def and_then_Inr i64_try_from_Some meta_write_def)
  note fr = write_escrow_frame[OF t3]
  have t4_dk: "case kt_device_key ?t of None \<Rightarrow> kt_device_key t4 = None
     | Some _ \<Rightarrow> \<exists>ct. aead_key_seal ?c new_vdk (rk_seed_nonce rng) local_device
          (device_key_aad ?vid (device_id_from_key ?c local_device)) = Inr ct
        \<and> kt_device_key t4 = Some (device_key_row ct (rk_seed_nonce rng))"
    and t4_eq: "t3 = t4 \<lparr> kt_device_key := kt_device_key ?t \<rparr>"
    using t4 fr(6) by (auto simp: reseal_device_key_tx_def and_then_Inr t2_eq meta_write_def split: option.splits if_splits)
  have t4_fr: "kt_meta t4 = m" "kt_sync_mode_preference t4 = None" "kt_revisionlog_version t4 = None"
    "kt_chain_state t4 = Some (uint new_epoch)"
    "kt_chain t4 = filter (\<lambda>r. vc_epoch r \<noteq> uint cur) (kt_chain ?t) @ [chain_row (uint cur) anchor dev]"
    "kt_devices t4 = kt_devices ?t" "kt_directory t4 = kt_directory ?t" "kt_rotation_pending t4 = kt_rotation_pending ?t"
    using fr by (simp_all add: t4_eq t2_eq meta_write_def)
  have keys: "kv_keys kv' = t4" by (simp add: kv' adopt_meta_def)
  have "rotated ke rng new_vdk old_vdk local_device new_password cur new_epoch authority anchor dev m ?t t4"
    unfolding rotated_def using cur m anchor dev le t4_fr t4_dk by simp
  moreover have "write_recovery_escrow_tx ?c (rk_guardian_nonce rng) ?vid new_vdk wrapped_recovery threshold
      guardian_count escrow_epoch guardians
      ((meta_write m ?t) \<lparr> kt_chain := kt_chain t4, kt_chain_state := kt_chain_state t4 \<rparr>)
    = Inr (t4 \<lparr> kt_device_key := kt_device_key ?t \<rparr>)"
    using t3 unfolding t4_fr(4,5) t2_eq t4_eq .
  moreover have "kv' = adopt_meta m t4 kv" by (fact kv')
  ultimately show ?thesis unfolding keys by blast
qed

lemma wrapped_fields:
  assumes "crypto_ok c"
  shows "seal_under c n vdk a ctx = Inr w \<Longrightarrow> wv_nonce w = n \<and> wv_ctx w = ctx"
    and "wrap_vdk_for_device c n vdk d ctx = Inr w \<Longrightarrow> wv_nonce w = n \<and> wv_ctx w = ctx"
  by (auto simp: seal_under_def wrap_vdk_for_device_def seal_under_key_def and_then_Inr Let_def)

lemma rotated_row_decodes:
  assumes "key_env_ok ke" "rekey_rng_ok rng"
    and rot: "rotated ke rng new_vdk old_vdk local_device new_password cur new_epoch authority anchor dev m t t'"
  shows "decode_chain_row (vm_vault_id (kt_meta t)) (chain_row (uint cur) anchor dev) =
    Inr \<lparr> se_epoch = cur, se_password_anchor = anchor, se_device_wrapped = dev \<rparr>"
proof -
  note c = key_env_okD(1)[OF assms(1)]
  have "wv_nonce anchor = rk_anchor_nonce rng" "wv_ctx anchor = WrapContext_new (vm_vault_id (kt_meta t))"
    "wv_nonce dev = rk_device_nonce rng" "wv_ctx dev = WrapContext_new (vm_vault_id (kt_meta t))"
    using rot wrapped_fields[OF c] by (auto simp: rotated_def)
  then show ?thesis using rot assms(2)
    by (intro decode_chain_written) (auto simp: rotated_def rekey_rng_ok_def WrapContext_new_def)
qed

text \<open>The caches depend on the keys only through the key of each entry's epoch.\<close>

definition same_entries :: "Vault \<Rightarrow> bytes \<times> VdkChain \<Rightarrow> Vault \<Rightarrow> bytes \<times> VdkChain \<Rightarrow> bool" where
  "same_entries v' k' v k \<longleftrightarrow>
     v_accounts v' = v_accounts v \<and> v_revisions v' = v_revisions v \<and> v_vault_id v' = v_vault_id v
     \<and> (\<forall>r \<in> set (v_revisions v). \<forall>e. u64_try_from (rv_vdk_epoch r) = Some e \<longrightarrow>
          entry_key (fst k') (snd k') e = entry_key (fst k) (snd k) e)"

lemma u64_try_from_Some: "u64_try_from v = Some e \<Longrightarrow> v = uint e"
  by (auto simp: u64_try_from_def uint_word_of_int_eq take_bit_int_eq_self split: if_splits)

lemma decode_head_row_cong:
  assumes "same_entries v' (k', ch') v (k, ch)"
  shows "decode_head_row env v' k' ch' a r = decode_head_row env v k ch a r"
proof -
  have rev_eq: "find_revision v' a r = find_revision v a r" and vid: "v_vault_id v' = v_vault_id v"
    using assms by (simp_all add: same_entries_def find_revision_def)
  show ?thesis
  proof (cases "find_revision v a r")
    case None
    then show ?thesis by (simp add: decode_head_row_def rev_eq)
  next
    case (Some row)
    then have "row \<in> set (v_revisions v)" by (auto simp: find_revision_def find_Some_iff)
    with assms have "entry_key k' ch' e = entry_key k ch e" if "u64_try_from (rv_vdk_epoch row) = Some e" for e
      using that by (auto simp: same_entries_def)
    then show ?thesis
      by (cases "u64_try_from (rv_vdk_epoch row)") (simp_all add: decode_head_row_def rev_eq Some vid split: option.split)
  qed
qed

lemma hydrate_cong:
  assumes "same_entries v' (k', ch') v (k, ch)"
  shows "hydrate_account_into_state env v' k' ch' row d = hydrate_account_into_state env v k ch row d"
proof -
  have rows: "head_rows v' a = head_rows v a" "graph_rows a v' = graph_rows a v" for a
    using assms by (simp_all add: same_entries_def head_rows_def is_sql_head_def graph_rows_def)
  have "unlock_leaves v' a h = unlock_leaves v a h" for a h
    by (simp only: unlock_leaves_def account_heads_inline_def read_revision_rows_inline_def rows)
  moreover have "decode_head_row env v' k' ch' a = decode_head_row env v k ch a" for a
    using decode_head_row_cong[OF assms] by blast
  ultimately show ?thesis by (simp only: hydrate_account_into_state_def)
qed

lemma build_active_cong:
  assumes "same_entries v' (k', ch') v (k, ch)"
  shows "build_active_state_data env v' k' ch' = build_active_state_data env v k ch"
proof -
  have "hydrate_all env v' k' ch' rows d = hydrate_all env v k ch rows d" for rows d
    by (induction rows arbitrary: d) (simp_all add: hydrate_cong[OF assms] and_then_def split: sum.splits)
  then show ?thesis using assms by (simp add: build_active_state_data_def same_entries_def)
qed

text \<open>The keys a session holds after the first rotation: the new one and the one it replaced.\<close>

lemma chain_after_first_rotation:
  assumes "key_env_ok ke" "rekey_rng_ok rng" "length old_vdk = KEY_LEN" "length new_vdk = KEY_LEN"
    and rot: "rotated ke rng new_vdk old_vdk local_device new_password cur new_epoch authority anchor dev m t t'"
    and "kt_chain t = []" "cur \<noteq> new_epoch"
  shows "build_on_unlock (ke_crypto ke) t' (vm_vault_id m) authority
    = Inr \<lparr> ch_retained = [cur \<mapsto> old_vdk], ch_current_epoch = new_epoch \<rparr>"
proof -
  note c = key_env_okD(1)[OF assms(1)]
  have chain: "kt_chain t' = [chain_row (uint cur) anchor dev]" "kt_chain_state t' = Some (uint new_epoch)"
    "uint new_epoch \<le> i64_max"
    and m: "build_meta ke rng (vm_vault_id (kt_meta t)) (vm_created_at (kt_meta t)) new_vdk new_password = Inr (authority, m)"
    and anchor: "seal_under (ke_crypto ke) (rk_anchor_nonce rng) old_vdk authority (WrapContext_new (vm_vault_id (kt_meta t))) = Inr anchor"
    using rot assms(6) by (simp_all add: rotated_def)
  have "unwrap_with (ke_crypto ke) anchor authority = Inr old_vdk"
    using authority.unwrap_wrap[OF c assms(3) anchor] by blast
  moreover have "vm_vault_id m = vm_vault_id (kt_meta t)" by (rule build_meta_ok(3)[OF c assms(4) m])
  ultimately show ?thesis
    using assms(7) rotated_row_decodes[OF assms(1,2) rot] chain(3)
    by (simp add: build_on_unlock_def read_current_epoch_def read_chain_def chain(1,2) u64_try_from_uint)
qed

text \<open>The device key a session holds, and what the tables say of it.\<close>

definition device_held :: "KeyEnv \<Rightarrow> DeviceId \<Rightarrow> bytes \<Rightarrow> KeyTables \<Rightarrow> bool" where
  "device_held ke did key t \<longleftrightarrow>
     length key = SECRET_KEY_LEN \<and> did = device_id_from_key (ke_crypto ke) key
     \<and> read_registered_device_id t = Inr (Some did) \<and> kt_device_key t \<noteq> None
     \<and> (\<exists>row address. find (\<lambda>r. dr_device_id r = did) (kt_devices t) = Some row
          \<and> derive_evm_address (ke_crypto ke) (ke_secp256k1 ke) key = Some address
          \<and> dr_evm_address row = Some address)"

lemma find_map_update:
  "find P xs = Some r \<Longrightarrow> (\<And>x. P (f x) = P x) \<Longrightarrow> find P (map f xs) = Some (f r)"
  by (induction xs) (auto split: if_splits)

lemma find_ids: "x \<in> f ` set xs \<Longrightarrow> \<exists>r. find (\<lambda>r. f r = x) xs = Some r"
  by (induction xs) auto

lemma backfill_held:
  assumes bf: "backfill_evm_address_if_missing c ec key did t = Inr t'"
  shows "kt_meta t' = kt_meta t" "kt_chain t' = kt_chain t" "kt_chain_state t' = kt_chain_state t"
    "kt_device_key t' = kt_device_key t"
    and "\<exists>row address. find (\<lambda>r. dr_device_id r = did) (kt_devices t') = Some row
          \<and> derive_evm_address c ec key = Some address \<and> dr_evm_address row = Some address"
    and "map (\<lambda>r. (dr_added_at r, dr_device_id r)) (kt_devices t') = map (\<lambda>r. (dr_added_at r, dr_device_id r)) (kt_devices t)"
proof -
  let ?set = "\<lambda>address r. if dr_device_id r = did then r \<lparr> dr_evm_address := Some address \<rparr> else r"
  obtain address where ad: "derive_evm_address c ec key = Some address"
    using bf by (auto simp: backfill_evm_address_if_missing_def Let_def and_then_Inr)
  consider (same) row where "t' = t" "find (\<lambda>r. dr_device_id r = did) (kt_devices t) = Some row" "dr_evm_address row = Some address"
    | (fill) "did \<in> dr_device_id ` set (kt_devices t)" "t' = t \<lparr> kt_devices := map (?set address) (kt_devices t) \<rparr>"
  proof (cases "find (\<lambda>r. dr_device_id r = did) (kt_devices t)")
    case None
    then have "did \<notin> dr_device_id ` set (kt_devices t)" using find_ids by fastforce
    with None bf ad show ?thesis by (simp add: backfill_evm_address_if_missing_def)
  next
    case (Some row)
    then have "did \<in> dr_device_id ` set (kt_devices t)" by (auto simp: find_Some_iff)
    with Some bf ad that show ?thesis
      by (cases "dr_evm_address row") (simp_all add: backfill_evm_address_if_missing_def split: if_splits)
  qed
  then have "kt_meta t' = kt_meta t \<and> kt_chain t' = kt_chain t \<and> kt_chain_state t' = kt_chain_state t \<and> kt_device_key t' = kt_device_key t
    \<and> (\<exists>row. find (\<lambda>r. dr_device_id r = did) (kt_devices t') = Some row \<and> dr_evm_address row = Some address)
    \<and> map (\<lambda>r. (dr_added_at r, dr_device_id r)) (kt_devices t') = map (\<lambda>r. (dr_added_at r, dr_device_id r)) (kt_devices t)"
  proof cases
    case same
    then show ?thesis by simp
  next
    case fill
    obtain row where row: "find (\<lambda>r. dr_device_id r = did) (kt_devices t) = Some row" using find_ids[OF fill(1)] by blast
    then have "dr_device_id row = did" by (auto simp: find_Some_iff)
    then show ?thesis using fill(2) find_map_update[OF row, of "?set address"] by auto
  qed
  with ad show "kt_meta t' = kt_meta t" "kt_chain t' = kt_chain t" "kt_chain_state t' = kt_chain_state t"
    "kt_device_key t' = kt_device_key t"
    "\<exists>row address. find (\<lambda>r. dr_device_id r = did) (kt_devices t') = Some row
          \<and> derive_evm_address c ec key = Some address \<and> dr_evm_address row = Some address"
    "map (\<lambda>r. (dr_added_at r, dr_device_id r)) (kt_devices t') = map (\<lambda>r. (dr_added_at r, dr_device_id r)) (kt_devices t)"
    by auto
qed

lemma read_registered_cong:
  assumes "map (\<lambda>r. (dr_added_at r, dr_device_id r)) (kt_devices t') = map (\<lambda>r. (dr_added_at r, dr_device_id r)) (kt_devices t)"
  shows "read_registered_device_id t' = read_registered_device_id t"
proof -
  have "read_registered_device_id t = (case sort_key (\<lambda>(a, d). (a, did_bytes d)) (map (\<lambda>r. (dr_added_at r, dr_device_id r)) (kt_devices t)) of
      [] \<Rightarrow> Inr None
    | x # _ \<Rightarrow> if length (did_bytes (snd x)) = 32 then Inr (Some (snd x)) else Inl (Corrupted ''devices.device_id not 32 bytes''))" for t
    by (simp add: read_registered_device_id_def sort_key_map split: list.split)
  then show ?thesis using assms by simp
qed

lemma unlock_device_key_held:
  assumes ok: "key_env_ok ke" and len: "length (ur_device_key rng) = SECRET_KEY_LEN"
    and un: "unlock_device_key ke rng now_ms vdk t = Inr ((did, key), t')"
  shows "device_held ke did key t'" "kt_meta t' = kt_meta t" "kt_chain t' = kt_chain t" "kt_chain_state t' = kt_chain_state t"
proof -
  let ?c = "ke_crypto ke" and ?ec = "ke_secp256k1 ke"
  have "device_held ke did key t' \<and> kt_meta t' = kt_meta t \<and> kt_chain t' = kt_chain t \<and> kt_chain_state t' = kt_chain_state t"
  proof (cases "read_registered_device_id t")
    case (Inr registered)
    show ?thesis
    proof (cases registered)
      case (Some existing)
      with un Inr have "load_device_key_with_id ?c ?ec (vm_vault_id (kt_meta t)) vdk existing t = Inr (Some (key, t'))" "did = existing"
        by (auto simp: unlock_device_key_def Let_def and_then_Inr split: option.splits)
      then have "length key = SECRET_KEY_LEN" "device_id_from_key ?c key = did" "kt_device_key t \<noteq> None"
        and bf: "backfill_evm_address_if_missing ?c ?ec key did t = Inr t'"
        by (auto simp: load_device_key_with_id_def and_then_Inr split: option.splits if_splits)
      with backfill_held[OF bf] read_registered_cong[OF backfill_held(6)[OF bf]] Inr Some \<open>did = existing\<close>
      show ?thesis unfolding device_held_def by simp
    next
      case None
      with Inr have "kt_devices t = []"
        by (auto simp: read_registered_device_id_def split: list.splits if_splits) (metis length_0_conv length_sort)
      with un Inr None len key_env_okD(2)[OF ok] show ?thesis
        by (auto simp: unlock_device_key_def register_device_def Let_def and_then_Inr device_held_def device_id_from_key_def
            read_registered_device_id_def)
    qed
  qed (use un in \<open>simp add: unlock_device_key_def Let_def\<close>)
  then show "device_held ke did key t'" "kt_meta t' = kt_meta t" "kt_chain t' = kt_chain t" "kt_chain_state t' = kt_chain_state t"
    by blast+
qed

lemma unlock_device_key_again:
  assumes ok: "key_env_ok ke" and held: "device_held ke did key t" and same: "kt_devices t2 = kt_devices t"
    and row: "kt_device_key t2 = Some (device_key_row ct nonce)" "length nonce = NONCE_LEN"
    and opens: "aead_key_open (ke_crypto ke) vdk nonce ct (device_key_aad (vm_vault_id (kt_meta t2)) did) = Inr key"
  shows "unlock_device_key ke rng now_ms vdk t2 = Inr ((did, key), t2)"
proof -
  obtain row address where dev: "find (\<lambda>r. dr_device_id r = did) (kt_devices t) = Some row"
      "derive_evm_address (ke_crypto ke) (ke_secp256k1 ke) key = Some address" "dr_evm_address row = Some address"
    and reg: "read_registered_device_id t = Inr (Some did)" "length key = SECRET_KEY_LEN" "did = device_id_from_key (ke_crypto ke) key"
    using held by (auto simp: device_held_def)
  have "length address = EVM_ADDRESS_LEN"
    using dev(2) key_env_okD(3)[OF ok] by (auto simp: derive_evm_address_def)
  then have "backfill_evm_address_if_missing (ke_crypto ke) (ke_secp256k1 ke) key did t2 = Inr t2"
    by (simp add: backfill_evm_address_if_missing_def same dev)
  moreover have "read_registered_device_id t2 = Inr (Some did)"
    using reg(1) by (simp add: read_registered_device_id_def same)
  ultimately show ?thesis
    using row opens reg(2,3)
    by (simp add: unlock_device_key_def load_device_key_with_id_def device_key_row_def)
qed

text \<open>The handle and the tables agree on the vault they belong to.\<close>

definition kv_consistent :: "KeyVault \<Rightarrow> bool" where
  "kv_consistent kv \<longleftrightarrow> v_vault_id (kv_vault kv) = vm_vault_id (kt_meta (kv_keys kv))
     \<and> v_wrap_schema_version (kv_vault kv) = wc_schema_version (vm_wrap_context (kt_meta (kv_keys kv)))"

lemma unlock_material_ok:
  assumes "unlock_material ke rng now_ms password kv = Inr (m, chain, t)"
  obtains authority data where
    "derive_seed (ke_argon2 ke) password (vm_kdf_salt (kt_meta (kv_keys kv))) (vm_kdf_params (kt_meta (kv_keys kv))) = Inr authority"
    "unwrap_with (ke_crypto ke) (wrapped_vdk (kt_meta (kv_keys kv))) authority = Inr (um_vdk m)"
    "build_on_unlock (ke_crypto ke) (kv_keys kv) (vm_vault_id (kt_meta (kv_keys kv))) authority = Inr chain"
    "build_active_state_data (ke_vault_env ke) (kv_vault kv) (um_vdk m) chain = Inr data"
    "unlock_device_key ke rng now_ms (um_vdk m) (kv_keys kv) = Inr ((um_device_id m, um_device_key m), t)"
    "derive_evm_wallet (ke_crypto ke) (ke_secp256k1 ke) (um_device_key m) = Some (um_evm_wallet m)"
    "um_vdk_epoch m = ch_current_epoch chain" "um_cache m = ad_cache data" "um_search_index m = ad_search_index data"
    "um_requires_upgrade m = ad_requires_upgrade data"
  using assms by (auto simp: unlock_material_def Let_def and_then_Inr)

lemma unwrap_length: "unwrap_with c w a = Inr vdk \<Longrightarrow> length vdk = KEY_LEN"
  by (auto simp: unwrap_with_def Let_def and_then_Inr split: if_splits)

end
