(* ===== verification/Key_Lifecycle.thy ===== *)
theory Key_Lifecycle
  imports Vault_Rekey
begin

text \<open>
  The life of a vault's keys across several operations of \<open>vault.rs\<close> and \<open>composition.rs\<close>: what
  every re-keying keeps and resets, which later unlock it makes impossible, what a failed rotation
  leaves of the session, what a completed rotation does to the removal queue, and which epoch a
  backup carries. The last sections state the type invariant of the key tables over every sequence
  of operations, and give a concrete environment in which the hypotheses hold.
\<close>

section \<open>The re-keying operations\<close>

inductive rekeyed :: "KeyEnv \<Rightarrow> rekey_rng \<Rightarrow> KeyVault \<Rightarrow> KeyVault \<Rightarrow> bool" for ke rng kv kv' where
  rekeyed_recover: "recover_with_new_password ke rng vdk password kv = (Inr (), kv') \<Longrightarrow> rekeyed ke rng kv kv'"
| rekeyed_escrow: "commit_recovery_rekey ke rng vdk password wrapped_recovery threshold guardian_count epoch guardians kv
    = (Inr (), kv') \<Longrightarrow> rekeyed ke rng kv kv'"
| rekeyed_rotation: "commit_vdk_rotation ke rng new_vdk old_vdk local_device password new_epoch wrapped_recovery threshold
    guardian_count epoch guardians kv = (Inr (), kv') \<Longrightarrow> rekeyed ke rng kv kv'"

lemma map_sum_Inr: "map_sum id f r = Inr y \<longleftrightarrow> (\<exists>x. r = Inr x \<and> y = f x)"
  by (cases r) auto

lemma collect_results_mem: "collect_results f xs = Inr ys \<Longrightarrow> x \<in> set xs \<Longrightarrow> f x = Inr y \<Longrightarrow> y \<in> set ys"
  by (induction xs arbitrary: ys) (auto simp: and_then_Inr)

lemma build_meta_fields:
  "build_meta ke rng vault_id created vdk password = Inr (authority, m) \<Longrightarrow>
     vm_vault_id m = vault_id \<and> vm_created_at m = created \<and> vm_kdf_salt m = rk_salt rng \<and> vm_kdf_params m = RECOMMENDED
     \<and> vm_wrap_context m = WrapContext_new vault_id"
  by (auto simp: build_meta_def and_then_Inr)

text \<open>A re-keying writes one meta row with the fresh salt, and drops no retained key but the current epoch's.\<close>

lemma rekeyed_commit:
  assumes "rekeyed ke rng kv kv'"
  obtains authority m vdk password where
    "build_meta ke rng (vm_vault_id (kt_meta (kv_keys kv))) (vm_created_at (kt_meta (kv_keys kv))) vdk password = Inr (authority, m)"
    "kv' = adopt_meta m (kv_keys kv') kv" "kt_meta (kv_keys kv') = m"
    "kt_sync_mode_preference (kv_keys kv') = None" "kt_revisionlog_version (kv_keys kv') = None"
    "\<And>cur r. read_current_epoch (kv_keys kv) = Inr cur \<Longrightarrow> r \<in> set (kt_chain (kv_keys kv)) \<Longrightarrow> vc_epoch r \<noteq> uint cur \<Longrightarrow>
       r \<in> set (kt_chain (kv_keys kv'))"
  using assms
proof cases
  case (rekeyed_recover vdk password)
  then show ?thesis
    by (auto simp: recover_with_new_password_def op_update_Inr build_recovery_meta_def and_then_Inr adopt_meta_def
        meta_write_def map_sum_Inr intro!: that)
next
  case (rekeyed_escrow vdk password w threshold guardian_count epoch guardians)
  then obtain authority m t where m: "build_meta ke rng (vm_vault_id (kt_meta (kv_keys kv))) (vm_created_at (kt_meta (kv_keys kv)))
      vdk password = Inr (authority, m)"
    and t: "write_recovery_escrow_tx (ke_crypto ke) (rk_guardian_nonce rng) (vm_vault_id (kt_meta (kv_keys kv)))
      vdk w threshold guardian_count epoch guardians (meta_write m (kv_keys kv)) = Inr t" and kv': "kv' = adopt_meta m t kv"
    by (auto simp: commit_recovery_rekey_def op_update_Inr build_recovery_meta_def and_then_Inr map_sum_Inr)
  have "kv_keys kv' = t" by (simp add: kv' adopt_meta_def)
  with write_escrow_frame[OF t] show ?thesis by (intro that[OF m]) (simp_all add: kv' meta_write_def)
next
  case (rekeyed_rotation new_vdk old_vdk local_device password new_epoch w threshold guardian_count epoch guardians)
  from commit_rotation_ok[OF this] obtain cur authority anchor dev m where
      rot: "rotated ke rng new_vdk old_vdk local_device password cur new_epoch authority anchor dev m (kv_keys kv) (kv_keys kv')"
    and kv': "kv' = adopt_meta m (kv_keys kv') kv" by blast
  show ?thesis by (rule that[OF _ kv']) (use rot in \<open>auto simp: rotated_def\<close>)
qed

text \<open>
  C37. Every re-keying (a recovery with a new password, a recovery that re-keys the escrow, a rotation)
  ends with a locked vault whose accounts, revisions, unpublished changes and sync positions are what
  they were, but it replaces the meta row: the log version falls back to V1, the sync preference and
  the idle choice are gone, and a handle opened afterwards uses the default idle time.
\<close>

theorem rekey_resets_preferences:
  assumes "rekeyed ke rng kv kv'"
  shows "v_session_state (kv_vault kv') = Locked \<and> v_active (kv_vault kv') = None \<and> kv_chain kv' = None
    \<and> v_accounts (kv_vault kv') = v_accounts (kv_vault kv) \<and> v_revisions (kv_vault kv') = v_revisions (kv_vault kv)
    \<and> v_dirty (kv_vault kv') = v_dirty (kv_vault kv) \<and> v_pending_merges (kv_vault kv') = v_pending_merges (kv_vault kv)
    \<and> v_sync_v1 (kv_vault kv') = v_sync_v1 (kv_vault kv) \<and> v_sync_v2 (kv_vault kv') = v_sync_v2 (kv_vault kv)
    \<and> revisionlog_version (kv_keys kv') = Inr V1 \<and> kt_sync_mode_preference (kv_keys kv') = None
    \<and> (\<forall>placeholder kv2. reopen placeholder kv' = Inr kv2 \<longrightarrow> v_session_idle (kv_vault kv2) = SessionDuration_DEFAULT)"
proof (rule rekeyed_commit[OF assms])
  fix authority m vdk password
  assume kv': "kv' = adopt_meta m (kv_keys kv') kv" and pref: "kt_sync_mode_preference (kv_keys kv') = None"
    "kt_revisionlog_version (kv_keys kv') = None"
  obtain t where t: "kv' = adopt_meta m t kv" "kv_keys kv' = t" using kv' by blast
  show ?thesis using pref
    by (auto simp: t(1) adopt_meta_def lock_def revisionlog_version_def RevisionLogVersion_from_meta_int_def reopen_def
        and_then_Inr Let_def from_meta_secs_def)
qed

text \<open>
  C16. A vault that retains the key of an earlier epoch cannot be unlocked after its next re-keying. The
  retained row stays sealed under the authority of the salt it was written with; the re-keying draws a
  new salt, and opening a session needs every retained row to open. The hypothesis on \<open>s\<close> is that no
  authority of the new salt opens that row.
\<close>

theorem retained_key_locks_out:
  assumes "rekeyed ke rng kv kv'"
    and "read_current_epoch (kv_keys kv) = Inr cur" "r \<in> set (kt_chain (kv_keys kv))" "vc_epoch r \<noteq> uint cur"
    and "decode_chain_row (vm_vault_id (kt_meta (kv_keys kv))) r = Inr s"
    and "read_current_epoch (kv_keys kv') \<noteq> Inr (se_epoch s)"
    and foreign: "\<And>password authority. derive_seed (ke_argon2 ke) password (rk_salt rng) RECOMMENDED = Inr authority
      \<Longrightarrow> unwrap_with (ke_crypto ke) (se_password_anchor s) authority = Inl Tampered"
  shows "\<forall>urng now_ms password. \<exists>e. unlock_material ke urng now_ms password kv' = Inl e"
proof (rule rekeyed_commit[OF assms(1)], intro allI)
  fix authority m vdk pw urng now_ms password
  let ?t = "kv_keys kv'" and ?vid = "vm_vault_id (kt_meta (kv_keys kv))"
  assume bm: "build_meta ke rng ?vid (vm_created_at (kt_meta (kv_keys kv))) vdk pw = Inr (authority, m)"
    and m: "kt_meta ?t = m"
    and kept: "\<And>cur r. read_current_epoch (kv_keys kv) = Inr cur \<Longrightarrow> r \<in> set (kt_chain (kv_keys kv)) \<Longrightarrow> vc_epoch r \<noteq> uint cur
      \<Longrightarrow> r \<in> set (kt_chain ?t)"
  note bm = build_meta_fields[OF bm]
  have refused: "\<exists>e. build_on_unlock (ke_crypto ke) ?t ?vid a = Inl e"
    if a: "derive_seed (ke_argon2 ke) password (rk_salt rng) RECOMMENDED = Inr a" for a
  proof (cases "read_current_epoch ?t")
    case (Inr cur')
    show ?thesis
    proof (cases "read_chain ?t ?vid")
      case (Inr rows)
      then have "s \<in> set rows" using kept[OF assms(2-4)] assms(5)
        by (auto simp: read_chain_def intro: collect_results_mem)
      with load_retained_refused[OF this _ foreign[OF a]] assms(6) \<open>read_current_epoch ?t = Inr cur'\<close> Inr
      show ?thesis by (auto simp: build_on_unlock_def)
    qed (simp add: build_on_unlock_def \<open>read_current_epoch ?t = Inr cur'\<close>)
  qed (simp add: build_on_unlock_def)
  show "\<exists>e. unlock_material ke urng now_ms password kv' = Inl e"
  proof (rule ccontr)
    assume "\<nexists>e. unlock_material ke urng now_ms password kv' = Inl e"
    then obtain x where "unlock_material ke urng now_ms password kv' = Inr x" by (cases "unlock_material ke urng now_ms password kv'") auto
    then obtain a ch where "derive_seed (ke_argon2 ke) password (rk_salt rng) RECOMMENDED = Inr a"
      "build_on_unlock (ke_crypto ke) ?t ?vid a = Inr ch"
      using bm m by (auto simp: unlock_material_def Let_def and_then_Inr)
    with refused show False by fastforce
  qed
qed

text \<open>
  C12. The first rotation keeps the contents of the vault. From a session unlocked on a vault that was
  never rotated, when the rotation commits, unlocking with the new password succeeds and gives the
  new data key and epoch, the old key retained for its epoch, and the same cache, search index,
  device and wallet as the session before: every entry decodes as it did. The vault is locked in
  between, and the device key is found under the new data key.
\<close>

theorem first_rotation_keeps_contents:
  assumes ok: "key_env_ok ke" "rekey_rng_ok rng" "length (ur_device_key urng) = SECRET_KEY_LEN" "length new_vdk = KEY_LEN"
    and kv: "kv_consistent kv" "kt_chain (kv_keys kv) = []"
    and un: "unlock_material ke urng now_ms password kv = Inr (m, chain, t)"
    and rot: "commit_vdk_rotation_from_active ke rng new_vdk new_password new_epoch wrapped_recovery threshold guardian_count
        escrow_epoch guardians (install_material now (m, chain, t) kv) = (Inr (), kv')"
    and fresh: "new_epoch \<noteq> um_vdk_epoch m" "\<forall>r \<in> set (v_revisions (kv_vault kv)). rv_vdk_epoch r \<noteq> uint new_epoch"
  shows "v_session_state (kv_vault kv') = Locked \<and> v_active (kv_vault kv') = None
    \<and> unlock_material ke urng' now_ms' new_password kv' =
        Inr (m \<lparr> um_vdk := new_vdk, um_vdk_epoch := new_epoch \<rparr>,
             \<lparr> ch_retained = [um_vdk_epoch m \<mapsto> um_vdk m], ch_current_epoch = new_epoch \<rparr>, kv_keys kv')"
proof -
  let ?c = "ke_crypto ke" and ?t0 = "kv_keys kv"
  let ?kv0 = "kv \<lparr> kv_keys := t, kv_vault := (install_unlocked now m (kv_vault kv)) \<lparr> v_active := None \<rparr>, kv_chain := None \<rparr>"
  note c = key_env_okD(1)[OF ok(1)]
  from un obtain authority data where first:
      "unwrap_with ?c (wrapped_vdk (kt_meta ?t0)) authority = Inr (um_vdk m)"
      "build_on_unlock ?c ?t0 (vm_vault_id (kt_meta ?t0)) authority = Inr chain"
      "build_active_state_data (ke_vault_env ke) (kv_vault kv) (um_vdk m) chain = Inr data"
      "unlock_device_key ke urng now_ms (um_vdk m) ?t0 = Inr ((um_device_id m, um_device_key m), t)"
      "derive_evm_wallet ?c (ke_secp256k1 ke) (um_device_key m) = Some (um_evm_wallet m)"
      "um_vdk_epoch m = ch_current_epoch chain" "um_cache m = ad_cache data" "um_search_index m = ad_search_index data"
      "um_requires_upgrade m = ad_requires_upgrade data"
    by (elim unlock_material_ok)
  have old_len: "length (um_vdk m) = KEY_LEN" by (rule unwrap_length[OF first(1)])
  note dk = unlock_device_key_held[OF ok(1,3) first(4)]
  have chain: "chain = \<lparr> ch_retained = Map.empty, ch_current_epoch = um_vdk_epoch m \<rparr>" and cur0: "read_current_epoch ?t0 = Inr (um_vdk_epoch m)"
    using first(2,6) kv(2) by (auto simp: build_on_unlock_def read_chain_def and_then_Inr)
  have "commit_vdk_rotation ke rng new_vdk (um_vdk m) (um_device_key m) new_password new_epoch wrapped_recovery threshold
      guardian_count escrow_epoch guardians ?kv0 = (Inr (), kv')"
    using rot by (simp add: commit_vdk_rotation_from_active_def op_bind_def take_active_def install_material_def install_unlocked_def)
  from commit_rotation_ok[OF this] obtain cur authority' anchor dev m' where
      rotd0: "rotated ke rng new_vdk (um_vdk m) (um_device_key m) new_password cur new_epoch authority' anchor dev m'
        (kv_keys ?kv0) (kv_keys kv')"
    and kv': "kv' = adopt_meta m' (kv_keys kv') ?kv0"
    by blast
  have rotd: "rotated ke rng new_vdk (um_vdk m) (um_device_key m) new_password cur new_epoch authority' anchor dev m' t (kv_keys kv')"
    using rotd0 by simp
  have cur: "cur = um_vdk_epoch m" using rotd cur0 dk(4) by (simp add: rotated_def read_current_epoch_def)
  have m': "build_meta ke rng (vm_vault_id (kt_meta t)) (vm_created_at (kt_meta t)) new_vdk new_password = Inr (authority', m')"
    and km: "kt_meta (kv_keys kv') = m'" "kt_devices (kv_keys kv') = kt_devices t" using rotd by (simp_all add: rotated_def)
  note bm = build_meta_ok[OF c ok(4) m']
  have vid: "vm_vault_id m' = vm_vault_id (kt_meta ?t0)" using bm(3) dk(2) by simp
  let ?chain' = "\<lparr> ch_retained = [um_vdk_epoch m \<mapsto> um_vdk m], ch_current_epoch = new_epoch \<rparr>"
  have chain': "build_on_unlock ?c (kv_keys kv') (vm_vault_id m') authority' = Inr ?chain'"
    using chain_after_first_rotation[OF ok(1,2) old_len ok(4) rotd _ ] dk(3) kv(2) cur fresh(1) by simp
  have kvault: "v_accounts (kv_vault kv') = v_accounts (kv_vault kv)" "v_revisions (kv_vault kv') = v_revisions (kv_vault kv)"
    "v_vault_id (kv_vault kv') = v_vault_id (kv_vault kv)" "v_session_state (kv_vault kv') = Locked" "v_active (kv_vault kv') = None"
    using vid kv(1) by (subst kv', simp add: adopt_meta_def install_unlocked_def lock_def kv_consistent_def)+
  have "same_entries (kv_vault kv') (new_vdk, ?chain') (kv_vault kv) (um_vdk m, chain)"
    using kvault fresh unfolding same_entries_def
    by (auto simp: entry_key_def aead_for_epoch_def chain dest!: u64_try_from_Some)
  from build_active_cong[OF this] first(3)
  have data: "build_active_state_data (ke_vault_env ke) (kv_vault kv') new_vdk ?chain' = Inr data" by simp
  obtain ct where ct: "aead_key_seal ?c new_vdk (rk_seed_nonce rng) (um_device_key m)
        (device_key_aad (vm_vault_id (kt_meta t)) (um_device_id m)) = Inr ct"
      "kt_device_key (kv_keys kv') = Some (device_key_row ct (rk_seed_nonce rng))"
    using rotd dk(1) by (auto simp: rotated_def device_held_def split: option.splits)
  have "unlock_device_key ke urng' now_ms' new_vdk (kv_keys kv') = Inr ((um_device_id m, um_device_key m), kv_keys kv')"
    by (rule unlock_device_key_again[OF ok(1) dk(1) km(2) ct(2)])
      (use ok(2) aead_seal_open[OF c ct(1)] in \<open>simp_all add: rekey_rng_ok_def km(1) bm(3)\<close>)
  then have "unlock_material ke urng' now_ms' new_password kv' =
      Inr (m \<lparr> um_vdk := new_vdk, um_vdk_epoch := new_epoch \<rparr>, ?chain', kv_keys kv')"
    using bm(1,2) chain' data first(5,7,8,9) by (simp add: unlock_material_def km(1))
  with kvault(4,5) show ?thesis by simp
qed

section \<open>Rotation as a whole\<close>

text \<open>
  C38. A rotation that fails on a live session writes nothing to the tables but takes the session's keys:
  the vault still reports itself active and its deadline still runs, while every operation that needs
  the keys answers that it is not unlocked.
\<close>

theorem failed_rotation_drops_session:
  assumes "v_active (kv_vault kv) = Some a"
    and "commit_vdk_rotation_from_active ke rng new_vdk new_password new_epoch wrapped_recovery threshold
        guardian_count escrow_epoch guardians kv = (Inl e, kv')"
  shows "kv_keys kv' = kv_keys kv \<and> vault_state (kv_vault kv') = vault_state (kv_vault kv)
    \<and> v_session_state (kv_vault kv') = v_session_state (kv_vault kv)
    \<and> require_active (kv_vault kv') = Inl NotUnlocked \<and> kv_chain kv' = None"
  using assms
  by (auto simp: commit_vdk_rotation_from_active_def op_bind_def take_active_def commit_vdk_rotation_def op_update_def
      vault_state_def require_active_def split: sum.splits)

lemma resolve_pending_ok:
  assumes "queue_ok t" "rq_removed_signer ` set ps \<subseteq> queued_signers t"
  shows "pending_signers (resolve_pending onchain ps t) = pending_signers t - (rq_removed_signer ` set ps - set onchain)"
    and "queue_ok (resolve_pending onchain ps t)"
    and "resolve_pending onchain ps t = t \<lparr> kt_rotation_pending := kt_rotation_pending (resolve_pending onchain ps t) \<rparr>"
proof -
  have "pending_signers (resolve_pending onchain ps t) = pending_signers t - (rq_removed_signer ` set ps - set onchain)
    \<and> queue_ok (resolve_pending onchain ps t)
    \<and> resolve_pending onchain ps t = t \<lparr> kt_rotation_pending := kt_rotation_pending (resolve_pending onchain ps t) \<rparr>"
    using assms
  proof (induction ps arbitrary: t)
    case (Cons p ps)
    let ?s = "rq_removed_signer p"
    show ?case
    proof (cases "?s \<in> set onchain")
      case True
      then show ?thesis using Cons by auto
    next
      case False
      let ?t = "mark_rotation_resolved ?s t"
      have s: "?s \<in> queued_signers t" using Cons.prems by simp
      have "map rp_removed_signer (kt_rotation_pending ?t) = map rp_removed_signer (kt_rotation_pending t)"
        by (simp add: mark_rotation_resolved_def)
      then have q: "queued_signers ?t = queued_signers t" unfolding queued_signers_def by (metis list.set_map)
      from Cons.IH[of ?t] mark_rotation_resolved_ok[OF Cons.prems(1) s] Cons.prems(2) q False
      show ?thesis by (auto simp: mark_rotation_resolved_def)
    qed
  qed simp
  then show "pending_signers (resolve_pending onchain ps t) = pending_signers t - (rq_removed_signer ` set ps - set onchain)"
    and "queue_ok (resolve_pending onchain ps t)"
    and "resolve_pending onchain ps t = t \<lparr> kt_rotation_pending := kt_rotation_pending (resolve_pending onchain ps t) \<rparr>"
    by blast+
qed

lemma store_op_Inr: "store_op m kv = (Inr a, kv') \<longleftrightarrow> m kv = (Inr a, kv')"
  by (cases "m kv") (auto simp: store_op_def)

lemma onboard_labels:
  "onboard_guardian_escrow c rng vdk vault_id config pubs epoch = Inr art \<Longrightarrow> oa_epoch art = epoch \<and> oa_config art = config"
  by (auto simp: onboard_guardian_escrow_def and_then_Inr split: if_splits)

lemma write_escrow_epoch:
  "write_recovery_escrow_tx c nonces vault_id vdk w threshold guardian_count epoch guardians t = Inr t' \<Longrightarrow>
     map_option es_epoch (kt_escrow t') = Some (uint epoch) \<and> uint epoch \<le> i64_max"
  by (auto simp: write_recovery_escrow_tx_def and_then_Inr i64_try_from_Some)

lemma epoch_next_neq: "uint (epoch_next e) \<le> i64_max \<Longrightarrow> epoch_next e \<noteq> e"
  by (auto simp: epoch_next_def sat_add_def unsigned_minus_1_eq_mask mask_eq_exp_minus_1 split: if_splits)

lemma complete_rotation_ok:
  assumes "complete_rotation ke rng rrng password onchain kv = (Inr outcome, kv')"
  obtains directory params art kv1 pending where
    "read_directory (kv_keys kv) = Inr directory" "recovery_escrow_params ke kv = Inr (Some params)"
    "rotate_vdk_for_survivors (ke_crypto ke) rrng (fst (resolve_survivors onchain (map directory_survivor directory)))
       (v_vault_id (kv_vault kv)) \<lparr> gs_threshold = ep_threshold params, gs_guardian_count = ep_guardian_count params \<rparr>
       (ep_guardian_x25519_pubs params) (ep_current_epoch params) = Inr art"
    "commit_vdk_rotation_from_active ke rng (rot_new_vdk art) password (rot_new_epoch art)
       (oa_wrapped_recovery (rot_re_split art)) (gs_threshold (oa_config (rot_re_split art)))
       (gs_guardian_count (oa_config (rot_re_split art))) (oa_epoch (rot_re_split art))
       (re_split_records (rot_re_split art) (ep_guardian_signers params)) kv = (Inr (), kv1)"
    "read_pending_rotations (kv_keys kv1) = Inr pending"
    "kv' = kv1 \<lparr> kv_keys := resolve_pending onchain pending (kv_keys kv1) \<rparr>"
    "ro_new_epoch outcome = rot_new_epoch art"
    "ro_unknown_survivors outcome = snd (resolve_survivors onchain (map directory_survivor directory))"
  using assms
  by (auto simp: complete_rotation_def op_bind_Inr op_seq_Inr op_try_Inr and_then_Inr store_op_Inr Let_def op_modify_def
      op_ret_def case_prod_unfold)

text \<open>What a completed rotation leaves.\<close>

lemma complete_rotation_effect:
  assumes ok: "queue_ok (kv_keys kv)" and run: "complete_rotation ke rng rrng password onchain kv = (Inr outcome, kv')"
  shows "\<exists>cur. read_current_epoch (kv_keys kv) = Inr cur \<and> ro_new_epoch outcome = epoch_next cur
    \<and> read_current_epoch (kv_keys kv') = Inr (epoch_next cur)
    \<and> map_option es_epoch (kt_escrow (kv_keys kv')) = Some (uint (epoch_next cur))
    \<and> v_session_state (kv_vault kv') = Locked \<and> v_active (kv_vault kv') = None
    \<and> pending_signers (kv_keys kv') = pending_signers (kv_keys kv) \<inter> set onchain \<and> queue_ok (kv_keys kv')"
proof (rule complete_rotation_ok[OF run])
  fix directory params art kv1 pending
  assume params: "recovery_escrow_params ke kv = Inr (Some params)"
    and rot: "rotate_vdk_for_survivors (ke_crypto ke) rrng (fst (resolve_survivors onchain (map directory_survivor directory)))
       (v_vault_id (kv_vault kv)) \<lparr> gs_threshold = ep_threshold params, gs_guardian_count = ep_guardian_count params \<rparr>
       (ep_guardian_x25519_pubs params) (ep_current_epoch params) = Inr art"
    and commit: "commit_vdk_rotation_from_active ke rng (rot_new_vdk art) password (rot_new_epoch art)
       (oa_wrapped_recovery (rot_re_split art)) (gs_threshold (oa_config (rot_re_split art)))
       (gs_guardian_count (oa_config (rot_re_split art))) (oa_epoch (rot_re_split art))
       (re_split_records (rot_re_split art) (ep_guardian_signers params)) kv = (Inr (), kv1)"
    and pending: "read_pending_rotations (kv_keys kv1) = Inr pending"
    and kv': "kv' = kv1 \<lparr> kv_keys := resolve_pending onchain pending (kv_keys kv1) \<rparr>"
    and out: "ro_new_epoch outcome = rot_new_epoch art"
  let ?cur = "ep_current_epoch params" and ?t1 = "kv_keys kv1"
  have cur: "read_current_epoch (kv_keys kv) = Inr ?cur"
    using params by (auto simp: recovery_escrow_params_def and_then_Inr)
  note art = rotate_parts[OF rot]
  have epochs: "rot_new_epoch art = epoch_next ?cur" "oa_epoch (rot_re_split art) = epoch_next ?cur"
    using art(3) onboard_labels[OF art(6)] by simp_all
  obtain a kv0 where kv0: "take_active kv = (Inr a, kv0)" "kv_keys kv0 = kv_keys kv"
    and c0: "commit_vdk_rotation ke rng (rot_new_vdk art) (as_vdk a) (as_device_key a) password (rot_new_epoch art)
       (oa_wrapped_recovery (rot_re_split art)) (gs_threshold (oa_config (rot_re_split art)))
       (gs_guardian_count (oa_config (rot_re_split art))) (oa_epoch (rot_re_split art))
       (re_split_records (rot_re_split art) (ep_guardian_signers params)) kv0 = (Inr (), kv1)"
    using commit by (auto simp: commit_vdk_rotation_from_active_def op_bind_Inr take_active_def split: option.splits)
  from commit_rotation_ok[OF c0] obtain cur authority anchor dev m where
      rotd: "rotated ke rng (rot_new_vdk art) (as_vdk a) (as_device_key a) password cur (rot_new_epoch art) authority anchor dev m
        (kv_keys kv0) ?t1"
    and kv1: "kv1 = adopt_meta m ?t1 kv0"
    and esc: "write_recovery_escrow_tx (ke_crypto ke) (rk_guardian_nonce rng) (vm_vault_id (kt_meta (kv_keys kv0))) (rot_new_vdk art)
        (oa_wrapped_recovery (rot_re_split art)) (gs_threshold (oa_config (rot_re_split art)))
        (gs_guardian_count (oa_config (rot_re_split art))) (oa_epoch (rot_re_split art))
        (re_split_records (rot_re_split art) (ep_guardian_signers params))
        ((meta_write m (kv_keys kv0)) \<lparr> kt_chain := kt_chain ?t1, kt_chain_state := kt_chain_state ?t1 \<rparr>)
      = Inr (?t1 \<lparr> kt_device_key := kt_device_key (kv_keys kv0) \<rparr>)" by blast
  have q1: "kt_rotation_pending ?t1 = kt_rotation_pending (kv_keys kv)" using rotd kv0(2) by (simp add: rotated_def)
  then have queue1: "queue_ok ?t1" "pending_signers ?t1 = pending_signers (kv_keys kv)" "queued_signers ?t1 = queued_signers (kv_keys kv)"
    using ok by (simp_all add: queue_ok_def pending_signers_def queued_signers_def)
  have ps: "rq_removed_signer ` set pending = pending_signers (kv_keys kv)"
    using read_pending_ok[OF queue1(1)] pending queue1(2) by auto
  have sub: "rq_removed_signer ` set pending \<subseteq> queued_signers ?t1"
    unfolding ps queue1(3) by (auto simp: pending_signers_def queued_signers_def)
  note res = resolve_pending_ok[OF queue1(1) sub, of onchain]
  have keys': "kt_chain_state (kv_keys kv') = Some (uint (epoch_next ?cur))" "kt_escrow (kv_keys kv') = kt_escrow ?t1"
    using res(3) rotd epochs(1) by (simp_all add: kv' rotated_def) (metis KeyTables.select_convs KeyTables.surjective KeyTables.update_convs(11))+
  have "uint (epoch_next ?cur) \<le> i64_max" using rotd epochs(1) by (simp add: rotated_def)
  then have "read_current_epoch (kv_keys kv') = Inr (epoch_next ?cur)"
    by (simp add: read_current_epoch_def keys'(1) u64_try_from_uint)
  moreover have "map_option es_epoch (kt_escrow (kv_keys kv')) = Some (uint (epoch_next ?cur))"
    using write_escrow_epoch[OF esc] epochs(2) unfolding keys'(2) by simp
  moreover have "v_session_state (kv_vault kv') = Locked" "v_active (kv_vault kv') = None"
    by (subst kv', subst kv1, simp add: adopt_meta_def lock_def)+
  moreover have "pending_signers (kv_keys kv') = pending_signers (kv_keys kv) \<inter> set onchain" "queue_ok (kv_keys kv')"
    using res(1,2) by (auto simp: kv' ps queue1(2))
  ultimately show ?thesis using cur out epochs(1) by (intro exI[of _ ?cur]) simp
qed

section \<open>Backups and the epoch of the shares\<close>

definition roster_ok :: "crypto \<Rightarrow> bytes list \<Rightarrow> bytes list \<Rightarrow> bool" where
  "roster_ok c signers sks \<longleftrightarrow> length signers = length sks
     \<and> (\<forall>s \<in> set signers. length s = GUARDIAN_SIGNER_LEN \<and> \<not> list_all (\<lambda>b. b = 0) s)
     \<and> (\<forall>sk \<in> set sks. length (cr_box_public c sk) = 32)"

lemma split_count_bound: "length sks = unat (n :: u8) \<Longrightarrow> i < length sks \<Longrightarrow> unat (of_nat i :: u8) = i"
proof -
  have "unat n < 2 ^ LENGTH(8)" by (rule unsigned_less)
  then show "length sks = unat (n :: u8) \<Longrightarrow> i < length sks \<Longrightarrow> unat (of_nat i :: u8) = i" by (simp add: unat_of_nat)
qed

lemma re_split_records_ok:
  assumes "crypto_ok c" "length vdk = KEY_LEN" "length (er_rwk rng) = KEY_LEN" "roster_ok c signers sks"
    and on: "onboard_guardian_escrow c rng vdk vault_id config (map (cr_box_public c) sks) epoch = Inr art"
  shows "guardian_records_ok (re_split_records art signers)"
    and "map gd_sealed_share (re_split_records art signers) = map ea_sealed_share (oa_assignments art)"
    and "length (oa_assignments art) = length sks"
    and "wc_vault_id (wv_ctx (oa_wrapped_recovery art)) = vault_id" "wv_nonce (oa_wrapped_recovery art) = er_nonce rng"
proof -
  note hold = onboard_escrow_holds[OF assms(1-3) on]
  show len: "length (oa_assignments art) = length sks" using hold(1) by (auto simp: escrow_holds_def)
  show "map gd_sealed_share (re_split_records art signers) = map ea_sealed_share (oa_assignments art)"
    by (simp add: re_split_records_def guardian_record_def)
  have nth: "re_split_records art signers ! i = guardian_record signers (oa_assignments art ! i)"
    "gd_index (re_split_records art signers ! i) = of_nat i" "gd_signer (re_split_records art signers ! i) = signers ! i"
    "gd_guardian_x25519_pub (re_split_records art signers ! i) = cr_box_public c (sks ! i)" if "i < length sks" for i
    using that hold(5)[OF that] split_count_bound[OF hold(4) that] len
    by (simp_all add: re_split_records_def guardian_record_def)
  have lt: "(of_nat i :: u8) < of_nat j" if "i < j" "j < length sks" for i j
    using split_count_bound[OF hold(4)] that by (simp add: word_less_nat_alt)
  show "guardian_records_ok (re_split_records art signers)"
    using assms(4) nth lt len
    unfolding guardian_records_ok_def guardian_records_typed_def roster_ok_def sorted_wrt_iff_nth_less
    by (auto simp: in_set_conv_nth[of _ "re_split_records art signers"] re_split_records_def[of art signers, THEN arg_cong[where f=length]])
  show "wc_vault_id (wv_ctx (oa_wrapped_recovery art)) = vault_id" "wv_nonce (oa_wrapped_recovery art) = er_nonce rng"
    using on by (auto simp: onboard_guardian_escrow_def onboard_escrow_def wrap_vdk_under_rwk_def seal_under_key_def and_then_Inr Let_def
        WrapContext_new_def split: if_splits)
qed

lemma read_escrow_cong:
  "kt_escrow t = kt_escrow t' \<Longrightarrow> kt_guardians t = kt_guardians t' \<Longrightarrow>
     read_recovery_escrow c vault_id vdk t = read_recovery_escrow c vault_id vdk t'"
  unfolding read_recovery_escrow_def read_escrow_meta_row_def by (simp only:)

text \<open>A backup taken over an escrow: its shares open exactly when the key chain stands at the escrow's epoch.\<close>

lemma backup_over_escrow:
  assumes c: "crypto_ok (ke_crypto ke)" "length vdk = KEY_LEN" "length (er_rwk erng) = KEY_LEN" "roster_ok (ke_crypto ke) signers sks"
    and "length (er_nonce erng) = NONCE_LEN" "length vault_id = VAULT_ID_LEN" "\<And>k. length (nonces k) = NONCE_LEN"
    and on: "onboard_guardian_escrow (ke_crypto ke) erng vdk vault_id config (map (cr_box_public (ke_crypto ke)) sks) epoch = Inr art"
    and wr: "write_recovery_escrow_tx (ke_crypto ke) nonces vault_id vdk (oa_wrapped_recovery art) threshold guardian_count
        (oa_epoch art) (re_split_records art signers) t = Inr t'"
    and kv: "require_active (kv_vault kv) = Inr a" "as_vdk a = vdk" "vm_vault_id (kt_meta (kv_keys kv)) = vault_id"
      "kt_escrow (kv_keys kv) = kt_escrow t'" "kt_guardians (kv_keys kv) = kt_guardians t'"
      "read_current_epoch (kv_keys kv) = Inr cur"
  shows "\<exists>bc. recovery_backup_contents ke kv = Inr (Some bc) \<and> bc_epoch bc = cur \<and> bc_vault_id bc = vault_id
    \<and> (\<forall>i < length sks. is_ok (open_sealed_share (ke_crypto ke) (bc_sealed_shares bc ! i) (sks ! i) vault_id
         (to_escrow_bytes (bc_epoch bc))) \<longleftrightarrow> cur = epoch)"
proof -
  note rec = re_split_records_ok[OF c on]
  have "read_recovery_escrow (ke_crypto ke) vault_id vdk (kv_keys kv) = read_recovery_escrow (ke_crypto ke) vault_id vdk t'"
    by (rule read_escrow_cong[OF kv(4,5)])
  also have "\<dots> = Inr (Some \<lparr> sr_wrapped_recovery = oa_wrapped_recovery art, sr_threshold = threshold,
      sr_guardian_count = guardian_count, sr_epoch = oa_epoch art, sr_guardians = re_split_records art signers \<rparr>)"
    by (rule escrow_read_back[OF c(1) rec(1) assms(7) _ rec(4) wr]) (simp add: rec(5) assms(5))
  finally obtain bc where bc: "recovery_backup_contents ke kv = Inr (Some bc)" "bc_epoch bc = cur" "bc_vault_id bc = vault_id"
      "bc_sealed_shares bc = map ea_sealed_share (oa_assignments art)"
    using kv rec(2) by (simp add: recovery_backup_contents_def)
  note hold = onboard_escrow_holds[OF c(1-3) on]
  obtain shares where "escrow_holds (ke_crypto ke) art sks vault_id shares (er_rwk erng) vdk" using hold(1) by blast
  note opens = guardian_opens_exact[OF c(1) this assms(6) _ assms(6), of _ cur]
  have "is_ok (open_sealed_share (ke_crypto ke) (bc_sealed_shares bc ! i) (sks ! i) vault_id (to_escrow_bytes cur)) \<longleftrightarrow> cur = epoch"
    if "i < length sks" for i
    using opens[OF that] that hold(3) rec(3) by (simp add: guardian_opens_def bc(4))
  with bc show ?thesis by blast
qed

text \<open>The device steps of an unlock touch the device tables only.\<close>

definition device_tables_only :: "KeyTables \<Rightarrow> KeyTables \<Rightarrow> bool" where
  "device_tables_only t t' \<longleftrightarrow> t' = t \<lparr> kt_device_key := kt_device_key t', kt_devices := kt_devices t' \<rparr>"

lemma backfill_frame:
  assumes "backfill_evm_address_if_missing c ec key did t = Inr t'"
  shows "device_tables_only t t'"
proof -
  let ?existing = "case find (\<lambda>r. dr_device_id r = did) (kt_devices t) of None \<Rightarrow> None | Some r \<Rightarrow> dr_evm_address r"
  obtain address where "derive_evm_address c ec key = Some address"
    using assms by (auto simp: backfill_evm_address_if_missing_def Let_def and_then_Inr)
  with assms show ?thesis
    by (cases ?existing) (auto simp: backfill_evm_address_if_missing_def device_tables_only_def Let_def split: if_splits)
qed

lemma unlock_device_key_frame:
  assumes un: "unlock_device_key ke rng now_ms vdk t = Inr (k, t')"
  shows "device_tables_only t t'"
proof (cases "read_registered_device_id t")
  case (Inr registered)
  show ?thesis
  proof (cases registered)
    case (Some did)
    with un Inr obtain key where "load_device_key_with_id (ke_crypto ke) (ke_secp256k1 ke) (vm_vault_id (kt_meta t)) vdk did t = Inr (Some (key, t'))"
      by (auto simp: unlock_device_key_def Let_def and_then_Inr split: option.splits)
    then have "backfill_evm_address_if_missing (ke_crypto ke) (ke_secp256k1 ke) key did t = Inr t'"
      by (auto simp: load_device_key_with_id_def and_then_Inr split: option.splits if_splits)
    then show ?thesis by (rule backfill_frame)
  next
    case None
    with un Inr show ?thesis
      by (auto simp: unlock_device_key_def register_device_def Let_def and_then_Inr device_tables_only_def)
  qed
qed (use un in \<open>simp add: unlock_device_key_def Let_def\<close>)

lemma device_tables_onlyD:
  assumes "device_tables_only t t'"
  shows "kt_meta t' = kt_meta t" "kt_chain_state t' = kt_chain_state t" "kt_escrow t' = kt_escrow t" "kt_guardians t' = kt_guardians t"
    "kt_chain t' = kt_chain t" "kt_directory t' = kt_directory t" "kt_rotation_pending t' = kt_rotation_pending t"
  by (subst assms[unfolded device_tables_only_def], simp)+

text \<open>
  C39. A backup created after a recovery cannot be used. The recovery re-splits the escrow for the next
  epoch but leaves the key chain where it was, and the backup is labelled with the chain's epoch: in
  any later session over those tables the backup is created, and every guardian refuses to open the
  share it carries.
\<close>

theorem backup_after_recovery_refused:
  assumes ok: "key_env_ok ke" "rekey_rng_ok rng" "length (er_rwk erng) = KEY_LEN" "length (er_nonce erng) = NONCE_LEN"
    and vid: "vm_vault_id (kt_meta (kv_keys kv)) = vault_id" "length vault_id = VAULT_ID_LEN"
    and roster: "gx_x25519_pubs roster = map (cr_box_public (ke_crypto ke)) sks" "roster_ok (ke_crypto ke) (gx_evm_addrs roster) sks"
    and cur: "read_current_epoch (kv_keys kv) = Inr cur"
    and run: "recover_from_shares ke rng erng wrapped_recovery opened roster new_password cur vault_id kv = (Inr epoch, kv')"
    and later: "unlock_material ke urng now_ms new_password kv' = Inr (um, chain, t2)"
  shows "epoch = epoch_next cur \<and> (\<exists>bc. recovery_backup_contents ke (install_material now (um, chain, t2) kv') = Inr (Some bc) \<and> bc_epoch bc = cur
    \<and> (\<forall>i < length sks. \<not> is_ok (open_sealed_share (ke_crypto ke) (bc_sealed_shares bc ! i) (sks ! i) (bc_vault_id bc)
         (to_escrow_bytes (bc_epoch bc)))))"
proof -
  let ?c = "ke_crypto ke"
  note c = key_env_okD(1)[OF ok(1)]
  obtain art where art: "recover_vdk_from_shares ?c erng wrapped_recovery opened vault_id
      \<lparr> gs_threshold = gx_threshold roster, gs_guardian_count = gx_guardian_count roster \<rparr> (gx_x25519_pubs roster) cur = Inr art"
    and commit: "commit_recovery_rekey ke rng (ra_vdk art) new_password (oa_wrapped_recovery (ra_re_split art))
      (gs_threshold (oa_config (ra_re_split art))) (gs_guardian_count (oa_config (ra_re_split art))) (oa_epoch (ra_re_split art))
      (re_split_records (ra_re_split art) (gx_evm_addrs roster)) kv = (Inr (), kv')"
    and ep: "epoch = oa_epoch (ra_re_split art)"
    using run by (auto simp: recover_from_shares_def Let_def op_bind_Inr op_seq_Inr op_try_Inr store_op_Inr op_ret_def op_guard_def
        split: if_splits)
  have vdk: "length (ra_vdk art) = KEY_LEN"
    and on: "onboard_guardian_escrow ?c erng (ra_vdk art) vault_id
      \<lparr> gs_threshold = gx_threshold roster, gs_guardian_count = gx_guardian_count roster \<rparr> (map (cr_box_public ?c) sks)
      (epoch_next cur) = Inr (ra_re_split art)"
    using art roster(1) by (auto simp: recover_vdk_from_shares_def and_then_Inr unwrap_vdk_under_rwk_def open_with_key_def split: if_splits)
  have epoch: "epoch = epoch_next cur" using ep onboard_labels[OF on] by simp
  from commit obtain auth' m t where m: "build_meta ke rng vault_id (vm_created_at (kt_meta (kv_keys kv))) (ra_vdk art) new_password
      = Inr (auth', m)"
    and wr: "write_recovery_escrow_tx ?c (rk_guardian_nonce rng) vault_id (ra_vdk art) (oa_wrapped_recovery (ra_re_split art))
      (gs_threshold (oa_config (ra_re_split art))) (gs_guardian_count (oa_config (ra_re_split art))) (oa_epoch (ra_re_split art))
      (re_split_records (ra_re_split art) (gx_evm_addrs roster)) (meta_write m (kv_keys kv)) = Inr t" and kv': "kv_keys kv' = t"
    by (auto simp: commit_recovery_rekey_def op_update_Inr build_recovery_meta_def and_then_Inr map_sum_Inr vid(1) adopt_meta_def)
  note fr = write_escrow_frame[OF wr]
  have tm: "kt_meta (kv_keys kv') = m" "read_current_epoch (kv_keys kv') = Inr cur"
    using fr(1,4) cur by (simp_all add: kv' meta_write_def read_current_epoch_def)
  note bm = build_meta_ok[OF c vdk m]
  let ?kv2 = "install_material now (um, chain, t2) kv'"
  obtain authority where un: "derive_seed (ke_argon2 ke) new_password (vm_kdf_salt m) (vm_kdf_params m) = Inr authority"
      "unwrap_with ?c (wrapped_vdk m) authority = Inr (um_vdk um)"
      "unlock_device_key ke urng now_ms (um_vdk um) (kv_keys kv') = Inr ((um_device_id um, um_device_key um), t2)"
    using later by (elim unlock_material_ok) (simp add: tm(1))
  note t2 = device_tables_onlyD[OF unlock_device_key_frame[OF un(3)]]
  have avdk: "um_vdk um = ra_vdk art" using un(1,2) bm(1,2) by simp
  obtain a where a: "require_active (kv_vault ?kv2) = Inr a" "as_vdk a = ra_vdk art"
    by (simp add: install_material_def install_unlocked_def require_active_def avdk)
  have keys2: "kv_keys ?kv2 = t2" by (simp add: install_material_def)
  have "epoch_next cur \<noteq> cur"
    using write_escrow_epoch[OF wr] epoch ep by (intro epoch_next_neq) simp
  moreover have "\<exists>bc. recovery_backup_contents ke ?kv2 = Inr (Some bc) \<and> bc_epoch bc = cur \<and> bc_vault_id bc = vault_id
    \<and> (\<forall>i < length sks. is_ok (open_sealed_share ?c (bc_sealed_shares bc ! i) (sks ! i) vault_id
         (to_escrow_bytes (bc_epoch bc))) \<longleftrightarrow> cur = epoch_next cur)"
    by (rule backup_over_escrow[OF c vdk ok(3) roster(2) ok(4) vid(2) _ on wr a])
      (use ok(2) tm bm(3) t2 in \<open>simp_all add: rekey_rng_ok_def keys2 kv' read_current_epoch_def\<close>)
  ultimately show ?thesis using epoch by metis
qed

lemma onboard_guardians_ok:
  assumes "onboard_guardians ke rng erng threshold pubs signers kv = (Inr e, kv')"
  obtains a art t where "v_active (kv_vault kv) = Some a" "length pubs = length signers" "e = GENESIS_EPOCH"
    "onboard_guardian_escrow (ke_crypto ke) erng (as_vdk a) (vm_vault_id (kt_meta (kv_keys kv)))
       \<lparr> gs_threshold = threshold, gs_guardian_count = of_nat (length pubs) \<rparr> pubs GENESIS_EPOCH = Inr art"
    "write_recovery_escrow_tx (ke_crypto ke) (rk_guardian_nonce rng) (vm_vault_id (kt_meta (kv_keys kv))) (as_vdk a)
       (oa_wrapped_recovery art) threshold (of_nat (length pubs)) (oa_epoch art) (re_split_records art signers) (kv_keys kv) = Inr t"
    "kv' = kv \<lparr> kv_keys := t \<rparr>"
proof -
  let ?vid = "vm_vault_id (kt_meta (kv_keys kv))" and ?n = "of_nat (length pubs) :: u8"
  let ?cfg = "\<lparr> gs_threshold = threshold, gs_guardian_count = ?n \<rparr>"
  obtain a eo t where a: "v_active (kv_vault kv) = Some a" and len: "length pubs = length signers" "length pubs \<le> 255"
    and eo: "onboard_escrow (ke_crypto ke) erng (as_vdk a) ?vid threshold ?n pubs GENESIS_EPOCH = Inr eo"
    and t: "write_recovery_escrow_tx (ke_crypto ke) (rk_guardian_nonce rng) ?vid (as_vdk a) (eo_wrapped_recovery eo) threshold ?n
        GENESIS_EPOCH (map (guardian_record signers) (eo_assignments eo)) (kv_keys kv) = Inr t"
    and kv': "kv' = kv \<lparr> kv_keys := t \<rparr>" "e = GENESIS_EPOCH"
    using assms by (auto simp: onboard_guardians_def op_seq_Inr op_bind_Inr op_try_Inr op_update_Inr op_guard_def op_ret_def
        require_active_def and_then_Inr Let_def split: if_splits)
  have "check_bounds threshold ?n = Inr ()" using eo by (auto simp: onboard_escrow_def split_rwk_def and_then_Inr Let_def)
  then have "GuardianSetConfig_validate ?cfg = Inr ()" by (simp add: validate_check_bounds)
  moreover have "unat ?n = length pubs" using len(2) by (simp add: unat_of_nat)
  ultimately have on: "onboard_guardian_escrow (ke_crypto ke) erng (as_vdk a) ?vid ?cfg pubs GENESIS_EPOCH
      = Inr \<lparr> oa_wrapped_recovery = eo_wrapped_recovery eo, oa_config = ?cfg, oa_epoch = GENESIS_EPOCH,
          oa_assignments = eo_assignments eo \<rparr>"
    using eo by (simp add: onboard_guardian_escrow_def)
  show ?thesis by (rule that[OF a len(1) kv'(2) on _ kv'(1)]) (use t in \<open>simp add: re_split_records_def\<close>)
qed

text \<open>
  Onboarding guardians always seals their shares for the genesis epoch. A backup created in the same
  session therefore opens for its guardians exactly when the vault was never rotated: with the key
  chain at any later epoch, every guardian refuses.
\<close>

theorem onboarding_backup_usable_iff:
  assumes ok: "key_env_ok ke" "rekey_rng_ok rng" "length (er_rwk erng) = KEY_LEN" "length (er_nonce erng) = NONCE_LEN"
    and session: "v_active (kv_vault kv) = Some a" "length (as_vdk a) = KEY_LEN" "read_current_epoch (kv_keys kv) = Inr cur"
      "length (vm_vault_id (kt_meta (kv_keys kv))) = VAULT_ID_LEN"
    and roster: "roster_ok (ke_crypto ke) signers sks" "sks \<noteq> []"
    and run: "onboard_guardians ke rng erng threshold (map (cr_box_public (ke_crypto ke)) sks) signers kv = (Inr e, kv')"
  shows "\<exists>bc. recovery_backup_contents ke kv' = Inr (Some bc) \<and> bc_epoch bc = cur
    \<and> ((\<forall>i < length sks. is_ok (open_sealed_share (ke_crypto ke) (bc_sealed_shares bc ! i) (sks ! i) (bc_vault_id bc)
          (to_escrow_bytes (bc_epoch bc)))) \<longleftrightarrow> cur = 0)"
proof (rule onboard_guardians_ok[OF run])
  fix a' art t
  let ?c = "ke_crypto ke" and ?vid = "vm_vault_id (kt_meta (kv_keys kv))"
  let ?cfg = "\<lparr> gs_threshold = threshold, gs_guardian_count = of_nat (length (map (cr_box_public ?c) sks)) \<rparr>"
  assume a': "v_active (kv_vault kv) = Some a'"
    and on: "onboard_guardian_escrow ?c erng (as_vdk a') ?vid ?cfg (map (cr_box_public ?c) sks) GENESIS_EPOCH = Inr art"
    and t: "write_recovery_escrow_tx ?c (rk_guardian_nonce rng) ?vid (as_vdk a') (oa_wrapped_recovery art) threshold
        (of_nat (length (map (cr_box_public ?c) sks))) (oa_epoch art) (re_split_records art signers) (kv_keys kv) = Inr t"
    and kv': "kv' = kv \<lparr> kv_keys := t \<rparr>"
  have aa: "a' = a" using a' session(1) by simp
  note fr = write_escrow_frame[OF t]
  have "\<exists>bc. recovery_backup_contents ke kv' = Inr (Some bc) \<and> bc_epoch bc = cur \<and> bc_vault_id bc = ?vid
    \<and> (\<forall>i < length sks. is_ok (open_sealed_share ?c (bc_sealed_shares bc ! i) (sks ! i) ?vid
         (to_escrow_bytes (bc_epoch bc))) \<longleftrightarrow> cur = GENESIS_EPOCH)"
    by (rule backup_over_escrow[OF key_env_okD(1)[OF ok(1)] session(2) ok(3) roster(1) ok(4) session(4) _ on[unfolded aa] t[unfolded aa]])
      (use ok(2) session fr in \<open>simp_all add: rekey_rng_ok_def kv' require_active_def read_current_epoch_def\<close>)
  then show ?thesis using roster(2) by (force simp: GENESIS_EPOCH_def)
qed

section \<open>A rotation goes through\<close>

text \<open>
  What the crates document of the inputs they accept. XChaCha20-Poly1305 seals under a 32-byte key and
  a 24-byte nonce every message far below its limit of 256 GiB; a sealed box to a 32-byte public key
  adds an ephemeral key and a tag, 48 bytes; a secret that is not empty splits for every threshold from
  two up to the number of shares; Argon2id derives, with the recommended parameters and a 16-byte salt,
  from every password below 4 GiB. Nothing is assumed of other inputs.
\<close>

definition crypto_total :: "KeyEnv \<Rightarrow> bool" where
  "crypto_total ke \<longleftrightarrow>
     (\<forall>k n m a. length k = KEY_LEN \<and> length n = NONCE_LEN \<and> length m < 2 ^ 32 \<longrightarrow> cr_encrypt (ke_crypto ke) k n m a \<noteq> None)
   \<and> (\<forall>r pk m. length pk = 32 \<and> length m < 2 ^ 31 \<longrightarrow>
        (\<exists>ct. cr_box_seal (ke_crypto ke) r pk m = Some ct \<and> length ct \<le> length m + 48))
   \<and> (\<forall>r t n s. 2 \<le> t \<and> t \<le> n \<and> n \<le> 255 \<and> s \<noteq> [] \<longrightarrow> cr_split_array (ke_crypto ke) r t n s \<noteq> None)
   \<and> (\<forall>password salt. length password < 2 ^ 32 \<and> length salt = SALT_LEN \<longrightarrow> ke_argon2 ke password salt RECOMMENDED \<noteq> None)"

lemma is_okI: "r = Inr x \<Longrightarrow> is_ok r" by simp

lemma is_ok_E: "is_ok r \<Longrightarrow> (\<And>x. r = Inr x \<Longrightarrow> P) \<Longrightarrow> P" by (cases r) auto

lemma and_then_total: "is_ok r \<Longrightarrow> (\<And>x. r = Inr x \<Longrightarrow> is_ok (f x)) \<Longrightarrow> is_ok (and_then r f)"
  by (cases r) simp_all

lemma is_ok_auth_err [simp]: "is_ok (auth_err r) = is_ok r"
  by (cases r) (simp_all add: auth_err_def)

lemma is_ok_map_err [simp]: "is_ok (map_err g r) = is_ok r"
  by (cases r) (simp_all add: map_err_def)

lemma is_ok_ok_or [simp]: "is_ok (ok_or x e) \<longleftrightarrow> x \<noteq> None"
  by (cases x) simp_all

lemma collect_results_total: "(\<And>x. x \<in> set xs \<Longrightarrow> is_ok (f x)) \<Longrightarrow> is_ok (collect_results f xs)"
  by (induction xs) (auto intro!: and_then_total)

named_theorems total_intros \<open>operations that do not refuse\<close>

lemma aead_seal_total [total_intros]:
  "crypto_total ke \<Longrightarrow> length k = KEY_LEN \<Longrightarrow> length n = NONCE_LEN \<Longrightarrow> length m < 2 ^ 32 \<Longrightarrow>
     is_ok (aead_key_seal (ke_crypto ke) k n m a)"
  by (simp add: aead_key_seal_def crypto_total_def)

lemma hkdf_len: "key_env_ok ke \<Longrightarrow> length (cr_hkdf (ke_crypto ke) ikm info) = KEY_LEN"
  using crypto_okD(3) key_env_okD(1) by (simp add: KEY_LEN_def)

lemma seal_under_total [total_intros]:
  "key_env_ok ke \<Longrightarrow> crypto_total ke \<Longrightarrow> length n = NONCE_LEN \<Longrightarrow> length vdk = KEY_LEN \<Longrightarrow>
     is_ok (seal_under (ke_crypto ke) n vdk authority ctx)"
  unfolding seal_under_def Let_def authority_wrap_key_def
  by (intro and_then_total aead_seal_total) (simp_all add: hkdf_len KEY_LEN_def)

lemma seal_under_key_total [total_intros]:
  "crypto_total ke \<Longrightarrow> length k = KEY_LEN \<Longrightarrow> length n = NONCE_LEN \<Longrightarrow> length vdk = KEY_LEN \<Longrightarrow>
     is_ok (seal_under_key (ke_crypto ke) n vdk k ctx)"
  unfolding seal_under_key_def by (intro and_then_total aead_seal_total) (simp_all add: KEY_LEN_def)

lemma wrap_for_device_total [total_intros]:
  "key_env_ok ke \<Longrightarrow> crypto_total ke \<Longrightarrow> length n = NONCE_LEN \<Longrightarrow> length vdk = KEY_LEN \<Longrightarrow>
     is_ok (wrap_vdk_for_device (ke_crypto ke) n vdk dev ctx)"
  by (simp add: wrap_vdk_for_device_def seal_under_key_total derive_device_wrap_key_def hkdf_len)

lemma derive_seed_recommended [total_intros]:
  "crypto_total ke \<Longrightarrow> length password < 2 ^ 32 \<Longrightarrow> length salt = SALT_LEN \<Longrightarrow>
     is_ok (derive_seed (ke_argon2 ke) password salt RECOMMENDED)"
proof -
  have "KdfParams_validate RECOMMENDED = Inr ()"
    by (simp add: KdfParams_validate_def RECOMMENDED_def MIN_MEMORY_KIB_def MIN_TIME_COST_def MIN_PARALLELISM_def)
  then show "crypto_total ke \<Longrightarrow> length password < 2 ^ 32 \<Longrightarrow> length salt = SALT_LEN \<Longrightarrow> ?thesis"
    by (simp add: derive_seed_def crypto_total_def)
qed

lemma build_meta_total [total_intros]:
  "key_env_ok ke \<Longrightarrow> crypto_total ke \<Longrightarrow> rekey_rng_ok rng \<Longrightarrow> length vdk = KEY_LEN \<Longrightarrow> length password < 2 ^ 32 \<Longrightarrow>
     is_ok (build_meta ke rng vault_id created vdk password)"
  unfolding build_meta_def by (intro and_then_total) (simp_all add: total_intros rekey_rng_ok_def)

lemma write_guardians_total:
  "crypto_total ke \<Longrightarrow> length vdk = KEY_LEN \<Longrightarrow> \<forall>k. length (nonces k) = NONCE_LEN \<Longrightarrow>
     \<forall>g \<in> set gs. length (gd_sealed_share g) < 2 ^ 32 \<Longrightarrow>
     is_ok (write_guardians (ke_crypto ke) nonces vault_id vdk epoch k gs rows)"
  by (induction gs arbitrary: k rows) (auto intro!: and_then_total aead_seal_total)

lemma write_escrow_total [total_intros]:
  "crypto_total ke \<Longrightarrow> length vdk = KEY_LEN \<Longrightarrow> uint epoch \<le> i64_max \<Longrightarrow> \<forall>k. length (nonces k) = NONCE_LEN \<Longrightarrow>
     \<forall>g \<in> set gs. length (gd_sealed_share g) < 2 ^ 32 \<Longrightarrow>
     is_ok (write_recovery_escrow_tx (ke_crypto ke) nonces vault_id vdk w threshold guardian_count epoch gs t)"
  unfolding write_recovery_escrow_tx_def
  by (intro and_then_total write_guardians_total) (simp_all add: i64_try_from_def)

lemma reseal_total [total_intros]:
  "crypto_total ke \<Longrightarrow> length vdk = KEY_LEN \<Longrightarrow> length n = NONCE_LEN \<Longrightarrow> length key < 2 ^ 32 \<Longrightarrow>
     is_ok (reseal_device_key_tx (ke_crypto ke) n vault_id vdk key t)"
  by (auto simp: reseal_device_key_tx_def intro!: and_then_total aead_seal_total)

lemma append_total [total_intros]:
  "uint e \<le> i64_max \<Longrightarrow> uint e' \<le> i64_max \<Longrightarrow> is_ok (append_retained_and_advance_tx e anchor dev e' t)"
  by (simp add: append_retained_and_advance_tx_def i64_try_from_def)

lemma op_update_total: "is_ok (f s) \<Longrightarrow> \<exists>s'. op_update f s = (Inr (), s')"
  by (auto simp: op_update_def elim!: is_ok_E)

lemma u64_try_from_bound: "u64_try_from v = Some e \<Longrightarrow> uint e \<le> i64_max"
  using u64_try_from_Some[of v e] by (auto simp: u64_try_from_def split: if_splits)

lemma read_current_epoch_bound: "read_current_epoch t = Inr e \<Longrightarrow> uint e \<le> i64_max"
  using u64_try_from_bound by (auto simp: read_current_epoch_def split: option.splits)

lemma commit_rotation_total:
  assumes "key_env_ok ke" "crypto_total ke" "length new_vdk = KEY_LEN" "read_current_epoch (kv_keys kv) = Inr cur"
    "uint new_epoch \<le> i64_max" "uint escrow_epoch \<le> i64_max" "rekey_rng_ok rng" "length password < 2 ^ 32"
    "length old_vdk = KEY_LEN" "length local_device < 2 ^ 32" "\<forall>g \<in> set guardians. length (gd_sealed_share g) < 2 ^ 32"
  shows "\<exists>kv'. commit_vdk_rotation ke rng new_vdk old_vdk local_device password new_epoch wrapped_recovery threshold
      guardian_count escrow_epoch guardians kv = (Inr (), kv')"
  unfolding commit_vdk_rotation_def
  by (rule op_update_total, unfold Let_def, intro and_then_total)
    (use assms read_current_epoch_bound[OF assms(4)] in \<open>auto simp: rekey_rng_ok_def intro!: total_intros and_then_total\<close>)

lemma is_ok_map_sum: "is_ok (map_sum id f r) = is_ok r"
  by (cases r) simp_all

lemma recover_total:
  assumes "key_env_ok ke" "crypto_total ke" "rekey_rng_ok rng" "length vdk = KEY_LEN" "length password < 2 ^ 32"
  shows "\<exists>kv'. recover_with_new_password ke rng vdk password kv = (Inr (), kv')"
  unfolding recover_with_new_password_def build_recovery_meta_def
  by (intro op_update_total and_then_total) (simp_all add: is_ok_map_sum build_meta_total[OF assms])

lemma split_total [total_intros]:
  assumes "key_env_ok ke" "crypto_total ke" "length rwk = KEY_LEN" "check_bounds threshold n = Inr ()"
  shows "is_ok (split_rwk (ke_crypto ke) r rwk threshold n)"
proof -
  have "unat n < 2 ^ LENGTH(8)" by (rule unsigned_less)
  moreover have "2 \<le> unat threshold" "unat threshold \<le> unat n" "rwk \<noteq> []"
    using assms(3,4) by (auto simp: check_bounds_def MIN_THRESHOLD_def KEY_LEN_def not_less word_le_nat_alt split: if_splits)
  ultimately obtain raw where raw: "cr_split_array (ke_crypto ke) r (unat threshold) (unat n) rwk = Some raw"
    using assms(2) by (fastforce simp: crypto_total_def)
  have "\<forall>sh \<in> set raw. length sh = 1 + length rwk \<and> sh ! 0 \<noteq> 0"
    using crypto_ok_split[OF key_env_okD(1)[OF assms(1)] raw] by blast
  then show ?thesis unfolding split_rwk_def assms(4) raw
    by (auto simp: assms(3) Share_from_bytes_def SHARE_ENCODED_LEN_def intro!: collect_results_total)
qed

lemma collect_results_image: "collect_results f xs = Inr ys \<Longrightarrow> y \<in> set ys \<Longrightarrow> \<exists>x \<in> set xs. f x = Inr y"
  by (induction xs arbitrary: ys) (auto simp: and_then_Inr)

lemma split_share_length:
  "split_rwk c r rwk threshold n = Inr shares \<Longrightarrow> sh \<in> set shares \<Longrightarrow> length sh = SHARE_ENCODED_LEN"
  by (auto simp: split_rwk_def and_then_Inr Share_from_bytes_def dest!: collect_results_image split: if_splits)

lemma box_total:
  assumes "crypto_total ke" "length pk = 32" "length m < 1000"
  obtains ct where "cr_box_seal (ke_crypto ke) r pk m = Some ct" "length ct < 2 ^ 32"
proof -
  have "length m < 2 ^ 31" by (rule less_trans[OF assms(3)]) simp
  then obtain ct where "cr_box_seal (ke_crypto ke) r pk m = Some ct" "length ct \<le> length m + 48"
    using assms(1,2) unfolding crypto_total_def by blast
  moreover from this(2) have "length ct < 2 ^ 32" using assms(3) by simp
  ultimately show ?thesis using that by blast
qed

lemma seal_assignment_total:
  assumes "crypto_total ke" "length vault_id = VAULT_ID_LEN" "length share = SHARE_ENCODED_LEN" "length pk = 32"
  shows "\<exists>x. seal_assignment (ke_crypto ke) rng vault_id epoch (i, share, pk) = Inr x \<and> length (ea_sealed_share x) < 2 ^ 32"
proof -
  have "length (sealed_share_header vault_id (epoch_bytes epoch) @ share) < 1000"
    using assms(2,3) by (simp add: sealed_share_header_def SEALED_SHARE_DOMAIN_def ascii_def epoch_bytes_def VAULT_ID_LEN_def SHARE_ENCODED_LEN_def KEY_LEN_def)
  from box_total[OF assms(1,4) this] show ?thesis
    by (metis (no_types, lifting) seal_assignment_def seal_share_def EscrowAssignment.select_convs(3) and_then_simps(2) case_prod_conv ok_or_simps(2))
qed

lemma onboard_escrow_runs:
  assumes "key_env_ok ke" "crypto_total ke" "length (er_rwk rng) = KEY_LEN" "check_bounds threshold n = Inr ()"
    and "length (er_nonce rng) = NONCE_LEN" "length vdk = KEY_LEN" "length vault_id = VAULT_ID_LEN" "\<forall>pk \<in> set pubs. length pk = 32"
  shows "\<exists>r. onboard_escrow (ke_crypto ke) rng vdk vault_id threshold n pubs epoch = Inr r
    \<and> (\<forall>x \<in> set (eo_assignments r). length (ea_sealed_share x) < 2 ^ 32)"
proof -
  let ?seal = "seal_assignment (ke_crypto ke) rng vault_id epoch"
  have "is_ok (wrap_vdk_under_rwk (ke_crypto ke) (er_nonce rng) vdk (er_rwk rng) ctx)" for ctx
    by (simp add: wrap_vdk_under_rwk_def seal_under_key_total[OF assms(2)] rwk_wrap_key_def hkdf_len[OF assms(1)] assms(5,6))
  then obtain w where w: "wrap_vdk_under_rwk (ke_crypto ke) (er_nonce rng) vdk (er_rwk rng) (WrapContext_new vault_id) = Inr w"
    by (meson is_ok_E)
  obtain shares where sh: "split_rwk (ke_crypto ke) (er_split rng) (er_rwk rng) threshold n = Inr shares"
    by (rule is_ok_E[OF split_total[OF assms(1-4)]])
  let ?xs = "enumerate 0 (zip shares pubs)"
  have seal: "\<exists>x. ?seal y = Inr x \<and> length (ea_sealed_share x) < 2 ^ 32" if y: "y \<in> set ?xs" for y
  proof -
    obtain i share pk where yy: "y = (i, share, pk)" by (cases y) auto
    then have "share \<in> set shares" "pk \<in> set pubs" using y by (auto simp: in_set_enumerate_eq dest: in_set_zipE)
    then show ?thesis unfolding yy using split_share_length[OF sh] assms(8) by (intro seal_assignment_total[OF assms(2,7)]) auto
  qed
  then have "is_ok (collect_results ?seal ?xs)" by (intro collect_results_total) (metis is_okI)
  then obtain as where as: "collect_results ?seal ?xs = Inr as" by (rule is_ok_E)
  have "\<forall>x \<in> set as. length (ea_sealed_share x) < 2 ^ 32"
  proof
    fix x
    assume "x \<in> set as"
    then obtain y where "y \<in> set ?xs" "?seal y = Inr x" using collect_results_image[OF as] by blast
    with seal show "length (ea_sealed_share x) < 2 ^ 32" by fastforce
  qed
  with w sh as show ?thesis by (simp add: onboard_escrow_def)
qed

lemma onboard_runs:
  assumes "key_env_ok ke" "crypto_total ke" "length (er_rwk rng) = KEY_LEN" "GuardianSetConfig_validate config = Inr ()"
    and "length (er_nonce rng) = NONCE_LEN" "length vdk = KEY_LEN" "length vault_id = VAULT_ID_LEN" "\<forall>pk \<in> set pubs. length pk = 32"
    and "length pubs = unat (gs_guardian_count config)"
  shows "\<exists>art. onboard_guardian_escrow (ke_crypto ke) rng vdk vault_id config pubs epoch = Inr art
    \<and> (\<forall>x \<in> set (oa_assignments art). length (ea_sealed_share x) < 2 ^ 32)"
proof -
  have "check_bounds (gs_threshold config) (gs_guardian_count config) = Inr ()" using assms(4) by (simp add: validate_check_bounds)
  from onboard_escrow_runs[OF assms(1-3) this assms(5-8), of epoch] obtain r where
    "onboard_escrow (ke_crypto ke) rng vdk vault_id (gs_threshold config) (gs_guardian_count config) pubs epoch = Inr r"
    "\<forall>x \<in> set (eo_assignments r). length (ea_sealed_share x) < 2 ^ 32" by blast
  with assms(4,9) show ?thesis by (simp add: onboard_guardian_escrow_def)
qed

lemma onboard_guardians_total:
  assumes "key_env_ok ke" "crypto_total ke" "length (er_rwk erng) = KEY_LEN"
    and "check_bounds threshold (of_nat (length pubs)) = Inr ()" "length pubs = length signers" "length pubs \<le> 255"
    and "v_active (kv_vault kv) = Some a" "length (as_vdk a) = KEY_LEN"
    and "rekey_rng_ok rng" "length (er_nonce erng) = NONCE_LEN" "length (vm_vault_id (kt_meta (kv_keys kv))) = VAULT_ID_LEN"
    and "\<forall>pk \<in> set pubs. length pk = 32"
  shows "\<exists>kv'. onboard_guardians ke rng erng threshold pubs signers kv = (Inr GENESIS_EPOCH, kv')"
proof -
  let ?vid = "vm_vault_id (kt_meta (kv_keys kv))"
  obtain r where r: "onboard_escrow (ke_crypto ke) erng (as_vdk a) ?vid threshold (of_nat (length pubs)) pubs GENESIS_EPOCH = Inr r"
    "\<forall>x \<in> set (eo_assignments r). length (ea_sealed_share x) < 2 ^ 32"
    using onboard_escrow_runs[OF assms(1-4,10,8,11,12)] by blast
  let ?f = "\<lambda>kv. let vault_id = vm_vault_id (kt_meta (kv_keys kv)); guardian_count = of_nat (length pubs)
     in and_then (auth_err (onboard_escrow (ke_crypto ke) erng (as_vdk a) vault_id threshold guardian_count pubs GENESIS_EPOCH))
       (\<lambda>onboarding. and_then (write_recovery_escrow_tx (ke_crypto ke) (rk_guardian_nonce rng) vault_id (as_vdk a)
            (eo_wrapped_recovery onboarding) threshold guardian_count GENESIS_EPOCH
            (map (guardian_record signers) (eo_assignments onboarding)) (kv_keys kv)) (\<lambda>t. Inr (kv \<lparr> kv_keys := t \<rparr>)))"
  have "is_ok (write_recovery_escrow_tx (ke_crypto ke) (rk_guardian_nonce rng) ?vid (as_vdk a) (eo_wrapped_recovery r) threshold
      (of_nat (length pubs)) GENESIS_EPOCH (map (guardian_record signers) (eo_assignments r)) (kv_keys kv))"
    using assms(9) r(2) by (intro write_escrow_total[OF assms(2,8)]) (auto simp: GENESIS_EPOCH_def rekey_rng_ok_def guardian_record_def)
  then have "is_ok (?f kv)" by (auto simp: r(1) auth_err_def intro!: and_then_total)
  from op_update_total[of ?f, OF this] assms(5-7) show ?thesis
    by (auto simp: onboard_guardians_def op_seq_def op_bind_def op_guard_def op_try_def require_active_def op_ret_def)
qed

lemma rotate_runs:
  assumes "key_env_ok ke" "crypto_total ke" "length (er_rwk (rr_escrow rng)) = KEY_LEN" "GuardianSetConfig_validate config = Inr ()"
    and "length (er_nonce (rr_escrow rng)) = NONCE_LEN" "length (rr_vdk rng) = KEY_LEN" "length vault_id = VAULT_ID_LEN"
    and "\<forall>pk \<in> set pubs. length pk = 32" "length pubs = unat (gs_guardian_count config)"
    and "survivors \<noteq> []" "\<forall>s \<in> set survivors. length (sv_device_id s) = 32 \<and> length (sv_x25519_pairing_pub s) = 32"
  shows "\<exists>art. rotate_vdk_for_survivors (ke_crypto ke) rng survivors vault_id config pubs epoch = Inr art
    \<and> (\<forall>x \<in> set (oa_assignments (rot_re_split art)). length (ea_sealed_share x) < 2 ^ 32)"
proof -
  have "is_ok (seal_survivor (ke_crypto ke) rng vault_id e x)" if "x \<in> set (enumerate 0 survivors)" for e x
  proof -
    obtain i s where x: "x = (i, s)" by (cases x)
    then have s: "length (sv_device_id s) = 32" "length (sv_x25519_pairing_pub s) = 32" using that assms(11) by (auto simp: in_set_enumerate_eq)
    have "length (sealed_vdk_header vault_id (sv_device_id s) (to_escrow_bytes e) @ rr_vdk rng) < 1000"
      using assms(6,7) s(1) by (simp add: sealed_vdk_header_def SEALED_VDK_DOMAIN_def ascii_def to_escrow_bytes_def KEY_LEN_def VAULT_ID_LEN_def)
    from box_total[OF assms(2) s(2) this] show ?thesis unfolding x seal_survivor_def seal_vdk_to_device_def
      by (metis (no_types, lifting) and_then_simps(2) case_prod_conv is_okI ok_or_simps(2))
  qed
  then have "is_ok (collect_results (seal_survivor (ke_crypto ke) rng vault_id (epoch_next epoch)) (enumerate 0 survivors))"
    by (rule collect_results_total)
  with onboard_runs[OF assms(1-9), of "epoch_next epoch"] assms(10) show ?thesis
    by (auto simp: rotate_vdk_for_survivors_def Let_def elim!: is_ok_E)
qed

lemma resolve_survivors_nonempty:
  "set signers \<inter> sd_signer ` set directory \<noteq> {} \<Longrightarrow> fst (resolve_survivors signers directory) \<noteq> []"
proof (induction signers)
  case (Cons s rest)
  show ?case
  proof (cases "s \<in> sd_signer ` set directory")
    case True
    then obtain e where "find (\<lambda>e. sd_signer e = s) directory = Some e" using find_ids[OF True] by blast
    then show ?thesis by (simp add: case_prod_unfold Let_def)
  next
    case False
    then show ?thesis using Cons by (auto simp: case_prod_unfold Let_def split: option.split)
  qed
qed simp

lemma read_directory_typed:
  "read_directory t = Inr directory \<Longrightarrow> e \<in> set directory \<Longrightarrow> length (di_device_id e) = 32 \<and> length (di_pairing_pub e) = 32"
  by (auto simp: read_directory_def decode_directory_row_def dest!: collect_results_image split: if_splits)

lemma escrow_pubs_typed:
  assumes "read_recovery_escrow c vault_id vdk t = Inr (Some e)" "g \<in> set (sr_guardians e)"
  shows "length (gd_guardian_x25519_pub g) = 32"
proof -
  have "\<exists>epoch. collect_results (decode_guardian_row c vault_id epoch vdk) (sort_key gr_guardian_index (kt_guardians t))
      = Inr (sr_guardians e)"
    using assms(1) by (cases "read_escrow_meta_row t"; cases "projr (read_escrow_meta_row t)")
      (auto simp: read_recovery_escrow_def and_then_Inr split: if_splits)
  then obtain epoch where "collect_results (decode_guardian_row c vault_id epoch vdk) (sort_key gr_guardian_index (kt_guardians t))
      = Inr (sr_guardians e)" by blast
  from collect_results_image[OF this assms(2)] show ?thesis
    by (auto simp: decode_guardian_row_def and_then_Inr split: if_splits)
qed

lemma params_typed:
  "recovery_escrow_params ke kv = Inr (Some p) \<Longrightarrow> \<forall>pk \<in> set (ep_guardian_x25519_pubs p). length pk = 32"
  by (auto simp: recovery_escrow_params_def and_then_Inr dest: escrow_pubs_typed)

text \<open>
  C13. A rotation is never stuck. In an open session over a vault with a readable escrow whose guardian
  set is valid and of the stated size, when at least one signer of the chain is in the device directory
  and the epoch can advance, completing the rotation succeeds. The primitives are only assumed to
  accept the inputs their crates document as accepted (\<open>crypto_total\<close>), and keys, nonces and identifiers
  have the lengths their Rust types give them. The rotation moves the vault to the next epoch, locks it,
  points the guardian escrow at that epoch, and retires from the removal queue exactly the removed
  signers that are not on the chain any more.
\<close>

theorem rotation_completes:
  assumes env: "key_env_ok ke" "crypto_total ke" "rekey_rng_ok rng" "length password < 2 ^ 32"
    and rrng: "length (rr_vdk rrng) = KEY_LEN" "length (er_rwk (rr_escrow rrng)) = KEY_LEN" "length (er_nonce (rr_escrow rrng)) = NONCE_LEN"
    and active: "v_active (kv_vault kv) = Some a" "length (as_vdk a) = KEY_LEN" "length (as_device_key a) = SECRET_KEY_LEN"
    and tables: "queue_ok (kv_keys kv)" "length (v_vault_id (kv_vault kv)) = VAULT_ID_LEN"
    and dir: "read_directory (kv_keys kv) = Inr directory" "set onchain \<inter> di_signer ` set directory \<noteq> {}"
    and params: "recovery_escrow_params ke kv = Inr (Some p)"
      "GuardianSetConfig_validate \<lparr> gs_threshold = ep_threshold p, gs_guardian_count = ep_guardian_count p \<rparr> = Inr ()"
      "length (ep_guardian_x25519_pubs p) = unat (ep_guardian_count p)"
    and epoch: "uint (epoch_next (ep_current_epoch p)) \<le> i64_max"
  shows "\<exists>outcome kv'. complete_rotation ke rng rrng password onchain kv = (Inr outcome, kv')
    \<and> ro_new_epoch outcome = epoch_next (ep_current_epoch p)
    \<and> read_current_epoch (kv_keys kv') = Inr (epoch_next (ep_current_epoch p))
    \<and> map_option es_epoch (kt_escrow (kv_keys kv')) = Some (uint (epoch_next (ep_current_epoch p)))
    \<and> v_session_state (kv_vault kv') = Locked
    \<and> pending_signers (kv_keys kv') = pending_signers (kv_keys kv) \<inter> set onchain"
proof -
  let ?c = "ke_crypto ke" and ?dir = "map directory_survivor directory"
  let ?config = "\<lparr> gs_threshold = ep_threshold p, gs_guardian_count = ep_guardian_count p \<rparr>"
  obtain survivors unknown where res: "resolve_survivors onchain ?dir = (survivors, unknown)" by fastforce
  have ne: "survivors \<noteq> []"
    using resolve_survivors_nonempty[of onchain ?dir] dir(2) res by (simp add: directory_survivor_def image_image)
  have typed: "\<forall>s \<in> set survivors. length (sv_device_id s) = 32 \<and> length (sv_x25519_pairing_pub s) = 32"
    using resolve_survivors_partition(1)[OF res] read_directory_typed[OF dir(1)] by (fastforce simp: directory_survivor_def)
  obtain art where art: "rotate_vdk_for_survivors ?c rrng survivors (v_vault_id (kv_vault kv)) ?config
      (ep_guardian_x25519_pubs p) (ep_current_epoch p) = Inr art"
    and small: "\<forall>x \<in> set (oa_assignments (rot_re_split art)). length (ea_sealed_share x) < 2 ^ 32"
    using rotate_runs[OF env(1,2) rrng(2) params(2) rrng(3,1) tables(2) _ _ ne typed, of "ep_guardian_x25519_pubs p" "ep_current_epoch p"]
      params(3) params_typed[OF params(1)] by auto
  note parts = rotate_parts[OF art]
  let ?kv0 = "kv \<lparr> kv_vault := (kv_vault kv) \<lparr> v_active := None \<rparr>, kv_chain := None \<rparr>"
  have cur: "read_current_epoch (kv_keys ?kv0) = Inr (ep_current_epoch p)"
    using params(1) by (auto simp: recovery_escrow_params_def and_then_Inr)
  have records: "\<forall>g \<in> set (re_split_records (rot_re_split art) (ep_guardian_signers p)). length (gd_sealed_share g) < 2 ^ 32"
    using small by (simp add: re_split_records_def guardian_record_def)
  obtain kv1 where kv1: "commit_vdk_rotation ke rng (rot_new_vdk art) (as_vdk a) (as_device_key a) password (rot_new_epoch art)
      (oa_wrapped_recovery (rot_re_split art)) (gs_threshold (oa_config (rot_re_split art)))
      (gs_guardian_count (oa_config (rot_re_split art))) (oa_epoch (rot_re_split art))
      (re_split_records (rot_re_split art) (ep_guardian_signers p)) ?kv0 = (Inr (), kv1)"
    using commit_rotation_total[OF env(1,2) _ cur _ _ env(3,4) active(2), of "rot_new_vdk art" "rot_new_epoch art" "oa_epoch (rot_re_split art)"
        "as_device_key a" "re_split_records (rot_re_split art) (ep_guardian_signers p)"]
      rrng(1) parts(2,3) onboard_labels[OF parts(6)] epoch active(3) records by (fastforce simp: SECRET_KEY_LEN_def)
  have "kt_rotation_pending (kv_keys kv1) = kt_rotation_pending (kv_keys kv)"
    using commit_rotation_ok[OF kv1] by (auto simp: rotated_def)
  then have "queue_ok (kv_keys kv1)" using tables(1) by (simp add: queue_ok_def)
  then obtain ps where ps: "read_pending_rotations (kv_keys kv1) = Inr ps" using read_pending_ok by blast
  have "commit_vdk_rotation_from_active ke rng (rot_new_vdk art) password (rot_new_epoch art)
      (oa_wrapped_recovery (rot_re_split art)) (gs_threshold (oa_config (rot_re_split art)))
      (gs_guardian_count (oa_config (rot_re_split art))) (oa_epoch (rot_re_split art))
      (re_split_records (rot_re_split art) (ep_guardian_signers p)) kv = (Inr (), kv1)"
    using kv1 active(1) by (simp add: commit_vdk_rotation_from_active_def op_bind_def take_active_def)
  then obtain outcome kv' where run: "complete_rotation ke rng rrng password onchain kv = (Inr outcome, kv')"
    using dir(1) params(1) art ps res
    by (simp add: complete_rotation_def op_bind_def op_seq_def op_try_def store_op_def op_modify_def op_ret_def Let_def)
  from complete_rotation_effect[OF tables(1) run] cur run show ?thesis by (intro exI[of _ outcome] exI[of _ kv']) auto
qed

section \<open>What onboarding writes and what the reader accepts\<close>

lemma assignments_nth:
  assumes "crypto_ok c" "onboard_guardian_escrow c rng vdk vault_id config pubs epoch = Inr art"
  shows "length (oa_assignments art) = length pubs"
    and "i < length pubs \<Longrightarrow> ea_index (oa_assignments art ! i) = of_nat i \<and> ea_guardian_x25519_pub (oa_assignments art ! i) = pubs ! i"
proof -
  from assms(2) obtain shares where cnt: "length pubs = unat (gs_guardian_count config)"
    and sh: "split_rwk c (er_split rng) (er_rwk rng) (gs_threshold config) (gs_guardian_count config) = Inr shares"
    and as: "collect_results (seal_assignment c rng vault_id epoch) (enumerate 0 (zip shares pubs)) = Inr (oa_assignments art)"
    by (auto simp: onboard_guardian_escrow_def onboard_escrow_def and_then_Inr Let_def split: if_splits)
  from sh obtain raw where "cr_split_array c (er_split rng) (unat (gs_threshold config)) (unat (gs_guardian_count config)) (er_rwk rng) = Some raw"
      "collect_results Share_from_bytes raw = Inr shares"
    by (auto simp: split_rwk_def and_then_Inr)
  then have "length shares = length pubs"
    using crypto_ok_split(1)[OF assms(1)] cnt by (auto simp: collect_results_ok dest: list_all2_lengthD)
  then show len: "length (oa_assignments art) = length pubs" using as by (auto simp: collect_results_ok dest: list_all2_lengthD)
  assume i: "i < length pubs"
  with \<open>length shares = length pubs\<close> have "enumerate 0 (zip shares pubs) ! i = (i, shares ! i, pubs ! i)" by (simp add: nth_enumerate_eq)
  moreover have "seal_assignment c rng vault_id epoch (enumerate 0 (zip shares pubs) ! i) = Inr (oa_assignments art ! i)"
    using as i \<open>length shares = length pubs\<close> by (simp add: collect_results_ok list_all2_conv_all_nth)
  ultimately show "ea_index (oa_assignments art ! i) = of_nat i \<and> ea_guardian_x25519_pub (oa_assignments art ! i) = pubs ! i"
    by (auto simp: seal_assignment_def and_then_Inr dest!: sym[where t = "oa_assignments art ! i"])
qed

lemma onboarded_records:
  assumes "crypto_ok c" "onboard_guardian_escrow c rng vdk vault_id config pubs epoch = Inr art" "length signers = length pubs"
    and "\<forall>pk \<in> set pubs. length pk = 32" "\<forall>s \<in> set signers. length s = GUARDIAN_SIGNER_LEN"
  shows "guardian_records_typed (re_split_records art signers)"
    and "map gd_signer (re_split_records art signers) = signers" "map gd_guardian_x25519_pub (re_split_records art signers) = pubs"
    and "wc_vault_id (wv_ctx (oa_wrapped_recovery art)) = vault_id" "wv_nonce (oa_wrapped_recovery art) = er_nonce rng"
proof -
  note nth = assignments_nth[OF assms(1,2)]
  have cnt: "length pubs = unat (gs_guardian_count config)"
    using assms(2) by (auto simp: onboard_guardian_escrow_def and_then_Inr split: if_splits)
  have rec: "re_split_records art signers ! i = guardian_record signers (oa_assignments art ! i)"
    "gd_index (re_split_records art signers ! i) = of_nat i" "gd_signer (re_split_records art signers ! i) = signers ! i"
    "gd_guardian_x25519_pub (re_split_records art signers ! i) = pubs ! i" if "i < length pubs" for i
    using that nth(2)[OF that] split_count_bound[OF cnt that] nth(1) by (simp_all add: re_split_records_def guardian_record_def)
  have len: "length (re_split_records art signers) = length pubs" by (simp add: re_split_records_def nth(1))
  have "(of_nat i :: u8) < of_nat j" if "i < j" "j < length pubs" for i j
    using split_count_bound[OF cnt] that by (simp add: word_less_nat_alt)
  then show "guardian_records_typed (re_split_records art signers)"
    using assms(3-5) rec len unfolding guardian_records_typed_def sorted_wrt_iff_nth_less
    by (auto simp: in_set_conv_nth[of _ "re_split_records art signers"])
  show "map gd_signer (re_split_records art signers) = signers" "map gd_guardian_x25519_pub (re_split_records art signers) = pubs"
    using assms(3) rec len by (simp_all add: list_eq_iff_nth_eq)
  show "wc_vault_id (wv_ctx (oa_wrapped_recovery art)) = vault_id" "wv_nonce (oa_wrapped_recovery art) = er_nonce rng"
    using assms(2) by (auto simp: onboard_guardian_escrow_def onboard_escrow_def wrap_vdk_under_rwk_def seal_under_key_def and_then_Inr Let_def
        WrapContext_new_def split: if_splits)
qed

text \<open>
  C40. Onboarding accepts guardian signers that its reader refuses. After a successful onboarding the
  escrow reads back with the guardians' keys, signers and threshold exactly when no signer is the
  all-zero address. If one is, the onboarding has still been committed, and from then on the escrow
  parameters and the contents of a backup are refused as corrupted, and every attempt to complete a
  rotation fails without changing the vault.
\<close>

theorem onboarded_escrow_readable_iff:
  assumes ok: "key_env_ok ke" "rekey_rng_ok rng" "length (er_nonce erng) = NONCE_LEN"
    and session: "read_current_epoch (kv_keys kv) = Inr cur"
    and roster: "\<forall>pk \<in> set pubs. length pk = 32" "\<forall>s \<in> set signers. length s = GUARDIAN_SIGNER_LEN"
    and run: "onboard_guardians ke rng erng threshold pubs signers kv = (Inr e, kv')"
  shows "if \<exists>s \<in> set signers. zero_signer s
    then recovery_escrow_params ke kv' = Inl (Corrupted ''recovery_guardians.guardian_signer is all-zero'')
      \<and> recovery_backup_contents ke kv' = Inl (Corrupted ''recovery_guardians.guardian_signer is all-zero'')
      \<and> (\<forall>rng' rrng password onchain. \<exists>err. complete_rotation ke rng' rrng password onchain kv' = (Inl (CompStore err), kv'))
    else \<exists>p. recovery_escrow_params ke kv' = Inr (Some p) \<and> ep_guardian_x25519_pubs p = pubs \<and> ep_guardian_signers p = signers
      \<and> ep_threshold p = threshold \<and> ep_guardian_count p = of_nat (length pubs) \<and> ep_current_epoch p = cur"
proof (rule onboard_guardians_ok[OF run])
  fix a art t
  let ?c = "ke_crypto ke" and ?vid = "vm_vault_id (kt_meta (kv_keys kv))" and ?e = "Corrupted ''recovery_guardians.guardian_signer is all-zero''"
  assume a: "v_active (kv_vault kv) = Some a" and len: "length pubs = length signers"
    and on: "onboard_guardian_escrow ?c erng (as_vdk a) ?vid \<lparr> gs_threshold = threshold, gs_guardian_count = of_nat (length pubs) \<rparr> pubs GENESIS_EPOCH = Inr art"
    and t: "write_recovery_escrow_tx ?c (rk_guardian_nonce rng) ?vid (as_vdk a) (oa_wrapped_recovery art) threshold
        (of_nat (length pubs)) (oa_epoch art) (re_split_records art signers) (kv_keys kv) = Inr t"
    and kv': "kv' = kv \<lparr> kv_keys := t \<rparr>"
  note rec = onboarded_records[OF key_env_okD(1)[OF ok(1)] on len[symmetric] roster]
  note fr = write_escrow_frame[OF t]
  have zero: "(\<forall>g \<in> set (re_split_records art signers). \<not> zero_signer (gd_signer g)) \<longleftrightarrow> \<not> (\<exists>s \<in> set signers. zero_signer s)"
    using rec(2) by (metis (no_types, lifting) imageE image_eqI set_map)
  have "read_recovery_escrow ?c ?vid (as_vdk a) t = (if \<forall>g \<in> set (re_split_records art signers). \<not> zero_signer (gd_signer g)
     then Inr (Some \<lparr> sr_wrapped_recovery = oa_wrapped_recovery art, sr_threshold = threshold, sr_guardian_count = of_nat (length pubs),
       sr_epoch = oa_epoch art, sr_guardians = re_split_records art signers \<rparr>) else Inl ?e)"
    by (rule escrow_read_exact[OF key_env_okD(1)[OF ok(1)] rec(1) _ _ rec(4) t]) (use ok(2,3) in \<open>simp_all add: rekey_rng_ok_def rec(5)\<close>)
  then have rd: "read_recovery_escrow ?c (vm_vault_id (kt_meta t)) (as_vdk a) t = (if \<exists>s \<in> set signers. zero_signer s then Inl ?e
     else Inr (Some \<lparr> sr_wrapped_recovery = oa_wrapped_recovery art, sr_threshold = threshold, sr_guardian_count = of_nat (length pubs),
       sr_epoch = oa_epoch art, sr_guardians = re_split_records art signers \<rparr>))"
    using zero fr by simp
  have act: "require_active (kv_vault kv') = Inr a" "kv_keys kv' = t" by (simp_all add: kv' a require_active_def)
  have epoch: "read_current_epoch t = Inr cur" using session fr by (simp add: read_current_epoch_def)
  show ?thesis
  proof (cases "\<exists>s \<in> set signers. zero_signer s")
    case True
    then have p: "recovery_escrow_params ke kv' = Inl ?e" by (simp add: recovery_escrow_params_def act rd)
    have "\<exists>err. complete_rotation ke rng' rrng password onchain kv' = (Inl (CompStore err), kv')" for rng' rrng password onchain
      by (cases "read_directory (kv_keys kv')")
        (simp_all add: complete_rotation_def op_bind_def op_try_def p case_prod_unfold Let_def)
    with True p show ?thesis by (simp add: recovery_backup_contents_def act rd)
  next
    case False
    then show ?thesis using rec(2,3) by (simp add: recovery_escrow_params_def act rd epoch)
  qed
qed

section \<open>A concrete environment\<close>

text \<open>
  Stand-ins for the primitives in which a key matters: the tag of a ciphertext is the start of its
  key, and the derived authority starts with the salt.
\<close>

definition keyed_crypto :: crypto where
  "keyed_crypto = example_crypto \<lparr>
     cr_encrypt := (\<lambda>k n m a. Some (m @ take 16 (k @ replicate 16 0))),
     cr_decrypt := (\<lambda>k n ct a. if drop (length ct - 16) ct = take 16 (k @ replicate 16 0)
       then Some (take (length ct - 16) ct) else None),
     cr_verifying_key := (\<lambda>k. take 32 (k @ replicate 32 0)) \<rparr>"

definition example_ke :: KeyEnv where
  "example_ke = \<lparr> ke_crypto = keyed_crypto,
     ke_secp256k1 = \<lparr> ec_valid_scalar = (\<lambda>_. True), ec_address = (\<lambda>s. take 20 (s @ replicate 20 0)) \<rparr>,
     ke_argon2 = (\<lambda>password salt params. Some (take 32 (salt @ password @ replicate 32 0))), ke_vault_env = example_env \<rparr>"

definition example_rekey_rng :: "u8 \<Rightarrow> rekey_rng" where
  "example_rekey_rng b = \<lparr> rk_salt = replicate 16 b, rk_meta_nonce = replicate 24 1, rk_anchor_nonce = replicate 24 2,
     rk_device_nonce = replicate 24 3, rk_guardian_nonce = (\<lambda>_. replicate 24 4), rk_seed_nonce = replicate 24 5 \<rparr>"

definition example_unlock_rng :: unlock_rng where
  "example_unlock_rng = \<lparr> ur_device_key = replicate 32 8, ur_nonce = replicate 24 9 \<rparr>"

lemma keyed_split: "cr_split_array keyed_crypto = cr_split_array example_crypto"
  "cr_combine_array keyed_crypto = cr_combine_array example_crypto"
  by (simp_all add: keyed_crypto_def)

lemma keyed_crypto_ok: "crypto_ok keyed_crypto"
  unfolding crypto_ok_def keyed_split using example_split_ok
  by (simp add: keyed_crypto_def example_crypto_def min_def)

lemma example_ke_ok: "key_env_ok example_ke" "crypto_total example_ke" "rekey_rng_ok (example_rekey_rng b)"
    "length (ur_device_key example_unlock_rng) = SECRET_KEY_LEN"
  using keyed_crypto_ok
  by (simp_all add: key_env_ok_def crypto_total_def example_ke_def rekey_rng_ok_def example_rekey_rng_def SALT_LEN_def NONCE_LEN_def
      EVM_ADDRESS_LEN_def keyed_crypto_def example_crypto_def min_def example_unlock_rng_def SECRET_KEY_LEN_def)

definition example_vault_id :: bytes where "example_vault_id = replicate 32 6"

definition created :: KeyVault where
  "created = projr (create example_ke (example_rekey_rng 1) example_vault_id (replicate 32 5) (DeviceId (replicate 32 2)) 1000 [1])"

lemma created_ok:
  obtains authority m where
    "build_meta example_ke (example_rekey_rng 1) example_vault_id 1000 (replicate 32 5) [1] = Inr (authority, m)"
    "kv_keys created = set_revisionlog_version V1 (empty_tables m)" "kv_consistent created" "v_session_state (kv_vault created) = Locked"
    "v_accounts (kv_vault created) = []" "v_revisions (kv_vault created) = []"
proof -
  obtain authority m where m: "build_meta example_ke (example_rekey_rng 1) example_vault_id 1000 (replicate 32 5) [1] = Inr (authority, m)"
    using build_meta_total[OF example_ke_ok(1-3), of "replicate 32 5" "[1]" 1] by (fastforce simp: KEY_LEN_def elim!: is_ok_E)
  with build_meta_fields[OF m] show ?thesis
    by (intro that[OF m]) (simp_all add: created_def create_def kv_consistent_def set_revisionlog_version_def empty_tables_def)
qed

lemma example_seal: "length k = KEY_LEN \<Longrightarrow> is_ok (aead_key_seal (ke_crypto example_ke) k n m a)"
  by (simp add: aead_key_seal_def example_ke_def keyed_crypto_def)

lemma example_unlock:
  assumes "v_accounts (kv_vault kv) = []" "kt_chain (kv_keys kv) = []" "kt_chain_state (kv_keys kv) = None" "kt_devices (kv_keys kv) = []"
    and "build_meta example_ke rng vault_id created_ms vdk password = Inr (authority, kt_meta (kv_keys kv))" "length vdk = KEY_LEN"
  shows "\<exists>m chain t. unlock_material example_ke urng now_ms password kv = Inr (m, chain, t) \<and> um_vdk m = vdk \<and> um_vdk_epoch m = 0
    \<and> um_device_key m = ur_device_key urng \<and> t = (kv_keys kv) \<lparr> kt_device_key := kt_device_key t, kt_devices := kt_devices t \<rparr>"
proof -
  note bm = build_meta_ok[OF key_env_okD(1)[OF example_ke_ok(1)] assms(6,5)]
  have chain: "build_on_unlock (ke_crypto example_ke) (kv_keys kv) (vm_vault_id (kt_meta (kv_keys kv))) authority
      = Inr \<lparr> ch_retained = Map.empty, ch_current_epoch = 0 \<rparr>"
    by (simp add: build_on_unlock_def read_current_epoch_def read_chain_def assms(2,3))
  have data: "is_ok (build_active_state_data (ke_vault_env example_ke) (kv_vault kv) vdk chain)" for chain
    by (simp add: build_active_state_data_def assms(1))
  have wallet: "derive_evm_wallet (ke_crypto example_ke) (ke_secp256k1 example_ke) d \<noteq> None" for d
    by (auto simp: derive_evm_wallet_def find_None_iff example_ke_def)
  have "is_ok (unlock_device_key example_ke urng now_ms vdk (kv_keys kv))"
    using wallet by (auto simp: unlock_device_key_def Let_def read_registered_device_id_def assms(4) register_device_def
        derive_evm_address_def intro!: and_then_total example_seal assms(6))
  then obtain did key t where dk: "unlock_device_key example_ke urng now_ms vdk (kv_keys kv) = Inr ((did, key), t)"
    by (metis is_ok_E surj_pair)
  have t: "key = ur_device_key urng" "t = (kv_keys kv) \<lparr> kt_device_key := kt_device_key t, kt_devices := kt_devices t \<rparr>"
    using dk by (auto simp: unlock_device_key_def Let_def read_registered_device_id_def assms(4) register_device_def and_then_Inr)
  from data[of "\<lparr> ch_retained = Map.empty, ch_current_epoch = 0 \<rparr>"] wallet[of key] bm(1,2) chain dk show ?thesis
    by (auto simp: unlock_material_def Let_def assms(5) t(1) t(2)[symmetric] elim!: is_ok_E)
qed

definition example_wrapped :: WrappedVdk where
  "example_wrapped = \<lparr> wv_ciphertext = [], wv_nonce = replicate 24 0, wv_ctx = WrapContext_new example_vault_id \<rparr>"

definition opened :: KeyVault where
  "opened = install_material 2000 (projr (unlock_material example_ke example_unlock_rng 1500 [1] created)) created"

lemma opened_ok:
  obtains m chain t where "unlock_material example_ke example_unlock_rng 1500 [1] created = Inr (m, chain, t)"
    "opened = install_material 2000 (m, chain, t) created" "um_vdk m = replicate 32 5" "um_vdk_epoch m = 0"
    "kv_keys opened = t" "kt_chain t = []" "kt_chain_state t = None" "kt_rotation_pending t = []" "kt_directory t = []"
    "vm_vault_id (kt_meta t) = example_vault_id" "v_vault_id (kv_vault opened) = example_vault_id"
    "map_option as_vdk (v_active (kv_vault opened)) = Some (replicate 32 5)"
    "map_option as_device_key (v_active (kv_vault opened)) = Some (replicate 32 8)" "um_device_key m = replicate 32 8"
proof (rule created_ok)
  fix authority mt
  assume mt: "build_meta example_ke (example_rekey_rng 1) example_vault_id 1000 (replicate 32 5) [1] = Inr (authority, mt)"
    and keys: "kv_keys created = set_revisionlog_version V1 (empty_tables mt)" and con: "kv_consistent created"
    and empty: "v_accounts (kv_vault created) = []"
  have meta: "kt_meta (kv_keys created) = mt" by (simp add: keys set_revisionlog_version_def empty_tables_def)
  obtain m chain t where un: "unlock_material example_ke example_unlock_rng 1500 [1] created = Inr (m, chain, t)"
      "um_vdk m = replicate 32 5" "um_vdk_epoch m = 0"
      "t = (kv_keys created) \<lparr> kt_device_key := kt_device_key t, kt_devices := kt_devices t \<rparr>" "um_device_key m = replicate 32 8"
    using example_unlock[of created "example_rekey_rng 1" example_vault_id 1000 "replicate 32 5" "[1]" authority example_unlock_rng 1500]
      empty mt by (auto simp: keys set_revisionlog_version_def empty_tables_def KEY_LEN_def example_unlock_rng_def)
  have tf: "kt_meta t = mt" "kt_chain t = []" "kt_chain_state t = None" "kt_rotation_pending t = []" "kt_directory t = []"
    by (subst un(4), simp add: keys set_revisionlog_version_def empty_tables_def)+
  have op: "opened = install_material 2000 (m, chain, t) created" by (simp add: opened_def un(1))
  have "kv_keys opened = t" "v_vault_id (kv_vault opened) = example_vault_id"
      "map_option as_vdk (v_active (kv_vault opened)) = Some (replicate 32 5)"
      "map_option as_device_key (v_active (kv_vault opened)) = Some (replicate 32 8)"
    using con meta build_meta_fields[OF mt] un(2,5) by (simp_all add: op install_material_def install_unlocked_def kv_consistent_def)
  with tf build_meta_fields[OF mt] un(5) show ?thesis by (intro that[OF un(1) op un(2,3)]) simp_all
qed

theorem first_rotation_keeps_contents_witness:
  "\<exists>m chain t kv'. unlock_material example_ke example_unlock_rng 1500 [1] created = Inr (m, chain, t)
     \<and> commit_vdk_rotation_from_active example_ke (example_rekey_rng 2) (replicate 32 7) [2] 1 example_wrapped 2 3 1 []
         (install_material 2000 (m, chain, t) created) = (Inr (), kv')
     \<and> unlock_material example_ke example_unlock_rng 3000 [2] kv' =
         Inr (m \<lparr> um_vdk := replicate 32 7, um_vdk_epoch := 1 \<rparr>,
              \<lparr> ch_retained = [0 \<mapsto> replicate 32 5], ch_current_epoch = 1 \<rparr>, kv_keys kv')"
proof (rule opened_ok, rule created_ok)
  fix m chain t authority mt
  assume un: "unlock_material example_ke example_unlock_rng 1500 [1] created = Inr (m, chain, t)" "um_vdk m = replicate 32 5"
      "um_vdk_epoch m = 0" and t: "kv_keys opened = t" "kt_chain_state t = None" "opened = install_material 2000 (m, chain, t) created"
      "um_device_key m = replicate 32 8"
    and cr: "kv_keys created = set_revisionlog_version V1 (empty_tables mt)" "kv_consistent created" "v_revisions (kv_vault created) = []"
  obtain kv' where rot: "commit_vdk_rotation_from_active example_ke (example_rekey_rng 2) (replicate 32 7) [2] 1 example_wrapped 2 3 1 []
         (install_material 2000 (m, chain, t) created) = (Inr (), kv')"
    using commit_rotation_total[OF example_ke_ok(1,2) _ _ _ _ example_ke_ok(3), of "replicate 32 7" _ 0 1 1 "[2]" "replicate 32 5" "replicate 32 8" "[]" 2] t(2,4) un(2)
    by (fastforce simp: commit_vdk_rotation_from_active_def op_bind_def take_active_def install_material_def install_unlocked_def
        read_current_epoch_def KEY_LEN_def)
  from first_rotation_keeps_contents[OF example_ke_ok(1,3,4) _ cr(2) _ un(1) rot] un cr rot show ?thesis
    by (intro exI[of _ m] exI[of _ chain] exI[of _ t] exI[of _ kv'])
      (simp add: KEY_LEN_def set_revisionlog_version_def empty_tables_def)
qed

theorem rekey_resets_preferences_witness:
  "\<exists>kv'. recover_with_new_password example_ke (example_rekey_rng 2) (replicate 32 5) [2]
       (created \<lparr> kv_keys := set_revisionlog_version V2 (kv_keys created) \<rparr>) = (Inr (), kv')
     \<and> revisionlog_version (set_revisionlog_version V2 (kv_keys created)) = Inr V2
     \<and> revisionlog_version (kv_keys kv') = Inr V1"
proof -
  obtain kv' where "recover_with_new_password example_ke (example_rekey_rng 2) (replicate 32 5) [2]
       (created \<lparr> kv_keys := set_revisionlog_version V2 (kv_keys created) \<rparr>) = (Inr (), kv')"
    using recover_total[OF example_ke_ok(1-3)] by (fastforce simp: KEY_LEN_def)
  from rekey_resets_preferences[OF rekeyed_recover[OF this]] this show ?thesis
    by (intro exI[of _ kv']) (simp add: revisionlog_version_def set_revisionlog_version_def RevisionLogVersion_from_meta_int_def)
qed

theorem failed_rotation_drops_session_witness:
  "\<exists>e kv'. commit_vdk_rotation_from_active example_ke (example_rekey_rng 2) (replicate 32 7) [2] (- 1) example_wrapped 2 3 1 [] opened
       = (Inl e, kv')
     \<and> vault_state (kv_vault kv') = VaultActive \<and> require_active (kv_vault kv') = Inl NotUnlocked"
proof (rule opened_ok)
  fix m chain t
  assume op: "opened = install_material 2000 (m, chain, t) created"
    and act: "map_option as_vdk (v_active (kv_vault opened)) = Some (replicate 32 5)"
  obtain a where a: "v_active (kv_vault opened) = Some a" using act by auto
  obtain r kv' where run: "commit_vdk_rotation_from_active example_ke (example_rekey_rng 2) (replicate 32 7) [2] (- 1) example_wrapped 2 3 1 []
      opened = (r, kv')" by fastforce
  have "r \<noteq> Inr ()"
  proof
    assume "r = Inr ()"
    with run obtain kv0 x where "commit_vdk_rotation example_ke (example_rekey_rng 2) (replicate 32 7) x (as_device_key a) [2] (- 1)
        example_wrapped 2 3 1 [] kv0 = (Inr (), kv')"
      using a by (auto simp: commit_vdk_rotation_from_active_def op_bind_Inr take_active_def)
    from commit_rotation_ok[OF this] have "uint (- 1 :: u64) \<le> i64_max" by (auto simp: rotated_def)
    then show False by (simp add: unsigned_minus_1_eq_mask mask_eq_exp_minus_1)
  qed
  then obtain e where "r = Inl e" by (cases r) auto
  with failed_rotation_drops_session[OF a run[unfolded this]] run show ?thesis
    by (intro exI[of _ e] exI[of _ kv']) (simp add: op install_material_def install_unlocked_def vault_state_def)
qed

text \<open>In this environment an authority of one salt opens nothing sealed under another.\<close>

lemma keyed_foreign:
  assumes "seal_under keyed_crypto n vdk (take 32 (replicate 16 b @ pw)) ctx = Inr w" "b \<noteq> b'"
  shows "unwrap_with keyed_crypto w (take 32 (replicate 16 b' @ pw')) = Inl Tampered"
  using assms
  by (auto simp: seal_under_def unwrap_with_def Let_def and_then_Inr aead_key_seal_def aead_key_open_def authority_wrap_key_def
      keyed_crypto_def example_crypto_def KEY_LEN_def TAG_LEN_def min_def split: if_splits)

theorem retained_key_locks_out_witness:
  "\<exists>kv kv'. commit_vdk_rotation_from_active example_ke (example_rekey_rng 2) (replicate 32 7) [2] 1 example_wrapped 2 3 1 [] opened
       = (Inr (), kv)
     \<and> recover_with_new_password example_ke (example_rekey_rng 3) (replicate 32 7) [3] kv = (Inr (), kv')
     \<and> (\<forall>urng now_ms password. \<exists>e. unlock_material example_ke urng now_ms password kv' = Inl e)"
proof (rule opened_ok)
  fix m chain t
  assume op: "kv_keys opened = t" "kt_chain t = []" "kt_chain_state t = None"
    and act: "map_option as_vdk (v_active (kv_vault opened)) = Some (replicate 32 5)"
      "map_option as_device_key (v_active (kv_vault opened)) = Some (replicate 32 8)"
  obtain a where a: "v_active (kv_vault opened) = Some a" "as_vdk a = replicate 32 5" "as_device_key a = replicate 32 8" using act by auto
  let ?kv0 = "opened \<lparr> kv_vault := (kv_vault opened) \<lparr> v_active := None \<rparr>, kv_chain := None \<rparr>"
  have cur0: "read_current_epoch (kv_keys ?kv0) = Inr 0" by (simp add: op read_current_epoch_def)
  obtain kv where rot: "commit_vdk_rotation example_ke (example_rekey_rng 2) (replicate 32 7) (as_vdk a) (as_device_key a) [2] 1
      example_wrapped 2 3 1 [] ?kv0 = (Inr (), kv)"
    using commit_rotation_total[OF example_ke_ok(1,2) _ cur0 _ _ example_ke_ok(3)] a(2,3) by (fastforce simp: KEY_LEN_def)
  from commit_rotation_ok[OF rot] obtain cur authority anchor dev mt where
    rotd: "rotated example_ke (example_rekey_rng 2) (replicate 32 7) (as_vdk a) (as_device_key a) [2] cur 1 authority anchor dev mt
        (kv_keys ?kv0) (kv_keys kv)" by blast
  have cur: "cur = 0" using rotd cur0 by (simp add: rotated_def)
  have chain: "kt_chain (kv_keys kv) = [chain_row 0 anchor dev]" "kt_meta (kv_keys kv) = mt" "kt_chain_state (kv_keys kv) = Some 1"
    using rotd op cur by (simp_all add: rotated_def)
  have bm: "build_meta example_ke (example_rekey_rng 2) (vm_vault_id (kt_meta t)) (vm_created_at (kt_meta t)) (replicate 32 7) [2]
      = Inr (authority, mt)"
    and seal: "seal_under keyed_crypto (rk_anchor_nonce (example_rekey_rng 2)) (as_vdk a) authority
        (WrapContext_new (vm_vault_id (kt_meta t))) = Inr anchor"
    using rotd op by (simp_all add: rotated_def example_ke_def)
  have auth: "derive_seed (ke_argon2 example_ke) pw (replicate 16 b) RECOMMENDED = Inr (take 32 (replicate 16 b @ pw @ replicate 32 0))" for pw b
    by (simp add: derive_seed_def KdfParams_validate_def RECOMMENDED_def MIN_MEMORY_KIB_def MIN_TIME_COST_def MIN_PARALLELISM_def
        example_ke_def)
  have authority: "authority = take 32 (replicate 16 2 @ [2] @ replicate 32 0)"
    using bm auth[of "[2]" 2] by (auto simp: build_meta_def and_then_Inr example_rekey_rng_def)
  have dec: "decode_chain_row (vm_vault_id (kt_meta (kv_keys kv))) (chain_row 0 anchor dev) = Inr s \<Longrightarrow> se_password_anchor s = anchor \<and> se_epoch s = 0" for s
    using rotated_row_decodes[OF example_ke_ok(1,3) rotd] cur build_meta_fields[OF bm] chain(2) op(1) by auto
  obtain s where s: "decode_chain_row (vm_vault_id (kt_meta (kv_keys kv))) (chain_row 0 anchor dev) = Inr s"
    using rotated_row_decodes[OF example_ke_ok(1,3) rotd] cur build_meta_fields[OF bm] chain(2) op(1) by auto
  obtain kv' where kv': "recover_with_new_password example_ke (example_rekey_rng 3) (replicate 32 7) [3] kv = (Inr (), kv')"
    using recover_total[OF example_ke_ok(1-3)] by (fastforce simp: KEY_LEN_def)
  have "kt_chain_state (kv_keys kv') = Some 1"
    using kv' chain(3) by (auto simp: recover_with_new_password_def op_update_Inr and_then_Inr adopt_meta_def meta_write_def)
  then have ep: "read_current_epoch (kv_keys kv') = Inr 1" "read_current_epoch (kv_keys kv) = Inr 1"
    using chain(3) by (simp_all add: read_current_epoch_def u64_try_from_def)
  have "\<forall>urng now_ms password. \<exists>e. unlock_material example_ke urng now_ms password kv' = Inl e"
  proof (rule retained_key_locks_out[OF rekeyed_recover[OF kv'] ep(2) _ _ s])
    show "unwrap_with (ke_crypto example_ke) (se_password_anchor s) authority' = Inl Tampered"
      if "derive_seed (ke_argon2 example_ke) password (rk_salt (example_rekey_rng 3)) RECOMMENDED = Inr authority'" for password authority'
      using keyed_foreign[OF seal[unfolded authority], of 3 "password @ replicate 32 0"] dec[OF s] that auth[of password 3]
      by (simp add: example_ke_def example_rekey_rng_def)
  qed (use chain ep dec[OF s] in \<open>simp_all add: chain_row_def\<close>)
  moreover have "commit_vdk_rotation_from_active example_ke (example_rekey_rng 2) (replicate 32 7) [2] 1 example_wrapped 2 3 1 [] opened
      = (Inr (), kv)"
    using rot a(1) by (simp add: commit_vdk_rotation_from_active_def op_bind_def take_active_def)
  ultimately show ?thesis using kv' by blast
qed

definition example_signers :: "bytes list" where
  "example_signers = [replicate 20 61, replicate 20 62, replicate 20 63]"

lemma example_roster:
  "roster_ok (ke_crypto example_ke) example_signers example_guardians"
  "map (cr_box_public (ke_crypto example_ke)) example_guardians = example_guardians"
  "length (er_rwk example_escrow_rng) = KEY_LEN" "length (er_nonce example_escrow_rng) = NONCE_LEN"
  "length example_vault_id = VAULT_ID_LEN" "check_bounds 2 (of_nat (length example_guardians)) = Inr ()"
  by (simp_all add: roster_ok_def example_ke_def keyed_crypto_def example_crypto_def example_signers_def example_guardians_def
      GUARDIAN_SIGNER_LEN_def example_escrow_rng_def KEY_LEN_def NONCE_LEN_def example_vault_id_def VAULT_ID_LEN_def
      check_bounds_def MIN_GUARDIANS_def MAX_GUARDIANS_def MIN_THRESHOLD_def MAX_THRESHOLD_def list_all_iff)

definition onboarded :: KeyVault where
  "onboarded = snd (onboard_guardians example_ke (example_rekey_rng 2) example_escrow_rng 2 example_guardians example_signers opened)"

lemma onboarded_ok:
  obtains a where "onboard_guardians example_ke (example_rekey_rng 2) example_escrow_rng 2 example_guardians example_signers opened
      = (Inr GENESIS_EPOCH, onboarded)"
    "v_active (kv_vault opened) = Some a" "as_vdk a = replicate 32 5"
proof (rule opened_ok)
  fix t
  assume vid: "kv_keys opened = t" "vm_vault_id (kt_meta t) = example_vault_id"
    and act: "map_option as_vdk (v_active (kv_vault opened)) = Some (replicate 32 5)"
  then obtain a where a: "v_active (kv_vault opened) = Some a" "as_vdk a = replicate 32 5" by auto
  from onboard_guardians_total[OF example_ke_ok(1,2) example_roster(3,6) _ _ a(1) _ example_ke_ok(3) example_roster(4), of example_signers 2] a(2)
    vid example_roster(5)
  obtain kv' where "onboard_guardians example_ke (example_rekey_rng 2) example_escrow_rng 2 example_guardians example_signers opened
      = (Inr GENESIS_EPOCH, kv')"
    by (auto simp: example_guardians_def example_signers_def KEY_LEN_def)
  with a that show ?thesis by (simp add: onboarded_def)
qed

theorem onboarding_backup_usable_iff_witness:
  "\<exists>bc. recovery_backup_contents example_ke onboarded = Inr (Some bc) \<and> bc_epoch bc = 0
     \<and> (\<forall>i < 3. is_ok (open_sealed_share keyed_crypto (bc_sealed_shares bc ! i) (example_guardians ! i) (bc_vault_id bc)
          (to_escrow_bytes (bc_epoch bc))))"
proof (rule onboarded_ok, rule opened_ok)
  fix a t
  assume run: "onboard_guardians example_ke (example_rekey_rng 2) example_escrow_rng 2 example_guardians example_signers opened
      = (Inr GENESIS_EPOCH, onboarded)" and a: "v_active (kv_vault opened) = Some a" "as_vdk a = replicate 32 5"
    and t: "kv_keys opened = t" "kt_chain_state t = None" "vm_vault_id (kt_meta t) = example_vault_id"
  have "onboard_guardians example_ke (example_rekey_rng 2) example_escrow_rng 2
      (map (cr_box_public (ke_crypto example_ke)) example_guardians) example_signers opened = (Inr GENESIS_EPOCH, onboarded)"
    using run by (simp add: example_roster(2))
  from onboarding_backup_usable_iff[OF example_ke_ok(1,3) example_roster(3,4) a(1) _ _ _ example_roster(1) _ this, of 0]
    a t example_roster(5)
  show ?thesis by (auto simp: KEY_LEN_def read_current_epoch_def example_guardians_def example_ke_def)
qed

lemma params_after_onboarding:
  assumes ok: "key_env_ok ke" "rekey_rng_ok rng" "length (er_rwk erng) = KEY_LEN" "length (er_nonce erng) = NONCE_LEN"
    and session: "v_active (kv_vault kv) = Some a" "length (as_vdk a) = KEY_LEN" "read_current_epoch (kv_keys kv) = Inr cur"
    and roster: "roster_ok (ke_crypto ke) signers sks"
    and run: "onboard_guardians ke rng erng threshold (map (cr_box_public (ke_crypto ke)) sks) signers kv = (Inr e, kv')"
  shows "\<exists>p. recovery_escrow_params ke kv' = Inr (Some p) \<and> ep_threshold p = threshold \<and> ep_guardian_count p = of_nat (length sks)
    \<and> length (ep_guardian_x25519_pubs p) = length sks \<and> ep_current_epoch p = cur"
proof (rule onboard_guardians_ok[OF run])
  fix a' art t
  let ?c = "ke_crypto ke" and ?vid = "vm_vault_id (kt_meta (kv_keys kv))"
  let ?cfg = "\<lparr> gs_threshold = threshold, gs_guardian_count = of_nat (length (map (cr_box_public ?c) sks)) \<rparr>"
  assume a': "v_active (kv_vault kv) = Some a'"
    and on: "onboard_guardian_escrow ?c erng (as_vdk a') ?vid ?cfg (map (cr_box_public ?c) sks) GENESIS_EPOCH = Inr art"
    and t: "write_recovery_escrow_tx ?c (rk_guardian_nonce rng) ?vid (as_vdk a') (oa_wrapped_recovery art) threshold
        (of_nat (length (map (cr_box_public ?c) sks))) (oa_epoch art) (re_split_records art signers) (kv_keys kv) = Inr t"
    and kv': "kv' = kv \<lparr> kv_keys := t \<rparr>"
  have aa: "a' = a" using a' session(1) by simp
  note fr = write_escrow_frame[OF t]
  note rec = re_split_records_ok[OF key_env_okD(1)[OF ok(1)] session(2) ok(3) roster on[unfolded aa]]
  have "read_recovery_escrow ?c ?vid (as_vdk a) t = Inr (Some \<lparr> sr_wrapped_recovery = oa_wrapped_recovery art,
      sr_threshold = threshold, sr_guardian_count = of_nat (length (map (cr_box_public ?c) sks)), sr_epoch = oa_epoch art,
      sr_guardians = re_split_records art signers \<rparr>)"
    by (rule escrow_read_back[OF key_env_okD(1)[OF ok(1)] rec(1) _ _ rec(4) t[unfolded aa]])
      (use ok(2,4) in \<open>simp_all add: rekey_rng_ok_def rec(5)\<close>)
  then show ?thesis using session fr rec(3)
    by (simp add: recovery_escrow_params_def kv' require_active_def read_current_epoch_def re_split_records_def)
qed

definition example_zero_signers :: "bytes list" where
  "example_zero_signers = [replicate 20 61, replicate 20 0, replicate 20 63]"

theorem onboarded_escrow_readable_iff_witness:
  "\<exists>kv'. onboard_guardians example_ke (example_rekey_rng 2) example_escrow_rng 2 example_guardians example_zero_signers opened
      = (Inr GENESIS_EPOCH, kv')
    \<and> recovery_escrow_params example_ke kv' = Inl (Corrupted ''recovery_guardians.guardian_signer is all-zero'')
    \<and> (\<exists>p. recovery_escrow_params example_ke onboarded = Inr (Some p) \<and> ep_guardian_signers p = example_signers)"
proof (rule onboarded_ok, rule opened_ok)
  fix a t
  assume run: "onboard_guardians example_ke (example_rekey_rng 2) example_escrow_rng 2 example_guardians example_signers opened
      = (Inr GENESIS_EPOCH, onboarded)" and a: "v_active (kv_vault opened) = Some a" "as_vdk a = replicate 32 5"
    and t: "kv_keys opened = t" "kt_chain_state t = None" "vm_vault_id (kt_meta t) = example_vault_id"
  obtain kv' where kv': "onboard_guardians example_ke (example_rekey_rng 2) example_escrow_rng 2 example_guardians example_zero_signers opened
      = (Inr GENESIS_EPOCH, kv')"
    using onboard_guardians_total[OF example_ke_ok(1,2) example_roster(3,6) _ _ a(1) _ example_ke_ok(3) example_roster(4), of example_zero_signers 2]
      a(2) t example_roster(5)
    by (auto simp: example_guardians_def example_zero_signers_def KEY_LEN_def)
  have cur: "read_current_epoch (kv_keys opened) = Inr 0" by (simp add: t read_current_epoch_def)
  note iff = onboarded_escrow_readable_iff[OF example_ke_ok(1,3) example_roster(4) cur _ _ kv'] onboarded_escrow_readable_iff[OF example_ke_ok(1,3) example_roster(4) cur _ _ run]
  have "\<exists>s \<in> set example_zero_signers. zero_signer s" "\<not> (\<exists>s \<in> set example_signers. zero_signer s)"
    by (simp_all add: example_zero_signers_def example_signers_def list_all_iff)
  moreover have "\<forall>pk \<in> set example_guardians. length pk = 32" "\<forall>s \<in> set example_zero_signers. length s = GUARDIAN_SIGNER_LEN"
    "\<forall>s \<in> set example_signers. length s = GUARDIAN_SIGNER_LEN"
    by (simp_all add: example_guardians_def example_zero_signers_def example_signers_def GUARDIAN_SIGNER_LEN_def)
  ultimately show ?thesis using kv' iff by auto
qed

text \<open>The vault above with one surviving device in its directory and one removed device in its queue.\<close>

definition queued :: KeyVault where
  "queued = onboarded \<lparr> kv_keys := (kv_keys onboarded) \<lparr>
     kt_directory := [\<lparr> dd_signer = replicate 20 1, dd_device_id = replicate 32 41, dd_pairing_pub = replicate 32 51, dd_discovered_at = 2500 \<rparr>],
     kt_rotation_pending := [\<lparr> rp_removed_signer = replicate 20 2, rp_observed_epoch = 0, rp_observed_at = 2600, rp_resolved = 0 \<rparr>] \<rparr> \<rparr>"

lemma queued_ok:
  obtains p a directory where "recovery_escrow_params example_ke queued = Inr (Some p)" "ep_threshold p = 2" "ep_guardian_count p = 3"
    "length (ep_guardian_x25519_pubs p) = 3" "ep_current_epoch p = 0" "v_active (kv_vault queued) = Some a"
    "queue_ok (kv_keys queued)" "pending_signers (kv_keys queued) = {replicate 20 2}" "read_directory (kv_keys queued) = Inr directory"
    "di_signer ` set directory = {replicate 20 1}" "read_current_epoch (kv_keys queued) = Inr 0"
    "as_vdk a = replicate 32 5" "as_device_key a = replicate 32 8" "v_vault_id (kv_vault queued) = example_vault_id"
proof (rule onboarded_ok, rule opened_ok)
  fix a t
  assume run: "onboard_guardians example_ke (example_rekey_rng 2) example_escrow_rng 2 example_guardians example_signers opened
      = (Inr GENESIS_EPOCH, onboarded)" and a: "v_active (kv_vault opened) = Some a" "as_vdk a = replicate 32 5"
    and t: "kv_keys opened = t" "kt_chain_state t = None" "v_vault_id (kv_vault opened) = example_vault_id"
      "map_option as_device_key (v_active (kv_vault opened)) = Some (replicate 32 8)"
  have run': "onboard_guardians example_ke (example_rekey_rng 2) example_escrow_rng 2
      (map (cr_box_public (ke_crypto example_ke)) example_guardians) example_signers opened = (Inr GENESIS_EPOCH, onboarded)"
    using run by (simp add: example_roster(2))
  obtain p where p: "recovery_escrow_params example_ke onboarded = Inr (Some p)" "ep_threshold p = 2"
      "ep_guardian_count p = of_nat (length example_guardians)" "length (ep_guardian_x25519_pubs p) = length example_guardians"
      "ep_current_epoch p = 0"
    using params_after_onboarding[OF example_ke_ok(1,3) example_roster(3,4) a(1) _ _ example_roster(1) run', of 0] a t
    by (auto simp: KEY_LEN_def read_current_epoch_def)
  have same: "kt_escrow (kv_keys queued) = kt_escrow (kv_keys onboarded)" "kt_guardians (kv_keys queued) = kt_guardians (kv_keys onboarded)"
    "kt_meta (kv_keys queued) = kt_meta (kv_keys onboarded)" "kt_chain_state (kv_keys queued) = kt_chain_state (kv_keys onboarded)"
    "kv_vault queued = kv_vault onboarded" by (simp_all add: queued_def)
  have "recovery_escrow_params example_ke queued = recovery_escrow_params example_ke onboarded"
    unfolding recovery_escrow_params_def read_escrow_cong[OF same(1,2)] read_current_epoch_def same(3-5) ..
  moreover have "kv_vault onboarded = kv_vault opened"
  proof (rule onboard_guardians_ok[OF run'])
    fix t
    assume "onboarded = opened\<lparr>kv_keys := t\<rparr>"
    then show ?thesis by (metis KeyVault.select_convs(1) KeyVault.surjective KeyVault.update_convs(2))
  qed
  then have "v_active (kv_vault queued) = Some a" "v_vault_id (kv_vault queued) = example_vault_id" by (simp_all add: same(5) a(1) t(3))
  moreover have "as_device_key a = replicate 32 8" using a(1) t(4) by simp
  moreover have "read_current_epoch (kv_keys queued) = Inr 0"
    using p(1,5) by (auto simp: queued_def recovery_escrow_params_def and_then_Inr read_current_epoch_def)
  moreover have "queue_ok (kv_keys queued)" "pending_signers (kv_keys queued) = {replicate 20 2}"
    by (simp_all add: queued_def queue_ok_def pending_signers_def EVM_ADDRESS_LEN_def)
  moreover have "read_directory (kv_keys queued)
      = Inr [\<lparr> di_signer = replicate 20 1, di_device_id = replicate 32 41, di_pairing_pub = replicate 32 51 \<rparr>]"
    by (simp add: queued_def read_directory_def decode_directory_row_def EVM_ADDRESS_LEN_def)
  ultimately show ?thesis using p a(2) that by (simp add: example_guardians_def)
qed

theorem rotation_completes_witness:
  "\<exists>outcome kv'. complete_rotation example_ke (example_rekey_rng 3) example_rotation_rng [2] [replicate 20 1] queued = (Inr outcome, kv')
     \<and> ro_new_epoch outcome = epoch_next 0 \<and> pending_signers (kv_keys queued) = {replicate 20 2} \<and> pending_signers (kv_keys kv') = {}"
proof (rule queued_ok)
  fix p a directory
  assume q: "recovery_escrow_params example_ke queued = Inr (Some p)" "ep_threshold p = 2" "ep_guardian_count p = 3"
    "length (ep_guardian_x25519_pubs p) = 3" "ep_current_epoch p = 0" "v_active (kv_vault queued) = Some a"
    "queue_ok (kv_keys queued)" "read_directory (kv_keys queued) = Inr directory" "di_signer ` set directory = {replicate 20 1}"
    "pending_signers (kv_keys queued) = {replicate 20 2}" "as_vdk a = replicate 32 5" "as_device_key a = replicate 32 8"
    "v_vault_id (kv_vault queued) = example_vault_id"
  have cfg: "GuardianSetConfig_validate \<lparr> gs_threshold = ep_threshold p, gs_guardian_count = ep_guardian_count p \<rparr> = Inr ()"
    by (simp add: q GuardianSetConfig_validate_def MIN_GUARDIANS_def MAX_GUARDIANS_def MIN_THRESHOLD_def MAX_THRESHOLD_def)
  have len: "length (rr_vdk example_rotation_rng) = KEY_LEN" "length (er_rwk (rr_escrow example_rotation_rng)) = KEY_LEN"
      "length (ep_guardian_x25519_pubs p) = unat (ep_guardian_count p)" "uint (epoch_next (ep_current_epoch p)) \<le> i64_max"
    by (simp_all add: q example_rotation_rng_def example_escrow_rng_def KEY_LEN_def epoch_next_def sat_add_def)
  have ne: "replicate 20 (2 :: u8) \<noteq> replicate 20 1" by (simp add: replicate_eq_replicate)
  have "set [replicate 20 1] \<inter> di_signer ` set directory \<noteq> {}" by (simp add: q)
  from rotation_completes[OF example_ke_ok(1,2,3) _ len(1,2) _ q(6) _ _ q(7) _ q(8) this q(1) cfg len(3,4), of "[2]" 3] q(5,10-13) ne
    example_roster(4,5)
  show ?thesis by (auto simp: KEY_LEN_def SECRET_KEY_LEN_def example_rotation_rng_def)
qed

lemma commit_recovery_total:
  assumes "key_env_ok ke" "crypto_total ke" "length vdk = KEY_LEN" "uint epoch \<le> i64_max" "rekey_rng_ok rng" "length password < 2 ^ 32"
    "\<forall>g \<in> set guardians. length (gd_sealed_share g) < 2 ^ 32"
  shows "\<exists>kv'. commit_recovery_rekey ke rng vdk password wrapped_recovery threshold guardian_count epoch guardians kv = (Inr (), kv')"
  unfolding commit_recovery_rekey_def build_recovery_meta_def
  by (intro op_update_total and_then_total)
    (use build_meta_total[OF assms(1,2,5,3,6)] write_escrow_total[OF assms(2,3,4) _ assms(7)] assms(5)
      in \<open>auto simp: is_ok_map_sum rekey_rng_ok_def\<close>)

definition example_recovery :: WrappedVdk where
  "example_recovery = projr (wrap_vdk_under_rwk keyed_crypto (replicate 24 22) (replicate 32 5) (replicate 32 21) (WrapContext_new example_vault_id))"

definition example_opened :: "bytes list" where
  "example_opened = [1 # replicate 32 21, 2 # replicate 32 21]"

definition example_guardian_roster :: GuardianRoster where
  "example_guardian_roster = \<lparr> gx_threshold = 2, gx_guardian_count = 3, gx_x25519_pubs = example_guardians, gx_evm_addrs = example_signers \<rparr>"

lemma example_recovery_runs:
  "\<exists>kv'. recover_from_shares example_ke (example_rekey_rng 3) example_escrow_rng example_recovery example_opened example_guardian_roster
     [3] 0 example_vault_id kv = (Inr (epoch_next 0), kv')"
proof -
  let ?cfg = "\<lparr> gs_threshold = 2, gs_guardian_count = 3 \<rparr> :: GuardianSetConfig"
  obtain art where art: "onboard_guardian_escrow (ke_crypto example_ke) example_escrow_rng (replicate 32 5) example_vault_id ?cfg
      example_guardians (epoch_next 0) = Inr art" and small: "\<forall>x \<in> set (oa_assignments art). length (ea_sealed_share x) < 2 ^ 32"
    using onboard_runs[OF example_ke_ok(1,2) example_roster(3) _ example_roster(4) _ example_roster(5), of ?cfg "replicate 32 5" example_guardians "epoch_next 0"]
    by (auto simp: GuardianSetConfig_validate_def MIN_GUARDIANS_def MAX_GUARDIANS_def MIN_THRESHOLD_def MAX_THRESHOLD_def example_guardians_def
        KEY_LEN_def)
  have "is_ok (wrap_vdk_under_rwk (ke_crypto example_ke) (replicate 24 22) (replicate 32 5) (replicate 32 21) (WrapContext_new example_vault_id))"
    using hkdf_len[OF example_ke_ok(1)]
    by (simp add: wrap_vdk_under_rwk_def seal_under_key_total[OF example_ke_ok(2)] rwk_wrap_key_def NONCE_LEN_def KEY_LEN_def)
  then obtain w where w: "wrap_vdk_under_rwk (ke_crypto example_ke) (replicate 24 22) (replicate 32 5) (replicate 32 21)
      (WrapContext_new example_vault_id) = Inr w" by (rule is_ok_E)
  then have "example_recovery = w" by (simp add: example_recovery_def example_ke_def)
  then have un: "unwrap_vdk_under_rwk (ke_crypto example_ke) example_recovery (replicate 32 21) = Inr (replicate 32 5)"
    using rwk.unwrap_wrap[OF key_env_okD(1)[OF example_ke_ok(1)] _ w] by (simp add: KEY_LEN_def)
  have "reconstruct_rwk (ke_crypto example_ke) example_opened = Inr (replicate 32 21)"
    by (simp add: reconstruct_rwk_def example_ke_def keyed_crypto_def example_crypto_def example_opened_def KEY_LEN_def)
  with un art have rec: "recover_vdk_from_shares (ke_crypto example_ke) example_escrow_rng example_recovery example_opened example_vault_id ?cfg
      example_guardians 0 = Inr \<lparr> ra_vdk = replicate 32 5, ra_re_split = art \<rparr>"
    by (simp add: recover_vdk_from_shares_def example_opened_def)
  obtain kv' where "commit_recovery_rekey example_ke (example_rekey_rng 3) (replicate 32 5) [3] (oa_wrapped_recovery art)
      (gs_threshold (oa_config art)) (gs_guardian_count (oa_config art)) (oa_epoch art) (re_split_records art example_signers) kv = (Inr (), kv')"
    using commit_recovery_total[OF example_ke_ok(1,2) _ _ example_ke_ok(3), of "replicate 32 5" "oa_epoch art" "[3]" "re_split_records art example_signers" 3]
      onboard_labels[OF art] small by (fastforce simp: KEY_LEN_def epoch_next_def sat_add_def re_split_records_def guardian_record_def)
  with rec onboard_labels[OF art] show ?thesis
    by (simp add: recover_from_shares_def example_guardian_roster_def op_seq_def op_bind_def op_guard_def op_try_def store_op_def op_ret_def
        example_guardians_def example_signers_def)
qed

theorem backup_after_recovery_refused_witness:
  "\<exists>kv' m bc. recover_from_shares example_ke (example_rekey_rng 3) example_escrow_rng example_recovery example_opened
       example_guardian_roster [3] 0 example_vault_id created = (Inr (epoch_next 0), kv')
     \<and> unlock_material example_ke example_unlock_rng 4000 [3] kv' = Inr m
     \<and> recovery_backup_contents example_ke (install_material 5000 m kv') = Inr (Some bc) \<and> bc_epoch bc = 0
     \<and> (\<forall>i < 3. \<not> is_ok (open_sealed_share keyed_crypto (bc_sealed_shares bc ! i) (example_guardians ! i) (bc_vault_id bc)
          (to_escrow_bytes (bc_epoch bc))))"
proof (rule created_ok)
  fix authority mt
  assume mt: "build_meta example_ke (example_rekey_rng 1) example_vault_id 1000 (replicate 32 5) [1] = Inr (authority, mt)"
    and keys: "kv_keys created = set_revisionlog_version V1 (empty_tables mt)" and acc: "v_accounts (kv_vault created) = []"
  have t0: "kt_meta (kv_keys created) = mt" "kt_chain (kv_keys created) = []" "kt_chain_state (kv_keys created) = None"
      "kt_devices (kv_keys created) = []"
    by (simp_all add: keys set_revisionlog_version_def empty_tables_def)
  obtain kv' where run: "recover_from_shares example_ke (example_rekey_rng 3) example_escrow_rng example_recovery example_opened
      example_guardian_roster [3] 0 example_vault_id created = (Inr (epoch_next 0), kv')"
    using example_recovery_runs by blast
  obtain vdk pw w threshold n e gs where commit: "commit_recovery_rekey example_ke (example_rekey_rng 3) vdk [3] w threshold n e gs created = (Inr (), kv')"
    and vdk: "length vdk = KEY_LEN"
    using run by (auto simp: recover_from_shares_def Let_def op_bind_Inr op_seq_Inr op_try_Inr store_op_Inr op_ret_def op_guard_def
        recover_vdk_from_shares_def and_then_Inr unwrap_vdk_under_rwk_def open_with_key_def split: if_splits)
  from commit obtain auth' m where m: "build_meta example_ke (example_rekey_rng 3) (vm_vault_id mt) (vm_created_at mt) vdk [3] = Inr (auth', m)"
    and wr: "write_recovery_escrow_tx (ke_crypto example_ke) (rk_guardian_nonce (example_rekey_rng 3)) (vm_vault_id mt) vdk w threshold n e gs
      (meta_write m (kv_keys created)) = Inr (kv_keys kv')" and kv': "kv' = adopt_meta m (kv_keys kv') created"
    by (auto simp: commit_recovery_rekey_def op_update_Inr build_recovery_meta_def and_then_Inr map_sum_Inr t0 adopt_meta_def)
  note fr = write_escrow_frame[OF wr]
  have t1: "kt_meta (kv_keys kv') = m" "kt_chain (kv_keys kv') = []" "kt_chain_state (kv_keys kv') = None" "kt_devices (kv_keys kv') = []"
    using fr t0 by (simp_all add: meta_write_def)
  have acc': "v_accounts (kv_vault kv') = []" by (subst kv') (simp add: adopt_meta_def lock_def acc)
  obtain um ch t where un: "unlock_material example_ke example_unlock_rng 4000 [3] kv' = Inr (um, ch, t)"
    using example_unlock[OF acc' t1(2-4) m[folded t1(1)] vdk] by blast
  from build_meta_fields[OF mt]
  have "epoch_next 0 = epoch_next 0 \<and> (\<exists>bc. recovery_backup_contents example_ke (install_material 5000 (um, ch, t) kv') = Inr (Some bc)
    \<and> bc_epoch bc = 0 \<and> (\<forall>i < length example_guardians. \<not> is_ok (open_sealed_share (ke_crypto example_ke) (bc_sealed_shares bc ! i)
         (example_guardians ! i) (bc_vault_id bc) (to_escrow_bytes (bc_epoch bc)))))"
    by (intro backup_after_recovery_refused[OF example_ke_ok(1,3) example_roster(3,4) _ example_roster(5) _ _ _ run un])
      (simp_all add: t0 example_guardian_roster_def example_roster(1,2) read_current_epoch_def)
  with run un show ?thesis by (auto simp: example_ke_def example_guardians_def)
qed

end
