(* ===== verification/Key_Machine.thy ===== *)
theory Key_Machine
  imports Key_Lifecycle
begin

text \<open>
  The key tables over every sequence of operations: the steps of \<open>vault.rs\<close>, \<open>multi_device.rs\<close> and
  \<open>composition.rs\<close> that change them, the states reachable from a created vault, and the type
  invariant that keeps six of their reads free of decoding errors.
\<close>

section \<open>Well-typed tables\<close>

definition chain_row_typed :: "VdkChainRow \<Rightarrow> bool" where
  "chain_row_typed r \<longleftrightarrow> 0 \<le> vc_epoch r \<and> vc_epoch r \<le> i64_max
     \<and> length (vc_anchor_nonce r) = NONCE_LEN \<and> length (vc_device_nonce r) = NONCE_LEN
     \<and> u8_try_from (vc_anchor_wrap_schema r) \<noteq> None \<and> u8_try_from (vc_device_wrap_schema r) \<noteq> None
     \<and> vc_schema_version r = uint VDK_CHAIN_SCHEMA_VERSION"

definition directory_row_typed :: "DirectoryRow \<Rightarrow> bool" where
  "directory_row_typed r \<longleftrightarrow> length (dd_signer r) = EVM_ADDRESS_LEN \<and> length (dd_device_id r) = 32 \<and> length (dd_pairing_pub r) = 32"

definition kt_typed :: "KeyTables \<Rightarrow> bool" where
  "kt_typed t \<longleftrightarrow> (\<forall>e. kt_chain_state t = Some e \<longrightarrow> 0 \<le> e \<and> e \<le> i64_max)
     \<and> list_all chain_row_typed (kt_chain t) \<and> list_all directory_row_typed (kt_directory t) \<and> queue_ok t
     \<and> (\<forall>r \<in> set (kt_devices t). length (did_bytes (dr_device_id r)) = 32)
     \<and> kt_revisionlog_version t \<in> {None, Some 1, Some 2}"

definition key_vault_ok :: "KeyVault \<Rightarrow> bool" where
  "key_vault_ok kv \<longleftrightarrow> kt_typed (kv_keys kv) \<and> kv_consistent kv
     \<and> (\<forall>a. v_active (kv_vault kv) = Some a \<longrightarrow> length (as_vdk a) = KEY_LEN \<and> length (as_device_key a) = SECRET_KEY_LEN)"

text \<open>Well-typed tables are readable.\<close>

lemma typed_readable:
  assumes "kt_typed t"
  shows "is_ok (read_current_epoch t)" "is_ok (read_chain t vault_id)" "is_ok (read_directory t)"
    "is_ok (read_pending_rotations t)" "is_ok (read_registered_device_id t)" "is_ok (revisionlog_version t)"
proof -
  show "is_ok (read_current_epoch t)"
    using assms by (auto simp: kt_typed_def read_current_epoch_def u64_try_from_def split: option.splits)
  have "is_ok (decode_chain_row vault_id r)" if "chain_row_typed r" for r
    using that by (auto simp: chain_row_typed_def decode_chain_row_def decode_nonce_def decode_schema_u8_def u64_try_from_def
        VDK_CHAIN_SCHEMA_VERSION_def u16_try_from_def intro!: and_then_total)
  then show "is_ok (read_chain t vault_id)" using assms
    unfolding read_chain_def by (intro collect_results_total) (auto simp: kt_typed_def list_all_iff)
  show "is_ok (read_directory t)" using assms
    unfolding read_directory_def
    by (intro collect_results_total) (auto simp: kt_typed_def list_all_iff directory_row_typed_def decode_directory_row_def)
  show "is_ok (read_pending_rotations t)"
    using read_pending_ok[of t] assms by (auto simp: kt_typed_def)
  show "is_ok (revisionlog_version t)"
    using assms by (auto simp: kt_typed_def revisionlog_version_def RevisionLogVersion_from_meta_int_def)
  show "is_ok (read_registered_device_id t)"
  proof (cases "sort_key (\<lambda>r. (dr_added_at r, did_bytes (dr_device_id r))) (kt_devices t)")
    case (Cons r rs)
    then have "r \<in> set (kt_devices t)" by (metis list.set_intros(1) set_sort)
    then show ?thesis using assms Cons by (auto simp: kt_typed_def read_registered_device_id_def)
  qed (simp add: read_registered_device_id_def)
qed

section \<open>Every operation keeps the tables well typed\<close>

lemma typed_cong:
  "kt_chain_state t' = kt_chain_state t \<Longrightarrow> kt_chain t' = kt_chain t \<Longrightarrow> kt_directory t' = kt_directory t \<Longrightarrow>
   kt_rotation_pending t' = kt_rotation_pending t \<Longrightarrow> dr_device_id ` set (kt_devices t') = dr_device_id ` set (kt_devices t) \<Longrightarrow>
   kt_revisionlog_version t' = kt_revisionlog_version t \<or> kt_revisionlog_version t' \<in> {None, Some 1, Some 2} \<Longrightarrow>
   kt_typed t \<Longrightarrow> kt_typed t'"
proof -
  have dev: "(\<forall>r \<in> set (kt_devices u). length (did_bytes (dr_device_id r)) = 32)
      \<longleftrightarrow> (\<forall>d \<in> dr_device_id ` set (kt_devices u). length (did_bytes d) = 32)" for u by simp
  show "kt_chain_state t' = kt_chain_state t \<Longrightarrow> kt_chain t' = kt_chain t \<Longrightarrow> kt_directory t' = kt_directory t \<Longrightarrow>
   kt_rotation_pending t' = kt_rotation_pending t \<Longrightarrow> dr_device_id ` set (kt_devices t') = dr_device_id ` set (kt_devices t) \<Longrightarrow>
   kt_revisionlog_version t' = kt_revisionlog_version t \<or> kt_revisionlog_version t' \<in> {None, Some 1, Some 2} \<Longrightarrow>
   kt_typed t \<Longrightarrow> kt_typed t'"
    unfolding kt_typed_def dev queue_ok_def by auto
qed

lemma typed_meta_write: "kt_typed t \<Longrightarrow> kt_typed (meta_write m t)"
  by (rule typed_cong[of _ t]) (simp_all add: meta_write_def)

lemma typed_version: "kt_typed t \<Longrightarrow> kt_typed (set_revisionlog_version v t)"
  by (rule typed_cong[of _ t]) (cases v; simp add: set_revisionlog_version_def)+

lemma typed_escrow:
  "write_recovery_escrow_tx c nonces vault_id vdk w threshold guardian_count epoch guardians t = Inr t' \<Longrightarrow> kt_typed t \<Longrightarrow> kt_typed t'"
  by (rule typed_cong[of _ t]) (simp_all add: write_escrow_frame)

lemma typed_reseal: "reseal_device_key_tx c nonce vault_id vdk key t = Inr t' \<Longrightarrow> kt_typed t \<Longrightarrow> kt_typed t'"
  by (rule typed_cong[of _ t]) (auto simp: reseal_device_key_tx_def and_then_Inr split: if_splits)

lemma typed_append:
  assumes "append_retained_and_advance_tx e anchor dev e' t = Inr t'" "kt_typed t"
    and "length (wv_nonce anchor) = NONCE_LEN" "length (wv_nonce dev) = NONCE_LEN"
  shows "kt_typed t'"
proof -
  have "chain_row_typed (chain_row (uint e) anchor dev)" "uint e \<le> i64_max" "uint e' \<le> i64_max"
    and t': "t' = t \<lparr> kt_chain := filter (\<lambda>r. vc_epoch r \<noteq> uint e) (kt_chain t) @ [chain_row (uint e) anchor dev],
        kt_chain_state := Some (uint e') \<rparr>"
    using assms(1,3,4) by (auto simp: append_retained_and_advance_tx_def and_then_Inr i64_try_from_Some chain_row_typed_def chain_row_def)
  with assms(2) show ?thesis by (auto simp: kt_typed_def queue_ok_def list_all_iff)
qed

lemma typed_directory: "kt_typed t \<Longrightarrow> length (di_signer e) = EVM_ADDRESS_LEN \<Longrightarrow> length (di_device_id e) = 32 \<Longrightarrow>
    length (di_pairing_pub e) = 32 \<Longrightarrow> kt_typed (upsert_directory_entry e now_ms t)"
  by (auto simp: kt_typed_def upsert_directory_entry_def directory_row_typed_def queue_ok_def list_all_iff)

lemma queue_removed_frame: "queue_removed now e S known q t = Inr (q', t') \<Longrightarrow>
    t' = t \<lparr> kt_rotation_pending := kt_rotation_pending t' \<rparr>"
proof (induction known arbitrary: q t)
  case (Cons s known)
  have one: "t1 = t \<lparr> kt_rotation_pending := kt_rotation_pending t1 \<rparr>" if "queue_rotation_pending p t = Inr (b, t1)" for p b t1
    using that by (auto simp: queue_rotation_pending_def and_then_Inr split: if_splits)
  show ?case
  proof (cases "s \<in> set S")
    case False
    with Cons.prems obtain b t1 where t1: "queue_rotation_pending \<lparr> rq_removed_signer = s, rq_observed_epoch = e, rq_observed_at = now \<rparr> t
        = Inr (b, t1)" "queue_removed now e S known (if b then sat_add q 1 else q) t1 = Inr (q', t')"
      by (auto simp: and_then_Inr)
    have "t' = t1 \<lparr> kt_rotation_pending := kt_rotation_pending t' \<rparr>" by (rule Cons.IH[OF t1(2)])
    also have "\<dots> = t \<lparr> kt_rotation_pending := kt_rotation_pending t' \<rparr>" by (subst one[OF t1(1)]) simp
    finally show ?thesis .
  qed (use Cons in simp)
qed simp

lemma typed_pending:
  assumes "kt_typed t" "queue_ok t'" "t' = t \<lparr> kt_rotation_pending := kt_rotation_pending t' \<rparr>"
  shows "kt_typed t'"
  using assms(1,2) by (subst assms(3), subst (asm) (2) assms(3)) (simp add: kt_typed_def queue_ok_def)

lemma revision_version_kept: "device_tables_only t t' \<Longrightarrow> kt_revisionlog_version t' = kt_revisionlog_version t"
  by (metis KeyTables.select_convs(3) KeyTables.surjective KeyTables.update_convs(8,9) device_tables_only_def)

lemma typed_unlock_device:
  assumes un: "unlock_device_key ke rng now_ms vdk t = Inr (k, t')" and ok: "key_env_ok ke" "kt_typed t"
  shows "kt_typed t'"
proof (cases "read_registered_device_id t")
  case (Inr registered)
  show ?thesis
  proof (cases registered)
    case (Some did)
    with un Inr obtain key where "load_device_key_with_id (ke_crypto ke) (ke_secp256k1 ke) (vm_vault_id (kt_meta t)) vdk did t = Inr (Some (key, t'))"
      by (auto simp: unlock_device_key_def Let_def and_then_Inr split: option.splits)
    then have bf: "backfill_evm_address_if_missing (ke_crypto ke) (ke_secp256k1 ke) key did t = Inr t'"
      by (auto simp: load_device_key_with_id_def and_then_Inr split: option.splits if_splits)
    from backfill_held(6)[OF bf] have "map dr_device_id (kt_devices t') = map dr_device_id (kt_devices t)"
      by (metis (no_types, lifting) list.map_comp[of snd] map_eq_conv comp_apply snd_conv)
    then have "dr_device_id ` set (kt_devices t') = dr_device_id ` set (kt_devices t)" by (metis list.set_map)
    with device_tables_onlyD[OF backfill_frame[OF bf]] show ?thesis
      by (intro typed_cong[OF _ _ _ _ _ _ ok(2)]) (simp_all add: revision_version_kept[OF backfill_frame[OF bf]])
  next
    case None
    with un Inr ok key_env_okD(2)[OF ok(1)] show ?thesis
      by (auto simp: unlock_device_key_def register_device_def Let_def and_then_Inr kt_typed_def queue_ok_def device_id_from_key_def)
  qed
qed (use un in \<open>simp add: unlock_device_key_def Let_def\<close>)

lemma adopt_ok: "kt_typed t \<Longrightarrow> kt_meta t = m \<Longrightarrow> key_vault_ok (adopt_meta m t kv)"
  by (simp add: key_vault_ok_def adopt_meta_def kv_consistent_def lock_def)

lemma keeps_recover [op_keeps]: "keeps key_vault_ok (recover_with_new_password ke rng vdk password)"
  unfolding recover_with_new_password_def
  by (rule keeps_update) (auto simp: and_then_Inr meta_write_def key_vault_ok_def
      intro!: adopt_ok[unfolded key_vault_ok_def] typed_meta_write[unfolded meta_write_def])

lemma keeps_recovery_rekey [op_keeps]:
  "keeps key_vault_ok (commit_recovery_rekey ke rng vdk password w threshold guardian_count epoch guardians)"
  unfolding commit_recovery_rekey_def
proof (rule keeps_update)
  fix kv kv'
  assume ok: "key_vault_ok kv" and run: "and_then (build_recovery_meta ke rng vdk password (kv_keys kv)) (\<lambda>m.
       and_then (write_recovery_escrow_tx (ke_crypto ke) (rk_guardian_nonce rng) (vm_vault_id (kt_meta (kv_keys kv)))
           vdk w threshold guardian_count epoch guardians (meta_write m (kv_keys kv))) (\<lambda>t. Inr (adopt_meta m t kv))) = Inr kv'"
  then obtain m t where t: "write_recovery_escrow_tx (ke_crypto ke) (rk_guardian_nonce rng) (vm_vault_id (kt_meta (kv_keys kv)))
           vdk w threshold guardian_count epoch guardians (meta_write m (kv_keys kv)) = Inr t" and kv': "kv' = adopt_meta m t kv"
    by (auto simp: and_then_Inr)
  have "kt_typed t" using ok by (intro typed_escrow[OF t] typed_meta_write) (simp add: key_vault_ok_def)
  moreover have "kt_meta t = m" using write_escrow_frame(1)[OF t] by (simp add: meta_write_def)
  ultimately show "key_vault_ok kv'" unfolding kv' by (rule adopt_ok)
qed

lemma keeps_rotation [op_keeps]:
  assumes rng: "rekey_rng_ok rng"
  shows "keeps key_vault_ok (commit_vdk_rotation ke rng new_vdk old_vdk local_device password new_epoch w threshold
      guardian_count escrow_epoch guardians)"
  unfolding commit_vdk_rotation_def
proof (rule keeps_update, unfold Let_def)
  fix kv kv' :: KeyVault
  let ?t = "kv_keys kv" and ?vid = "vm_vault_id (kt_meta (kv_keys kv))" and ?c = "ke_crypto ke"
  assume ok: "key_vault_ok kv" and "and_then (read_current_epoch ?t) (\<lambda>current_epoch.
          and_then (build_meta ke rng ?vid (vm_created_at (kt_meta ?t)) new_vdk password) (\<lambda>(authority, m).
          and_then (auth_err (seal_under ?c (rk_anchor_nonce rng) old_vdk authority (WrapContext_new ?vid))) (\<lambda>retained_anchor.
          and_then (auth_err (wrap_vdk_for_device ?c (rk_device_nonce rng) old_vdk local_device (WrapContext_new ?vid))) (\<lambda>retained_device_wrap.
          and_then (append_retained_and_advance_tx current_epoch retained_anchor retained_device_wrap new_epoch
              (meta_write m ?t)) (\<lambda>t2.
          and_then (write_recovery_escrow_tx ?c (rk_guardian_nonce rng) ?vid new_vdk w threshold
              guardian_count escrow_epoch guardians t2) (\<lambda>t3.
          and_then (reseal_device_key_tx ?c (rk_seed_nonce rng) ?vid new_vdk local_device t3) (\<lambda>t4.
          Inr (adopt_meta m t4 kv)))))))) = Inr kv'"
  then obtain cur authority m anchor dev t2 t3 t4 where
      seals: "seal_under ?c (rk_anchor_nonce rng) old_vdk authority (WrapContext_new ?vid) = Inr anchor"
        "wrap_vdk_for_device ?c (rk_device_nonce rng) old_vdk local_device (WrapContext_new ?vid) = Inr dev"
    and t2: "append_retained_and_advance_tx cur anchor dev new_epoch (meta_write m ?t) = Inr t2"
    and t3: "write_recovery_escrow_tx ?c (rk_guardian_nonce rng) ?vid new_vdk w threshold guardian_count escrow_epoch guardians t2 = Inr t3"
    and t4: "reseal_device_key_tx ?c (rk_seed_nonce rng) ?vid new_vdk local_device t3 = Inr t4" and kv': "kv' = adopt_meta m t4 kv"
    by (auto simp: and_then_Inr)
  have "length (wv_nonce anchor) = NONCE_LEN" "length (wv_nonce dev) = NONCE_LEN"
    using seals rng by (auto simp: seal_under_def wrap_vdk_for_device_def seal_under_key_def and_then_Inr Let_def rekey_rng_ok_def)
  with ok have "kt_typed t4"
    by (intro typed_reseal[OF t4] typed_escrow[OF t3] typed_append[OF t2] typed_meta_write) (simp_all add: key_vault_ok_def)
  moreover have "kt_meta t4 = m"
    using t2 t4 write_escrow_frame(1)[OF t3]
    by (auto simp: append_retained_and_advance_tx_def reseal_device_key_tx_def and_then_Inr meta_write_def split: if_splits)
  ultimately show "key_vault_ok kv'" unfolding kv' by (rule adopt_ok)
qed

lemma keeps_take_active [op_keeps]: "keeps key_vault_ok take_active"
  by (rule keepsI) (auto simp: take_active_def key_vault_ok_def kv_consistent_def split: option.splits)

lemma keeps_rotation_from_active [op_keeps]:
  "rekey_rng_ok rng \<Longrightarrow> keeps key_vault_ok (commit_vdk_rotation_from_active ke rng new_vdk password new_epoch w threshold
      guardian_count escrow_epoch guardians)"
  unfolding commit_vdk_rotation_from_active_def by (intro op_keeps)

lemma keeps_onboard [op_keeps]: "keeps key_vault_ok (onboard_guardians ke rng erng threshold pubs signers)"
  unfolding onboard_guardians_def
  by (intro op_keeps)
    (auto simp: Let_def and_then_Inr key_vault_ok_def kv_consistent_def write_escrow_frame(1) intro: typed_escrow)

lemma keeps_install_paired [op_keeps]: "keeps key_vault_ok (install_paired_vdk ke rng vdk vault_id password)"
  unfolding install_paired_vdk_def
proof (intro op_keeps, unfold Let_def)
  fix a and kv kv' :: KeyVault
  assume ok: "key_vault_ok kv" and "and_then (build_meta ke rng vault_id (vm_created_at (kt_meta (kv_keys kv))) vdk password) (\<lambda>(_, m).
          and_then (reseal_device_key_tx (ke_crypto ke) (rk_seed_nonce rng) vault_id vdk (as_device_key a)
              (meta_write m (kv_keys kv))) (\<lambda>t.
          Inr (adopt_meta m t kv \<lparr> kv_vault := (kv_vault (adopt_meta m t kv))
            \<lparr> v_device_id := device_id_from_key (ke_crypto ke) (as_device_key a) \<rparr> \<rparr>))) = Inr kv'"
  then obtain m t where t: "reseal_device_key_tx (ke_crypto ke) (rk_seed_nonce rng) vault_id vdk (as_device_key a) (meta_write m (kv_keys kv)) = Inr t"
    and kv': "kv' = adopt_meta m t kv \<lparr> kv_vault := (kv_vault (adopt_meta m t kv))
            \<lparr> v_device_id := device_id_from_key (ke_crypto ke) (as_device_key a) \<rparr> \<rparr>"
    by (auto simp: and_then_Inr)
  have "kt_typed t" using ok by (intro typed_reseal[OF t] typed_meta_write) (simp add: key_vault_ok_def)
  moreover have "kt_meta t = m" using t by (auto simp: reseal_device_key_tx_def and_then_Inr meta_write_def split: if_splits)
  ultimately have "key_vault_ok (adopt_meta m t kv)" by (rule adopt_ok)
  then show "key_vault_ok kv'" unfolding kv' by (simp add: key_vault_ok_def kv_consistent_def)
qed

lemma keeps_store_op [op_keeps]: "keeps P m \<Longrightarrow> keeps P (store_op m)"
  by (auto simp: keeps_def store_op_def Let_def split: prod.splits)

lemma pending_read_queued:
  "queue_ok t \<Longrightarrow> read_pending_rotations t = Inr ps \<Longrightarrow> rq_removed_signer ` set ps \<subseteq> queued_signers t"
  using read_pending_ok[of t] by (auto simp: pending_signers_def queued_signers_def)

lemma keeps_complete_rotation [op_keeps]:
  assumes rng: "rekey_rng_ok rng"
  shows "keeps key_vault_ok (complete_rotation ke rng rrng password onchain)"
proof (rule keepsI)
  fix kv
  assume ok: "key_vault_ok kv"
  obtain r kv' where run: "complete_rotation ke rng rrng password onchain kv = (r, kv')" by fastforce
  have "key_vault_ok kv'"
  proof (cases r)
    case (Inr outcome)
    show ?thesis
    proof (rule complete_rotation_ok[OF run[unfolded Inr]])
      fix params art kv1 pending
      assume c: "commit_vdk_rotation_from_active ke rng (rot_new_vdk art) password (rot_new_epoch art)
         (oa_wrapped_recovery (rot_re_split art)) (gs_threshold (oa_config (rot_re_split art)))
         (gs_guardian_count (oa_config (rot_re_split art))) (oa_epoch (rot_re_split art))
         (re_split_records (rot_re_split art) (ep_guardian_signers params)) kv = (Inr (), kv1)"
        and p: "read_pending_rotations (kv_keys kv1) = Inr pending"
        and kv': "kv' = kv1 \<lparr> kv_keys := resolve_pending onchain pending (kv_keys kv1) \<rparr>"
      have ok1: "key_vault_ok kv1" by (rule keepsD[OF keeps_rotation_from_active[OF rng] ok c])
      then have q: "queue_ok (kv_keys kv1)" "kt_typed (kv_keys kv1)" by (simp_all add: key_vault_ok_def kt_typed_def)
      note res = resolve_pending_ok[OF q(1) pending_read_queued[OF q(1) p], of onchain]
      have "kt_typed (resolve_pending onchain pending (kv_keys kv1))" by (rule typed_pending[OF q(2) res(2,3)])
      moreover have "kt_meta (resolve_pending onchain pending (kv_keys kv1)) = kt_meta (kv_keys kv1)" by (subst res(3)) simp
      ultimately show ?thesis using ok1 by (simp add: kv' key_vault_ok_def kv_consistent_def)
    qed
  next
    case (Inl e)
    have pre: "key_vault_ok kv1"
      if "store_op (commit_vdk_rotation_from_active ke rng v pw ep w th n oe gs) kv = (r1, kv1)" for v pw ep w th n oe gs r1 kv1
      by (rule keepsD[OF keeps_store_op[OF keeps_rotation_from_active[OF rng]] ok that])
    have "key_vault_ok (snd (complete_rotation ke rng rrng password onchain kv)) \<or> is_ok r"
      using run Inl ok
      by (auto simp: complete_rotation_def op_bind_def op_seq_def op_try_def op_modify_def op_ret_def Let_def
          split: prod.splits sum.splits dest: pre)
    then show ?thesis using run Inl by simp
  qed
  then show "key_vault_ok (snd (complete_rotation ke rng rrng password onchain kv))" using run by simp
qed

lemma keeps_recover_from_shares [op_keeps]:
  "keeps key_vault_ok (recover_from_shares ke rng erng w opened_shares roster password cur vault_id)"
  unfolding recover_from_shares_def Let_def by (intro op_keeps)

section \<open>Reachable states\<close>

text \<open>
  The operations that change the key tables or the session, with what their Rust types guarantee of
  the arguments: nonces and salts of their length, 20-byte signers, 32-byte identifiers.
\<close>

inductive key_step :: "KeyEnv \<Rightarrow> KeyVault \<Rightarrow> KeyVault \<Rightarrow> bool" for ke where
  step_unlock: "length (ur_device_key urng) = SECRET_KEY_LEN \<Longrightarrow>
    unlock_keys ke urng now_ms ident wall now (kv, p) = (r, (kv', p')) \<Longrightarrow> key_step ke kv kv'"
| step_lock: "kv' = kv \<lparr> kv_vault := lock (kv_vault kv), kv_chain := None \<rparr> \<Longrightarrow> key_step ke kv kv'"
| step_reopen: "reopen placeholder kv = Inr kv' \<Longrightarrow> key_step ke kv kv'"
| step_recover: "recover_with_new_password ke rng vdk password kv = (r, kv') \<Longrightarrow> key_step ke kv kv'"
| step_rotate: "rekey_rng_ok rng \<Longrightarrow> commit_vdk_rotation_from_active ke rng new_vdk password new_epoch w threshold guardian_count
    escrow_epoch guardians kv = (r, kv') \<Longrightarrow> key_step ke kv kv'"
| step_onboard: "onboard_guardians ke rng erng threshold pubs signers kv = (r', kv') \<Longrightarrow> key_step ke kv kv'"
| step_pair: "install_paired_vdk ke rng vdk vault_id password kv = (r, kv') \<Longrightarrow> key_step ke kv kv'"
| step_complete: "rekey_rng_ok rng \<Longrightarrow> complete_rotation ke rng rrng password onchain kv = (out, kv') \<Longrightarrow> key_step ke kv kv'"
| step_recover_shares: "recover_from_shares ke rng erng w opened_shares roster password cur vault_id kv = (ep, kv') \<Longrightarrow> key_step ke kv kv'"
| step_directory: "length (di_signer e) = EVM_ADDRESS_LEN \<Longrightarrow> length (di_device_id e) = 32 \<Longrightarrow> length (di_pairing_pub e) = 32 \<Longrightarrow>
    kv' = kv \<lparr> kv_keys := upsert_directory_entry e now_ms (kv_keys kv) \<rparr> \<Longrightarrow> key_step ke kv kv'"
| step_removed: "\<forall>s \<in> set known. length s = EVM_ADDRESS_LEN \<Longrightarrow>
    process_device_removed_trigger now_ms onchain known epoch (kv_keys kv) = Inr (n, t) \<Longrightarrow>
    kv' = kv \<lparr> kv_keys := t \<rparr> \<Longrightarrow> key_step ke kv kv'"
| step_version: "kv' = kv \<lparr> kv_keys := set_revisionlog_version version (kv_keys kv) \<rparr> \<Longrightarrow> key_step ke kv kv'"

inductive key_reachable :: "KeyEnv \<Rightarrow> KeyVault \<Rightarrow> bool" for ke where
  reach_create: "create ke rng vault_id vdk placeholder now_ms password = Inr kv \<Longrightarrow> key_reachable ke kv"
| reach_step: "key_reachable ke kv \<Longrightarrow> key_step ke kv kv' \<Longrightarrow> key_reachable ke kv'"

lemma unlock_keys_ok:
  assumes env: "key_env_ok ke" and ok: "key_vault_ok kv" and len: "length (ur_device_key urng) = SECRET_KEY_LEN"
    and run: "unlock_keys ke urng now_ms ident wall now (kv, p) = (r, (kv', p'))"
  shows "key_vault_ok kv'"
proof -
  consider "kv' = kv" | password x where "unlock_material ke urng now_ms password kv = Inr x" "kv' = install_material now x kv"
  proof -
    obtain pr p1 where pr: "presence_verify wall p = (pr, p1)" by fastforce
    let ?res = "and_then (lift_auth pr) (\<lambda>_. and_then (lift_auth (identity_verify ident)) (\<lambda>_.
                and_then (lift_auth (derive_secret ident)) (\<lambda>password. unlock_material ke urng now_ms password kv)))"
    have eq: "(case ?res of Inl e \<Rightarrow> (Inl e, (kv, p1)) | Inr m \<Rightarrow> (Inr (), (install_material now m kv, p1))) = (r, (kv', p'))"
      using run by (simp only: unlock_keys_def pr Let_def prod.case)
    show ?thesis
    proof (cases ?res)
      case (Inl e)
      then show ?thesis using eq that(1) by simp
    next
      case (Inr x)
      then obtain password where "unlock_material ke urng now_ms password kv = Inr x" by (simp only: and_then_Inr) blast
      then show ?thesis using eq Inr that(2) by simp
    qed
  qed
  then show ?thesis
  proof cases
    case (2 password x)
    obtain m chain t where x: "x = (m, chain, t)" by (cases x)
    from 2(1) obtain authority where un: "unwrap_with (ke_crypto ke) (wrapped_vdk (kt_meta (kv_keys kv))) authority = Inr (um_vdk m)"
      "unlock_device_key ke urng now_ms (um_vdk m) (kv_keys kv) = Inr ((um_device_id m, um_device_key m), t)"
      unfolding x by (elim unlock_material_ok)
    note dk = unlock_device_key_held[OF env len un(2)]
    have "kt_typed t" using ok by (intro typed_unlock_device[OF un(2) env]) (simp add: key_vault_ok_def)
    then show ?thesis using dk(1,2) unwrap_length[OF un(1)] ok
      by (simp add: 2(2) x key_vault_ok_def install_material_def install_unlocked_def kv_consistent_def device_held_def)
  qed (use ok in simp)
qed

lemma key_step_ok:
  assumes "key_env_ok ke" "key_vault_ok kv" "key_step ke kv kv'"
  shows "key_vault_ok kv'"
  using assms(3)
proof cases
  case step_unlock
  then show ?thesis using unlock_keys_ok assms(1,2) by blast
next
  case (step_removed known now_ms onchain epoch n t)
  note q = queue_removed_ok(3)[OF step_removed(2)[unfolded process_device_removed_trigger_def] _ step_removed(1)]
  note fr = queue_removed_frame[OF step_removed(2)[unfolded process_device_removed_trigger_def]]
  have "kt_typed t" using assms(2) q by (intro typed_pending[OF _ _ fr]) (auto simp: key_vault_ok_def kt_typed_def)
  moreover have "kt_meta t = kt_meta (kv_keys kv)" by (subst fr) simp
  ultimately show ?thesis using assms(2) by (simp add: step_removed(3) key_vault_ok_def kv_consistent_def)
next
  case (step_reopen placeholder)
  then show ?thesis using assms(2)
    by (auto simp: reopen_def and_then_Inr Let_def key_vault_ok_def kv_consistent_def lock_def)
next
  case step_directory
  then show ?thesis using assms(2) typed_directory[of "kv_keys kv"]
    by (auto simp: key_vault_ok_def kv_consistent_def upsert_directory_entry_def)
next
  case step_version
  then show ?thesis using assms(2) typed_version[of "kv_keys kv"]
    by (auto simp: key_vault_ok_def kv_consistent_def set_revisionlog_version_def)
next
  case step_lock
  then show ?thesis using assms(2) by (simp add: key_vault_ok_def kv_consistent_def lock_def)
next
  case step_recover
  then show ?thesis by (rule keepsD[OF keeps_recover assms(2)])
next
  case step_rotate
  then show ?thesis using keepsD[OF keeps_rotation_from_active assms(2)] by blast
next
  case step_onboard
  then show ?thesis by (rule keepsD[OF keeps_onboard assms(2)])
next
  case step_pair
  then show ?thesis by (rule keepsD[OF keeps_install_paired assms(2)])
next
  case step_complete
  then show ?thesis using keepsD[OF keeps_complete_rotation assms(2)] by blast
next
  case step_recover_shares
  then show ?thesis by (rule keepsD[OF keeps_recover_from_shares assms(2)])
qed

text \<open>
  C15. Whatever sequence of unlocks, recoveries, rotations, onboardings, pairings and directory updates a
  vault went through, six reads of its key tables decode without a corruption error: the epoch, the
  rows of the retained keys, the device directory, the removal queue, the registered device and the log
  version. The handle and the meta row name the same vault, and an open session holds keys of the right
  length. The guardian escrow is not among these reads, because its writer accepts a signer that its
  reader refuses, nor is the sealed device key, whose reading depends on the data key.
\<close>

theorem key_tables_readable:
  assumes "key_env_ok ke" "key_reachable ke kv"
  shows "is_ok (read_current_epoch (kv_keys kv)) \<and> is_ok (read_chain (kv_keys kv) (vm_vault_id (kt_meta (kv_keys kv))))
    \<and> is_ok (read_directory (kv_keys kv)) \<and> is_ok (read_pending_rotations (kv_keys kv))
    \<and> is_ok (read_registered_device_id (kv_keys kv)) \<and> is_ok (revisionlog_version (kv_keys kv))
    \<and> v_vault_id (kv_vault kv) = vm_vault_id (kt_meta (kv_keys kv))
    \<and> (\<forall>a. v_active (kv_vault kv) = Some a \<longrightarrow> length (as_vdk a) = KEY_LEN \<and> length (as_device_key a) = SECRET_KEY_LEN)"
proof -
  have "key_vault_ok kv" using assms(2)
  proof induction
    case (reach_create rng vault_id vdk placeholder now_ms password kv)
    then show ?case
      by (auto simp: create_def and_then_Inr key_vault_ok_def kv_consistent_def kt_typed_def queue_ok_def set_revisionlog_version_def
          empty_tables_def build_meta_def)
  next
    case (reach_step kv kv')
    then show ?case using key_step_ok assms(1) by blast
  qed
  then show ?thesis using typed_readable[of "kv_keys kv"] by (simp add: key_vault_ok_def kv_consistent_def)
qed

theorem key_tables_readable_witness:
  "\<exists>kv'. recover_with_new_password example_ke (example_rekey_rng 3) (replicate 32 5) [3] created = (Inr (), kv')
     \<and> is_ok (read_current_epoch (kv_keys kv')) \<and> is_ok (read_chain (kv_keys kv') (vm_vault_id (kt_meta (kv_keys kv'))))
     \<and> is_ok (read_registered_device_id (kv_keys kv'))"
proof -
  have "is_ok (create example_ke (example_rekey_rng 1) example_vault_id (replicate 32 5) (DeviceId (replicate 32 2)) 1000 [1])"
    unfolding create_def by (intro and_then_total) (auto intro!: build_meta_total example_ke_ok simp: KEY_LEN_def)
  then have "create example_ke (example_rekey_rng 1) example_vault_id (replicate 32 5) (DeviceId (replicate 32 2)) 1000 [1] = Inr created"
    unfolding created_def by (elim is_ok_E) simp
  then have r0: "key_reachable example_ke created" by (rule reach_create)
  obtain kv' where kv': "recover_with_new_password example_ke (example_rekey_rng 3) (replicate 32 5) [3] created = (Inr (), kv')"
    using recover_total[OF example_ke_ok(1-3)] by (fastforce simp: KEY_LEN_def)
  have "key_reachable example_ke kv'" by (rule reach_step[OF r0 step_recover[OF kv']])
  from key_tables_readable[OF example_ke_ok(1) this] kv' show ?thesis by blast
qed

end
