(* ===== verification/Chain_Reader.thy ===== *)
theory Chain_Reader
  imports Chain_Adapter Totp
begin

text \<open>
  Reading the revision log (\<open>crates/pangolin-chain/src/chain_sync.rs\<close>, \<open>chain_sync/poll.rs\<close>,
  \<open>chain_sync/v2.rs\<close>, \<open>chain_sync/ws.rs\<close>, \<open>chain_sync/reorg.rs\<close> and the membership reader of
  \<open>revisionlog_v2_client.rs\<close>): verification of raw logs, the chunked fetch, the reorganization
  detector, the reconnect backoff and the authorized-device set. A JSON-RPC connection is a parameter, as
  are the ABI decoders that the contract bindings generate and the deployment file. The lemmas show
  that the detector reports exactly the span of the blocks whose hash changed, and that the
  authorized set holds exactly the announced devices that the contract confirms.
\<close>

section \<open>Constants and reports\<close>

definition LOG_BLOCK_CHUNK :: u64 where "LOG_BLOCK_CHUNK = 9000"
definition WS_RECONNECT_INITIAL_BACKOFF_MS :: u64 where "WS_RECONNECT_INITIAL_BACKOFF_MS = 250"
definition WS_RECONNECT_MAX_BACKOFF_MS :: u64 where "WS_RECONNECT_MAX_BACKOFF_MS = 30000"
definition MAX_KNOWN_CLIENT_SCHEMA_VERSION :: u16 where "MAX_KNOWN_CLIENT_SCHEMA_VERSION = 1"
definition WS_CIRCUIT_BREAKER_THRESHOLD :: u32 where "WS_CIRCUIT_BREAKER_THRESHOLD = 5"

datatype ChainEventSource = WebSocket | HttpPolling

record SyncReport =
  sr_revisions_pulled :: u32
  sr_revisions_applied :: u32
  sr_revisions_rejected :: u32
  sr_last_block_synced :: u64
  sr_new_devices_registered :: u32
  sr_revisions_finalized :: u32
  sr_revisions_rolled_back :: u32
  sr_event_source :: ChainEventSource
  sr_ws_drops :: u32
  sr_revisions_revoked :: u32

definition SyncReport_default :: SyncReport where
  "SyncReport_default = \<lparr> sr_revisions_pulled = 0, sr_revisions_applied = 0, sr_revisions_rejected = 0,
     sr_last_block_synced = 0, sr_new_devices_registered = 0, sr_revisions_finalized = 0,
     sr_revisions_rolled_back = 0, sr_event_source = HttpPolling, sr_ws_drops = 0, sr_revisions_revoked = 0 \<rparr>"

record SyncOptions =
  so_from_genesis :: bool
  so_until_block :: "u64 option"
  so_prefer_websocket :: bool

definition SyncOptions_default :: SyncOptions where
  "SyncOptions_default = \<lparr> so_from_genesis = False, so_until_block = None, so_prefer_websocket = True \<rparr>"

fun ChainEnv_chain_id :: "ChainEnv \<Rightarrow> u64 option" where
  "ChainEnv_chain_id BaseSepolia = Some 84532"
| "ChainEnv_chain_id BaseMainnet = Some 8453"
| "ChainEnv_chain_id Dev = None"

definition d017_deploy_block :: "ChainEnv \<Rightarrow> u64" where
  "d017_deploy_block env = (if env = BaseSepolia then 41507120 else 0)"

section \<open>The reorganization detector\<close>

text \<open>\<open>rd_observed\<close> is an ordered map: an association list with increasing block numbers.\<close>

record ReorgDetector =
  rd_observed :: "(u64 \<times> bytes) list"
  rd_tip :: u64

definition ReorgDetector_default :: ReorgDetector where
  "ReorgDetector_default = \<lparr> rd_observed = [], rd_tip = 0 \<rparr>"

record ReorgInfo =
  affected_block_low :: u64
  affected_block_high :: u64

definition maybe_evict :: "ReorgDetector \<Rightarrow> ReorgDetector" where
  "maybe_evict d =
     (let evict_below = sat_sub (rd_tip d) (CONFIRMATION_DEPTH_FOR_FINALIZATION * 2)
      in d \<lparr> rd_observed := filter (\<lambda>(b, _). \<not> b < evict_below) (rd_observed d) \<rparr>)"

definition record_block :: "u64 \<Rightarrow> bytes \<Rightarrow> ReorgDetector \<Rightarrow> ReorgDetector" where
  "record_block b h d =
     maybe_evict (d \<lparr> rd_observed := insort_key fst (b, h) (filter (\<lambda>(k, _). k \<noteq> b) (rd_observed d)),
                     rd_tip := (if rd_tip d < b then b else rd_tip d) \<rparr>)"

definition extend_window :: "u64 \<Rightarrow> u64 option \<times> u64 option \<Rightarrow> u64 option \<times> u64 option" where
  "extend_window b = (\<lambda>(low, high).
     (case low of None \<Rightarrow> Some b | Some l \<Rightarrow> if b < l then Some b else low,
      case high of None \<Rightarrow> Some b | Some h \<Rightarrow> if h < b then Some b else high))"

fun detect_window :: "(u64 \<Rightarrow> ChainError + bytes option) \<Rightarrow> (u64 \<times> bytes) list \<Rightarrow> u64 option \<times> u64 option
    \<Rightarrow> ChainError + u64 option \<times> u64 option" where
  "detect_window get_block [] w = Inr w"
| "detect_window get_block ((b, observed) # rest) w =
     and_then (get_block b) (\<lambda>canonical.
       detect_window get_block rest (if canonical = Some observed then w else extend_window b w))"

definition detect_reorg :: "(u64 \<Rightarrow> ChainError + bytes option) \<Rightarrow> ReorgDetector \<Rightarrow> ChainError + ReorgInfo option" where
  "detect_reorg get_block d =
     and_then (detect_window get_block (rd_observed d) (None, None)) (\<lambda>w.
       Inr (case w of (Some l, Some h) \<Rightarrow> Some \<lparr> affected_block_low = l, affected_block_high = h \<rparr> | _ \<Rightarrow> None))"

definition forget_window :: "ReorgInfo \<Rightarrow> ReorgDetector \<Rightarrow> ReorgDetector" where
  "forget_window info d =
     d \<lparr> rd_observed := filter (\<lambda>(b, _). \<not> (affected_block_low info \<le> b \<and> b \<le> affected_block_high info)) (rd_observed d) \<rparr>"

section \<open>Logs\<close>

record RpcLog =
  lg_address :: bytes
  lg_topic0 :: "bytes option"
  lg_inner :: bytes
  lg_block_number :: "u64 option"
  lg_log_index :: "u64 option"
  lg_transaction_hash :: "bytes option"
  lg_block_hash :: "bytes option"

text \<open>The fields of a decoded \<open>RevisionPublished\<close> event; \<open>pb_sequence\<close> is a \<open>uint256\<close>.\<close>

record RevisionPublished =
  pb_vault_id :: bytes
  pb_account_id :: bytes
  pb_parent_revision :: bytes
  pb_device_id :: bytes
  pb_schema_version :: u16
  pb_sequence :: "256 word"
  pb_signer :: bytes
  pb_enc_payload :: bytes

record VerifiedRevisionEvent =
  ve_event :: RevisionEvent
  ve_signer :: bytes
  ve_block_hash :: bytes
  ve_schema_version :: u16

datatype VerifyOutcome = Verified VerifiedRevisionEvent | Rejected

definition event_to_revision_event :: "bytes \<Rightarrow> bytes \<Rightarrow> bytes \<Rightarrow> bytes \<Rightarrow> u16 \<Rightarrow> u64 \<Rightarrow> bytes \<Rightarrow> ChainAnchor \<Rightarrow> RevisionEvent" where
  "event_to_revision_event vault_id account parent device schema seqno payload anchor =
     \<lparr> ev_vault_id = vault_id, ev_account_id = account, ev_parent_revision = parent, ev_device_id = device,
       ev_schema_version = (if schema \<le> 255 then ucast schema else 0), ev_sequence = seqno,
       ev_enc_payload = payload, ev_anchor = anchor \<rparr>"

text \<open>
  \<open>verify_alloy_log\<close> and \<open>verify_alloy_log_v2\<close> have the same steps, with the event decoder of their
  contract.
\<close>

definition verify_log :: "(bytes \<Rightarrow> RevisionPublished option) \<Rightarrow> bytes \<Rightarrow> bytes \<Rightarrow> RpcLog \<Rightarrow> VerifyOutcome" where
  "verify_log decode vault_id contract log =
     (if lg_address log \<noteq> contract then Rejected
      else case decode (lg_inner log) of None \<Rightarrow> Rejected
      | Some d \<Rightarrow>
          if pb_vault_id d \<noteq> vault_id then Rejected
          else if MAX_KNOWN_CLIENT_SCHEMA_VERSION < pb_schema_version d then Rejected
          else (case (lg_block_number log, lg_log_index log, lg_transaction_hash log, lg_block_hash log) of
                  (Some b, Some l, Some tx, Some h) \<Rightarrow>
                    if 18446744073709551616 \<le> pb_sequence d then Rejected
                    else let s = ucast (pb_sequence d)
                         in Verified \<lparr> ve_event = event_to_revision_event vault_id (pb_account_id d)
                              (pb_parent_revision d) (pb_device_id d) (pb_schema_version d) s (pb_enc_payload d)
                              \<lparr> tx_hash = tx, block_number = b, log_index = l, sequence = s \<rparr>,
                            ve_signer = pb_signer d, ve_block_hash = h, ve_schema_version = pb_schema_version d \<rparr>
                | _ \<Rightarrow> Rejected))"

definition verify_alloy_log :: "(bytes \<Rightarrow> RevisionPublished option) \<Rightarrow> bytes \<Rightarrow> bytes \<Rightarrow> RpcLog \<Rightarrow> VerifyOutcome" where
  "verify_alloy_log = verify_log"

definition verify_alloy_log_v2 :: "(bytes \<Rightarrow> RevisionPublished option) \<Rightarrow> bytes \<Rightarrow> bytes \<Rightarrow> RpcLog \<Rightarrow> VerifyOutcome" where
  "verify_alloy_log_v2 = verify_log"

fun verify_logs :: "(RpcLog \<Rightarrow> VerifyOutcome) \<Rightarrow> RpcLog list \<Rightarrow> VerifiedRevisionEvent list \<times> u32
    \<Rightarrow> VerifiedRevisionEvent list \<times> u32" where
  "verify_logs verify [] acc = acc"
| "verify_logs verify (log # logs) (evs, rejected) =
     (case verify log of
        Verified ev \<Rightarrow> verify_logs verify logs (evs @ [ev], rejected)
      | Rejected \<Rightarrow> verify_logs verify logs (evs, sat_add rejected 1))"

section \<open>Connections\<close>

text \<open>
  The answers of one connection to a node: \<open>vw_get_logs\<close> to \<open>eth_getLogs\<close> with the filter of the
  caller over a block range, \<open>vw_block_hash\<close> to \<open>eth_getBlockByNumber\<close>.
\<close>

record RpcView =
  vw_connect :: "ChainError + unit"
  vw_chain_id :: "ChainError + u64"
  vw_block_number :: "ChainError + u64"
  vw_get_logs :: "u64 \<Rightarrow> u64 \<Rightarrow> ChainError + RpcLog list"
  vw_block_hash :: "u64 \<Rightarrow> ChainError + bytes option"

definition check_chain_id_matches :: "RpcView \<Rightarrow> ChainEnv \<Rightarrow> ChainError + unit" where
  "check_chain_id_matches view env =
     (case ChainEnv_chain_id env of
        None \<Rightarrow> Inr ()
      | Some expected \<Rightarrow> and_then (vw_chain_id view) (\<lambda>observed.
          if observed \<noteq> expected then Inl (ChainIdMismatch expected observed) else Inr ()))"

definition fetch_current_block_number :: "RpcView \<Rightarrow> ChainError + u64" where
  "fetch_current_block_number view = and_then (vw_connect view) (\<lambda>_. vw_block_number view)"

definition detect_reorg_via_rpc :: "RpcView \<Rightarrow> ReorgDetector \<Rightarrow> ChainError + ReorgInfo option" where
  "detect_reorg_via_rpc view d = and_then (vw_connect view) (\<lambda>_. detect_reorg (vw_block_hash view) d)"

type_synonym deployments = "ChainEnv \<Rightarrow> string \<Rightarrow> ChainError + bytes"

definition EXPECTED_DEPLOYED_ADDRESS_BASE_SEPOLIA :: bytes where
  "EXPECTED_DEPLOYED_ADDRESS_BASE_SEPOLIA =
     [0x17, 0x93, 0x62, 0xAd, 0x7f, 0xb7, 0xdA, 0x66, 0x43, 0x12,
      0xaE, 0xFD, 0xda, 0xa5, 0x34, 0x31, 0xeb, 0x74, 0x8E, 0x42]"

definition resolve_and_check_contract :: "deployments \<Rightarrow> ChainEnv \<Rightarrow> ChainError + bytes" where
  "resolve_and_check_contract load env =
     and_then (load env ''RevisionLogV1'') (\<lambda>contract.
     if env = BaseSepolia \<and> contract \<noteq> EXPECTED_DEPLOYED_ADDRESS_BASE_SEPOLIA
     then Inl (DeploymentAddressMismatch env EXPECTED_DEPLOYED_ADDRESS_BASE_SEPOLIA contract)
     else Inr contract)"

definition resolve_contract_address :: "deployments \<Rightarrow> ChainEnv \<Rightarrow> ChainError + bytes" where
  "resolve_contract_address load env = load env ''RevisionLogV2''"

definition fetch_chunk :: "(RpcLog \<Rightarrow> VerifyOutcome) \<Rightarrow> RpcView \<Rightarrow> u64 \<Rightarrow> u64
    \<Rightarrow> ChainError + VerifiedRevisionEvent list \<times> u32" where
  "fetch_chunk verify view from_block to_block =
     and_then (vw_get_logs view from_block to_block) (\<lambda>logs. Inr (verify_logs verify logs ([], 0)))"

definition fetch_and_verify_chunk :: "deployments \<Rightarrow> (bytes \<Rightarrow> RevisionPublished option) \<Rightarrow> RpcView \<Rightarrow> ChainEnv \<Rightarrow> bytes
    \<Rightarrow> u64 \<Rightarrow> u64 \<Rightarrow> ChainError + VerifiedRevisionEvent list \<times> u32" where
  "fetch_and_verify_chunk load decode view env vault_id from_block to_block =
     and_then (resolve_and_check_contract load env) (\<lambda>contract.
     and_then (vw_connect view) (\<lambda>_.
     and_then (check_chain_id_matches view env) (\<lambda>_.
     fetch_chunk (verify_alloy_log decode vault_id contract) view from_block to_block)))"

definition fetch_and_verify_chunk_v2 :: "deployments \<Rightarrow> (bytes \<Rightarrow> RevisionPublished option) \<Rightarrow> RpcView \<Rightarrow> ChainEnv \<Rightarrow> bytes
    \<Rightarrow> u64 \<Rightarrow> u64 \<Rightarrow> ChainError + VerifiedRevisionEvent list \<times> u32" where
  "fetch_and_verify_chunk_v2 load decode view env vault_id from_block to_block =
     and_then (resolve_contract_address load env) (\<lambda>contract.
     and_then (vw_connect view) (\<lambda>_.
     and_then (check_chain_id_matches view env) (\<lambda>_.
     fetch_chunk (verify_alloy_log_v2 decode vault_id contract) view from_block to_block)))"

section \<open>WebSocket addresses and backoff\<close>

datatype WsOpenError = UnsupportedScheme | ConnectFailed | SubscribeFailed | WsChainIdMismatch

datatype WsRecvOutcome = WsEvent RpcLog | SubscriptionClosed

definition resolve_ws_url :: "bytes \<Rightarrow> bytes option \<Rightarrow> WsOpenError + bytes" where
  "resolve_ws_url http_url pinned =
     (case pinned of Some u \<Rightarrow> Inr u
      | None \<Rightarrow> (case strip_prefix (ascii ''https://'') http_url of
          Some rest \<Rightarrow> Inr (ascii ''wss://'' @ rest)
        | None \<Rightarrow> (case strip_prefix (ascii ''http://'') http_url of
            Some rest \<Rightarrow> Inr (ascii ''ws://'' @ rest)
          | None \<Rightarrow> Inl UnsupportedScheme)))"

definition check_ws_scheme :: "bytes \<Rightarrow> ChainEnv \<Rightarrow> WsOpenError + unit" where
  "check_ws_scheme ws_url env =
     (let is_wss = starts_with (ascii ''wss://'') ws_url; is_ws = starts_with (ascii ''ws://'') ws_url
      in if \<not> is_wss \<and> \<not> is_ws then Inl UnsupportedScheme
         else if env \<in> {BaseSepolia, BaseMainnet} \<and> is_ws then Inl UnsupportedScheme
         else Inr ())"

definition sat_mul2 :: "u64 \<Rightarrow> u64" where
  "sat_mul2 w = (if 2 * unat w < 2 ^ 64 then 2 * w else - 1)"

definition next_reconnect_backoff_ms :: "u64 \<Rightarrow> u64" where
  "next_reconnect_backoff_ms prev =
     (let candidate = sat_mul2 prev
      in if candidate < WS_RECONNECT_INITIAL_BACKOFF_MS then WS_RECONNECT_INITIAL_BACKOFF_MS
         else if WS_RECONNECT_MAX_BACKOFF_MS < candidate then WS_RECONNECT_MAX_BACKOFF_MS else candidate)"

section \<open>The authorized devices\<close>

datatype DeviceMgmtEvent =
    Bootstrapped (first_signer: bytes) (bs_manager: bytes)
  | Added (added_signer: bytes) (added_nonce: u64)
  | Removed (removed_signer: bytes) (removed_nonce: u64)
  | PromotionFinalized (new_manager: bytes)

text \<open>The generated decoders: the topic of each event and the decoding of its log.\<close>

record mgmt_abi =
  ab_bootstrapped :: bytes
  ab_added :: bytes
  ab_removed :: bytes
  ab_finalized :: bytes
  ab_decode_bootstrapped :: "bytes \<Rightarrow> (bytes \<times> bytes) option"
  ab_decode_added :: "bytes \<Rightarrow> (bytes \<times> u64) option"
  ab_decode_removed :: "bytes \<Rightarrow> (bytes \<times> u64) option"
  ab_decode_finalized :: "bytes \<Rightarrow> bytes option"

definition decode_device_mgmt_log :: "mgmt_abi \<Rightarrow> bytes \<Rightarrow> RpcLog \<Rightarrow> DeviceMgmtEvent option" where
  "decode_device_mgmt_log abi contract log =
     (if lg_address log \<noteq> contract then None
      else case lg_topic0 log of None \<Rightarrow> None
      | Some topic \<Rightarrow>
          if topic = ab_bootstrapped abi
          then map_option (\<lambda>(s, m). Bootstrapped s m) (ab_decode_bootstrapped abi (lg_inner log))
          else if topic = ab_added abi then map_option (\<lambda>(s, n). Added s n) (ab_decode_added abi (lg_inner log))
          else if topic = ab_removed abi then map_option (\<lambda>(s, n). Removed s n) (ab_decode_removed abi (lg_inner log))
          else if topic = ab_finalized abi then map_option PromotionFinalized (ab_decode_finalized abi (lg_inner log))
          else None)"

definition decode_device_mgmt_events :: "mgmt_abi \<Rightarrow> bytes \<Rightarrow> RpcLog list \<Rightarrow> DeviceMgmtEvent list" where
  "decode_device_mgmt_events abi contract logs = List.map_filter (decode_device_mgmt_log abi contract) logs"

fun candidate_signer :: "DeviceMgmtEvent \<Rightarrow> bytes option" where
  "candidate_signer (Bootstrapped s _) = Some s"
| "candidate_signer (Added s _) = Some s"
| "candidate_signer (Removed s _) = Some s"
| "candidate_signer (PromotionFinalized _) = None"

definition push_new :: "'a \<Rightarrow> 'a list \<Rightarrow> 'a list" where
  "push_new x xs = (if x \<in> set xs then xs else xs @ [x])"

definition add_candidates :: "DeviceMgmtEvent list \<Rightarrow> bytes list \<Rightarrow> bytes list" where
  "add_candidates evs acc = fold (\<lambda>ev acc. case candidate_signer ev of None \<Rightarrow> acc | Some s \<Rightarrow> push_new s acc) evs acc"

definition chunk_end_of :: "u64 \<Rightarrow> u64 \<Rightarrow> u64" where
  "chunk_end_of start head = min (sat_add start (sat_sub LOG_BLOCK_CHUNK 1)) head"


lemma unat_sat_add: "unat (sat_add a b) = min (unat a + unat b) (2 ^ LENGTH('a) - 1)" for a b :: "'a::len word"
proof (cases "unat a + unat b < 2 ^ LENGTH('a)")
  case True
  then show ?thesis by (simp add: sat_add_def unat_word_ariths(1))
next
  case False
  then show ?thesis by (simp add: sat_add_def unsigned_minus_1_eq_mask mask_eq_exp_minus_1)
qed

lemma chunk_end_bounds:
  assumes "start \<le> head"
  shows "start \<le> chunk_end_of start head" "chunk_end_of start head \<le> head"
    "unat (chunk_end_of start head) < unat start + unat LOG_BLOCK_CHUNK"
proof -
  have c: "unat (sat_sub LOG_BLOCK_CHUNK 1) = 8999" "unat LOG_BLOCK_CHUNK = 9000"
    by (simp_all add: LOG_BLOCK_CHUNK_def sat_sub_def)
  have "unat start \<le> unat head" "unat head < 2 ^ 64" using assms unsigned_less[of head, where ?'a = nat] by (simp_all add: word_le_nat_alt)
  then show "start \<le> chunk_end_of start head" "chunk_end_of start head \<le> head"
    "unat (chunk_end_of start head) < unat start + unat LOG_BLOCK_CHUNK"
    by (auto simp: chunk_end_of_def min_def word_le_nat_alt unat_sat_add c split: if_splits)
qed

lemma sat_add_1:
  fixes a b :: "'a::len word"
  assumes "a < b"
  shows "unat (sat_add a 1) = unat a + 1"
proof -
  have "unat a < unat b" using assms by (simp add: word_less_nat_alt)
  moreover have "unat b \<le> 2 ^ LENGTH('a) - 1" 
    using unsigned_less[of b, where ?'a = nat] by linarith
  ultimately show ?thesis by (simp add: unat_sat_add)
qed

function (sequential) scan_candidates :: "(u64 \<Rightarrow> u64 \<Rightarrow> ChainError + DeviceMgmtEvent list) \<Rightarrow> u64 \<Rightarrow> u64 \<Rightarrow> bytes list
    \<Rightarrow> ChainError + bytes list" where
  "scan_candidates get_events head start acc =
     (if start \<le> head then
        (case get_events start (chunk_end_of start head) of
           Inl e \<Rightarrow> Inl e
         | Inr evs \<Rightarrow>
             if chunk_end_of start head = head then Inr (add_candidates evs acc)
             else scan_candidates get_events head (sat_add (chunk_end_of start head) 1) (add_candidates evs acc))
      else Inr acc)"
  by pat_completeness auto
termination
proof (relation "measure (\<lambda>(_, head, start, _). unat head + 1 - unat start)")
  fix head start :: u64
  assume le: "start \<le> head" and ne: "chunk_end_of start head \<noteq> head"
  then have "chunk_end_of start head < head" using chunk_end_bounds(2)[OF le] by (simp add: order_less_le)
  with sat_add_1[OF this] chunk_end_bounds(1)[OF le] le
  show "((get_events, head, sat_add (chunk_end_of start head) 1, acc), (get_events, head, start, acc')) \<in> measure (\<lambda>(_, head, start, _). unat head + 1 - unat start)"
    for get_events :: "u64 \<Rightarrow> u64 \<Rightarrow> ChainError + DeviceMgmtEvent list" and acc acc' :: "bytes list"
    by (simp add: word_le_nat_alt word_less_nat_alt)
qed simp

declare scan_candidates.simps [simp del]

fun confirm_live :: "(bytes \<Rightarrow> ChainError + bool) \<Rightarrow> bytes list \<Rightarrow> bytes list \<Rightarrow> ChainError + bytes list" where
  "confirm_live authorized [] kept = Inr kept"
| "confirm_live authorized (signer # rest) kept =
     and_then (authorized signer) (\<lambda>live. confirm_live authorized rest (if live then push_new signer kept else kept))"

definition resolve_envelope_chain_id :: "RpcView \<Rightarrow> ChainEnv \<Rightarrow> ChainError + u64" where
  "resolve_envelope_chain_id view env =
     and_then (vw_chain_id view) (\<lambda>observed.
     case ChainEnv_chain_id env of
       Some expected \<Rightarrow> if observed \<noteq> expected then Inl (ChainIdMismatch expected observed) else Inr expected
     | None \<Rightarrow> Inr observed)"

text \<open>\<open>authorized\<close> is the contract's \<open>authorizedDevice\<close> view, called on a second connection.\<close>

definition read_authorized_set_v2 :: "deployments \<Rightarrow> mgmt_abi \<Rightarrow> RpcView \<Rightarrow> ChainError + unit \<Rightarrow> (bytes \<Rightarrow> ChainError + bool)
    \<Rightarrow> ChainEnv \<Rightarrow> u64 \<Rightarrow> ChainError + bytes list" where
  "read_authorized_set_v2 load abi view reconnect authorized env from_block =
     and_then (resolve_contract_address load env) (\<lambda>contract.
     and_then (vw_connect view) (\<lambda>_.
     and_then (resolve_envelope_chain_id view env) (\<lambda>_.
     and_then (vw_block_number view) (\<lambda>head.
     and_then (scan_candidates (\<lambda>f t. map_sum id (decode_device_mgmt_events abi contract) (vw_get_logs view f t))
         head (min from_block head) []) (\<lambda>candidates.
     and_then reconnect (\<lambda>_. confirm_live authorized candidates []))))))"

section \<open>What the membership reader returns\<close>

lemma set_push_new [simp]: "set (push_new x xs) = insert x (set xs)"
  by (auto simp: push_new_def)

lemma distinct_push_new [simp]: "distinct (push_new x xs) = distinct xs"
  by (auto simp: push_new_def)

lemma set_add_candidates [simp]:
  "set (add_candidates evs acc) = set acc \<union> {s. \<exists>ev \<in> set evs. candidate_signer ev = Some s}"
  unfolding add_candidates_def
  by (induction evs arbitrary: acc) (auto split: option.splits)

lemma confirm_live_set:
  "confirm_live authorized cs acc = Inr r \<Longrightarrow>
     set r = set acc \<union> {s \<in> set cs. authorized s = Inr True} \<and> (distinct acc \<longrightarrow> distinct r)"
proof (induction cs arbitrary: acc)
  case (Cons a cs)
  from Cons(2) obtain live where live: "authorized a = Inr live"
      "confirm_live authorized cs (if live then push_new a acc else acc) = Inr r"
    by (auto simp: and_then_Inr)
  from Cons(1)[OF live(2)]
  have r: "set r = set (if live then push_new a acc else acc) \<union> {s \<in> set cs. authorized s = Inr True}"
    and d: "distinct (if live then push_new a acc else acc) \<longrightarrow> distinct r" by blast+
  have "{s \<in> set (a # cs). authorized s = Inr True} = (if live then {a} else {}) \<union> {s \<in> set cs. authorized s = Inr True}"
    using live(1) by auto
  then show ?case using d unfolding r by (cases live) (simp_all add: r)
qed auto

text \<open>A node that answers a range query with the logs of the range.\<close>

definition honest_logs :: "RpcView \<Rightarrow> RpcLog list \<Rightarrow> bool" where
  "honest_logs view logs \<longleftrightarrow> (\<forall>f t. vw_get_logs view f t =
     Inr (filter (\<lambda>l. case lg_block_number l of None \<Rightarrow> False | Some b \<Rightarrow> f \<le> b \<and> b \<le> t) logs))"

definition announced :: "mgmt_abi \<Rightarrow> bytes \<Rightarrow> u64 \<Rightarrow> u64 \<Rightarrow> RpcLog list \<Rightarrow> bytes set" where
  "announced abi contract f t logs =
     {s. \<exists>l \<in> set logs. (\<exists>b. lg_block_number l = Some b \<and> f \<le> b \<and> b \<le> t)
        \<and> (\<exists>ev. decode_device_mgmt_log abi contract l = Some ev \<and> candidate_signer ev = Some s)}"

lemma announced_honest:
  assumes "honest_logs view logs"
  shows "\<exists>evs. map_sum id (decode_device_mgmt_events abi contract) (vw_get_logs view f t) = Inr evs
    \<and> {s. \<exists>ev \<in> set evs. candidate_signer ev = Some s} = announced abi contract f t logs"
proof -
  have "vw_get_logs view f t = Inr (filter (\<lambda>l. case lg_block_number l of None \<Rightarrow> False | Some b \<Rightarrow> f \<le> b \<and> b \<le> t) logs)"
    using assms unfolding honest_logs_def by blast
  then show ?thesis
    unfolding decode_device_mgmt_events_def announced_def
    by (auto simp: map_filter_def image_iff split: option.splits) (metis option.sel)+
qed

lemma announced_split:
  assumes "f \<le> m" "m < t"
  shows "announced abi c f t logs = announced abi c f m logs \<union> announced abi c (sat_add m 1) t logs"
proof -
  have "f \<le> b \<and> b \<le> t \<longleftrightarrow> (f \<le> b \<and> b \<le> m) \<or> (sat_add m 1 \<le> b \<and> b \<le> t)" for b
    using assms sat_add_1[OF assms(2)] by (simp add: word_le_nat_alt word_less_nat_alt) linarith
  then show ?thesis by (auto simp: announced_def)
qed

lemma scan_announced:
  assumes "honest_logs view logs"
  shows "scan_candidates (\<lambda>f t. map_sum id (decode_device_mgmt_events abi c) (vw_get_logs view f t)) head start acc = Inr r \<Longrightarrow>
    start \<le> head \<Longrightarrow> set r = set acc \<union> announced abi c start head logs"
proof (induction "\<lambda>f t. map_sum id (decode_device_mgmt_events abi c) (vw_get_logs view f t)" head start acc rule: scan_candidates.induct)
  case (1 head start acc)
  let ?to = "chunk_end_of start head"
  obtain evs where evs: "map_sum id (decode_device_mgmt_events abi c) (vw_get_logs view start ?to) = Inr evs"
      "{s. \<exists>ev \<in> set evs. candidate_signer ev = Some s} = announced abi c start ?to logs"
    using announced_honest[OF assms] by blast
  show ?case
  proof (cases "?to = head")
    case True
    with 1(2,3) evs have "r = add_candidates evs acc" by (simp add: scan_candidates.simps)
    with evs(2) True show ?thesis by simp
  next
    case False
    with chunk_end_bounds(2)[OF 1(3)] have lt: "?to < head" by simp
    with sat_add_1[OF lt] have "sat_add ?to 1 \<le> head" by (simp add: word_le_nat_alt word_less_nat_alt)
    with 1(1)[OF 1(3) evs(1) False] 1(2,3) False evs announced_split[OF chunk_end_bounds(1)[OF 1(3)] lt] show ?thesis
      by (auto simp: scan_candidates.simps[of _ head start])
  qed
qed

text \<open>
  C20. The authorized-device set of a vault has no duplicates, and whatever a node answers to the log
  queries, every member was kept by the contract's own membership view: a stale or forged event
  list never brings a removed device back. When the node returns the logs of the ranges it is asked
  for, the set is exactly the devices announced up to the current block that the contract confirms; no
  announcement is lost at a boundary between two chunks.
\<close>

theorem authorized_set_exact:
  assumes "read_authorized_set_v2 load abi view reconnect authorized env from_block = Inr devices"
    and "vw_block_number view = Inr head" "resolve_contract_address load env = Inr contract"
  shows "distinct devices \<and> (\<forall>s \<in> set devices. authorized s = Inr True)
    \<and> (honest_logs view logs \<longrightarrow>
         set devices = {s \<in> announced abi contract (min from_block head) head logs. authorized s = Inr True})"
proof -
  obtain cs where scan: "scan_candidates (\<lambda>f t. map_sum id (decode_device_mgmt_events abi contract) (vw_get_logs view f t))
       head (min from_block head) [] = Inr cs" and conf: "confirm_live authorized cs [] = Inr devices"
    using assms by (auto simp: read_authorized_set_v2_def and_then_Inr)
  from confirm_live_set[OF conf] scan_announced[OF _ scan, of logs] show ?thesis by auto
qed


section \<open>What the detector reports\<close>

definition detector_ok :: "ReorgDetector \<Rightarrow> bool" where
  "detector_ok d \<longleftrightarrow> sorted (map fst (rd_observed d)) \<and> distinct (map fst (rd_observed d))
     \<and> (\<forall>b \<in> fst ` set (rd_observed d). sat_sub (rd_tip d) 24 \<le> b \<and> b \<le> rd_tip d)"

lemma sorted_filter_keys: "sorted (map fst xs) \<Longrightarrow> sorted (map fst (filter P xs))"
  by (induction xs) auto

lemma distinct_filter_keys: "distinct (map fst xs) \<Longrightarrow> distinct (map fst (filter P xs))"
  by (induction xs) (auto simp: image_iff)

lemma distinct_insort_keys:
  "distinct (map fst xs) \<Longrightarrow> b \<notin> fst ` set xs \<Longrightarrow> distinct (map fst (insort_key fst (b, h) xs))"
  by (induction xs) (auto simp: set_insort_key)

lemma two_depths: "CONFIRMATION_DEPTH_FOR_FINALIZATION * 2 = 24"
  by (simp add: CONFIRMATION_DEPTH_FOR_FINALIZATION_def)

lemma record_block_ok: "detector_ok d \<Longrightarrow> detector_ok (record_block b h d)"
  unfolding detector_ok_def record_block_def maybe_evict_def two_depths Let_def
  by (auto simp: sorted_filter_keys distinct_filter_keys sorted_insort_key distinct_insort set_insort_key
      intro!: sorted_filter_keys distinct_filter_keys distinct_insort_keys split: if_splits)

lemma forget_window_ok: "detector_ok d \<Longrightarrow> detector_ok (forget_window info d)"
  unfolding detector_ok_def forget_window_def
  by (auto intro!: sorted_filter_keys distinct_filter_keys)

text \<open>After a block is recorded, every block of the window has the hash recorded last.\<close>

lemma map_of_insort:
  "distinct (map fst xs) \<Longrightarrow> b \<notin> fst ` set xs \<Longrightarrow> map_of (insort_key fst (b, h) xs) = (map_of xs)(b \<mapsto> h)"
  by (induction xs) auto

lemma map_of_filter_key: "map_of (filter (\<lambda>(k, _). P k) xs) k = (if P k then map_of xs k else None)"
  by (induction xs) auto

lemma record_block_lookup:
  assumes "detector_ok d"
  shows "map_of (rd_observed (record_block b h d)) k =
    (if k < sat_sub (max (rd_tip d) b) 24 then None else if k = b then Some h else map_of (rd_observed d) k)"
proof -
  let ?xs = "filter (\<lambda>(k, _). k \<noteq> b) (rd_observed d)"
  have "distinct (map fst ?xs)" using assms by (simp add: detector_ok_def distinct_filter_keys)
  then have "map_of (insort_key fst (b, h) ?xs) = (map_of ?xs)(b \<mapsto> h)" by (rule map_of_insort) auto
  then show ?thesis
    by (auto simp: record_block_def maybe_evict_def two_depths Let_def map_of_filter_key max_def split: if_splits)
qed

definition changed_blocks :: "(u64 \<Rightarrow> ChainError + bytes option) \<Rightarrow> (u64 \<times> bytes) list \<Rightarrow> u64 set" where
  "changed_blocks get_block xs = {b. \<exists>h. (b, h) \<in> set xs \<and> get_block b \<noteq> Inr (Some h)}"

fun spans :: "u64 option \<times> u64 option \<Rightarrow> u64 set \<Rightarrow> bool" where
  "spans (None, None) S = (S = {})"
| "spans (Some l, Some h) S = (l \<in> S \<and> h \<in> S \<and> (\<forall>b \<in> S. l \<le> b \<and> b \<le> h))"
| "spans _ S = False"

lemma spans_extend: "spans w S \<Longrightarrow> spans (extend_window b w) (insert b S)"
  by (cases "(w, S)" rule: spans.cases) (auto simp: extend_window_def)

lemma detect_window_spans:
  "detect_window get_block xs w = Inr w' \<Longrightarrow> spans w S \<Longrightarrow> spans w' (S \<union> changed_blocks get_block xs)"
proof (induction xs arbitrary: w S)
  case (Cons x xs)
  obtain b h where x: "x = (b, h)" by (cases x)
  from Cons(2) obtain c where c: "get_block b = Inr c"
      "detect_window get_block xs (if c = Some h then w else extend_window b w) = Inr w'"
    by (auto simp: x and_then_Inr)
  have "S \<union> changed_blocks get_block (x # xs) = (S \<union> (if c = Some h then {} else {b})) \<union> changed_blocks get_block xs"
    using c(1) by (auto simp: changed_blocks_def x)
  moreover have "spans (if c = Some h then w else extend_window b w) (S \<union> (if c = Some h then {} else {b}))"
    using Cons(3) spans_extend[OF Cons(3), of b] by simp
  ultimately show ?case using Cons(1)[OF c(2)] by presburger
qed (simp add: changed_blocks_def)

text \<open>
  C21. When every queried block is answered, the detector reports a reorganization exactly when some
  remembered block no longer has its remembered hash (or no longer exists), and the reported range is
  the least one that holds all those blocks.
\<close>

theorem detector_reports_changed_span:
  assumes "detect_reorg get_block d = Inr info"
  shows "case info of
      None \<Rightarrow> changed_blocks get_block (rd_observed d) = {}
    | Some i \<Rightarrow> affected_block_low i \<in> changed_blocks get_block (rd_observed d)
        \<and> affected_block_high i \<in> changed_blocks get_block (rd_observed d)
        \<and> (\<forall>b \<in> changed_blocks get_block (rd_observed d). affected_block_low i \<le> b \<and> b \<le> affected_block_high i)"
proof -
  obtain w where w: "detect_window get_block (rd_observed d) (None, None) = Inr w"
      "info = (case w of (Some l, Some h) \<Rightarrow> Some \<lparr> affected_block_low = l, affected_block_high = h \<rparr> | _ \<Rightarrow> None)"
    using assms by (auto simp: detect_reorg_def and_then_Inr)
  from detect_window_spans[OF w(1), of "{}"] have "spans w (changed_blocks get_block (rd_observed d))" by simp
  then show ?thesis unfolding w(2) by (cases "(w, changed_blocks get_block (rd_observed d))" rule: spans.cases) auto
qed

section \<open>The backoff\<close>

lemma backoff_bounds:
  "WS_RECONNECT_INITIAL_BACKOFF_MS \<le> next_reconnect_backoff_ms w" "next_reconnect_backoff_ms w \<le> WS_RECONNECT_MAX_BACKOFF_MS"
  by (auto simp: next_reconnect_backoff_ms_def Let_def WS_RECONNECT_INITIAL_BACKOFF_MS_def WS_RECONNECT_MAX_BACKOFF_MS_def)

section \<open>Examples\<close>

text \<open>A vault that announced two devices in different chunks, one of which the contract has since removed.\<close>

definition example_abi :: mgmt_abi where
  "example_abi = \<lparr> ab_bootstrapped = [1], ab_added = [2], ab_removed = [3], ab_finalized = [4],
     ab_decode_bootstrapped = (\<lambda>_. None), ab_decode_added = (\<lambda>signer. Some (signer, 1)),
     ab_decode_removed = (\<lambda>signer. Some (signer, 2)), ab_decode_finalized = (\<lambda>_. None) \<rparr>"

definition example_contract :: bytes where "example_contract = replicate 20 0xC0"

definition example_log :: "u64 \<Rightarrow> bytes \<Rightarrow> RpcLog" where
  "example_log b signer = \<lparr> lg_address = example_contract, lg_topic0 = Some [2], lg_inner = signer, lg_block_number = Some b,
     lg_log_index = Some 2, lg_transaction_hash = Some (replicate 32 8), lg_block_hash = Some (replicate 32 10) \<rparr>"

definition answers :: "RpcLog list \<Rightarrow> u64 \<Rightarrow> u64 \<Rightarrow> ChainError + RpcLog list" where
  "answers logs f t = Inr (filter (\<lambda>l. case lg_block_number l of None \<Rightarrow> False | Some b \<Rightarrow> f \<le> b \<and> b \<le> t) logs)"

definition example_view :: "u64 \<Rightarrow> RpcLog list \<Rightarrow> RpcView" where
  "example_view head logs = \<lparr> vw_connect = Inr (), vw_chain_id = Inr 31337, vw_block_number = Inr head,
     vw_get_logs = answers logs, vw_block_hash = (\<lambda>_. Inr (Some (replicate 32 10))) \<rparr>"

lemma example_view_honest: "honest_logs (example_view head logs) logs"
  by (simp add: honest_logs_def example_view_def answers_def)

definition example_members :: RpcView where
  "example_members = example_view 9001 [example_log 3 (replicate 20 4), example_log 9001 (replicate 20 5)]"

definition example_authorized :: "bytes \<Rightarrow> ChainError + bool" where
  "example_authorized signer = Inr (signer = replicate 20 4)"

lemma example_authorized_set:
  "read_authorized_set_v2 (\<lambda>_ _. Inr example_contract) example_abi example_members (Inr ()) example_authorized Dev 0
     = Inr [replicate 20 4]"
proof -
  let ?ev = "\<lambda>f t. map_sum id (decode_device_mgmt_events example_abi example_contract) (vw_get_logs example_members f t)"
  have ends: "chunk_end_of 0 9001 = 8999" "chunk_end_of 9000 9001 = 9001" "sat_add 8999 1 = (9000 :: u64)"
    by (simp_all add: chunk_end_of_def sat_add_def sat_sub_def LOG_BLOCK_CHUNK_def)
  have "?ev 0 8999 = Inr [Added (replicate 20 4) 1]" "?ev 9000 9001 = Inr [Added (replicate 20 5) 1]"
    by (simp_all add: example_members_def example_view_def answers_def example_log_def decode_device_mgmt_events_def
        decode_device_mgmt_log_def example_abi_def List.map_filter_simps)
  then have "scan_candidates ?ev 9001 0 [] = Inr [replicate 20 4, replicate 20 5]"
    by (simp add: scan_candidates.simps ends add_candidates_def push_new_def)
  then show ?thesis
    by (simp add: read_authorized_set_v2_def resolve_contract_address_def resolve_envelope_chain_id_def and_then_def
        example_members_def example_view_def example_authorized_def push_new_def)
qed

theorem authorized_set_exact_witness:
  "\<exists>devices. read_authorized_set_v2 (\<lambda>_ _. Inr example_contract) example_abi example_members (Inr ()) example_authorized Dev 0
      = Inr devices
    \<and> distinct devices \<and> set devices = {s \<in> announced example_abi example_contract 0 9001
         [example_log 3 (replicate 20 4), example_log 9001 (replicate 20 5)]. example_authorized s = Inr True}
    \<and> replicate 20 4 \<in> set devices \<and> replicate 20 5 \<notin> set devices"
proof -
  have head: "vw_block_number example_members = Inr 9001" by (simp add: example_members_def example_view_def)
  have con: "resolve_contract_address (\<lambda>_ _. Inr example_contract) Dev = Inr example_contract"
    by (simp add: resolve_contract_address_def)
  have "honest_logs example_members [example_log 3 (replicate 20 4), example_log 9001 (replicate 20 5)]"
    by (simp add: example_members_def example_view_honest)
  moreover have "example_authorized (replicate 20 5) \<noteq> Inr True" by (simp add: example_authorized_def)
  ultimately show ?thesis
    using authorized_set_exact[OF example_authorized_set head con] by (intro exI[of _ "[replicate 20 4]"] conjI example_authorized_set) auto
qed

definition example_detector :: ReorgDetector where
  "example_detector = record_block 12 [2] (record_block 11 [1] (record_block 10 [0] ReorgDetector_default))"

theorem detector_reports_changed_span_witness:
  "\<exists>i. detect_reorg (\<lambda>b. Inr (if b = 10 then Some [0] else if b = 11 then Some [7] else None)) example_detector = Inr (Some i)
     \<and> affected_block_low i = 11 \<and> affected_block_high i = 12
     \<and> {affected_block_low i, affected_block_high i} \<subseteq>
         changed_blocks (\<lambda>b. Inr (if b = 10 then Some [0] else if b = 11 then Some [7] else None)) (rd_observed example_detector)"
proof -
  have d: "rd_observed example_detector = [(10, [0]), (11, [1]), (12, [2])]"
    by (simp add: example_detector_def record_block_def maybe_evict_def Let_def ReorgDetector_default_def
        CONFIRMATION_DEPTH_FOR_FINALIZATION_def sat_sub_def)
  have run: "detect_reorg (\<lambda>b. Inr (if b = 10 then Some [0] else if b = 11 then Some [7] else None)) example_detector
      = Inr (Some \<lparr> affected_block_low = 11, affected_block_high = 12 \<rparr>)"
    by (simp add: detect_reorg_def d and_then_def extend_window_def)
  from detector_reports_changed_span[OF run] run show ?thesis by auto
qed

end
