(* ===== verification/Device_Registry.thy ===== *)
theory Device_Registry
  imports Key_Lifecycle Totp
begin

text \<open>
  The device registry (\<open>crates/pangolin-store/src/device.rs\<close> beyond the device key, and the device
  methods of \<open>vault.rs\<close>): label validation, the listing, renaming, and the rows that a chain sync
  adds for the signers it meets. Unicode normalization and the decoding of an Ed25519 point are
  parameters. The lemmas show that a discovered signer is registered once under an identifier that
  determines its address, and that a discovery leaves the local device in place exactly when the
  clock has not fallen behind the local registration.
\<close>

section \<open>Labels\<close>

definition DEVICE_LABEL_MAX_CHARS :: nat where "DEVICE_LABEL_MAX_CHARS = 256"

text \<open>Labels are UTF-8: a character starts at every byte that is not a continuation byte.\<close>

definition char_count :: "bytes \<Rightarrow> nat" where
  "char_count s = length (filter (\<lambda>b. \<not> (0x80 \<le> b \<and> b < 0xC0)) s)"

text \<open>
  \<open>char::is_control\<close> is the category Cc: U+0000 to U+001F, U+007F, and U+0080 to U+009F (the bytes C2
  80 to C2 9F); tab, line feed and carriage return are let through.
\<close>

fun has_disallowed_control :: "bytes \<Rightarrow> bool" where
  "has_disallowed_control [] = False"
| "has_disallowed_control (b # bs) =
     ((b < 0x20 \<and> b \<notin> {9, 10, 13}) \<or> b = 0x7F
      \<or> (b = 0xC2 \<and> (case bs of [] \<Rightarrow> False | c # _ \<Rightarrow> 0x80 \<le> c \<and> c \<le> 0x9F))
      \<or> has_disallowed_control bs)"

definition validate_label :: "(bytes \<Rightarrow> bytes) \<Rightarrow> bytes \<Rightarrow> StoreError + bytes" where
  "validate_label nfc input =
     (let trimmed = trim (nfc input)
      in if trimmed = [] then Inl (Validation ''device_label'' ''device label must not be empty'')
         else if DEVICE_LABEL_MAX_CHARS < char_count trimmed
         then Inl (Validation ''device_label'' ''device label exceeds 256 chars'')
         else if has_disallowed_control trimmed
         then Inl (Validation ''device_label'' ''device label contains disallowed control chars'')
         else Inr trimmed)"

section \<open>The listing\<close>

definition DeviceCapabilities_from_repr :: "int \<Rightarrow> DeviceCapabilities" where
  "DeviceCapabilities_from_repr _ = Full"

record DeviceIdentity =
  dv_device_id :: DeviceId
  dv_label :: bytes
  dv_registered_at :: int
  dv_last_sync_at :: "int option"
  dv_capabilities :: DeviceCapabilities
  dv_public_key :: "bytes option"
  dv_evm_address :: "bytes option"
  dv_is_current :: bool

definition fixed_blob :: "nat \<Rightarrow> string \<Rightarrow> bytes option \<Rightarrow> StoreError + bytes option" where
  "fixed_blob n msg blob =
     (case blob of None \<Rightarrow> Inr None
      | Some bs \<Rightarrow> if length bs = n then Inr (Some bs) else Inl (Corrupted msg))"

text \<open>A public key that is not a point of the curve is listed as absent.\<close>

definition into_identity :: "(bytes \<Rightarrow> bool) \<Rightarrow> DeviceId \<Rightarrow> DeviceRow \<Rightarrow> StoreError + DeviceIdentity" where
  "into_identity is_point current row =
     (if length (did_bytes (dr_device_id row)) \<noteq> 32 then Inl (Corrupted ''devices.device_id not 32 bytes'')
      else and_then (fixed_blob 32 ''devices.public_key not 32 bytes'' (dr_public_key row)) (\<lambda>key.
      and_then (fixed_blob EVM_ADDRESS_LEN ''devices.evm_address not 20 bytes'' (dr_evm_address row)) (\<lambda>address.
      Inr \<lparr> dv_device_id = dr_device_id row, dv_label = dr_label row, dv_registered_at = dr_added_at row,
            dv_last_sync_at = dr_last_sync_at row,
            dv_capabilities = DeviceCapabilities_from_repr (dr_capabilities row),
            dv_public_key = (case key of None \<Rightarrow> None | Some k \<Rightarrow> if is_point k then Some k else None),
            dv_evm_address = address, dv_is_current = (dr_device_id row = current) \<rparr>)))"

definition device_order :: "DeviceRow \<Rightarrow> int \<times> bytes" where
  "device_order r = (dr_added_at r, did_bytes (dr_device_id r))"

definition list_devices :: "(bytes \<Rightarrow> bool) \<Rightarrow> DeviceId \<Rightarrow> KeyTables \<Rightarrow> StoreError + DeviceIdentity list" where
  "list_devices is_point current t =
     collect_results (into_identity is_point current) (sort_key device_order (kt_devices t))"

definition read_device :: "(bytes \<Rightarrow> bool) \<Rightarrow> DeviceId \<Rightarrow> DeviceId \<Rightarrow> KeyTables
    \<Rightarrow> StoreError + DeviceIdentity option" where
  "read_device is_point i current t =
     (case find (\<lambda>r. dr_device_id r = i) (kt_devices t) of
        None \<Rightarrow> Inr None
      | Some r \<Rightarrow> map_sum id Some (into_identity is_point current r))"

definition set_device_label :: "DeviceId \<Rightarrow> bytes \<Rightarrow> KeyTables \<Rightarrow> StoreError + KeyTables" where
  "set_device_label i label t =
     (if i \<notin> dr_device_id ` set (kt_devices t) then Inl AccountNotFound
      else Inr (t \<lparr> kt_devices := map (\<lambda>r. if dr_device_id r = i then r \<lparr> dr_label := label \<rparr> else r) (kt_devices t) \<rparr>))"

definition device_current :: "(bytes \<Rightarrow> bool) \<Rightarrow> KeyVault \<Rightarrow> StoreError + DeviceIdentity" where
  "device_current is_point kv =
     and_then (read_device is_point (v_device_id (kv_vault kv)) (v_device_id (kv_vault kv)) (kv_keys kv)) (\<lambda>found.
       ok_or found NotUnlocked)"

definition device_list :: "(bytes \<Rightarrow> bool) \<Rightarrow> KeyVault \<Rightarrow> StoreError + DeviceIdentity list" where
  "device_list is_point kv = list_devices is_point (v_device_id (kv_vault kv)) (kv_keys kv)"

text \<open>Operations of the two halves of an open vault.\<close>

definition kv_op :: "'a vault_op \<Rightarrow> 'a key_op" where
  "kv_op m kv = (case m (kv_vault kv) of (r, v) \<Rightarrow> (r, kv \<lparr> kv_vault := v \<rparr>))"

definition keys_update :: "(KeyTables \<Rightarrow> StoreError + KeyTables) \<Rightarrow> unit key_op" where
  "keys_update f = op_update (\<lambda>kv. and_then (f (kv_keys kv)) (\<lambda>t. Inr (kv \<lparr> kv_keys := t \<rparr>)))"

definition device_set_label :: "(bytes \<Rightarrow> bytes) \<Rightarrow> system_time \<Rightarrow> system_time \<Rightarrow> DeviceId \<Rightarrow> bytes \<Rightarrow> unit key_op" where
  "device_set_label nfc t_check t_touch i label =
     op_seq (kv_op (check_session_freshness t_check))
    (op_seq (kv_op (op_try (\<lambda>v. map_sum id (\<lambda>_. ()) (require_active v))))
    (op_bind (op_try (\<lambda>_. validate_label nfc label)) (\<lambda>canonical.
     op_seq (keys_update (set_device_label i canonical))
       (kv_op (op_modify (touch_session t_touch))))))"

section \<open>Discovery\<close>

definition synthetic_device_id :: "bytes \<Rightarrow> DeviceId" where
  "synthetic_device_id evm_address = DeviceId (replicate 12 0 @ evm_address)"

definition discovered_row :: "bytes \<Rightarrow> int \<Rightarrow> int \<Rightarrow> DeviceRow" where
  "discovered_row evm_address block now_ms =
     \<lparr> dr_device_id = synthetic_device_id evm_address, dr_label = ascii ''discovered-via-chain-sync'',
       dr_added_at = now_ms, dr_capabilities = DeviceCapabilities_to_repr Full, dr_last_sync_at = None,
       dr_public_key = None, dr_schema_version = uint DEVICE_IDENTITY_SCHEMA_VERSION,
       dr_evm_address = Some evm_address, dr_discovered_via_chain_sync = 1,
       dr_discovered_at_block = Some block \<rparr>"

text \<open>\<open>INSERT OR IGNORE\<close> on the primary key \<open>device_id\<close>.\<close>

definition auto_register_device_from_chain_sync :: "bytes \<Rightarrow> u64 \<Rightarrow> int \<Rightarrow> KeyTables
    \<Rightarrow> StoreError + bool \<times> KeyTables" where
  "auto_register_device_from_chain_sync evm_address discovered_at_block now_ms t =
     and_then (ok_or (i64_try_from discovered_at_block)
       (Corrupted ''auto_register_device_from_chain_sync: discovered_at_block overflow'')) (\<lambda>block.
     Inr (if synthetic_device_id evm_address \<in> dr_device_id ` set (kt_devices t) then (False, t)
          else (True, t \<lparr> kt_devices := kt_devices t @ [discovered_row evm_address block now_ms] \<rparr>)))"


section \<open>Labels read back\<close>

lemma validate_label_ok:
  "validate_label nfc s = Inr l \<Longrightarrow> l = trim (nfc s) \<and> l \<noteq> [] \<and> char_count l \<le> DEVICE_LABEL_MAX_CHARS \<and> \<not> has_disallowed_control l"
  by (auto simp: validate_label_def Let_def split: if_splits)

lemma find_map_keep:
  "(\<And>x. P (f x) = P x) \<Longrightarrow> find P (map f xs) = map_option f (find P xs)"
  by (induction xs) auto

lemma into_identity_label:
  "into_identity is_point cur (r \<lparr> dr_label := l \<rparr>) = map_sum id (\<lambda>d. d \<lparr> dv_label := l \<rparr>) (into_identity is_point cur r)"
  by (simp add: into_identity_def and_then_def split: sum.splits)

lemma kv_op_ok: "kv_op m kv = (Inr a, kv') \<Longrightarrow> kv_keys kv' = kv_keys kv \<and> kv_chain kv' = kv_chain kv \<and> m (kv_vault kv) = (Inr a, kv_vault kv')"
  by (auto simp: kv_op_def split: prod.splits)

lemma keys_update_ok: "keys_update f kv = (Inr (), kv') \<longleftrightarrow> (\<exists>t. f (kv_keys kv) = Inr t \<and> kv' = kv \<lparr> kv_keys := t \<rparr>)"
  by (auto simp: keys_update_def op_update_def and_then_def split: sum.splits)

text \<open>
  A device that was renamed reads back with the label in its canonical form (normalized, trimmed,
  not empty, at most 256 characters, no control characters but tab and line ends); every other device
  reads back as before.
\<close>

theorem renamed_device_reads_back:
  assumes "device_set_label nfc t_check t_touch i label kv = (Inr (), kv')"
  shows "read_device is_point j cur (kv_keys kv') =
      map_sum id (map_option (\<lambda>d. if j = i then d \<lparr> dv_label := trim (nfc label) \<rparr> else d)) (read_device is_point j cur (kv_keys kv))
    \<and> trim (nfc label) \<noteq> [] \<and> char_count (trim (nfc label)) \<le> DEVICE_LABEL_MAX_CHARS
    \<and> \<not> has_disallowed_control (trim (nfc label))"
proof -
  let ?set = "\<lambda>r. if dr_device_id r = i then r \<lparr> dr_label := trim (nfc label) \<rparr> else r"
  have v: "validate_label nfc label = Inr (trim (nfc label))"
    and t: "kv_keys kv' = (kv_keys kv) \<lparr> kt_devices := map ?set (kt_devices (kv_keys kv)) \<rparr>"
    using assms
    by (auto simp: device_set_label_def op_seq_Inr op_bind_Inr op_try_Inr keys_update_ok set_device_label_def
        dest!: kv_op_ok validate_label_ok split: if_splits)
  have "find (\<lambda>r. dr_device_id r = j) (map ?set (kt_devices (kv_keys kv))) = map_option ?set (find (\<lambda>r. dr_device_id r = j) (kt_devices (kv_keys kv)))"
    by (rule find_map_keep) simp
  moreover have "dr_device_id r = j" if "find (\<lambda>r. dr_device_id r = j) xs = Some r" for r and xs :: "DeviceRow list"
    using that by (auto simp: find_Some_iff)
  ultimately have "read_device is_point j cur (kv_keys kv') =
      map_sum id (map_option (\<lambda>d. if j = i then d \<lparr> dv_label := trim (nfc label) \<rparr> else d)) (read_device is_point j cur (kv_keys kv))"
    by (auto simp: t read_device_def into_identity_label map_sum.compositionality o_def id_def
        split: option.splits)
  with validate_label_ok[OF v] show ?thesis by blast
qed

section \<open>Discovered signers\<close>

lemma synthetic_inject [simp]: "synthetic_device_id a = synthetic_device_id b \<longleftrightarrow> a = b"
  by (simp add: synthetic_device_id_def)

lemma discovered_row_simps [simp]:
  "dr_device_id (discovered_row a b n) = synthetic_device_id a" "dr_added_at (discovered_row a b n) = n"
  "dr_evm_address (discovered_row a b n) = Some a" "dr_public_key (discovered_row a b n) = None"
  by (simp_all add: discovered_row_def)

lemma auto_register_run:
  assumes "auto_register_device_from_chain_sync a block now t = Inr (fresh, t')"
  shows "fresh \<longleftrightarrow> synthetic_device_id a \<notin> dr_device_id ` set (kt_devices t)"
    "t' = t \<lparr> kt_devices := (if fresh then kt_devices t @ [discovered_row a (uint block) now] else kt_devices t) \<rparr>"
    "uint block \<le> i64_max"
  using assms
  by (auto simp: auto_register_device_from_chain_sync_def and_then_Inr i64_try_from_def split: if_splits)

lemma auto_register_total: "uint block \<le> i64_max \<Longrightarrow> is_ok (auto_register_device_from_chain_sync a block now t)"
  by (simp add: auto_register_device_from_chain_sync_def i64_try_from_def)

section \<open>The local device\<close>

lemma hd_sort_key_min:
  fixes f :: "'a \<Rightarrow> 'b::linorder"
  assumes "sort_key f xs = r # rest"
  shows "r \<in> set xs" "x \<in> set xs \<Longrightarrow> f r \<le> f x"
proof -
  show "r \<in> set xs" by (metis assms list.set_intros(1) set_sort)
  have "sorted (map f (r # rest))" using assms sorted_sort_key[of f xs] by simp
  moreover assume "x \<in> set xs"
  then have "x \<in> set (r # rest)" by (metis assms set_sort)
  ultimately show "f r \<le> f x" by auto
qed

lemma registered_by_order:
  "read_registered_device_id t =
     (case sort_key device_order (kt_devices t) of [] \<Rightarrow> Inr None
      | r # _ \<Rightarrow> if length (did_bytes (dr_device_id r)) = 32 then Inr (Some (dr_device_id r))
                 else Inl (Corrupted ''devices.device_id not 32 bytes''))"
proof -
  have "device_order = (\<lambda>r. (dr_added_at r, did_bytes (dr_device_id r)))" by (rule ext) (simp add: device_order_def)
  then show ?thesis by (simp only: read_registered_device_id_def)
qed

text \<open>A row strictly before every other is the registered one.\<close>

lemma registered_least:
  assumes "r \<in> set (kt_devices t)" "\<And>x. x \<in> set (kt_devices t) \<Longrightarrow> x \<noteq> r \<Longrightarrow> device_order r < device_order x"
    and "length (did_bytes (dr_device_id r)) = 32"
  shows "read_registered_device_id t = Inr (Some (dr_device_id r))"
proof -
  obtain r' rest where s: "sort_key device_order (kt_devices t) = r' # rest"
    using assms(1) by (metis list.exhaust list.set(1) empty_iff set_sort)
  have "r' = r" using hd_sort_key_min[OF s] assms(1,2) by (meson leD)
  then show ?thesis using s assms(3) by (simp add: registered_by_order)
qed

lemma registered_row:
  assumes "read_registered_device_id t = Inr (Some did)"
  obtains r where "r \<in> set (kt_devices t)" "dr_device_id r = did" "length (did_bytes did) = 32"
    "\<And>x. x \<in> set (kt_devices t) \<Longrightarrow> device_order r \<le> device_order x"
proof -
  from assms obtain r rest where "sort_key device_order (kt_devices t) = r # rest" "dr_device_id r = did"
      "length (did_bytes did) = 32"
    by (auto simp: registered_by_order split: list.splits if_splits)
  then show ?thesis using hd_sort_key_min that by metis
qed


text \<open>
  What a discovery does to the registered device: nothing when the local row still sorts before the
  new one, by registration time and then by identifier, and it takes its place otherwise.
\<close>

definition sorts_before_discovery :: "DeviceId \<Rightarrow> bytes \<Rightarrow> int \<Rightarrow> KeyTables \<Rightarrow> bool" where
  "sorts_before_discovery did a now t \<longleftrightarrow> (\<exists>r \<in> set (kt_devices t). dr_device_id r = did
     \<and> (dr_added_at r < now \<or> dr_added_at r = now \<and> did_bytes did < did_bytes (synthetic_device_id a)))"

lemma discovery_registered:
  assumes "read_registered_device_id t = Inr (Some did)" "length a = EVM_ADDRESS_LEN"
    and reg: "auto_register_device_from_chain_sync a block now t = Inr (True, t')"
  shows "sorts_before_discovery did a now t \<Longrightarrow> read_registered_device_id t' = Inr (Some did)"
    and "\<not> sorts_before_discovery did a now t \<Longrightarrow> read_registered_device_id t' = Inr (Some (synthetic_device_id a))"
proof -
  let ?d = "discovered_row a (uint block) now"
  have dev: "kt_devices t' = kt_devices t @ [?d]" using auto_register_run(2)[OF reg] by simp
  have order: "device_order r = (dr_added_at r, did_bytes (dr_device_id r))" "device_order ?d = (now, did_bytes (synthetic_device_id a))" for r
    by (simp_all add: device_order_def discovered_row_def)
  obtain r where r: "r \<in> set (kt_devices t)" "dr_device_id r = did" "length (did_bytes did) = 32"
      "\<And>x. x \<in> set (kt_devices t) \<Longrightarrow> device_order r \<le> device_order x"
    by (rule registered_row[OF assms(1)]) (rule that)
  show "read_registered_device_id t' = Inr (Some did)" if late: "sorts_before_discovery did a now t"
  proof -
    obtain r' rest where s: "sort_key device_order (kt_devices t') = r' # rest"
      using dev by (metis list.exhaust set_sort empty_iff list.set(1) snoc_eq_iff_butlast list.set_sel(1))
    obtain x where x: "x \<in> set (kt_devices t)" "device_order x < device_order ?d"
      using late unfolding sorts_before_discovery_def order by (auto simp: less_prod_def)
    then have "device_order r < device_order ?d" using r(4)[OF x(1)] by order
    with hd_sort_key_min[OF s] r(1) dev have "r' \<in> set (kt_devices t)" "device_order r' \<le> device_order r"
      by (auto simp: leD)
    with r have "dr_device_id r' = did" by (metis antisym device_order_def DeviceId.expand prod.inject)
    with s r(3) show ?thesis by (simp add: registered_by_order)
  qed
  show "read_registered_device_id t' = Inr (Some (synthetic_device_id a))" if early: "\<not> sorts_before_discovery did a now t"
  proof -
    have "synthetic_device_id a \<noteq> did" using auto_register_run(1)[OF reg] r(1,2) by auto
    then have "did_bytes (synthetic_device_id a) \<noteq> did_bytes did" by (metis DeviceId.expand)
    then have "device_order ?d < device_order r"
      using early r(1,2) unfolding sorts_before_discovery_def order by (force simp: less_prod_def)
    then have "device_order ?d < device_order x" if "x \<in> set (kt_devices t)" for x using r(4)[OF that] by order
    moreover have "length (did_bytes (synthetic_device_id a)) = 32"
      using assms(2) by (simp add: synthetic_device_id_def EVM_ADDRESS_LEN_def)
    ultimately show ?thesis using registered_least[of ?d t'] dev by auto
  qed
qed

lemma find_append_left: "find P xs = Some r \<Longrightarrow> find P (xs @ ys) = Some r"
  by (induction xs) (auto split: if_splits)

text \<open>
  C24. The devices table lists the local device together with the signers that chain syncs discover,
  and the local device is the row with the least registration time, the least identifier among equal
  times. A new discovery leaves the device key of the session in force exactly when the local
  registration is before the clock of the discovery, or at the same millisecond with an identifier
  before the one made up for the signer. Otherwise (a clock that was set back, one that failed and reads
  the epoch, or the same millisecond, since the made-up identifier starts with twelve zero bytes) the
  signer takes the local device's place: no password unlocks the vault any more, because unlocking
  looks for the device key of the discovered signer.
\<close>

theorem discovery_and_the_local_device:
  assumes "device_held ke did key (kv_keys kv)" "length a = EVM_ADDRESS_LEN"
    and "auto_register_device_from_chain_sync a block now (kv_keys kv) = Inr (True, t')"
    and "\<And>row vdk seed. kt_device_key (kv_keys kv) = Some row \<Longrightarrow>
       aead_key_open (ke_crypto ke) vdk (dk_enc_nonce row) (dk_enc_seed row)
         (device_key_aad (vm_vault_id (kt_meta (kv_keys kv))) (synthetic_device_id a)) = Inr seed \<Longrightarrow>
       device_id_from_key (ke_crypto ke) seed \<noteq> synthetic_device_id a"
  shows "if sorts_before_discovery did a now (kv_keys kv) then device_held ke did key t'
    else read_registered_device_id t' = Inr (Some (synthetic_device_id a))
      \<and> (\<forall>rng now_ms password. \<not> is_ok (unlock_material ke rng now_ms password (kv \<lparr> kv_keys := t' \<rparr>)))"
proof -
  let ?t = "kv_keys kv"
  have t': "t' = ?t \<lparr> kt_devices := kt_devices ?t @ [discovered_row a (uint block) now] \<rparr>"
    using auto_register_run(2)[OF assms(3)] by simp
  have held: "read_registered_device_id ?t = Inr (Some did)" using assms(1) by (simp add: device_held_def)
  have "device_held ke did key t'" if "sorts_before_discovery did a now ?t"
    using discovery_registered(1)[OF held assms(2,3) that] assms(1) unfolding device_held_def
    by (auto simp: t' find_append_left)
  moreover have "\<not> is_ok (unlock_material ke rng now_ms password (kv \<lparr> kv_keys := t' \<rparr>))"
    if early: "\<not> sorts_before_discovery did a now ?t" for rng now_ms password
  proof
    note taken = discovery_registered(2)[OF held assms(2,3) early]
    assume "is_ok (unlock_material ke rng now_ms password (kv \<lparr> kv_keys := t' \<rparr>))"
    then obtain vdk did' key' t'' where un: "unlock_device_key ke rng now_ms vdk t' = Inr ((did', key'), t'')"
      by (auto simp: unlock_material_def Let_def and_then_Inr elim!: is_ok_E)
    then have "device_id_from_key (ke_crypto ke) key' = synthetic_device_id a" using taken
      by (auto simp: unlock_device_key_def Let_def load_device_key_with_id_def and_then_Inr split: option.splits if_splits)
    with un assms(4) taken show False
      by (auto simp: t' unlock_device_key_def Let_def load_device_key_with_id_def and_then_Inr auth_err_def
          split: option.splits if_splits)
  qed
  ultimately show ?thesis using discovery_registered(2)[OF held assms(2,3)] by simp
qed


lemma first_unlock_registers:
  assumes "kt_devices t = []" "unlock_device_key ke rng now_ms vdk t = Inr ((did, key), t')"
  shows "\<exists>ct. aead_key_seal (ke_crypto ke) vdk (ur_nonce rng) key (device_key_aad (vm_vault_id (kt_meta t)) did) = Inr ct
    \<and> did = device_id_from_key (ke_crypto ke) key \<and> key = ur_device_key rng
    \<and> kt_device_key t' = Some (device_key_row ct (ur_nonce rng))
    \<and> map (\<lambda>r. (dr_device_id r, dr_added_at r)) (kt_devices t') = [(did, now_ms)]"
  using assms(2)
  by (auto simp: unlock_device_key_def Let_def read_registered_device_id_def assms(1) register_device_def and_then_Inr
      auth_err_def)

lemma synthetic_hd [simp]: "hd (did_bytes (synthetic_device_id a)) = 0"
  by (simp add: synthetic_device_id_def)

lemma opened_device:
  obtains row where "kt_device_key (kv_keys opened) = Some row"
    "device_held example_ke (DeviceId (replicate 32 8)) (replicate 32 8) (kv_keys opened)"
    "map (\<lambda>r. (dr_device_id r, dr_added_at r)) (kt_devices (kv_keys opened)) = [(DeviceId (replicate 32 8), 1500)]"
    "\<And>vdk aad seed. aead_key_open keyed_crypto vdk (dk_enc_nonce row) (dk_enc_seed row) aad = Inr seed \<Longrightarrow> seed = replicate 32 8"
proof (rule opened_ok, rule created_ok)
  fix m chain t authority mt
  assume un: "unlock_material example_ke example_unlock_rng 1500 [1] created = Inr (m, chain, t)" and t: "kv_keys opened = t"
    and cr: "kv_keys created = set_revisionlog_version V1 (empty_tables mt)"
  have none: "kt_devices (kv_keys created) = []" by (simp add: cr set_revisionlog_version_def empty_tables_def)
  from un have "unlock_device_key example_ke example_unlock_rng 1500 (um_vdk m) (kv_keys created) = Inr ((um_device_id m, um_device_key m), t)"
    by (rule unlock_material_ok)
  note dk = this unlock_device_key_held(1)[OF example_ke_ok(1,4) this]
  have rng: "ur_device_key example_unlock_rng = replicate 32 8" "ur_nonce example_unlock_rng = replicate 24 9"
    "device_id_from_key keyed_crypto (replicate 32 8) = DeviceId (replicate 32 8)"
    by (simp_all add: example_unlock_rng_def device_id_from_key_def keyed_crypto_def)
  have c: "ke_crypto example_ke = keyed_crypto" by (simp add: example_ke_def)
  from first_unlock_registers[OF none dk(1)] obtain ct where ct: "aead_key_seal keyed_crypto (um_vdk m) (replicate 24 9) (replicate 32 8)
        (device_key_aad (vm_vault_id (kt_meta (kv_keys created))) (DeviceId (replicate 32 8))) = Inr ct"
      "um_device_id m = DeviceId (replicate 32 8)" "um_device_key m = replicate 32 8"
      "kt_device_key t = Some (device_key_row ct (replicate 24 9))"
      "map (\<lambda>r. (dr_device_id r, dr_added_at r)) (kt_devices t) = [(DeviceId (replicate 32 8), 1500)]"
    unfolding rng c by (metis rng(3))
  show ?thesis
  proof (rule that)
    show "kt_device_key (kv_keys opened) = Some (device_key_row ct (replicate 24 9))" by (simp add: t ct(4))
    show "device_held example_ke (DeviceId (replicate 32 8)) (replicate 32 8) (kv_keys opened)" using dk(2) by (simp add: t ct(2,3))
    show "map (\<lambda>r. (dr_device_id r, dr_added_at r)) (kt_devices (kv_keys opened)) = [(DeviceId (replicate 32 8), 1500)]" by (simp add: t ct(5))
    show "seed = replicate 32 8"
      if "aead_key_open keyed_crypto vdk (dk_enc_nonce (device_key_row ct (replicate 24 9))) (dk_enc_seed (device_key_row ct (replicate 24 9))) aad = Inr seed"
      for vdk aad seed
      using that ct(1) by (auto simp: aead_key_open_def aead_key_seal_def keyed_crypto_def device_key_row_def Let_def split: if_splits option.splits)
  qed
qed

theorem discovery_and_the_local_device_witness:
  "\<exists>t' t''. auto_register_device_from_chain_sync (replicate 20 4) 7 1500 (kv_keys opened) = Inr (True, t')
     \<and> \<not> is_ok (unlock_material example_ke example_unlock_rng 3000 [1] (opened \<lparr> kv_keys := t' \<rparr>))
     \<and> auto_register_device_from_chain_sync (replicate 20 4) 7 2000 (kv_keys opened) = Inr (True, t'')
     \<and> device_held example_ke (DeviceId (replicate 32 8)) (replicate 32 8) t''"
proof (rule opened_device)
  fix row
  assume row: "kt_device_key (kv_keys opened) = Some row"
    and held: "device_held example_ke (DeviceId (replicate 32 8)) (replicate 32 8) (kv_keys opened)"
    and dev: "map (\<lambda>r. (dr_device_id r, dr_added_at r)) (kt_devices (kv_keys opened)) = [(DeviceId (replicate 32 8), 1500)]"
    and seed: "\<And>vdk aad seed. aead_key_open keyed_crypto vdk (dk_enc_nonce row) (dk_enc_seed row) aad = Inr seed \<Longrightarrow> seed = replicate 32 8"
  have fresh: "synthetic_device_id (replicate 20 4) \<notin> dr_device_id ` set (kt_devices (kv_keys opened))"
    using dev by (auto dest: arg_cong[of _ _ "\<lambda>d. hd (did_bytes d)"])
  then obtain t' t'' where t: "auto_register_device_from_chain_sync (replicate 20 4) 7 1500 (kv_keys opened) = Inr (True, t')"
      "auto_register_device_from_chain_sync (replicate 20 4) 7 2000 (kv_keys opened) = Inr (True, t'')"
    by (simp add: auto_register_device_from_chain_sync_def i64_try_from_def)
  have other: "device_id_from_key (ke_crypto example_ke) (replicate 32 8) \<noteq> synthetic_device_id (replicate 20 4)"
    by (auto simp: device_id_from_key_def example_ke_def keyed_crypto_def dest: arg_cong[of _ _ "\<lambda>d. hd (did_bytes d)"])
  have before: "sorts_before_discovery (DeviceId (replicate 32 8)) (replicate 20 4) 2000 (kv_keys opened)"
    using dev by (auto simp: sorts_before_discovery_def)
  have "\<not> replicate 32 8 < did_bytes (synthetic_device_id (replicate 20 4))" by code_simp
  then have same: "\<not> sorts_before_discovery (DeviceId (replicate 32 8)) (replicate 20 4) 1500 (kv_keys opened)"
    using dev by (auto simp: sorts_before_discovery_def)
  have hyp: "device_id_from_key (ke_crypto example_ke) seed \<noteq> synthetic_device_id (replicate 20 4)"
    if "kt_device_key (kv_keys opened) = Some row'" "aead_key_open (ke_crypto example_ke) vdk (dk_enc_nonce row') (dk_enc_seed row') aad = Inr seed"
    for row' vdk aad seed
    using that row seed other by (auto simp: example_ke_def)
  from discovery_and_the_local_device[OF held _ t(1) hyp] discovery_and_the_local_device[OF held _ t(2) hyp] before same t show ?thesis
    by (auto simp: EVM_ADDRESS_LEN_def)
qed

end
