(* ===== verification/Sync_Safety.thy ===== *)
theory Sync_Safety
  imports Chain_Sync
begin

text \<open>
  What a sync does to the stored revisions. The first section gives the rows after each step of
  the drivers of theory \<open>Chain_Sync\<close>; the predicates of the tables are then instances of the contract
  \<open>sync_stages\<close>.
\<close>

section \<open>The rows after an ingestion\<close>

text \<open>
  A successful ingestion marks rows as pending, stamps the anchor on the unpublished row it recognizes
  and adds at most one row. Whatever is new or stamped belongs to the event's account and anchor.
\<close>

definition mark_pending :: "bytes \<Rightarrow> int \<Rightarrow> int \<Rightarrow> int \<Rightarrow> bytes \<Rightarrow> RevisionRow \<Rightarrow> RevisionRow" where
  "mark_pending tx b l blk h r =
     (if anchor_matches tx b l r
      then r\<lparr>rv_revision_status := Pending, rv_observed_at_block := Some blk, rv_observed_block_hash := Some h\<rparr> else r)"

lemma mark_pending_simps [simp]:
  "rv_revision_id (mark_pending tx b l blk h r) = rv_revision_id r"
  "rv_account_id (mark_pending tx b l blk h r) = rv_account_id r"
  "rv_chain_tx_hash (mark_pending tx b l blk h r) = rv_chain_tx_hash r"
  "rv_revoked (mark_pending tx b l blk h r) = rv_revoked r"
  "rv_recovered_signer (mark_pending tx b l blk h r) = rv_recovered_signer r"
  "anchor_matches tx' b' l' (mark_pending tx b l blk h r) = anchor_matches tx' b' l' r"
  by (simp_all add: mark_pending_def anchor_matches_def)

definition ingested_rows :: "VaultEnv \<Rightarrow> RevisionEvent \<Rightarrow> int \<Rightarrow> int \<Rightarrow> (RevisionRow \<Rightarrow> RevisionRow) \<Rightarrow> RevisionRow list
    \<Rightarrow> RevisionRow list \<Rightarrow> bool" where
  "ingested_rows env ev b l mark rs rs' \<longleftrightarrow>
     (\<exists>s extra. rs' = map mark (map s rs @ extra)
        \<and> (\<forall>r \<in> set rs. s r = r \<or> content_matches ev r \<and> s r = stamp_anchor (tx_hash (ev_anchor ev)) b l r)
        \<and> (\<forall>r \<in> set extra. rv_account_id r = AccountId (ev_account_id ev)
             \<and> anchor_matches (tx_hash (ev_anchor ev)) b l r)
        \<and> distinct (map rv_revision_id (rs @ extra)))
     \<and> (event_revision_id env ev \<in> rv_revision_id ` set rs
        \<or> (\<exists>r \<in> set rs'. rv_account_id r = AccountId (ev_account_id ev)
             \<and> anchor_matches (tx_hash (ev_anchor ev)) b l r))"

lemma ingest_pending_rows:
  assumes run: "ingest_pending_chain_revision env am ev blk h v = (Inr outcome, v')"
    and dist: "distinct (map rv_revision_id (v_revisions v))"
  obtains b l k where "i64_try_from (block_number (ev_anchor ev)) = Some b" "i64_try_from (log_index (ev_anchor ev)) = Some l"
    "i64_try_from blk = Some k"
    "ingested_rows env ev b l (mark_pending (tx_hash (ev_anchor ev)) b l k h) (v_revisions v) (v_revisions v')"
proof -
  let ?tx = "tx_hash (ev_anchor ev)" and ?rs = "v_revisions v"
  obtain v1 k b l where ing: "ingest_chain_revision env am ev v = (Inr outcome, v1)"
    and conv: "i64_try_from blk = Some k" "i64_try_from (block_number (ev_anchor ev)) = Some b"
      "i64_try_from (log_index (ev_anchor ev)) = Some l"
    and v': "v_revisions v' = map (mark_pending ?tx b l k h) (v_revisions v1)"
    using run by (auto simp: ingest_pending_chain_revision_def op_bind_Inr op_seq_Inr op_try_Inr update_revisions_def
        mark_pending_def[abs_def])
  from ing have "\<exists>s extra. v_revisions v1 = map s ?rs @ extra
      \<and> (\<forall>r \<in> set ?rs. s r = r \<or> content_matches ev r \<and> s r = stamp_anchor ?tx b l r)
      \<and> (\<forall>r \<in> set extra. rv_account_id r = AccountId (ev_account_id ev) \<and> anchor_matches ?tx b l r)
      \<and> distinct (map rv_revision_id (?rs @ extra))
      \<and> (event_revision_id env ev \<in> rv_revision_id ` set ?rs
         \<or> (\<exists>r \<in> set (v_revisions v1). rv_account_id r = AccountId (ev_account_id ev) \<and> anchor_matches ?tx b l r))"
  proof (cases rule: ingest_ok)
    case known
    with dist show ?thesis by (intro exI[of _ id] exI[of _ "[]"]) simp
  next
    case (anchored b' l')
    with conv dist show ?thesis by (intro exI[of _ id] exI[of _ "[]"]) simp
  next
    case (merged b' l' row)
    let ?s = "\<lambda>r. if rv_revision_id r = rv_revision_id row then stamp_anchor ?tx b l r else r"
    have row: "row \<in> set ?rs" "content_matches ev row" using merged(4) by (auto simp: find_Some_iff in_set_conv_nth)
    have "r = row" if "r \<in> set ?rs" "rv_revision_id r = rv_revision_id row" for r
      using that row(1) dist by (meson distinct_map inj_on_def)
    then have "\<forall>r \<in> set ?rs. ?s r = r \<or> content_matches ev r \<and> ?s r = stamp_anchor ?tx b l r" using row(2) by auto
    moreover have "v_revisions v1 = map ?s ?rs" using merged conv by (simp add: update_revisions_def)
    moreover have "rv_account_id (?s row) = AccountId (ev_account_id ev) \<and> anchor_matches ?tx b l (?s row)"
      using row(2) by (simp add: content_matches_def stamp_anchor_def anchor_matches_def)
    ultimately show ?thesis using dist row(1) by (intro exI[of _ ?s] exI[of _ "[]"]) auto
  next
    case (inserted b' l' v0 v2)
    have eq: "b' = b" "l' = l" using inserted(2,3) conv by simp_all
    define row where "row = foreign_revision env ev (am_now_ms am)
      (detect_tombstone_bit_at_ingest env ev (replicate NONCE_LEN 0) v0) b l"
    have "v_revisions v0 = ?rs" using inserted(4) by simp
    then have row: "v_revisions v2 = ?rs @ [row]" "rv_revision_id row \<notin> rv_revision_id ` set ?rs"
      using ingest_commit_ok(1,2)[OF inserted(5)] unfolding eq by (simp_all add: row_def foreign_revision_def)
    have "rv_account_id row = AccountId (ev_account_id ev)" "anchor_matches ?tx b l row"
      by (simp_all add: row_def foreign_revision_def anchor_matches_def)
    with row inserted(6) dist show ?thesis by (intro exI[of _ id] exI[of _ "[row]"]) auto
  qed
  then obtain s extra where rows: "v_revisions v1 = map s ?rs @ extra"
      "\<forall>r \<in> set ?rs. s r = r \<or> content_matches ev r \<and> s r = stamp_anchor ?tx b l r"
      "\<forall>r \<in> set extra. rv_account_id r = AccountId (ev_account_id ev) \<and> anchor_matches ?tx b l r"
      "distinct (map rv_revision_id (?rs @ extra))"
    and present: "event_revision_id env ev \<in> rv_revision_id ` set ?rs
         \<or> (\<exists>r \<in> set (v_revisions v1). rv_account_id r = AccountId (ev_account_id ev) \<and> anchor_matches ?tx b l r)"
    by blast
  have "\<exists>r \<in> set (v_revisions v'). rv_account_id r = AccountId (ev_account_id ev) \<and> anchor_matches ?tx b l r"
    if "r \<in> set (v_revisions v1)" "rv_account_id r = AccountId (ev_account_id ev)" "anchor_matches ?tx b l r" for r
    using that unfolding v' by (intro bexI[of _ "mark_pending ?tx b l k h r"]) simp_all
  with present rows have "ingested_rows env ev b l (mark_pending ?tx b l k h) ?rs (v_revisions v')"
    unfolding ingested_rows_def
    by (intro conjI exI[of _ s] exI[of _ extra]) (simp_all only: v' rows(1), blast)
  with conv that show ?thesis by blast
qed


section \<open>Revision identifiers stay distinct\<close>

definition ids_distinct :: "Vault \<Rightarrow> bool" where
  "ids_distinct v \<longleftrightarrow> distinct (map rv_revision_id (v_revisions v))"

definition signers_current :: "bytes list \<Rightarrow> Vault \<Rightarrow> bool" where
  "signers_current devices v \<longleftrightarrow> ids_distinct v
     \<and> (\<forall>r \<in> set (v_revisions v). rv_chain_tx_hash r \<noteq> None \<longrightarrow> rv_revoked r = 0 \<longrightarrow>
          (\<exists>s. rv_recovered_signer r = Some s \<and> s \<in> set devices))"

lemma ingested_ids:
  assumes "ingested_rows env ev b l mark rs rs'" "\<And>r. rv_revision_id (mark r) = rv_revision_id r"
  shows "distinct (map rv_revision_id rs')" "rv_revision_id ` set rs \<subseteq> rv_revision_id ` set rs'"
proof -
  obtain s extra where rs': "rs' = map mark (map s rs @ extra)" and d: "distinct (map rv_revision_id (rs @ extra))"
    and s: "\<forall>r \<in> set rs. s r = r \<or> content_matches ev r \<and> s r = stamp_anchor (tx_hash (ev_anchor ev)) b l r"
    using assms(1) unfolding ingested_rows_def by blast
  have "map rv_revision_id (map s rs) = map rv_revision_id rs" using s by (auto simp: stamp_anchor_def)
  then have "map rv_revision_id rs' = map rv_revision_id (rs @ extra)" by (simp add: rs' assms(2) comp_def)
  with d show "distinct (map rv_revision_id rs')" "rv_revision_id ` set rs \<subseteq> rv_revision_id ` set rs'"
    by (simp_all) (metis Un_upper1 image_Un list.set_map set_append)
qed

lemma ingested_origin:
  assumes "ingested_rows env ev b l mark rs rs'" "r \<in> set rs'"
    and keep: "\<And>r. rv_account_id (mark r) = rv_account_id r"
      "\<And>r. anchor_matches (tx_hash (ev_anchor ev)) b l (mark r) = anchor_matches (tx_hash (ev_anchor ev)) b l r"
  shows "(rv_account_id r = AccountId (ev_account_id ev) \<and> anchor_matches (tx_hash (ev_anchor ev)) b l r)
    \<or> (\<exists>r0 \<in> set rs. r = mark r0)"
proof -
  obtain s extra where rs': "rs' = map mark (map s rs @ extra)"
    and s: "\<forall>r \<in> set rs. s r = r \<or> content_matches ev r \<and> s r = stamp_anchor (tx_hash (ev_anchor ev)) b l r"
    and ex: "\<forall>r \<in> set extra. rv_account_id r = AccountId (ev_account_id ev) \<and> anchor_matches (tx_hash (ev_anchor ev)) b l r"
    using assms(1) unfolding ingested_rows_def by blast
  from assms(2) consider (old) q where "q \<in> set rs" "r = mark (s q)" | (new) q where "q \<in> set extra" "r = mark q"
    unfolding rs' by auto
  then show ?thesis
  proof cases
    case old
    with s consider "s q = q" | "content_matches ev q" "s q = stamp_anchor (tx_hash (ev_anchor ev)) b l q" by blast
    then show ?thesis
    proof cases
      case 1
      with old show ?thesis by auto
    next
      case 2
      then show ?thesis unfolding old(2) keep by (simp add: content_matches_def stamp_anchor_def anchor_matches_def)
    qed
  next
    case new
    then show ?thesis using ex unfolding new(2) keep by blast
  qed
qed

lemma ingest_pending_distinct [ok_intros]:
  "ok_keeps ids_distinct (ingest_pending_chain_revision env am ev blk h)"
proof (rule ok_keepsI)
  fix v out v'
  assume "ids_distinct v" and run: "ingest_pending_chain_revision env am ev blk h v = (Inr out, v')"
  then show "ids_distinct v'"
    by (elim ingest_pending_rows) (auto simp: ids_distinct_def dest: ingested_ids(1))
qed

lemma update_synced_rows: "update_synced rd store ms n v = (r, v') \<Longrightarrow> (\<And>c w. v_revisions (store c w) = v_revisions w) \<Longrightarrow> v_revisions v' = v_revisions v"
  by (auto simp: update_synced_def Let_def op_bind_def op_try_def split: sum.splits if_splits option.splits prod.splits)

lemma advance_rows:
  "update_last_synced_block_v1 ms n v = (r, v') \<Longrightarrow> v_revisions v' = v_revisions v"
  "update_last_synced_block_v2 ms n v = (r, v') \<Longrightarrow> v_revisions v' = v_revisions v"
  unfolding update_last_synced_block_v1_def update_last_synced_block_v2_def
  by (auto dest: update_synced_rows)

lemma rollback_rows:
  "rollback_pending_revisions_in_range lo hi v = (Inr n, v') \<Longrightarrow>
     v_revisions v' = filter (\<lambda>r. \<not> rollback_selects (uint lo) (uint hi) r) (v_revisions v)
     \<and> n = count_u32 (length (filter (rollback_selects (uint lo) (uint hi)) (v_revisions v)))
     \<and> uint lo \<le> i64_max \<and> uint hi \<le> i64_max"
  by (auto simp: rollback_pending_revisions_in_range_def op_bind_Inr op_seq_Inr op_try_Inr i64_try_from_Some)

definition finalize :: "u64 \<Rightarrow> RevisionRow \<Rightarrow> RevisionRow" where
  "finalize h r = (if promote_selects (uint (sat_sub h CONFIRMATION_DEPTH_FOR_FINALIZATION)) r
     then r\<lparr>rv_revision_status := Finalized\<rparr> else r)"

lemma promote_rows:
  "promote_finalized_revisions h v = (Inr n, v') \<Longrightarrow> v_revisions v' = map (finalize h) (v_revisions v)"
  by (auto simp: promote_finalized_revisions_def op_bind_Inr op_seq_Inr op_try_Inr i64_try_from_Some update_revisions_def
      finalize_def[abs_def])

lemma finalize_simps [simp]:
  "rv_revision_id (finalize h r) = rv_revision_id r" "rv_chain_tx_hash (finalize h r) = rv_chain_tx_hash r"
  "rv_revoked (finalize h r) = rv_revoked r" "rv_recovered_signer (finalize h r) = rv_recovered_signer r"
  "rv_account_id (finalize h r) = rv_account_id r" "anchor_matches tx b l (finalize h r) = anchor_matches tx b l r"
  by (simp_all add: finalize_def anchor_matches_def)

definition stamp_signer :: "RevisionEvent \<Rightarrow> bytes \<Rightarrow> RevisionRow \<Rightarrow> RevisionRow" where
  "stamp_signer ev signer r =
     (if rv_account_id r = AccountId (ev_account_id ev)
         \<and> anchor_matches (tx_hash (ev_anchor ev)) (uint (block_number (ev_anchor ev))) (uint (log_index (ev_anchor ev))) r
      then r\<lparr>rv_recovered_signer := Some signer\<rparr> else r)"

lemma stamp_rows:
  "stamp_recovered_signer ev signer v = (Inr u, v') \<Longrightarrow> v_revisions v' = map (stamp_signer ev signer) (v_revisions v)"
  by (auto simp: stamp_recovered_signer_def op_bind_Inr op_try_Inr i64_try_from_Some update_revisions_def stamp_signer_def[abs_def])

lemma stamp_signer_simps [simp]:
  "rv_revision_id (stamp_signer ev s r) = rv_revision_id r" "rv_chain_tx_hash (stamp_signer ev s r) = rv_chain_tx_hash r"
  "rv_revoked (stamp_signer ev s r) = rv_revoked r"
  by (simp_all add: stamp_signer_def)

lemma distinct_ids_kept:
  "(\<And>r. rv_revision_id (f r) = rv_revision_id r) \<Longrightarrow> v_revisions v' = map f (v_revisions v) \<Longrightarrow> ids_distinct v' = ids_distinct v"
  by (simp add: ids_distinct_def comp_def)

lemma distinct_primitives [ok_intros]:
  "ok_keeps ids_distinct (rollback_pending_revisions_in_range lo hi)"
  "ok_keeps ids_distinct (promote_finalized_revisions h)"
  "ok_keeps ids_distinct (stamp_recovered_signer ev signer)"
  "ok_keeps ids_distinct (update_last_synced_block_v1 ms n)"
  "ok_keeps ids_distinct (update_last_synced_block_v2 ms n)"
  unfolding ok_keeps_def
  by (auto simp: ids_distinct_def distinct_map_filter comp_def dest!: rollback_rows promote_rows stamp_rows advance_rows)

interpretation ids_v1: sync_stages ids_distinct "v1_path se wo vault_id" for se wo vault_id
  by unfold_locales (auto simp: v1_path_def ingest_event_v1_def intro!: ok_intros)

interpretation ids_v2: sync_stages ids_distinct "v2_path se wo vault_id devices" for se wo vault_id devices
  by unfold_locales (auto simp: v2_path_def ingest_event_v2_def intro!: ok_intros)


section \<open>Revocation\<close>

definition revoke :: "bytes list \<Rightarrow> RevisionRow \<Rightarrow> RevisionRow" where
  "revoke devices r = r\<lparr>rv_revoked := want_revoked devices r\<rparr>"

lemma reevaluate_rows_map:
  assumes "reevaluate_rows devices rows n v = (Inr m, v')" "distinct (map rv_revision_id rows)"
    and "\<And>row r. row \<in> set rows \<Longrightarrow> r \<in> set (v_revisions v) \<Longrightarrow> rv_revision_id r = rv_revision_id row \<Longrightarrow> r = row"
  shows "v_revisions v' = map (\<lambda>r. if r \<in> set rows then revoke devices r else r) (v_revisions v)"
  using assms
proof (induction rows arbitrary: n v)
  case (Cons row rows)
  let ?upd = "\<lambda>r. if rv_revision_id r = rv_revision_id row then r\<lparr>rv_revoked := want_revoked devices row\<rparr> else r"
  define w where "w = (if want_revoked devices row \<noteq> rv_revoked row then v\<lparr>v_revisions := map ?upd (v_revisions v)\<rparr> else v)"
  obtain n' where rest: "reevaluate_rows devices rows n' w = (Inr m, v')"
    using Cons(2) unfolding w_def by (auto simp: op_seq_Inr update_revisions_def split: if_splits)
  have w: "v_revisions w = map (\<lambda>r. if r = row then revoke devices r else r) (v_revisions v)"
    using Cons(4)[of row] by (auto simp: w_def revoke_def map_idI)
  have ne: "rv_revision_id row \<notin> rv_revision_id ` set rows" and d: "distinct (map rv_revision_id rows)" using Cons(3) by auto
  have "r = row'" if "row' \<in> set rows" "r \<in> set (v_revisions w)" "rv_revision_id r = rv_revision_id row'" for row' r
    using that ne Cons(4)[of row' r] unfolding w by (auto simp: revoke_def split: if_splits)
  from Cons(1)[OF rest d this] have v': "v_revisions v' = map (\<lambda>r. if r \<in> set rows then revoke devices r else r) (v_revisions w)" .
  have "rv_revision_id (revoke devices row) = rv_revision_id row" by (simp add: revoke_def)
  then have "revoke devices row \<notin> set rows" using ne by (metis imageI)
  then show ?case using ne unfolding v' w by auto
qed simp

lemma reevaluate_map:
  assumes "reevaluate_revocation_against_set devices v = (Inr n, v')" "ids_distinct v"
  shows "v_revisions v' = map (\<lambda>r. if rv_chain_tx_hash r \<noteq> None then revoke devices r else r) (v_revisions v)"
proof -
  let ?rows = "filter (\<lambda>r. rv_chain_tx_hash r \<noteq> None) (v_revisions v)"
  have run: "reevaluate_rows devices ?rows 0 v = (Inr n, v')"
    using assms(1) by (simp add: reevaluate_revocation_against_set_def op_bind_Inr)
  have "v_revisions v' = map (\<lambda>r. if r \<in> set ?rows then revoke devices r else r) (v_revisions v)"
  proof (rule reevaluate_rows_map[OF run])
    show "distinct (map rv_revision_id ?rows)" using assms(2) by (simp add: ids_distinct_def distinct_map_filter)
    show "r = row" if "row \<in> set ?rows" "r \<in> set (v_revisions v)" "rv_revision_id r = rv_revision_id row" for row r
      using that assms(2) by (auto simp: ids_distinct_def distinct_map inj_on_def)
  qed
  then show ?thesis by simp
qed

lemma ingest_v2_signers: "ok_keeps (on_rows (signers_current devices)) (ingest_event_v2 env devices clk ev)"
proof (rule ok_keepsI)
  fix s a s'
  assume J: "on_rows (signers_current devices) s" and run: "ingest_event_v2 env devices clk ev s = (Inr a, s')"
  show "on_rows (signers_current devices) s'"
  proof (cases "ve_signer ev \<in> set devices")
    case False
    with run J show ?thesis by (auto simp: ingest_event_v2_def is_signer_honored_def op_seq_Inr report_def on_rows_def)
  next
    case True
    with run obtain s1 s2 s3 out u where reg: "register_event (fst clk) ev s = (Inr u, s1)"
      and ing: "on_tables (ingest_pending_chain_revision env (snd clk) (ve_event ev) (event_block ev) (ve_block_hash ev)) s1 = (Inr out, s2)"
      and st: "on_tables (stamp_recovered_signer (ve_event ev) (ve_signer ev)) s2 = (Inr (), s3)"
      and ob: "observe_event ev s3 = (Inr (), s')"
      by (auto simp: ingest_event_v2_def is_signer_honored_def op_seq_Inr)
    let ?r1 = "v_revisions (kv_vault (fst s1))" and ?r2 = "v_revisions (kv_vault (fst s2))" and ?e = "ve_event ev"
    have J1: "signers_current devices (kv_vault (fst s1))" using ok_keepsD[OF ok_register_event J reg] by (simp add: on_rows_def)
    obtain b l k where conv: "i64_try_from (block_number (ev_anchor ?e)) = Some b" "i64_try_from (log_index (ev_anchor ?e)) = Some l"
      and rows: "ingested_rows env ?e b l (mark_pending (tx_hash (ev_anchor ?e)) b l k (ve_block_hash ev)) ?r1 ?r2"
      using ing J1 by (auto simp: on_tables_run signers_current_def ids_distinct_def elim: ingest_pending_rows)
    have r3: "v_revisions (kv_vault (fst s3)) = map (stamp_signer ?e (ve_signer ev)) ?r2"
      using st by (auto simp: on_tables_run dest: stamp_rows)
    have old: "\<exists>s. rv_recovered_signer (stamp_signer ?e (ve_signer ev) r) = Some s \<and> s \<in> set devices"
      if r: "r \<in> set ?r2" "rv_chain_tx_hash r \<noteq> None" "rv_revoked r = 0" for r
    proof (cases "rv_account_id r = AccountId (ev_account_id ?e) \<and> anchor_matches (tx_hash (ev_anchor ?e)) b l r")
      case True
      with conv \<open>ve_signer ev \<in> set devices\<close> show ?thesis by (simp add: stamp_signer_def i64_try_from_Some)
    next
      case False
      with rows r(1) obtain r0 where r0: "r0 \<in> set ?r1" "r = mark_pending (tx_hash (ev_anchor ?e)) b l k (ve_block_hash ev) r0"
        using ingested_origin[OF rows r(1) mark_pending_simps(2,6)] by auto
      with r(2,3) J1 obtain s where "rv_recovered_signer r = Some s" "s \<in> set devices" by (auto simp: signers_current_def)
      with \<open>ve_signer ev \<in> set devices\<close> show ?thesis by (simp add: stamp_signer_def)
    qed
    have "ids_distinct (kv_vault (fst s3))"
      using ingested_ids(1)[OF rows] by (simp add: ids_distinct_def r3 comp_def)
    with old r3 have "signers_current devices (kv_vault (fst s3))" by (auto simp: signers_current_def)
    then show ?thesis using ok_keepsD[OF ok_observe_event _ ob] by (simp add: on_rows_def)
  qed
qed


lemma signers_keep:
  assumes "ok_keeps ids_distinct m"
    and "\<And>v a v' r'. m v = (Inr a, v') \<Longrightarrow> r' \<in> set (v_revisions v') \<Longrightarrow> \<exists>r \<in> set (v_revisions v).
       rv_chain_tx_hash r' = rv_chain_tx_hash r \<and> rv_revoked r' = rv_revoked r \<and> rv_recovered_signer r' = rv_recovered_signer r"
  shows "ok_keeps (signers_current devices) m"
proof (rule ok_keepsI)
  fix v a v'
  assume J: "signers_current devices v" and run: "m v = (Inr a, v')"
  have "ids_distinct v'" using ok_keepsD[OF assms(1) _ run] J by (simp add: signers_current_def)
  with J assms(2)[OF run] show "signers_current devices v'" unfolding signers_current_def by metis
qed

lemma signers_primitives:
  "ok_keeps (signers_current devices) (rollback_pending_revisions_in_range lo hi)"
  "ok_keeps (signers_current devices) (promote_finalized_revisions h)"
  "ok_keeps (signers_current devices) (update_last_synced_block_v2 ms n)"
  by (rule signers_keep, rule distinct_primitives, fastforce dest!: rollback_rows promote_rows advance_rows(2))+

interpretation signers_v2: sync_stages "signers_current devices" "v2_path se wo vault_id devices" for se wo vault_id devices
  by unfold_locales (simp_all add: v2_path_def ingest_v2_signers signers_primitives)


lemma with_progress_ok:
  "with_progress cursor m kv = (Inr rep, kv') \<longleftrightarrow> (\<exists>p. m (kv, initial_progress cursor) = (Inr (), (kv', p)) \<and> rep = pg_report p)"
proof -
  obtain r kv1 p where m: "m (kv, initial_progress cursor) = (r, (kv1, p))" by (metis prod_cases3)
  then show ?thesis by (cases r) (auto simp: with_progress_def)
qed

lemma v2_path_stages:
  assumes "sync_from_chain_v2_path se wo rpc_url forced vault_id options kv = (Inr rep, kv')"
  obtains cursor head devices s1 s1' s2 p n where "target_head wo options = Inr head"
    "read_authorized_set_v2 (se_load se) (se_abi se) (wo_members wo) (wo_members_reconnect wo) (wo_authorized wo) (se_chain se) 0
       = Inr devices"
    "catch_up (v2_path se wo vault_id devices) wo head (kv, initial_progress cursor) = (Inr (), s1)"
    "on_tables (reevaluate_revocation_against_set devices) s1 = (Inr n, s1')"
    "report (\<lambda>r. r \<lparr> sr_revisions_revoked := sat_add (sr_revisions_revoked r) n \<rparr>) s1' = (Inr (), s2)"
    "tip_stage (v2_path se wo vault_id devices) wo (se_chain se) rpc_url forced options head s2 = (Inr (), (kv', p))"
proof -
  let ?set = "read_authorized_set_v2 (se_load se) (se_abi se) (wo_members wo) (wo_members_reconnect wo) (wo_authorized wo) (se_chain se) 0"
  from assms obtain persisted head where head: "target_head wo options = Inr head"
    and rest: "(let cursor = (if so_from_genesis options then 0 else case persisted of None \<Rightarrow> 0 | Some b \<Rightarrow> b)
     in if head < cursor then op_fail (ChainSyncError (CheckpointOutOfRange cursor head))
        else op_bind (op_try (\<lambda>_. map_sum ChainSyncError id ?set)) (\<lambda>devices.
             let pa = v2_path se wo vault_id devices
             in with_progress cursor (op_seq (catch_up pa wo head)
                  (op_seq (op_bind (on_tables (reevaluate_revocation_against_set devices)) (\<lambda>n.
                     report (\<lambda>r. r \<lparr> sr_revisions_revoked := sat_add (sr_revisions_revoked r) n \<rparr>)))
                  (tip_stage pa wo (se_chain se) rpc_url forced options head))))) kv = (Inr rep, kv')"
    unfolding sync_from_chain_v2_path_def op_bind_Inr op_try_Inr by blast
  then obtain cursor devices where set: "map_sum ChainSyncError id ?set = Inr devices"
    and prog: "with_progress cursor (op_seq (catch_up (v2_path se wo vault_id devices) wo head)
                  (op_seq (op_bind (on_tables (reevaluate_revocation_against_set devices)) (\<lambda>n.
                     report (\<lambda>r. r \<lparr> sr_revisions_revoked := sat_add (sr_revisions_revoked r) n \<rparr>)))
                  (tip_stage (v2_path se wo vault_id devices) wo (se_chain se) rpc_url forced options head))) kv = (Inr rep, kv')"
    unfolding Let_def op_bind_Inr op_try_Inr by (auto simp only: op_bind_Inr op_try_Inr op_fail_run prod.inject sum.distinct split: if_split_asm)
  obtain s1 s1' s2 n p where "catch_up (v2_path se wo vault_id devices) wo head (kv, initial_progress cursor) = (Inr (), s1)"
    "on_tables (reevaluate_revocation_against_set devices) s1 = (Inr n, s1')"
    "report (\<lambda>r. r \<lparr> sr_revisions_revoked := sat_add (sr_revisions_revoked r) n \<rparr>) s1' = (Inr (), s2)"
    "tip_stage (v2_path se wo vault_id devices) wo (se_chain se) rpc_url forced options head s2 = (Inr (), (kv', p))"
    using prog unfolding with_progress_ok op_seq_Inr op_bind_Inr by auto
  with that head set show ?thesis by (simp add: map_error_Inr)
qed

lemma v2_path_runs:
  assumes "sync_from_chain_v2_path se wo rpc_url forced vault_id options kv = (Inr rep, kv')"
  obtains cursor head devices s1 s2 p n where "target_head wo options = Inr head"
    "read_authorized_set_v2 (se_load se) (se_abi se) (wo_members wo) (wo_members_reconnect wo) (wo_authorized wo) (se_chain se) 0
       = Inr devices"
    "catch_up (v2_path se wo vault_id devices) wo head (kv, initial_progress cursor) = (Inr (), s1)"
    "reevaluate_revocation_against_set devices (kv_vault (fst s1)) = (Inr n, kv_vault (fst s2))"
    "tip_stage (v2_path se wo vault_id devices) wo (se_chain se) rpc_url forced options head s2 = (Inr (), (kv', p))"
  using assms by (rule v2_path_stages) (auto simp: on_tables_run report_def intro!: that)

text \<open>
  C6. A successful sync of a second-version vault leaves no revision of a removed device in force:
  every anchored revision that is not revoked carries the address of a signer in the authorized set
  the sync read, which the contract confirmed; this holds of the revisions found before the sync, of
  those fetched and of those delivered over the subscription. Without a tip-follow the flag is
  exactly the membership of the recorded signer.
\<close>

theorem sync_revokes_removed_devices:
  assumes "sync_from_chain_with_ws_url se wo rpc_url forced vault_id options kv = (Inr rep, kv')"
    and "revisionlog_version (kv_keys kv) = Inr V2" "ids_distinct (kv_vault kv)"
  shows "\<exists>devices. read_authorized_set_v2 (se_load se) (se_abi se) (wo_members wo) (wo_members_reconnect wo) (wo_authorized wo)
         (se_chain se) 0 = Inr devices
    \<and> (\<forall>r \<in> set (v_revisions (kv_vault kv')). rv_chain_tx_hash r \<noteq> None \<longrightarrow>
         (rv_revoked r = 0 \<longrightarrow> (\<exists>s \<in> set devices. rv_recovered_signer r = Some s \<and> wo_authorized wo s = Inr True))
       \<and> (so_until_block options \<noteq> None \<longrightarrow> rv_revoked r = want_revoked devices r))"
proof -
  have run: "sync_from_chain_v2_path se wo rpc_url forced vault_id options kv = (Inr rep, kv')"
    using assms(1,2) by (simp add: sync_from_chain_with_ws_url_def op_bind_def op_try_def)
  obtain cursor head devices s1 s2 p n where
    set: "read_authorized_set_v2 (se_load se) (se_abi se) (wo_members wo) (wo_members_reconnect wo) (wo_authorized wo) (se_chain se) 0
       = Inr devices"
    and cu: "catch_up (v2_path se wo vault_id devices) wo head (kv, initial_progress cursor) = (Inr (), s1)"
    and re: "reevaluate_revocation_against_set devices (kv_vault (fst s1)) = (Inr n, kv_vault (fst s2))"
    and tip: "tip_stage (v2_path se wo vault_id devices) wo (se_chain se) rpc_url forced options head s2 = (Inr (), (kv', p))"
    by (rule v2_path_runs[OF run])
  have live: "wo_authorized wo s = Inr True" if "s \<in> set devices" for s
    using set that by (auto simp: read_authorized_set_v2_def and_then_Inr dest: confirm_live_set)
  have d1: "ids_distinct (kv_vault (fst s1))"
    using ok_keepsD[OF ids_v2.catch_up_keeps _ cu] assms(3) by (simp add: on_rows_def)
  have r2: "v_revisions (kv_vault (fst s2)) = map (\<lambda>r. if rv_chain_tx_hash r \<noteq> None then revoke devices r else r) (v_revisions (kv_vault (fst s1)))"
    by (rule reevaluate_map[OF re d1])
  have "ids_distinct (kv_vault (fst s2))" using distinct_ids_kept[OF _ r2] d1 by (simp add: revoke_def)
  then have "signers_current devices (kv_vault (fst s2))"
    unfolding signers_current_def r2 by (auto simp: revoke_def want_revoked_def split: option.splits if_splits)
  then have "signers_current devices (kv_vault kv')"
    using ok_keepsD[OF signers_v2.tip_stage_keeps _ tip] by (simp add: on_rows_def)
  moreover have "rv_revoked r = want_revoked devices r"
    if "so_until_block options \<noteq> None" "r \<in> set (v_revisions (kv_vault kv'))" "rv_chain_tx_hash r \<noteq> None" for r
  proof -
    have "kv' = fst s2" using tip that(1) by (simp add: tip_stage_def)
    with that(2,3) show ?thesis unfolding r2 by (auto simp: revoke_def want_revoked_def r2 split: if_splits)
  qed
  ultimately show ?thesis using set live unfolding signers_current_def by blast
qed


section \<open>Every logged revision of the range is stored\<close>

definition present :: "VaultEnv \<Rightarrow> RevisionEvent \<Rightarrow> Vault \<Rightarrow> bool" where
  "present env ev v \<longleftrightarrow> event_revision_id env ev \<in> rv_revision_id ` set (v_revisions v)
     \<or> (\<exists>r \<in> set (v_revisions v). rv_account_id r = AccountId (ev_account_id ev)
          \<and> anchor_matches (tx_hash (ev_anchor ev)) (uint (block_number (ev_anchor ev))) (uint (log_index (ev_anchor ev))) r)"

definition kept_unless_rolled_back :: "VaultEnv \<Rightarrow> RevisionEvent \<Rightarrow> KeyVault \<times> SyncProgress \<Rightarrow> bool" where
  "kept_unless_rolled_back env ev s \<longleftrightarrow> ids_distinct (kv_vault (fst s))
     \<and> (sr_revisions_rolled_back (pg_report (snd s)) = 0 \<longrightarrow> present env ev (kv_vault (fst s)))"

lemma present_map:
  assumes "present env ev v" "v_revisions v' = map f (v_revisions v)"
    and "\<And>r. rv_revision_id (f r) = rv_revision_id r" "\<And>r. rv_account_id (f r) = rv_account_id r"
      "\<And>r tx b l. anchor_matches tx b l (f r) = anchor_matches tx b l r"
  shows "present env ev v'"
  using assms by (simp add: present_def image_image)

lemma present_ingested:
  assumes rows: "ingested_rows env ev b l (mark_pending tx bb ll k h) (v_revisions v) (v_revisions v')" and "present env' ev' v"
  shows "present env' ev' v'"
proof -
  let ?mark = "mark_pending tx bb ll k h"
  obtain s extra where rs': "v_revisions v' = map ?mark (map s (v_revisions v) @ extra)"
    and s: "\<forall>r \<in> set (v_revisions v). s r = r \<or> content_matches ev r \<and> s r = stamp_anchor (tx_hash (ev_anchor ev)) b l r"
    using rows unfolding ingested_rows_def by blast
  have keep: "?mark r \<in> set (v_revisions v')" if "r \<in> set (v_revisions v)" "rv_chain_tx_hash r \<noteq> None" for r
  proof -
    have "s r = r" using s that by (auto simp: content_matches_def)
    then show ?thesis using that(1) unfolding rs' by force
  qed
  from assms(2) consider "event_revision_id env' ev' \<in> rv_revision_id ` set (v_revisions v)"
    | r where "r \<in> set (v_revisions v)" "rv_account_id r = AccountId (ev_account_id ev')"
      "anchor_matches (tx_hash (ev_anchor ev')) (uint (block_number (ev_anchor ev'))) (uint (log_index (ev_anchor ev'))) r"
    unfolding present_def by blast
  then show ?thesis
  proof cases
    case 1
    then show ?thesis using ingested_ids(2)[OF rows] unfolding present_def by auto
  next
    case 2
    have "rv_chain_tx_hash r \<noteq> None" using 2(3) by (simp add: anchor_matches_def)
    from keep[OF 2(1) this] 2(2,3) show ?thesis unfolding present_def by (metis mark_pending_simps(2,6))
  qed
qed

lemma present_after_ingestion:
  assumes "ingested_rows env ev (uint (block_number (ev_anchor ev))) (uint (log_index (ev_anchor ev))) (mark_pending tx bb ll k h) (v_revisions v) (v_revisions v')"
  shows "present env ev v'"
proof -
  have "rv_revision_id ` set (v_revisions v) \<subseteq> rv_revision_id ` set (v_revisions v')"
    by (rule ingested_ids(2)[OF assms mark_pending_simps(1)])
  moreover have "event_revision_id env ev \<in> rv_revision_id ` set (v_revisions v)
        \<or> (\<exists>r \<in> set (v_revisions v'). rv_account_id r = AccountId (ev_account_id ev)
             \<and> anchor_matches (tx_hash (ev_anchor ev)) (uint (block_number (ev_anchor ev))) (uint (log_index (ev_anchor ev))) r)"
    using assms unfolding ingested_rows_def by blast
  ultimately show ?thesis unfolding present_def by blast
qed

lemma count_u32_0: "count_u32 n = 0 \<longleftrightarrow> n = 0"
  by (auto simp: count_u32_def word_of_nat_eq_0_iff dvd_eq_mod_eq_0)

lemma sat_add_0: "sat_add a b = 0 \<longleftrightarrow> a = 0 \<and> b = 0" for a b :: "'a::len word"
proof -
  have "sat_add a b = 0 \<longleftrightarrow> unat (sat_add a b) = 0" by (simp add: unat_eq_zero)
  also have "\<dots> \<longleftrightarrow> unat a = 0 \<and> unat b = 0"
  proof -
    have "1 < (2::nat) ^ LENGTH('a)" by (rule one_less_power) simp_all
    then show ?thesis unfolding unat_sat_add by linarith
  qed
  finally show ?thesis by (simp add: unat_eq_zero)
qed


lemma handle_reorg_kept:
  assumes "handle_reorg info s = (Inr (), s')" "kept_unless_rolled_back env ev s"
  shows "kept_unless_rolled_back env ev s'"
proof (cases info)
  case None
  with assms show ?thesis by (simp add: handle_reorg_def)
next
  case (Some i)
  let ?sel = "rollback_selects (uint (affected_block_low i)) (uint (affected_block_high i))"
  from assms(1) Some obtain rolled v where rb: "rollback_pending_revisions_in_range (affected_block_low i) (affected_block_high i) (kv_vault (fst s)) = (Inr rolled, v)"
    and s': "kv_vault (fst s') = v" "sr_revisions_rolled_back (pg_report (snd s')) = sat_add (sr_revisions_rolled_back (pg_report (snd s))) rolled"
    by (auto simp: handle_reorg_def op_bind_Inr op_seq_Inr on_tables_run report_def)
  note r = rollback_rows[OF rb]
  have "ids_distinct v" using ok_keepsD[OF distinct_primitives(1) _ rb] assms(2) by (simp add: kept_unless_rolled_back_def)
  moreover have "present env ev v" if "sat_add (sr_revisions_rolled_back (pg_report (snd s))) rolled = 0"
  proof -
    have z: "sr_revisions_rolled_back (pg_report (snd s)) = 0" "rolled = 0" using that by (simp_all add: sat_add_0)
    then have "filter ?sel (v_revisions (kv_vault (fst s))) = []" using r by (auto simp: count_u32_0)
    then have "v_revisions v = v_revisions (kv_vault (fst s))" using r by (auto simp: filter_empty_conv filter_id_conv)
    with z assms(2) show ?thesis by (simp add: kept_unless_rolled_back_def present_def)
  qed
  ultimately show ?thesis by (simp add: kept_unless_rolled_back_def s')
qed

lemma kept_on_tables:
  assumes "ok_keeps ids_distinct m" "\<And>v a v'. ids_distinct v \<Longrightarrow> m v = (Inr a, v') \<Longrightarrow> present env ev v \<Longrightarrow> present env ev v'"
  shows "ok_keeps (kept_unless_rolled_back env ev) (on_tables m)"
  unfolding ok_keeps_def on_tables_run kept_unless_rolled_back_def
  using assms by (auto dest: ok_keepsD)

lemma kept_report:
  "(\<And>r. sr_revisions_rolled_back (f r) = sr_revisions_rolled_back r) \<Longrightarrow> ok_keeps (kept_unless_rolled_back env ev) (report f)"
  by (simp add: ok_keeps_def report_def kept_unless_rolled_back_def)

lemma kept_register: "ok_keeps (kept_unless_rolled_back env ev) (register_event ms ev')"
proof -
  have "ok_keeps (kept_unless_rolled_back env ev) (on_handle (register_signer a b ms))" for a b
    by (auto simp: ok_keeps_def kept_unless_rolled_back_def on_handle_def register_signer_def split: sum.splits prod.splits)
  then show ?thesis unfolding register_event_def by (intro ok_bind ok_if ok_pure kept_report) simp_all
qed

lemma kept_observe: "ok_keeps (kept_unless_rolled_back env ev) (observe_event ev')"
proof -
  have "ok_keeps (kept_unless_rolled_back env ev) (progress (\<lambda>p. p \<lparr> pg_detector := g p \<rparr>))" for g
    by (simp add: ok_keeps_def kept_unless_rolled_back_def)
  then show ?thesis unfolding observe_event_def by (intro ok_seq kept_report) simp_all
qed

lemma kept_ingest: "ok_keeps (kept_unless_rolled_back env ev) (on_tables (ingest_pending_chain_revision env' am ev' blk h))"
proof (rule kept_on_tables[OF ingest_pending_distinct])
  fix v a v'
  assume "ids_distinct v" "ingest_pending_chain_revision env' am ev' blk h v = (Inr a, v')" "present env ev v"
  then show "present env ev v'"
    by (metis ids_distinct_def ingest_pending_rows present_ingested)
qed

interpretation stored_v1: sync_steps "kept_unless_rolled_back env ev" "v1_path se wo vault_id" "\<lambda>_. True" 0 for env ev se wo vault_id
proof
  show "ok_keeps (kept_unless_rolled_back env ev) (pa_ingest (v1_path se wo vault_id) clk ev')" for clk ev'
    unfolding v1_path_def ingest_event_v1_def by (simp, intro ok_seq ok_pure kept_register kept_ingest kept_observe)
  show "ok_keeps (kept_unless_rolled_back env ev) (on_tables (pa_advance (v1_path se wo vault_id) ms b))" for ms b
    by (simp add: v1_path_def, rule kept_on_tables[OF distinct_primitives(4)]) (auto dest: advance_rows(1) simp: present_def)
  show "ok_keeps (kept_unless_rolled_back env ev) (promote h)" for h
    unfolding promote_def
    by (intro ok_bind kept_report kept_on_tables[OF distinct_primitives(2)]) (auto dest: promote_rows intro: present_map)
  show "kept_unless_rolled_back env ev s'" if "handle_reorg info s = (Inr (), s')" "kept_unless_rolled_back env ev s" for info s s'
    by (rule handle_reorg_kept[OF that])
qed (auto simp: kept_unless_rolled_back_def)


lemma ingest_stores:
  assumes run: "ingest_event_v1 env clk ev s = (Inr a, s')" and ids: "on_rows ids_distinct s"
  shows "kept_unless_rolled_back env (ve_event ev) s'"
proof -
  let ?e = "ve_event ev"
  obtain s1 s2 out where reg: "register_event (fst clk) ev s = (Inr (), s1)"
    and ing: "on_tables (ingest_pending_chain_revision env (snd clk) ?e (event_block ev) (ve_block_hash ev)) s1 = (Inr out, s2)"
    and ob: "observe_event ev s2 = (Inr (), s')"
    using run by (auto simp: ingest_event_v1_def op_seq_Inr)
  have d1: "ids_distinct (kv_vault (fst s1))" using ok_keepsD[OF ok_register_event ids reg] by (simp add: on_rows_def)
  have ingv: "ingest_pending_chain_revision env (snd clk) ?e (event_block ev) (ve_block_hash ev) (kv_vault (fst s1)) = (Inr out, kv_vault (fst s2))"
    using ing by (auto simp: on_tables_run)
  have "present env ?e (kv_vault (fst s2))"
    using d1 by (auto simp: ids_distinct_def i64_try_from_Some intro: present_after_ingestion elim!: ingest_pending_rows[OF ingv])
  moreover have "ids_distinct (kv_vault (fst s2))" by (rule ok_keepsD[OF ingest_pending_distinct d1 ingv])
  ultimately have "kept_unless_rolled_back env ?e s2" by (simp add: kept_unless_rolled_back_def)
  then show ?thesis by (rule ok_keepsD[OF kept_observe _ ob])
qed

lemma ingest_all_stores:
  assumes "ingest_all (ingest_event_v1 env) clk i evs s = (Inr (), s')" "on_rows ids_distinct s" "ev \<in> set evs"
  shows "kept_unless_rolled_back env (ve_event ev) s'"
  using assms
proof (induction evs arbitrary: i s)
  case (Cons e evs)
  from Cons(2) obtain a s1 where s1: "ingest_event_v1 env (clk i) e s = (Inr a, s1)" "ingest_all (ingest_event_v1 env) clk (Suc i) evs s1 = (Inr (), s')"
    by (auto simp: op_seq_Inr)
  have "ok_keeps (on_rows ids_distinct) (ingest_event_v1 env (clk i) e)"
    unfolding ingest_event_v1_def by (intro ok_intros)
  then have "on_rows ids_distinct s1" using Cons(3) s1(1) by (rule ok_keepsD)
  note IH = Cons(1)[OF s1(2) this]
  show ?case
  proof (cases "ev \<in> set evs")
    case True
    then show ?thesis by (rule IH)
  next
    case False
    then have kept: "kept_unless_rolled_back env (ve_event ev) s1" using ingest_stores[OF s1(1) Cons(3)] Cons(4) by simp
    have "ok_keeps (kept_unless_rolled_back env (ve_event ev)) (ingest_all (ingest_event_v1 env) clk (Suc i) evs)"
      using stored_v1.ingest_all_keeps[of evs env "ve_event ev" "undefined\<lparr>se_vault_env := env\<rparr>"] by (simp add: v1_path_def)
    from ok_keepsD[OF this kept s1(2)] show ?thesis .
  qed
qed simp

lemma v1_simps [simp]:
  "pa_ingest (v1_path se wo vault_id) = ingest_event_v1 (se_vault_env se)"
  "pa_fetch (v1_path se wo vault_id) k =
     fetch_and_verify_chunk (se_load se) (se_decode_v1 se) (wo_logs wo k) (se_chain se) vault_id"
  "pa_advance (v1_path se wo vault_id) = update_last_synced_block_v1"
  by (simp_all add: v1_path_def)

lemma sync_blocks_stores:
  assumes "sync_blocks (v1_path se wo vault_id) wo k head f t s = (Inr (), s')" "on_rows ids_distinct s"
  shows "\<exists>evs rejected. fetch_and_verify_chunk (se_load se) (se_decode_v1 se) (wo_logs wo k) (se_chain se) vault_id f t = Inr (evs, rejected)
    \<and> (\<forall>ev \<in> set evs. kept_unless_rolled_back (se_vault_env se) (ve_event ev) s')"
  using assms(1)
proof (rule sync_blocks_run)
  fix evs rejected s0 s1 info s2
  assume fe: "pa_fetch (v1_path se wo vault_id) k f t = Inr (evs, rejected)"
    and rep: "report (\<lambda>r. r \<lparr> sr_revisions_pulled := sat_add (sr_revisions_pulled r) (count_u32 (length evs)),
         sr_revisions_rejected := sat_add (sr_revisions_rejected r) rejected \<rparr>) s = (Inr (), s0)"
    and run: "ingest_all (pa_ingest (v1_path se wo vault_id)) (wo_event_clock wo k) 0 evs s0 = (Inr (), s1)"
    and tail: "handle_reorg info s1 = (Inr (), s2)" "promote head s2 = (Inr (), s')"
  have "on_rows ids_distinct s0" by (rule ok_keepsD[OF ok_report assms(2) rep])
  then have "kept_unless_rolled_back (se_vault_env se) (ve_event ev) s1" if "ev \<in> set evs" for ev
    using ingest_all_stores that run by simp
  then have "kept_unless_rolled_back (se_vault_env se) (ve_event ev) s'" if "ev \<in> set evs" for ev
    using ok_keepsD[OF stored_v1.promoted handle_reorg_kept[OF tail(1)] tail(2)] that by blast
  with fe show ?thesis by auto
qed


lemma chunk_loop_stores:
  assumes "chunk_loop pa wo head k s = (Inr a, s')" "pa = v1_path se wo vault_id" "on_rows ids_distinct s"
    and "pg_cursor (snd s) < b" "b \<le> head"
  shows "\<exists>k f t evs rejected. f \<le> b \<and> b \<le> t
    \<and> fetch_and_verify_chunk (se_load se) (se_decode_v1 se) (wo_logs wo k) (se_chain se) vault_id f t = Inr (evs, rejected)
    \<and> (\<forall>ev \<in> set evs. kept_unless_rolled_back (se_vault_env se) (ve_event ev) s')"
  using assms
proof (induction pa wo head k s rule: chunk_loop.induct)
  case (1 pa wo head k s)
  note pa = 1(3)
  have lt: "pg_cursor (snd s) < head" using 1(5,6) by order
  obtain f t where n: "next_chunk (pg_cursor (snd s)) head = (f, t)" by (cases "next_chunk (pg_cursor (snd s)) head")
  note bd = next_chunk_bounds[OF lt n]
  obtain r s1 where c: "sync_chunk pa wo k head s = (r, s1)" by (cases "sync_chunk pa wo k head s")
  with 1(2) lt have r: "r = Inr ()" by (cases r) (auto simp: chunk_loop.simps[of _ _ head k])
  have loop: "chunk_loop pa wo head (Suc k) s1 = (Inr a, s')" if "\<not> head \<le> pg_cursor (snd s1)"
    using 1(2) lt c r that by (simp add: chunk_loop.simps[of _ _ head k])
  have s1: "s1 = s'" if "head \<le> pg_cursor (snd s1)"
    using 1(2) lt c r that by (simp add: chunk_loop.simps[of _ _ head k])
  show ?case
  proof (cases "b \<le> t")
    case True
    obtain u w where blocks: "sync_blocks pa wo k head f t s = (Inr (), u)"
        "on_tables (pa_advance pa (wo_checkpoint_ms wo k) t) u = (Inr (), w)" "s1 = (fst w, (snd w) \<lparr> pg_cursor := t \<rparr>)"
      by (rule sync_chunk_run[OF c[unfolded r] n])
    obtain evs rejected where fe: "fetch_and_verify_chunk (se_load se) (se_decode_v1 se) (wo_logs wo k) (se_chain se) vault_id f t = Inr (evs, rejected)"
      and kept: "\<forall>ev \<in> set evs. kept_unless_rolled_back (se_vault_env se) (ve_event ev) u"
      using sync_blocks_stores[OF blocks(1)[unfolded pa] 1(4)] by blast
    have "kept_unless_rolled_back (se_vault_env se) (ve_event ev) s1" if "ev \<in> set evs" for ev
      using ok_keepsD[OF stored_v1.advance _ blocks(2)[unfolded pa]] kept that blocks(3) by (fastforce simp: kept_unless_rolled_back_def)
    note kept1 = this
    have "kept_unless_rolled_back (se_vault_env se) (ve_event ev) s'" if "ev \<in> set evs" for ev
      using ok_keepsD[OF stored_v1.chunk_loop_keeps kept1[OF that] loop[unfolded pa]] kept1[OF that] s1
      by (cases "head \<le> pg_cursor (snd s1)") simp_all
    moreover have "f \<le> b" using bd(1) 1(5) by (simp add: word_le_nat_alt word_less_nat_alt)
    ultimately show ?thesis using fe True by blast
  next
    case False
    have cur: "pg_cursor (snd s1) = t" using sync_chunk_cursor[OF c[unfolded r]] n by simp
    have ids: "on_rows ids_distinct s1" using ids_v1.sync_chunk_keeps[OF 1(4) lt] c pa r by blast
    have "\<not> head \<le> pg_cursor (snd s1)" "pg_cursor (snd s1) < b" using False 1(6) cur by auto
    from 1(1)[OF lt c[symmetric] r this(1) loop[OF this(1)] pa ids this(2) 1(6)] show ?thesis .
  qed
qed


lemma v1_path_runs:
  assumes "sync_from_chain_v1_path se wo rpc_url forced vault_id options kv = (Inr rep, kv')"
    and "last_synced_block_v1 (kv_vault kv) = Inr persisted" "target_head wo options = Inr head"
  defines "cursor \<equiv> if so_from_genesis options then d017_deploy_block (se_chain se)
      else case persisted of None \<Rightarrow> d017_deploy_block (se_chain se) | Some b \<Rightarrow> b"
  obtains s1 p where "cursor \<le> head" "catch_up (v1_path se wo vault_id) wo head (kv, initial_progress cursor) = (Inr (), s1)"
    "tip_stage (v1_path se wo vault_id) wo (se_chain se) rpc_url forced options head s1 = (Inr (), (kv', p))" "rep = pg_report p"
proof -
  have "cursor \<le> head" and "with_progress cursor (op_seq (catch_up (v1_path se wo vault_id) wo head)
       (tip_stage (v1_path se wo vault_id) wo (se_chain se) rpc_url forced options head)) kv = (Inr rep, kv')"
    using assms(1-3) unfolding sync_from_chain_v1_path_def op_bind_Inr op_try_Inr Let_def cursor_def[symmetric]
    by (auto split: if_split_asm simp: cursor_def)
  with that show ?thesis unfolding with_progress_ok op_seq_Inr by auto
qed

lemma verify_logs_set:
  "fst (verify_logs verify logs (evs, n)) = evs @ List.map_filter (\<lambda>log. case verify log of Verified ev \<Rightarrow> Some ev | Rejected \<Rightarrow> None) logs"
  by (induction logs arbitrary: evs n) (auto simp: List.map_filter_simps split: VerifyOutcome.splits)

text \<open>
  C7. A first-version sync stores what the contract logged: when the nodes answer each range query with the
  logs of the range and the report counts no rolled-back revision, every log of this vault between the
  stored checkpoint and the target block that passes verification is in the vault afterwards, under
  its content hash or its anchor. No block falls between two chunks.
\<close>

theorem sync_stores_logged_revisions:
  assumes "sync_from_chain_with_ws_url se wo rpc_url forced vault_id options kv = (Inr rep, kv')"
    and "revisionlog_version (kv_keys kv) = Inr V1" "ids_distinct (kv_vault kv)"
    and "last_synced_block_v1 (kv_vault kv) = Inr (Some c)" "\<not> so_from_genesis options" "target_head wo options = Inr head"
    and "sr_revisions_rolled_back rep = 0" "\<forall>k. honest_logs (wo_logs wo k) logs"
    and "log \<in> set logs" "lg_block_number log = Some b" "c < b" "b \<le> head"
    and "resolve_and_check_contract (se_load se) (se_chain se) = Inr contract"
    and "verify_alloy_log (se_decode_v1 se) vault_id contract log = Verified ev"
  shows "present (se_vault_env se) (ve_event ev) (kv_vault kv')"
proof -
  have run: "sync_from_chain_v1_path se wo rpc_url forced vault_id options kv = (Inr rep, kv')"
    using assms(1,2) by (simp add: sync_from_chain_with_ws_url_def op_bind_def op_try_def)
  obtain s1 p where cu: "catch_up (v1_path se wo vault_id) wo head (kv, initial_progress c) = (Inr (), s1)"
    and tip: "tip_stage (v1_path se wo vault_id) wo (se_chain se) rpc_url forced options head s1 = (Inr (), (kv', p))" "rep = pg_report p"
    by (rule v1_path_runs[OF run assms(4,6)]) (use assms(5) in auto)
  obtain s0 s01 where loop: "chunk_loop (v1_path se wo vault_id) wo head 0 (kv, initial_progress c) = (Inr (), s0)"
    and rest: "promote head s0 = (Inr (), s01)" "report (\<lambda>r. r \<lparr> sr_last_block_synced := head \<rparr>) s01 = (Inr (), s1)"
    using cu unfolding catch_up_def op_seq_Inr by auto
  obtain k f t evs rejected where ft: "f \<le> b" "b \<le> t"
    and fe: "fetch_and_verify_chunk (se_load se) (se_decode_v1 se) (wo_logs wo k) (se_chain se) vault_id f t = Inr (evs, rejected)"
    and kept: "\<forall>ev \<in> set evs. kept_unless_rolled_back (se_vault_env se) (ve_event ev) s0"
    using chunk_loop_stores[OF loop refl, of b] assms(3,11,12) by (auto simp: on_rows_def initial_progress_def)
  have "vw_get_logs (wo_logs wo k) f t = Inr (filter (\<lambda>l. case lg_block_number l of None \<Rightarrow> False | Some b \<Rightarrow> f \<le> b \<and> b \<le> t) logs)"
    using assms(8) unfolding honest_logs_def by blast
  then have "evs = fst (verify_logs (verify_alloy_log (se_decode_v1 se) vault_id contract)
      (filter (\<lambda>l. case lg_block_number l of None \<Rightarrow> False | Some b \<Rightarrow> f \<le> b \<and> b \<le> t) logs) ([], 0))"
    using fe assms(13) by (auto simp: fetch_and_verify_chunk_def fetch_chunk_def and_then_Inr)
  then have "ev \<in> set evs" using assms(9,10,14) ft by (force simp: verify_logs_set map_filter_def)
  with kept have "kept_unless_rolled_back (se_vault_env se) (ve_event ev) s0" by blast
  from ok_keepsD[OF stored_v1.promoted this rest(1)]
  have "kept_unless_rolled_back (se_vault_env se) (ve_event ev) s01" .
  from ok_keepsD[OF stored_v1.report_keeps this rest(2)]
  have "kept_unless_rolled_back (se_vault_env se) (ve_event ev) s1" by simp
  from ok_keepsD[OF stored_v1.tip_stage_keeps this tip(1)]
  have "kept_unless_rolled_back (se_vault_env se) (ve_event ev) (kv', p)" by simp
  then show ?thesis using assms(7) tip(2) by (simp add: kept_unless_rolled_back_def)
qed

section \<open>Examples\<close>

lemma sat_add_code [code]: "sat_add a b = (if uint a + uint b < 2 ^ LENGTH('a) then a + b else - 1)" for a b :: "'a::len word"
proof -
  have "unat a + unat b < 2 ^ LENGTH('a) \<longleftrightarrow> int (unat a + unat b) < int (2 ^ LENGTH('a))" by (simp only: of_nat_less_iff)
  then show ?thesis by (simp add: sat_add_def)
qed

lemma count_u32_code [code]: "count_u32 n = (if int n < 2 ^ 32 then word_of_int (int n) else - 1)"
proof -
  have "n < 2 ^ 32 \<longleftrightarrow> int n < int (2 ^ 32)" by (simp only: of_nat_less_iff)
  then show ?thesis by (simp add: count_u32_def)
qed

definition example_tables :: "RevisionLogVersion \<Rightarrow> KeyTables" where
  "example_tables version = set_revisionlog_version version (empty_tables
     \<lparr> vm_vault_id = replicate 32 7, vm_created_at = 0, vm_kdf_params = RECOMMENDED, vm_kdf_salt = replicate 16 1,
       vm_wrap_context = WrapContext_new (replicate 32 7), vm_wrapped_ciphertext = [], vm_wrapped_nonce = [] \<rparr>)"

definition example_published_event :: "bytes \<Rightarrow> RevisionPublished option" where
  "example_published_event _ = Some \<lparr> pb_vault_id = replicate 32 7, pb_account_id = replicate 32 1,
     pb_parent_revision = replicate 32 76, pb_device_id = replicate 32 44, pb_schema_version = 1, pb_sequence = 3,
     pb_signer = replicate 20 4, pb_enc_payload = [1, 2, 3] \<rparr>"

definition example_sync_env :: SyncEnv where
  "example_sync_env = \<lparr> se_vault_env = example_env, se_load = (\<lambda>_ _. Inr example_contract), se_decode_v1 = example_published_event,
     se_decode_v2 = example_published_event, se_abi = example_abi, se_chain = Dev \<rparr>"

definition example_world :: SyncWorld where
  "example_world = \<lparr> wo_head = example_view 100 [], wo_logs = (\<lambda>_. example_view 100 [example_log 100 []]),
     wo_blocks = (\<lambda>_. example_view 100 []), wo_members = example_members, wo_members_reconnect = Inr (),
     wo_authorized = example_authorized, wo_event_clock = (\<lambda>_ _. (60, example_ambient)), wo_checkpoint_ms = (\<lambda>_. 61),
     wo_sessions = [], wo_ws_clock = (\<lambda>_ _. (62, example_ambient)), wo_ws_checkpoint_ms = (\<lambda>_ _. 63) \<rparr>"

definition example_handle :: KeyVault where
  "example_handle = \<lparr> kv_vault = example_open \<lparr> v_sync_v1 := Some \<lparr> cs_last_synced_block = 99, cs_last_synced_at = 0 \<rparr> \<rparr>,
     kv_keys = example_tables V1, kv_chain = None \<rparr>"




lemma example_sync:
  "case fst (sync_from_chain_with_ws_url example_sync_env example_world [] None (replicate 32 7) SyncOptions_default example_handle) of
     Inl e \<Rightarrow> False | Inr rep \<Rightarrow> sr_revisions_rolled_back rep = 0 \<and> sr_revisions_applied rep = 1"
  by code_simp


theorem sync_stores_logged_revisions_witness:
  "\<exists>rep kv'. sync_from_chain_with_ws_url example_sync_env example_world [] None (replicate 32 7) SyncOptions_default example_handle
      = (Inr rep, kv') \<and> sr_revisions_applied rep = 1 \<and> present example_env example_event (kv_vault kv')"
proof -
  obtain rep kv' where run: "sync_from_chain_with_ws_url example_sync_env example_world [] None (replicate 32 7) SyncOptions_default
      example_handle = (Inr rep, kv')" and rep: "sr_revisions_rolled_back rep = 0" "sr_revisions_applied rep = 1"
    using example_sync by (auto split: sum.splits prod.splits simp: fst_def)
  have start: "revisionlog_version (kv_keys example_handle) = Inr V1" "ids_distinct (kv_vault example_handle)"
      "last_synced_block_v1 (kv_vault example_handle) = Inr (Some 99)"
    by code_simp+
  have opts: "\<not> so_from_genesis SyncOptions_default" "target_head example_world SyncOptions_default = Inr 100"
    by (simp_all add: SyncOptions_default_def target_head_def fetch_current_block_number_def example_world_def example_view_def and_then_def)
  have logs: "\<forall>k. honest_logs (wo_logs example_world k) [example_log 100 []]"
    by (simp add: example_world_def example_view_honest)
  have con: "resolve_and_check_contract (se_load example_sync_env) (se_chain example_sync_env) = Inr example_contract"
    by (simp add: resolve_and_check_contract_def example_sync_env_def and_then_def)
  have ver: "verify_alloy_log (se_decode_v1 example_sync_env) (replicate 32 7) example_contract (example_log 100 [])
      = Verified \<lparr> ve_event = example_event, ve_signer = replicate 20 4, ve_block_hash = replicate 32 10, ve_schema_version = 1 \<rparr>"
    by code_simp
  from sync_stores_logged_revisions[OF run start(1,2,3) opts rep(1) logs _ _ _ _ con ver, of 100] run rep(2) show ?thesis
    by (auto simp: example_log_def example_sync_env_def)
qed

definition example_removed :: KeyVault where
  "example_removed = \<lparr> kv_vault = update_revisions (\<lambda>r. rv_chain_tx_hash r \<noteq> None) (\<lambda>r. r \<lparr> rv_recovered_signer := Some (replicate 20 5) \<rparr>)
     example_published, kv_keys = example_tables V2, kv_chain = None \<rparr>"

lemma example_removed_sync:
  "case sync_from_chain_with_ws_url example_sync_env example_world [] None (replicate 32 7)
       (SyncOptions_default \<lparr> so_until_block := Some 0 \<rparr>) example_removed of
     (Inl e, _) \<Rightarrow> False
   | (Inr rep, kv') \<Rightarrow> list_ex (\<lambda>r. rv_chain_tx_hash r \<noteq> None \<and> rv_recovered_signer r = Some (replicate 20 5)) (v_revisions (kv_vault kv'))"
  by code_simp

theorem sync_revokes_removed_devices_witness:
  "\<exists>rep kv'. sync_from_chain_with_ws_url example_sync_env example_world [] None (replicate 32 7)
       (SyncOptions_default \<lparr> so_until_block := Some 0 \<rparr>) example_removed = (Inr rep, kv')
    \<and> (\<exists>r \<in> set (v_revisions (kv_vault kv')). rv_recovered_signer r = Some (replicate 20 5) \<and> rv_revoked r = 1)"
proof -
  let ?opts = "SyncOptions_default \<lparr> so_until_block := Some 0 \<rparr>"
  let ?run = "sync_from_chain_with_ws_url example_sync_env example_world [] None (replicate 32 7) ?opts example_removed"
  obtain res kv' where res: "?run = (res, kv')" by (cases ?run)
  then obtain rep where run: "?run = (Inr rep, kv')" using example_removed_sync by (cases res) auto
  obtain r where r: "r \<in> set (v_revisions (kv_vault kv'))" "rv_chain_tx_hash r \<noteq> None" "rv_recovered_signer r = Some (replicate 20 5)"
    using example_removed_sync by (auto simp: run list_ex_iff)
  have start: "revisionlog_version (kv_keys example_removed) = Inr V2" "ids_distinct (kv_vault example_removed)"
    by code_simp+
  have set: "read_authorized_set_v2 (se_load example_sync_env) (se_abi example_sync_env) (wo_members example_world)
      (wo_members_reconnect example_world) (wo_authorized example_world) (se_chain example_sync_env) 0 = Inr [replicate 20 4]"
    by (simp add: example_sync_env_def example_world_def example_authorized_set)
  from sync_revokes_removed_devices[OF run start] r have "rv_revoked r = want_revoked [replicate 20 4] r"
    unfolding set by simp
  also have "\<dots> = 1" using r(3) by (simp add: want_revoked_def EVM_ADDRESS_LEN_def)
  finally show ?thesis using run r by blast
qed

end
