(* ===== verification/Sync_Checkpoints.thy ===== *)
theory Sync_Checkpoints
  imports Sync_Safety
begin

text \<open>
  The checkpoints of a sync: which steps leave the stored position of the first-version log alone, and
  what follows for a sync from the first block of the contract and for the choice of the sync mode.
\<close>

definition v1_checkpoint :: "ChainSyncState option \<Rightarrow> Vault \<Rightarrow> bool" where
  "v1_checkpoint x v \<longleftrightarrow> v_sync_v1 v = x"

lemma ingest_commit_checkpoint: "ingest_commit env ev now b l v = Inr v1 \<Longrightarrow> v_sync_v1 v1 = v_sync_v1 v"
  by (auto simp: ingest_commit_def Let_def and_then_Inr insert_revision_def insert_account_def update_accounts_def split: if_splits)

lemma ingest_checkpoint: "ingest_chain_revision env am ev v = (Inr out, v') \<Longrightarrow> v_sync_v1 v' = v_sync_v1 v"
  unfolding ingest_run
  by (auto simp: update_revisions_def dest: ingest_commit_checkpoint split: if_split_asm option.split_asm sum.split_asm)

lemma checkpoint_kept [ok_intros]:
  "ok_keeps (v1_checkpoint x) (ingest_pending_chain_revision env am ev blk h)"
  "ok_keeps (v1_checkpoint x) (rollback_pending_revisions_in_range lo hi)"
  "ok_keeps (v1_checkpoint x) (promote_finalized_revisions head)"
  "ok_keeps (v1_checkpoint x) (stamp_recovered_signer ev signer)"
  unfolding ok_keeps_def v1_checkpoint_def
  by (auto simp: ingest_pending_chain_revision_def rollback_pending_revisions_in_range_def promote_finalized_revisions_def
      stamp_recovered_signer_def op_bind_Inr op_seq_Inr op_try_Inr update_revisions_def dest: ingest_checkpoint)

interpretation position_v2: sync_stages "v1_checkpoint x" "v2_path se wo vault_id devices" for x se wo vault_id devices
proof
  show "ok_keeps (v1_checkpoint x) (pa_advance (v2_path se wo vault_id devices) ms b)" for ms b
    unfolding ok_keeps_def v1_checkpoint_def v2_path_def update_last_synced_block_v2_def update_synced_def
    by (auto simp: Let_def op_bind_Inr op_try_Inr split: if_split_asm)
qed (auto simp: v2_path_def ingest_event_v2_def intro!: ok_intros)

interpretation position_v1: sync_stages "v1_checkpoint x" "(v1_path se wo vault_id) \<lparr> pa_advance := \<lambda>_ _. op_ret () \<rparr>"
  for x se wo vault_id
  by unfold_locales (auto simp: v1_path_def ingest_event_v1_def intro!: ok_intros)

lemma sync_blocks_advance: "sync_blocks (pa \<lparr> pa_advance := f \<rparr>) wo k head a b = sync_blocks pa wo k head a b"
  by (simp add: sync_blocks_def)

text \<open>The blocks of a chunk leave the stored checkpoint alone; only the checkpoint step moves it.\<close>

lemma sync_blocks_checkpoint:
  assumes "sync_blocks (v1_path se wo vault_id) wo k head f t s = (Inr (), s')" "0 < f"
  shows "v_sync_v1 (kv_vault (fst s')) = v_sync_v1 (kv_vault (fst s))"
proof -
  have "on_rows (v1_checkpoint (v_sync_v1 (kv_vault (fst s)))) s'"
  proof (rule position_v1.sync_blocks_keeps)
    show "on_rows (v1_checkpoint (v_sync_v1 (kv_vault (fst s)))) s" by (simp add: on_rows_def v1_checkpoint_def)
    show "sync_blocks ((v1_path se wo vault_id) \<lparr> pa_advance := \<lambda>_ _. op_ret () \<rparr>) wo k head f t s = (Inr (), s')"
      using assms(1) by (simp only: sync_blocks_advance)
  qed (rule assms(2))
  then show ?thesis by (simp add: on_rows_def v1_checkpoint_def)
qed

lemma first_chunk_below_checkpoint:
  assumes "last_synced_block_v1 (kv_vault (fst s)) = Inr (Some c)" "pg_cursor (snd s) < head"
    and "unat (pg_cursor (snd s)) + 9000 < unat c"
  shows "\<not> is_ok (fst (sync_chunk (v1_path se wo vault_id) wo k head s))"
proof
  assume "is_ok (fst (sync_chunk (v1_path se wo vault_id) wo k head s))"
  then obtain s' where run: "sync_chunk (v1_path se wo vault_id) wo k head s = (Inr (), s')"
    by (metis (full_types) is_ok_E old.unit.exhaust prod.collapse)
  obtain f t where n: "next_chunk (pg_cursor (snd s)) head = (f, t)" by (cases "next_chunk (pg_cursor (snd s)) head")
  note b = next_chunk_bounds[OF assms(2) n]
  obtain s1 s2 where blocks: "sync_blocks (v1_path se wo vault_id) wo k head f t s = (Inr (), s1)"
      and adv: "on_tables (pa_advance (v1_path se wo vault_id) (wo_checkpoint_ms wo k) t) s1 = (Inr (), s2)"
    by (rule sync_chunk_run[OF run n])
  have "0 < f" using b(1) by (simp add: word_less_nat_alt)
  then have "last_synced_block_v1 (kv_vault (fst s1)) = Inr (Some c)"
    using assms(1) sync_blocks_checkpoint[OF blocks] by (simp add: last_synced_block_v1_def)
  moreover have "t < c" using b(1,4) assms(3) by (simp add: word_less_nat_alt)
  ultimately show False
    using adv by (auto simp: on_tables_run update_last_synced_block_v1_def update_synced_def Let_def op_bind_Inr op_try_Inr)
qed

text \<open>
  C23. A sync from genesis of a vault whose stored checkpoint lies beyond the first chunk never succeeds,
  whatever the nodes answer: the checkpoint of the first chunk is refused because it would move the
  stored block backwards.
\<close>

theorem sync_from_genesis_stuck:
  assumes "revisionlog_version (kv_keys kv) = Inr V1" "last_synced_block_v1 (kv_vault kv) = Inr (Some c)"
    and "so_from_genesis options" "target_head wo options = Inr head"
    and "d017_deploy_block (se_chain se) < head" "unat (d017_deploy_block (se_chain se)) + 9000 < unat c"
  shows "\<not> is_ok (fst (sync_from_chain_with_ws_url se wo rpc_url forced vault_id options kv))"
proof
  let ?deploy = "d017_deploy_block (se_chain se)" and ?pa = "v1_path se wo vault_id"
  assume "is_ok (fst (sync_from_chain_with_ws_url se wo rpc_url forced vault_id options kv))"
  then obtain rep kv' where "sync_from_chain_with_ws_url se wo rpc_url forced vault_id options kv = (Inr rep, kv')"
    by (metis is_ok_E prod.collapse)
  then have "sync_from_chain_v1_path se wo rpc_url forced vault_id options kv = (Inr rep, kv')"
    using assms(1) by (simp add: sync_from_chain_with_ws_url_def op_bind_def op_try_def)
  then obtain s1 where "catch_up ?pa wo head (kv, initial_progress ?deploy) = (Inr (), s1)"
    by (rule v1_path_runs[OF _ assms(2,4)]) (use assms(3) in auto)
  then obtain s0 where loop: "chunk_loop ?pa wo head 0 (kv, initial_progress ?deploy) = (Inr (), s0)"
    unfolding catch_up_def op_seq_Inr by auto
  have "\<not> is_ok (fst (sync_chunk ?pa wo 0 head (kv, initial_progress ?deploy)))"
    by (rule first_chunk_below_checkpoint) (use assms(2,5,6) in \<open>simp_all add: initial_progress_def\<close>)
  with loop assms(5) show False
    by (auto simp: chunk_loop.simps[of _ _ head 0] initial_progress_def split: sum.splits prod.splits)
qed

definition example_synced :: KeyVault where
  "example_synced = example_handle \<lparr> kv_vault := (kv_vault example_handle)
     \<lparr> v_sync_v1 := Some \<lparr> cs_last_synced_block = 9001, cs_last_synced_at = 0 \<rparr> \<rparr> \<rparr>"

theorem sync_from_genesis_stuck_witness:
  "\<not> is_ok (fst (sync_from_chain_with_ws_url example_sync_env example_world [] None (replicate 32 7)
       \<lparr> so_from_genesis = True, so_until_block = Some 9100, so_prefer_websocket = False \<rparr> example_synced))
   \<and> is_ok (fst (sync_from_chain_with_ws_url example_sync_env example_world [] None (replicate 32 7)
       \<lparr> so_from_genesis = False, so_until_block = Some 9100, so_prefer_websocket = False \<rparr> example_synced))"
proof (rule conjI)
  have kv: "revisionlog_version (kv_keys example_synced) = Inr V1" "last_synced_block_v1 (kv_vault example_synced) = Inr (Some 9001)"
    by code_simp+
  show "\<not> is_ok (fst (sync_from_chain_with_ws_url example_sync_env example_world [] None (replicate 32 7)
       \<lparr> so_from_genesis = True, so_until_block = Some 9100, so_prefer_websocket = False \<rparr> example_synced))"
    by (rule sync_from_genesis_stuck[OF kv, of _ _ 9100]) (simp_all add: target_head_def example_sync_env_def d017_deploy_block_def)
qed code_simp

section \<open>A reorganization between two syncs\<close>

text \<open>The row of a revision that an earlier sync observed in block \<open>b\<close>.\<close>

definition observed_row :: "RevisionId \<Rightarrow> int \<Rightarrow> RevisionRow \<Rightarrow> bool" where
  "observed_row i b r \<longleftrightarrow> rv_revision_id r = i \<and> rv_chain_tx_hash r \<noteq> None \<and> rv_chain_block_number r = Some b
     \<and> rv_observed_at_block r = Some b"

definition observed_before :: "RevisionId \<Rightarrow> int \<Rightarrow> u64 \<Rightarrow> KeyVault \<times> SyncProgress \<Rightarrow> bool" where
  "observed_before i b base s \<longleftrightarrow> ids_distinct (kv_vault (fst s)) \<and> base \<le> pg_cursor (snd s)
     \<and> (\<forall>n \<in> fst ` set (rd_observed (pg_detector (snd s))). base < n)
     \<and> (\<exists>r \<in> set (v_revisions (kv_vault (fst s))). observed_row i b r)"

lemma verify_log_block: "verify_log decode vault_id contract log = Verified ev \<Longrightarrow> lg_block_number log = Some (event_block ev)"
  by (auto simp: verify_log_def event_block_def event_to_revision_event_def Let_def split: if_splits option.splits)

lemma fetched_in_range:
  assumes "fetch_and_verify_chunk load decode view env vault_id f t = Inr (evs, rejected)" "honest_logs view logs" "ev \<in> set evs"
  shows "f \<le> event_block ev"
proof -
  let ?logs = "filter (\<lambda>l. case lg_block_number l of None \<Rightarrow> False | Some b \<Rightarrow> f \<le> b \<and> b \<le> t) logs"
  obtain contract where "verify_logs (verify_alloy_log decode vault_id contract) ?logs ([], 0) = (evs, rejected)"
    using assms(1,2) by (auto simp: fetch_and_verify_chunk_def fetch_chunk_def and_then_Inr honest_logs_def)
  then have "evs = fst (verify_logs (verify_alloy_log decode vault_id contract) ?logs ([], 0))" by simp
  with assms(3) show ?thesis
    by (auto simp: verify_logs_set map_filter_def verify_alloy_log_def dest!: verify_log_block split: VerifyOutcome.splits option.splits)
qed

lemma observed_map:
  assumes "\<exists>r \<in> set rows. observed_row i b r" "\<And>r. observed_row i b r \<Longrightarrow> observed_row i b (f r)"
  shows "\<exists>r \<in> set (map f rows). observed_row i b r"
  using assms by auto

lemma observed_ingested:
  assumes "ingested_rows env ev l k (mark_pending tx l' k' blk h) rows rows'" "\<exists>r \<in> set rows. observed_row i b r" "b < l'"
  shows "\<exists>r \<in> set rows'. observed_row i b r"
proof -
  from assms(2) obtain r where r: "r \<in> set rows" "observed_row i b r" by blast
  obtain s extra where rows': "rows' = map (mark_pending tx l' k' blk h) (map s rows @ extra)"
    and s: "\<forall>r \<in> set rows. s r = r \<or> content_matches ev r \<and> s r = stamp_anchor (tx_hash (ev_anchor ev)) l k r"
    using assms(1) unfolding ingested_rows_def by blast
  have "s r = r" using s r by (auto simp: content_matches_def observed_row_def)
  moreover have "mark_pending tx l' k' blk h r = r" using r(2) assms(3) by (auto simp: mark_pending_def anchor_matches_def observed_row_def)
  ultimately show ?thesis using r unfolding rows' by force
qed

lemma observed_ingest:
  assumes "base < event_block ev" "b \<le> uint base"
  shows "ok_keeps (observed_before i b base) (ingest_event_v1 env clk ev)"
proof (rule ok_keepsI)
  fix s a s'
  assume q: "observed_before i b base s" and run: "ingest_event_v1 env clk ev s = (Inr a, s')"
  obtain s1 s2 out u where reg: "register_event (fst clk) ev s = (Inr u, s1)"
    and ing: "on_tables (ingest_pending_chain_revision env (snd clk) (ve_event ev) (event_block ev) (ve_block_hash ev)) s1 = (Inr out, s2)"
    and ob: "observe_event ev s2 = (Inr (), s')"
    using run by (auto simp: ingest_event_v1_def op_seq_Inr)
  have p1: "kv_vault (fst s1) = kv_vault (fst s)" "pg_detector (snd s1) = pg_detector (snd s)" "pg_cursor (snd s1) = pg_cursor (snd s)"
    using reg by (auto simp: register_event_def op_bind_Inr on_handle_def register_signer_def report_def split: sum.splits prod.splits if_splits)
  have ids: "distinct (map rv_revision_id (v_revisions (kv_vault (fst s1))))" using q p1 by (simp add: observed_before_def ids_distinct_def)
  obtain v2 where v2: "ingest_pending_chain_revision env (snd clk) (ve_event ev) (event_block ev) (ve_block_hash ev) (kv_vault (fst s1)) = (Inr out, v2)"
      "kv_vault (fst s2) = v2" "snd s2 = snd s1"
    using ing by (auto simp: on_tables_run)
  have "b < uint (event_block ev)" using assms by (simp add: word_less_def)
  with ids v2(1) q p1 have "\<exists>r \<in> set (v_revisions v2). observed_row i b r"
    by (elim ingest_pending_rows) (auto simp: i64_try_from_Some event_block_def observed_before_def elim!: observed_ingested)
  moreover have "ids_distinct v2" using ok_keepsD[OF ingest_pending_distinct _ v2(1)] ids by (simp add: ids_distinct_def)
  moreover have "\<forall>n \<in> fst ` set (rd_observed (record_block (event_block ev) (ve_block_hash ev) (pg_detector (snd s)))). base < n"
    using q assms(1) by (auto simp: observed_before_def record_block_def maybe_evict_def Let_def set_insort_key)
  moreover have "kv_vault (fst s') = kv_vault (fst s2)" "pg_cursor (snd s') = pg_cursor (snd s2)"
      "pg_detector (snd s') = record_block (event_block ev) (ve_block_hash ev) (pg_detector (snd s2))"
    using ob by (auto simp: observe_event_def op_seq_Inr report_def)
  ultimately show "observed_before i b base s'" using q p1 v2 by (simp add: observed_before_def)
qed

lemma detected_above:
  assumes "detect_reorg get_block d = Inr (Some i)" "\<forall>n \<in> fst ` set (rd_observed d). base < n"
  shows "base < affected_block_low i"
proof -
  obtain w where w: "detect_window get_block (rd_observed d) (None, None) = Inr w"
      "Some i = (case w of (Some l, Some h) \<Rightarrow> Some \<lparr> affected_block_low = l, affected_block_high = h \<rparr> | _ \<Rightarrow> None)"
    using assms(1) by (auto simp: detect_reorg_def and_then_Inr)
  from detect_window_spans[OF w(1), of "{}"] have "spans w (changed_blocks get_block (rd_observed d))" by simp
  with w(2) have "affected_block_low i \<in> changed_blocks get_block (rd_observed d)"
    by (cases "(w, changed_blocks get_block (rd_observed d))" rule: spans.cases) auto
  with assms(2) show ?thesis by (force simp: changed_blocks_def)
qed

lemma observed_reorg:
  assumes "detect_reorg get_block (pg_detector (snd s)) = Inr info" "handle_reorg info s = (Inr (), s')"
    and q: "observed_before i b base s" and b: "b \<le> uint base"
  shows "observed_before i b base s'"
proof (cases info)
  case None
  with assms show ?thesis by (simp add: handle_reorg_def)
next
  case (Some j)
  from assms(2) Some obtain rolled v where rb: "rollback_pending_revisions_in_range (affected_block_low j) (affected_block_high j) (kv_vault (fst s)) = (Inr rolled, v)"
    and s': "kv_vault (fst s') = v" "pg_cursor (snd s') = pg_cursor (snd s)" "pg_detector (snd s') = forget_window j (pg_detector (snd s))"
    by (auto simp: handle_reorg_def op_bind_Inr op_seq_Inr on_tables_run report_def)
  have "base < affected_block_low j" using detected_above[of get_block _ j base] assms(1) q Some by (simp add: observed_before_def)
  then have "\<not> rollback_selects (uint (affected_block_low j)) (uint (affected_block_high j)) r" if "observed_row i b r" for r
    using that b by (auto simp: rollback_selects_def observed_row_def word_less_def)
  then have "\<exists>r \<in> set (v_revisions v). observed_row i b r" using q rollback_rows[OF rb] by (auto simp: observed_before_def)
  moreover have "ids_distinct v" using ok_keepsD[OF distinct_primitives(1) _ rb] q by (simp add: observed_before_def)
  moreover have "\<forall>n \<in> fst ` set (rd_observed (forget_window j (pg_detector (snd s)))). base < n"
    using q by (auto simp: observed_before_def forget_window_def)
  ultimately show ?thesis using q s' by (simp add: observed_before_def)
qed

lemma observed_on_tables:
  assumes "ok_keeps ids_distinct m" "\<And>v a v'. m v = (Inr a, v') \<Longrightarrow> \<exists>r \<in> set (v_revisions v). observed_row i b r \<Longrightarrow> \<exists>r \<in> set (v_revisions v'). observed_row i b r"
  shows "ok_keeps (observed_before i b base) (on_tables m)"
proof (rule ok_keepsI)
  fix s a s'
  assume q: "observed_before i b base s" and "on_tables m s = (Inr a, s')"
  then obtain v where v: "m (kv_vault (fst s)) = (Inr a, v)" "s' = ((fst s)\<lparr>kv_vault := v\<rparr>, snd s)" by (auto simp: on_tables_run)
  have "ids_distinct v" using ok_keepsD[OF assms(1) _ v(1)] q by (simp add: observed_before_def)
  with assms(2)[OF v(1)] q v(2) show "observed_before i b base s'" by (simp add: observed_before_def)
qed

lemma observed_finalize: "observed_row i b r \<Longrightarrow> observed_row i b (finalize h r)"
  by (simp add: observed_row_def finalize_def)

lemma observed_promote: "ok_keeps (observed_before i b base) (promote h)"
proof -
  have "ok_keeps (observed_before i b base) (on_tables (promote_finalized_revisions h))"
    by (rule observed_on_tables[OF distinct_primitives(2)]) (simp add: promote_rows observed_map observed_finalize del: set_map)
  moreover have "ok_keeps (observed_before i b base) (report g)" for g
    by (simp add: ok_keeps_def report_def observed_before_def)
  ultimately show ?thesis unfolding promote_def by (intro ok_bind)
qed

lemma observed_steps:
  assumes "\<forall>k. honest_logs (wo_logs wo k) logs" "b \<le> uint base"
  shows "sync_steps (observed_before i b base) (v1_path se wo vault_id) (\<lambda>ev. base < event_block ev) base"
proof
  show "base < event_block ev" if "pa_fetch (v1_path se wo vault_id) k f t = Inr (evs, rejected)" "base < f" "ev \<in> set evs" for k f t evs rejected ev
    using fetched_in_range[of _ _ _ _ _ f t evs rejected logs ev] that assms(1) by (fastforce simp: less_le_trans)
  show "ok_keeps (observed_before i b base) (pa_ingest (v1_path se wo vault_id) clk ev)" if "base < event_block ev" for ev clk
    using observed_ingest[OF that assms(2)] by simp
  show "ok_keeps (observed_before i b base) (on_tables (pa_advance (v1_path se wo vault_id) ms n))" for ms n
    using observed_on_tables[OF distinct_primitives(4)] advance_rows(1) by (metis v1_simps(3))
  show "observed_before i b base s'" if "detect_reorg get_block (pg_detector (snd s)) = Inr info" "handle_reorg info s = (Inr (), s')"
      "observed_before i b base s" for get_block s info s'
    by (rule observed_reorg[OF that assms(2)])
qed (auto simp: observed_before_def observed_promote)

text \<open>
  C22. A reorganization between two syncs goes unnoticed. In a first-version vault, a pending revision
  that an earlier sync observed at or below the stored checkpoint is finalized by the next successful
  catch-up to a given block (\<open>until_block\<close>) that lies at least twelve above the revision's, whatever hash
  the nodes now give for that block: the detector of a sync knows only the blocks of that sync.
\<close>

theorem reorganized_revision_finalized:
  assumes "sync_from_chain_with_ws_url se wo rpc_url forced vault_id options kv = (Inr rep, kv')"
    and "revisionlog_version (kv_keys kv) = Inr V1" "ids_distinct (kv_vault kv)"
    and "last_synced_block_v1 (kv_vault kv) = Inr (Some c)" "\<not> so_from_genesis options" "so_until_block options = Some head"
    and "\<forall>k. honest_logs (wo_logs wo k) logs"
    and "r \<in> set (v_revisions (kv_vault kv))" "rv_chain_tx_hash r \<noteq> None" "rv_chain_block_number r = Some b"
    and "rv_observed_at_block r = Some b" "b \<le> uint c" "b + 12 \<le> uint head"
  shows "\<exists>r' \<in> set (v_revisions (kv_vault kv')). rv_revision_id r' = rv_revision_id r \<and> rv_revision_status r' = Finalized"
proof -
  let ?pa = "v1_path se wo vault_id" and ?Q = "observed_before (rv_revision_id r) b c"
  have head: "target_head wo options = Inr head" using assms(6) by (simp add: target_head_def)
  have run: "sync_from_chain_v1_path se wo rpc_url forced vault_id options kv = (Inr rep, kv')"
    using assms(1,2) by (simp add: sync_from_chain_with_ws_url_def op_bind_def op_try_def)
  obtain s1 p where cu: "catch_up ?pa wo head (kv, initial_progress c) = (Inr (), s1)"
    and tip: "tip_stage ?pa wo (se_chain se) rpc_url forced options head s1 = (Inr (), (kv', p))"
    by (rule v1_path_runs[OF run assms(4) head]) (use assms(5) in auto)
  have kv': "kv' = fst s1" using tip assms(6) by (simp add: tip_stage_def)
  obtain s0 s01 where loop: "chunk_loop ?pa wo head 0 (kv, initial_progress c) = (Inr (), s0)"
    and rest: "promote head s0 = (Inr (), s01)" "report (\<lambda>r. r \<lparr> sr_last_block_synced := head \<rparr>) s01 = (Inr (), s1)"
    using cu unfolding catch_up_def op_seq_Inr by auto
  have "?Q (kv, initial_progress c)"
    using assms(3,8-11) by (auto simp: observed_before_def observed_row_def initial_progress_def ReorgDetector_default_def)
  then have "?Q s0" by (rule ok_keepsD[OF sync_steps.chunk_loop_keeps[OF observed_steps[OF assms(7,12)]] _ loop])
  then obtain r0 where r0: "r0 \<in> set (v_revisions (kv_vault (fst s0)))" "observed_row (rv_revision_id r) b r0"
    by (auto simp: observed_before_def)
  obtain n where "promote_finalized_revisions head (kv_vault (fst s0)) = (Inr n, kv_vault (fst s01))"
    using rest(1) by (auto simp: promote_def op_bind_Inr on_tables_run report_def)
  moreover have "kv_vault kv' = kv_vault (fst s01)" using rest(2) by (auto simp: kv' report_def)
  ultimately have rows: "v_revisions (kv_vault kv') = map (finalize head) (v_revisions (kv_vault (fst s0)))"
    by (simp add: promote_rows)
  have depth: "unat (sat_sub head CONFIRMATION_DEPTH_FOR_FINALIZATION) = unat head - 12"
    by (simp add: unat_sat_sub CONFIRMATION_DEPTH_FOR_FINALIZATION_def)
  have "int (unat (sat_sub head CONFIRMATION_DEPTH_FOR_FINALIZATION)) = max 0 (int (unat head) - 12)" unfolding depth by linarith
  then have "uint (sat_sub head CONFIRMATION_DEPTH_FOR_FINALIZATION) = max 0 (uint head - 12)" by simp
  then have "rv_revision_status (finalize head r0) = Finalized"
    using r0(2) assms(13) by (cases "rv_revision_status r0") (auto simp: finalize_def promote_selects_def observed_row_def)
  with r0 show ?thesis unfolding rows by (intro bexI[of _ "finalize head r0"]) (auto simp: observed_row_def)
qed

text \<open>An orphaned observation: the node gives another hash for block 90.\<close>

definition example_orphan :: KeyVault where
  "example_orphan = \<lparr> kv_vault = (update_revisions (\<lambda>_. True) (\<lambda>r. r \<lparr> rv_chain_tx_hash := Some (replicate 32 6),
       rv_chain_block_number := Some 90, rv_chain_log_index := Some 0, rv_revision_status := Pending,
       rv_observed_at_block := Some 90, rv_observed_block_hash := Some (replicate 32 99) \<rparr>) example_open)
     \<lparr> v_sync_v1 := Some \<lparr> cs_last_synced_block = 99, cs_last_synced_at = 0 \<rparr> \<rparr>,
     kv_keys = example_tables V1, kv_chain = None \<rparr>"

definition example_until :: SyncOptions where
  "example_until = \<lparr> so_from_genesis = False, so_until_block = Some 110, so_prefer_websocket = False \<rparr>"

lemma example_orphan_sync:
  "is_ok (fst (sync_from_chain_with_ws_url example_sync_env example_world [] None (replicate 32 7) example_until example_orphan))"
  by code_simp

theorem reorganized_revision_finalized_witness:
  "vw_block_hash (wo_blocks example_world 0) 90 = Inr (Some (replicate 32 10)) \<and>
   (\<exists>r \<in> set (v_revisions (kv_vault example_orphan)). \<exists>rep kv'. rv_revision_status r = Pending
     \<and> rv_observed_block_hash r = Some (replicate 32 99)
     \<and> sync_from_chain_with_ws_url example_sync_env example_world [] None (replicate 32 7) example_until example_orphan = (Inr rep, kv')
     \<and> (\<exists>r' \<in> set (v_revisions (kv_vault kv')). rv_revision_id r' = rv_revision_id r \<and> rv_revision_status r' = Finalized))"
proof -
  let ?run = "sync_from_chain_with_ws_url example_sync_env example_world [] None (replicate 32 7) example_until example_orphan"
  obtain rep kv' where run: "?run = (Inr rep, kv')" using example_orphan_sync by (metis is_ok_E prod.collapse)
  have start: "revisionlog_version (kv_keys example_orphan) = Inr V1" "ids_distinct (kv_vault example_orphan)"
      "last_synced_block_v1 (kv_vault example_orphan) = Inr (Some 99)"
    by code_simp+
  have opts: "\<not> so_from_genesis example_until" "so_until_block example_until = Some 110" by (simp_all add: example_until_def)
  have logs: "\<forall>k. honest_logs (wo_logs example_world k) [example_log 100 []]" by (simp add: example_world_def example_view_honest)
  have "list_ex (\<lambda>r. rv_chain_tx_hash r = Some (replicate 32 6) \<and> rv_chain_block_number r = Some 90 \<and> rv_observed_at_block r = Some 90
      \<and> rv_revision_status r = Pending \<and> rv_observed_block_hash r = Some (replicate 32 99)) (v_revisions (kv_vault example_orphan))"
    by code_simp
  then obtain r where r: "r \<in> set (v_revisions (kv_vault example_orphan))" "rv_chain_tx_hash r \<noteq> None" "rv_chain_block_number r = Some 90"
      "rv_observed_at_block r = Some 90" "rv_revision_status r = Pending" "rv_observed_block_hash r = Some (replicate 32 99)"
    by (auto simp: list_ex_iff)
  have "\<exists>r' \<in> set (v_revisions (kv_vault kv')). rv_revision_id r' = rv_revision_id r \<and> rv_revision_status r' = Finalized"
    by (rule reorganized_revision_finalized[OF run start opts logs r(1-4)]) simp_all
  with run r show ?thesis by (auto simp: example_world_def example_view_def)
qed

end
