(* ===== verification/Sync_Status.thy ===== *)
theory Sync_Status
  imports Sync_Checkpoints Publish_Queue
begin

text \<open>
  The sync loop: the choice of the sync mode and the pull cycle (\<open>vault.rs\<close>, \<open>pull.rs\<close>), the status
  that a host shows (\<open>sync_status.rs\<close>), the drain before a lock (\<open>vault.rs\<close>) and the scheduler of the
  command line program (\<open>apps/cli/src/commands/sync_loop.rs\<close>). Which timer fires, the clock and the node
  are arguments. The lemmas show when the loop reports itself offline or in conflict, that a drain
  always ends in a locked vault, and that a pull cycle never looks at the session's deadline.
\<close>

section \<open>The sync mode\<close>

datatype SyncMode = Slow | OfferFast | AlwaysFast

datatype SyncModePreference = PreferAuto | PreferAlwaysSlow | PreferAlwaysFast

fun to_meta_str :: "SyncModePreference \<Rightarrow> string option" where
  "to_meta_str PreferAuto = None"
| "to_meta_str PreferAlwaysSlow = Some ''always_slow''"
| "to_meta_str PreferAlwaysFast = Some ''always_fast''"

definition from_meta_str :: "string option \<Rightarrow> StoreError + SyncModePreference" where
  "from_meta_str s =
     (case s of None \<Rightarrow> Inr PreferAuto
      | Some v \<Rightarrow> if v = ''always_slow'' then Inr PreferAlwaysSlow
                 else if v = ''always_fast'' then Inr PreferAlwaysFast
                 else Inl (Corrupted ''meta.sync_mode_preference contains unrecognized value''))"

definition sync_mode_preference :: "KeyVault \<Rightarrow> StoreError + SyncModePreference" where
  "sync_mode_preference kv = from_meta_str (kt_sync_mode_preference (kv_keys kv))"

definition set_sync_mode_preference :: "SyncModePreference \<Rightarrow> unit key_op" where
  "set_sync_mode_preference pref =
     op_modify (\<lambda>kv. kv \<lparr> kv_keys := (kv_keys kv) \<lparr> kt_sync_mode_preference := to_meta_str pref \<rparr> \<rparr>)"

definition select_sync_mode :: "KeyVault \<Rightarrow> StoreError + SyncMode" where
  "select_sync_mode kv =
     and_then (sync_mode_preference kv) (\<lambda>pref.
     case pref of
       PreferAlwaysSlow \<Rightarrow> Inr Slow
     | PreferAlwaysFast \<Rightarrow> Inr AlwaysFast
     | PreferAuto \<Rightarrow> and_then (last_synced_block_v1 (kv_vault kv)) (\<lambda>b. Inr (if b = None then OfferFast else Slow)))"

section \<open>One pull cycle\<close>

definition PULL_INTERVAL_SECS_DEFAULT :: u64 where "PULL_INTERVAL_SECS_DEFAULT = 60"
definition PULL_INTERVAL_SECS_MIN :: u64 where "PULL_INTERVAL_SECS_MIN = 5"
definition PULL_INTERVAL_SECS_MAX :: u64 where "PULL_INTERVAL_SECS_MAX = 3600"

definition resolve_pull_interval_secs_from :: "bytes option \<Rightarrow> u64" where
  "resolve_pull_interval_secs_from raw =
     (let parsed = Option.bind raw (parse_unsigned (2 ^ 64 - 1));
          v = (case parsed of None \<Rightarrow> PULL_INTERVAL_SECS_DEFAULT | Some n \<Rightarrow> of_nat n)
      in max PULL_INTERVAL_SECS_MIN (min PULL_INTERVAL_SECS_MAX v))"

record PullReport =
  pr_mode :: SyncMode
  pr_sync_report :: "SyncReport option"
  pr_pulled_at_unix_ms :: int
  pr_newly_frozen_accounts :: "AccountId set"
  pr_newly_forked_accounts :: "AccountId set"
  pr_newly_resolved_accounts :: "AccountId set"

datatype PullError = PullNoActiveSession | PullChain ChainError | PullStore StoreError

fun pull_error :: "StoreError \<Rightarrow> PullError" where
  "pull_error (ChainSyncError e) = PullChain e"
| "pull_error e = PullStore e"

definition stamp_pull :: "int \<Rightarrow> Vault \<Rightarrow> Vault" where
  "stamp_pull now_ms v = v \<lparr> v_active := map_option (\<lambda>a. a \<lparr> as_last_pull_at_unix_ms := Some now_ms \<rparr>) (v_active v) \<rparr>"

definition pull_once :: "SyncEnv \<Rightarrow> SyncWorld \<Rightarrow> bytes \<Rightarrow> bytes \<Rightarrow> int \<Rightarrow> (KeyVault, PullError, PullReport) op" where
  "pull_once se wo rpc_url vault_id now_ms =
     op_bind (op_read (\<lambda>kv. v_active (kv_vault kv) = None)) (\<lambda>inactive.
     if inactive then op_fail PullNoActiveSession
     else op_bind (op_try (\<lambda>kv. map_sum PullStore id (snapshot_conflicts (kv_vault kv)))) (\<lambda>pre_snapshot.
          op_bind (op_try (\<lambda>kv. map_sum PullStore id (select_sync_mode kv))) (\<lambda>mode.
          op_bind (case mode of
              Slow \<Rightarrow> op_bind (map_error pull_error (sync_from_chain se wo rpc_url vault_id SyncOptions_default)) (\<lambda>r. op_ret (Some r))
            | OfferFast \<Rightarrow> op_ret None
            | AlwaysFast \<Rightarrow> op_ret None) (\<lambda>sync_report.
          op_bind (op_try (\<lambda>kv. map_sum PullStore id (snapshot_conflicts (kv_vault kv)))) (\<lambda>post_snapshot.
          let delta = diff_conflict_snapshots pre_snapshot post_snapshot
          in op_seq (op_modify (\<lambda>kv. kv \<lparr> kv_vault := stamp_pull now_ms (kv_vault kv) \<rparr>))
               (op_ret \<lparr> pr_mode = mode, pr_sync_report = sync_report, pr_pulled_at_unix_ms = now_ms,
                  pr_newly_frozen_accounts = cd_added_frozen delta, pr_newly_forked_accounts = cd_added_forked delta,
                  pr_newly_resolved_accounts = cd_removed_frozen delta \<rparr>))))))"

definition last_pull_at_unix_ms :: "Vault \<Rightarrow> int option" where
  "last_pull_at_unix_ms v = (case v_active v of None \<Rightarrow> None | Some a \<Rightarrow> as_last_pull_at_unix_ms a)"

section \<open>The status\<close>

definition OFFLINE_THRESHOLD_FAILURES :: u32 where "OFFLINE_THRESHOLD_FAILURES = 3"
definition SYNCED_STALENESS_THRESHOLD_MS :: int where "SYNCED_STALENESS_THRESHOLD_MS = 5 * 60 * 1000"

datatype SyncStatus =
    Synced
  | Syncing (syncing_mode: SyncMode)
  | Offline (offline_failures: u32)
  | ConflictsPending (conflict_count: u32)
  | BlockedOnBalance (needed_wei: u128) (available_wei: u128)
  | ActionRequired (action_reason: string)

datatype PullErrorKind = ChainKind | StoreKind

datatype BatchFlushErrorKind =
    BalanceInsufficient u128 u128 nat
  | FlushChainKind
  | FlushStoreKind
  | FlushNoActiveSessionKind

datatype LastPullOutcome =
    PullSuccess (success_mode: SyncMode) (newly_frozen_count: u32) (newly_resolved_count: u32)
  | PullFailure PullErrorKind
  | PullLocked

datatype LastFlushOutcome = FlushSuccess | FlushFailure BatchFlushErrorKind

datatype GasBalanceState =
    Sufficient (sufficient_balance: u128) (sufficient_estimate: u128)
  | RequiresActiveAccount (requires_balance: u128) (requires_estimate: u128)
  | TopUpInFlight (initiated_at_unix: u64)
  | UnknownBalance (unknown_reason: string)

record SyncStatusInputs =
  in_last_pull_outcome :: "LastPullOutcome option"
  in_last_flush_outcome :: "LastFlushOutcome option"
  in_publish_queue :: PublishQueueState
  in_conflicts_count :: u32
  in_conflict_delta :: ConflictDelta
  in_last_pull_at_unix_ms :: "int option"
  in_consecutive_pull_failures :: u32
  in_balance_state :: GasBalanceState
  in_now_unix_ms :: int

definition compute_next_status :: "SyncStatus \<Rightarrow> SyncStatusInputs \<Rightarrow> SyncStatus" where
  "compute_next_status prev inputs =
     (if in_last_pull_outcome inputs = Some PullLocked then ActionRequired ''vault locked''
      else if in_last_pull_outcome inputs = Some (PullFailure StoreKind) then ActionRequired ''store error during sync''
      else case in_last_flush_outcome inputs of
        Some (FlushFailure (BalanceInsufficient cost balance _)) \<Rightarrow> BlockedOnBalance cost balance
      | _ \<Rightarrow>
          if OFFLINE_THRESHOLD_FAILURES \<le> in_consecutive_pull_failures inputs then Offline (in_consecutive_pull_failures inputs)
          else if 0 < in_conflicts_count inputs then ConflictsPending (in_conflicts_count inputs)
          else (case in_last_pull_outcome inputs of
                  Some (PullSuccess mode _ _) \<Rightarrow> (case mode of Slow \<Rightarrow> Synced | _ \<Rightarrow> Syncing mode)
                | _ \<Rightarrow> (case in_last_pull_at_unix_ms inputs of
                           Some last_pull_ms \<Rightarrow>
                             if SYNCED_STALENESS_THRESHOLD_MS < in_now_unix_ms inputs - last_pull_ms then Syncing Slow else Synced
                         | None \<Rightarrow> Syncing Slow)))"

definition sync_status_inputs :: "ConflictSnapshot \<Rightarrow> LastPullOutcome option \<Rightarrow> LastFlushOutcome option \<Rightarrow> u32
    \<Rightarrow> GasBalanceState \<Rightarrow> int \<Rightarrow> Vault \<Rightarrow> StoreError + SyncStatusInputs" where
  "sync_status_inputs prior last_pull last_flush failures balance now_ms v =
     and_then (publish_queue_state v) (\<lambda>queue.
     and_then (list_conflicts_since prior v) (\<lambda>delta.
     and_then (list_frozen_accounts v) (\<lambda>frozen.
     and_then (all_forked_accounts v) (\<lambda>forked.
     Inr \<lparr> in_last_pull_outcome = last_pull, in_last_flush_outcome = last_flush, in_publish_queue = queue,
           in_conflicts_count = count_u32 (card (set frozen \<union> set forked)), in_conflict_delta = delta,
           in_last_pull_at_unix_ms = last_pull_at_unix_ms v, in_consecutive_pull_failures = failures,
           in_balance_state = balance, in_now_unix_ms = now_ms \<rparr>))))"

section \<open>The drain before a lock\<close>

definition on_queue :: "(Vault \<times> 'w, 'e, 'a) op \<Rightarrow> (KeyVault \<times> 'w, 'e, 'a) op" where
  "on_queue m s = (case m (kv_vault (fst s), snd s) of (r, (v, w)) \<Rightarrow> (r, ((fst s) \<lparr> kv_vault := v \<rparr>, w)))"

definition lock_with_drain :: "(bytes \<Rightarrow> bytes) \<Rightarrow> (PublishOneError \<Rightarrow> string) \<Rightarrow> 'w ChainAdapter \<Rightarrow> DeviceKey
    \<Rightarrow> (nat \<Rightarrow> nat \<Rightarrow> Ambient) \<Rightarrow> (KeyVault \<times> 'w, BatchFlushError, unit) op" where
  "lock_with_drain keccak256 display adapter device am s =
     (if v_active (kv_vault (fst s)) = None then (Inl NoActiveSession, s)
      else case on_queue (flush_publish_queue keccak256 display adapter device am) s of
             (flush_result, (kv, w)) \<Rightarrow> (map_sum id (\<lambda>_. ()) flush_result, (kv \<lparr> kv_vault := lock (kv_vault kv) \<rparr>, w)))"

section \<open>The scheduler\<close>

text \<open>What the scheduler holds fixed; \<open>ho_once\<close> is the flag that ends it after one tick.\<close>

record 'w HostEnv =
  ho_sync :: SyncEnv
  ho_keccak256 :: "bytes \<Rightarrow> bytes"
  ho_display :: "PublishOneError \<Rightarrow> string"
  ho_adapter :: "'w ChainAdapter"
  ho_device :: DeviceKey
  ho_rpc_url :: bytes
  ho_vault_id :: bytes
  ho_once :: bool

text \<open>
  One turn of the loop: whether an interrupt was seen before it, which timer fires (with the node or the
  clock readings of its work), the cached balance and the clock afterwards.
\<close>

datatype HostTick = PullTick (tick_world: SyncWorld) (tick_pull_ms: int) | FlushTick (tick_ambient: "nat \<Rightarrow> nat \<Rightarrow> Ambient")

record LoopTurn =
  lt_shutdown :: bool
  lt_tick :: HostTick
  lt_balance :: GasBalanceState
  lt_now_ms :: int

record LoopState =
  ls_last_pull_outcome :: "LastPullOutcome option"
  ls_last_flush_outcome :: "LastFlushOutcome option"
  ls_consecutive_pull_failures :: u32
  ls_prior_conflict_snapshot :: ConflictSnapshot
  ls_prev_status :: SyncStatus
  ls_sent :: "SyncStatus list"

datatype LoopExit = StillRunning | ShutdownSigint | SessionExpiredBreak | OnceModeExit

definition do_pull_tick :: "SyncEnv \<Rightarrow> SyncWorld \<Rightarrow> bytes \<Rightarrow> bytes \<Rightarrow> int \<Rightarrow> KeyVault
    \<Rightarrow> (bool \<times> (u32 \<times> LastPullOutcome) option) \<times> KeyVault" where
  "do_pull_tick se wo rpc_url vault_id now_ms kv =
     (case pull_once se wo rpc_url vault_id now_ms kv of
        (Inr r, kv') \<Rightarrow> ((False, Some (0, PullSuccess (pr_mode r) (count_u32 (card (pr_newly_frozen_accounts r)))
                            (count_u32 (card (pr_newly_resolved_accounts r))))), kv')
      | (Inl PullNoActiveSession, kv') \<Rightarrow> ((True, None), kv')
      | (Inl (PullChain _), kv') \<Rightarrow> ((False, Some (1, PullFailure ChainKind)), kv')
      | (Inl (PullStore _), kv') \<Rightarrow> ((False, Some (0, PullFailure StoreKind)), kv'))"

fun flush_outcome :: "BatchFlushError + BatchFlushReport \<Rightarrow> bool \<times> LastFlushOutcome option" where
  "flush_outcome (Inr _) = (False, Some FlushSuccess)"
| "flush_outcome (Inl NoActiveSession) = (True, None)"
| "flush_outcome (Inl (BalanceInsufficientForBatch cost balance n)) = (False, Some (FlushFailure (BalanceInsufficient cost balance n)))"
| "flush_outcome (Inl (FlushChainError _)) = (False, Some (FlushFailure FlushChainKind))"
| "flush_outcome (Inl (FlushStore _)) = (False, Some (FlushFailure FlushStoreKind))"

definition do_flush_tick :: "'w HostEnv \<Rightarrow> (nat \<Rightarrow> nat \<Rightarrow> Ambient) \<Rightarrow> KeyVault \<times> 'w
    \<Rightarrow> (bool \<times> LastFlushOutcome option) \<times> KeyVault \<times> 'w" where
  "do_flush_tick ho am s =
     (let dirty = (case publish_queue_state (kv_vault (fst s)) of Inl _ \<Rightarrow> 0 | Inr q \<Rightarrow> qs_dirty_count q)
      in if dirty = 0 then ((False, None), s)
         else case on_queue (flush_publish_queue (ho_keccak256 ho) (ho_display ho) (ho_adapter ho) (ho_device ho) am) s of
                (r, s') \<Rightarrow> (flush_outcome r, s'))"

definition note_pull :: "(u32 \<times> LastPullOutcome) option \<Rightarrow> LoopState \<Rightarrow> LoopState" where
  "note_pull outcome ls =
     (case outcome of None \<Rightarrow> ls
      | Some (delta, lpo) \<Rightarrow>
          ls \<lparr> ls_consecutive_pull_failures := (case lpo of PullSuccess _ _ _ \<Rightarrow> 0
                 | _ \<Rightarrow> sat_add (ls_consecutive_pull_failures ls) delta), ls_last_pull_outcome := Some lpo \<rparr>)"

definition note_flush :: "LastFlushOutcome option \<Rightarrow> LoopState \<Rightarrow> LoopState" where
  "note_flush outcome ls = (case outcome of None \<Rightarrow> ls | Some lfo \<Rightarrow> ls \<lparr> ls_last_flush_outcome := Some lfo \<rparr>)"

text \<open>The work of the timer that fired; the result says whether the loop ends.\<close>

definition host_tick :: "'w HostEnv \<Rightarrow> HostTick \<Rightarrow> (KeyVault \<times> 'w) \<times> LoopState \<Rightarrow> bool \<times> (KeyVault \<times> 'w) \<times> LoopState" where
  "host_tick ho tick s =
     (case (tick, s) of
        (PullTick wo ms, ((kv, w), ls)) \<Rightarrow>
          (case do_pull_tick (ho_sync ho) wo (ho_rpc_url ho) (ho_vault_id ho) ms kv of
             ((b, outcome), kv') \<Rightarrow> (b, (kv', w), note_pull outcome ls))
      | (FlushTick am, (kvw, ls)) \<Rightarrow>
          (case do_flush_tick ho am kvw of ((b, outcome), kvw') \<Rightarrow> (b, kvw', note_flush outcome ls)))"

definition send_status :: "LoopTurn \<Rightarrow> ((KeyVault \<times> 'w) \<times> LoopState, StoreError, unit) op" where
  "send_status turn =
     op_bind (op_try (\<lambda>(kvw, ls). sync_status_inputs (ls_prior_conflict_snapshot ls) (ls_last_pull_outcome ls)
       (ls_last_flush_outcome ls) (ls_consecutive_pull_failures ls) (lt_balance turn) (lt_now_ms turn) (kv_vault (fst kvw)))) (\<lambda>inputs.
     op_seq (op_modify (\<lambda>(kvw, ls). let status = compute_next_status (ls_prev_status ls) inputs
       in (kvw, ls \<lparr> ls_prev_status := status, ls_sent := ls_sent ls @ [status] \<rparr>)))
    (op_bind (op_try (\<lambda>(kvw, ls). snapshot_conflicts (kv_vault (fst kvw)))) (\<lambda>snapshot.
     op_modify (\<lambda>(kvw, ls). (kvw, ls \<lparr> ls_prior_conflict_snapshot := snapshot \<rparr>)))))"

text \<open>The loop over the turns that are given; it is still running when they are used up.\<close>

fun host_loop :: "'w HostEnv \<Rightarrow> LoopTurn list \<Rightarrow> ((KeyVault \<times> 'w) \<times> LoopState, StoreError, LoopExit) op" where
  "host_loop ho [] s = (Inr StillRunning, s)"
| "host_loop ho (turn # turns) s =
     (if lt_shutdown turn then (Inr ShutdownSigint, s)
      else case host_tick ho (lt_tick turn) s of
             (True, s') \<Rightarrow> (Inr SessionExpiredBreak, s')
           | (False, s') \<Rightarrow>
               (case send_status turn s' of
                  (Inl e, s'') \<Rightarrow> (Inl e, s'')
                | (Inr _, s'') \<Rightarrow> if ho_once ho then (Inr OnceModeExit, s'') else host_loop ho turns s''))"

definition initial_loop :: "ConflictSnapshot \<Rightarrow> LoopState" where
  "initial_loop snapshot = \<lparr> ls_last_pull_outcome = None, ls_last_flush_outcome = None, ls_consecutive_pull_failures = 0,
     ls_prior_conflict_snapshot = snapshot, ls_prev_status = Syncing Slow, ls_sent = [] \<rparr>"

definition run_loop_body :: "'w HostEnv \<Rightarrow> LoopTurn list \<Rightarrow> KeyVault \<times> 'w \<Rightarrow> (StoreError + LoopExit) \<times> (KeyVault \<times> 'w) \<times> SyncStatus list" where
  "run_loop_body ho turns s =
     (case snapshot_conflicts (kv_vault (fst s)) of
        Inl e \<Rightarrow> (Inl e, s, [])
      | Inr snapshot \<Rightarrow> (case host_loop ho turns (s, initial_loop snapshot) of (r, (s', ls)) \<Rightarrow> (r, s', ls_sent ls)))"

section \<open>Preferences and intervals\<close>

lemma preference_roundtrip: "from_meta_str (to_meta_str pref) = Inr pref"
  by (cases pref) (simp_all add: from_meta_str_def)

lemma pull_interval_bounds: "5 \<le> resolve_pull_interval_secs_from raw" "resolve_pull_interval_secs_from raw \<le> 3600"
  by (simp_all add: resolve_pull_interval_secs_from_def Let_def PULL_INTERVAL_SECS_MIN_def PULL_INTERVAL_SECS_MAX_def)

section \<open>The first sync of a second-version vault\<close>

definition preference_is :: "string option \<Rightarrow> KeyVault \<times> SyncProgress \<Rightarrow> bool" where
  "preference_is x s \<longleftrightarrow> kt_sync_mode_preference (kv_keys (fst s)) = x"

lemma preference_pure [ok_intros]:
  "ok_keeps (preference_is x) (progress f)" "ok_keeps (preference_is x) (report g)" "ok_keeps (preference_is x) (on_tables m)"
  by (auto simp: ok_keeps_def preference_is_def report_def on_tables_run)

lemma preference_register [ok_intros]: "ok_keeps (preference_is x) (register_event ms ev)"
proof -
  have "ok_keeps (preference_is x) (on_handle (register_signer a b ms))" for a b
    by (auto simp: ok_keeps_def preference_is_def on_handle_def register_signer_def auto_register_device_from_chain_sync_def
        and_then_Inr split: sum.splits prod.splits if_splits)
  then show ?thesis unfolding register_event_def by (intro ok_intros)
qed

interpretation preference_v2: sync_steps "preference_is x" "v2_path se wo vault_id devices" "\<lambda>_. True" 0 for x se wo vault_id devices
proof
  show "ok_keeps (preference_is x) (pa_ingest (v2_path se wo vault_id devices) clk ev)" for clk ev
    unfolding v2_path_def ingest_event_v2_def observe_event_def by (simp, intro conjI impI ok_intros)
  show "preference_is x s'" if "handle_reorg info s = (Inr (), s')" "preference_is x s" for info s s'
  proof -
    have "ok_keeps (preference_is x) (handle_reorg info)" unfolding handle_reorg_def by (cases info) (auto intro!: ok_intros)
    then show ?thesis by (rule ok_keepsD) (use that in auto)
  qed
  show "ok_keeps (preference_is x) (promote h)" for h unfolding promote_def by (intro ok_intros)
qed (auto simp: preference_is_def intro: ok_intros)

lemma reevaluate_checkpoint: "ok_keeps (v1_checkpoint x) (reevaluate_revocation_against_set devices)"
proof -
  have "ok_keeps (v1_checkpoint x) (reevaluate_rows devices rows n)" for rows n
    by (induction rows arbitrary: n) (auto intro!: ok_intros simp: v1_checkpoint_def update_revisions_def)
  then show ?thesis unfolding reevaluate_revocation_against_set_def by (intro ok_intros)
qed

lemma pull_offers:
  assumes "select_sync_mode kv = Inr OfferFast" "pull_once se wo rpc_url vault_id ms kv = (Inr rep, kv')"
  shows "pr_sync_report rep = None \<and> kv' = kv \<lparr> kv_vault := stamp_pull ms (kv_vault kv) \<rparr>"
  using assms by (auto simp: pull_once_def op_bind_def op_try_def op_seq_def op_read_def op_fail_def op_ret_def op_modify_def Let_def
      split: if_splits sum.splits)

lemma offers_first_sync:
  "kt_sync_mode_preference (kv_keys kv) = None \<Longrightarrow> v_sync_v1 (kv_vault kv) = None \<Longrightarrow> select_sync_mode kv = Inr OfferFast"
  by (simp add: select_sync_mode_def sync_mode_preference_def from_meta_str_def last_synced_block_v1_def synced_block_def)

lemma v2_sync_keeps_position:
  assumes "sync_from_chain_with_ws_url se wo rpc_url forced vault_id options kv = (Inr rep, kv')" "revisionlog_version (kv_keys kv) = Inr V2"
  shows "v_sync_v1 (kv_vault kv') = v_sync_v1 (kv_vault kv)"
    and "kt_sync_mode_preference (kv_keys kv') = kt_sync_mode_preference (kv_keys kv)"
proof -
  have run: "sync_from_chain_v2_path se wo rpc_url forced vault_id options kv = (Inr rep, kv')"
    using assms by (simp add: sync_from_chain_with_ws_url_def op_bind_def op_try_def)
  let ?x = "v_sync_v1 (kv_vault kv)" and ?y = "kt_sync_mode_preference (kv_keys kv)"
  obtain cursor head devices s1 s1' s2 p n where
    cu: "catch_up (v2_path se wo vault_id devices) wo head (kv, initial_progress cursor) = (Inr (), s1)"
    and re: "on_tables (reevaluate_revocation_against_set devices) s1 = (Inr n, s1')"
    and rep: "report (\<lambda>r. r \<lparr> sr_revisions_revoked := sat_add (sr_revisions_revoked r) n \<rparr>) s1' = (Inr (), s2)"
    and tip: "tip_stage (v2_path se wo vault_id devices) wo (se_chain se) rpc_url forced options head s2 = (Inr (), (kv', p))"
    by (rule v2_path_stages[OF run])
  have "on_rows (v1_checkpoint ?x) s1"
    by (rule ok_keepsD[OF position_v2.catch_up_keeps _ cu]) (simp add: on_rows_def v1_checkpoint_def)
  from ok_keepsD[OF ok_report ok_keepsD[OF ok_on_tables[OF reevaluate_checkpoint] this re] rep]
  have position: "on_rows (v1_checkpoint ?x) (kv', p)" by (rule ok_keepsD[OF position_v2.tip_stage_keeps _ tip, rotated]) simp
  have "preference_is ?y s1"
    by (rule ok_keepsD[OF preference_v2.catch_up_keeps _ cu]) (simp add: preference_is_def)
  from ok_keepsD[OF preference_pure(2) ok_keepsD[OF preference_pure(3) this re] rep]
  have "preference_is ?y (kv', p)" by (rule ok_keepsD[OF preference_v2.tip_stage_keeps _ tip, rotated]) simp
  with position show "v_sync_v1 (kv_vault kv') = v_sync_v1 (kv_vault kv)" "kt_sync_mode_preference (kv_keys kv') = kt_sync_mode_preference (kv_keys kv)"
    by (simp_all add: on_rows_def v1_checkpoint_def preference_is_def)
qed

text \<open>
  C28. A second-version vault with the default preference never gets past its first sync: a successful
  sync leaves the mode at the offer of a faster first sync, because the choice looks at the checkpoint of the
  first-version log, and every pull cycle afterwards reads nothing from the chain.
\<close>

theorem second_version_pull_never_syncs:
  assumes "sync_from_chain_with_ws_url se wo rpc_url forced vault_id options kv = (Inr rep, kv')"
    and "revisionlog_version (kv_keys kv) = Inr V2" "kt_sync_mode_preference (kv_keys kv) = None" "v_sync_v1 (kv_vault kv) = None"
  shows "select_sync_mode kv' = Inr OfferFast
    \<and> (\<forall>wo' ms report kv''. pull_once se wo' rpc_url vault_id ms kv' = (Inr report, kv'') \<longrightarrow>
         pr_sync_report report = None \<and> kv_keys kv'' = kv_keys kv' \<and> v_revisions (kv_vault kv'') = v_revisions (kv_vault kv')
         \<and> v_sync_v2 (kv_vault kv'') = v_sync_v2 (kv_vault kv'))"
proof -
  have offer: "select_sync_mode kv' = Inr OfferFast"
    by (rule offers_first_sync) (simp_all add: v2_sync_keeps_position[OF assms(1,2)] assms(3,4))
  then show ?thesis by (auto simp: stamp_pull_def dest: pull_offers)
qed

section \<open>The loop and the session\<close>

text \<open>A vault that holds the data key \<open>k\<close> in session state \<open>st\<close>, with nothing to publish and no first sync done.\<close>

definition idle_vault :: "bytes \<Rightarrow> SessionState \<Rightarrow> KeyVault \<Rightarrow> bool" where
  "idle_vault k st kv \<longleftrightarrow> map_option as_vdk (v_active (kv_vault kv)) = Some k \<and> v_session_state (kv_vault kv) = st
     \<and> kt_sync_mode_preference (kv_keys kv) = None \<and> v_sync_v1 (kv_vault kv) = None \<and> v_dirty (kv_vault kv) = []
     \<and> is_ok (snapshot_conflicts (kv_vault kv))"

lemma stamp_pull_queries:
  "snapshot_conflicts (stamp_pull ms v) = snapshot_conflicts v"
  "list_frozen_accounts (stamp_pull ms v) = list_frozen_accounts v"
  "all_forked_accounts (stamp_pull ms v) = all_forked_accounts v"
  by (simp_all add: snapshot_conflicts_def list_frozen_accounts_def all_forked_accounts_def stamp_pull_def is_sql_head_def[abs_def])

lemma idle_pull:
  assumes "idle_vault k st kv"
  shows "\<exists>rep. pull_once se wo rpc_url vault_id ms kv = (Inr rep, kv \<lparr> kv_vault := stamp_pull ms (kv_vault kv) \<rparr>)"
    and "idle_vault k st (kv \<lparr> kv_vault := stamp_pull ms (kv_vault kv) \<rparr>)"
proof -
  obtain sn where sn: "snapshot_conflicts (kv_vault kv) = Inr sn" using assms by (auto simp: idle_vault_def elim: is_ok_E)
  have "select_sync_mode kv = Inr OfferFast" using assms by (intro offers_first_sync) (simp_all add: idle_vault_def)
  with sn assms show "\<exists>rep. pull_once se wo rpc_url vault_id ms kv = (Inr rep, kv \<lparr> kv_vault := stamp_pull ms (kv_vault kv) \<rparr>)"
    by (auto simp: pull_once_def idle_vault_def op_bind_def op_try_def op_seq_def op_read_def op_ret_def op_modify_def Let_def)
  show "idle_vault k st (kv \<lparr> kv_vault := stamp_pull ms (kv_vault kv) \<rparr>)"
    using assms by (simp add: idle_vault_def stamp_pull_queries) (auto simp: stamp_pull_def)
qed

lemma idle_inputs:
  assumes "idle_vault k st kv"
  shows "\<exists>inputs. sync_status_inputs prior a b n bal ms (kv_vault kv) = Inr inputs"
proof -
  obtain frozen forked where "list_frozen_accounts (kv_vault kv) = Inr frozen" "all_forked_accounts (kv_vault kv) = Inr forked"
    using assms by (auto simp: idle_vault_def snapshot_conflicts_def and_then_def elim!: is_ok_E split: sum.splits)
  moreover have "list_dirty (kv_vault kv) = Inr []" using assms by (simp add: idle_vault_def list_dirty_def)
  ultimately show ?thesis by (simp add: sync_status_inputs_def publish_queue_state_def list_conflicts_since_def snapshot_conflicts_def and_then_def)
qed

lemma idle_host_tick:
  assumes "idle_vault k st (fst (fst s))"
  obtains kv' ls' where "host_tick ho tick s = (False, (kv', snd (fst s)), ls')" "idle_vault k st kv'"
proof (cases tick)
  case (PullTick wo ms)
  obtain kv w ls where s: "s = ((kv, w), ls)" by (metis prod.collapse)
  with assms have kv: "idle_vault k st kv" by simp
  from idle_pull(1)[OF kv] obtain rep where "pull_once (ho_sync ho) wo (ho_rpc_url ho) (ho_vault_id ho) ms kv
      = (Inr rep, kv \<lparr> kv_vault := stamp_pull ms (kv_vault kv) \<rparr>)" by blast
  with idle_pull(2)[OF kv] that PullTick s show ?thesis by (simp add: host_tick_def do_pull_tick_def)
next
  case (FlushTick am)
  obtain kv w ls where s: "s = ((kv, w), ls)" by (metis prod.collapse)
  with assms have "list_dirty (kv_vault kv) = Inr []" by (simp add: idle_vault_def list_dirty_def)
  then have "host_tick ho tick s = (False, (kv, w), ls)"
    by (simp add: host_tick_def FlushTick s do_flush_tick_def publish_queue_state_def note_flush_def)
  with assms that s show ?thesis by simp
qed

lemma idle_send_status:
  assumes "idle_vault k st (fst (fst s))"
  obtains ls' where "send_status turn s = (Inr (), (fst s, ls'))"
proof -
  obtain kv w ls where s: "s = ((kv, w), ls)" by (metis prod.collapse)
  with assms have kv: "idle_vault k st kv" by simp
  then obtain sn where sn: "snapshot_conflicts (kv_vault kv) = Inr sn" by (auto simp: idle_vault_def elim: is_ok_E)
  from idle_inputs[OF kv] obtain inputs where "sync_status_inputs (ls_prior_conflict_snapshot ls) (ls_last_pull_outcome ls)
      (ls_last_flush_outcome ls) (ls_consecutive_pull_failures ls) (lt_balance turn) (lt_now_ms turn) (kv_vault kv) = Inr inputs" by blast
  with sn s that show ?thesis
    by (simp add: send_status_def op_bind_def op_try_def op_seq_def op_modify_def Let_def)
qed

lemma idle_loop:
  assumes "idle_vault k st (fst (fst s))" "\<not> ho_once ho" "\<forall>turn \<in> set turns. \<not> lt_shutdown turn"
  shows "\<exists>kv' ls'. host_loop ho turns s = (Inr StillRunning, ((kv', snd (fst s)), ls')) \<and> idle_vault k st kv'"
  using assms
proof (induction turns arbitrary: s)
  case Nil
  then show ?case by (metis host_loop.simps(1) prod.collapse)
next
  case (Cons turn turns)
  obtain kv1 ls1 where t: "host_tick ho (lt_tick turn) s = (False, (kv1, snd (fst s)), ls1)" "idle_vault k st kv1"
    by (rule idle_host_tick[OF Cons(2)])
  obtain ls2 where "send_status turn ((kv1, snd (fst s)), ls1) = (Inr (), ((kv1, snd (fst s)), ls2))"
    by (rule idle_send_status[of k st "((kv1, snd (fst s)), ls1)" turn]) (simp_all add: t(2))
  with t(1) Cons(3,4) have "host_loop ho (turn # turns) s = host_loop ho turns ((kv1, snd (fst s)), ls2)" by simp
  with Cons(1)[of "((kv1, snd (fst s)), ls2)"] t(2) Cons(3,4) show ?case by simp
qed

text \<open>
  C29. The scheduler does not end an expired session. For an unlocked vault with an empty publish queue, no
  sync preference and no first-version checkpoint, which is the state of a vault that was never synced,
  the loop runs through any sequence of pull and flush ticks without a shutdown, whatever the clock
  shows, and the vault still holds its data key in the session state it started with: a pull cycle asks
  only whether key material is present, never whether the deadline has passed. Vaults in another mode or
  with queued revisions are not covered.
\<close>

theorem sync_loop_outlives_session:
  assumes "v_active (kv_vault kv) = Some a" "kt_sync_mode_preference (kv_keys kv) = None" "v_sync_v1 (kv_vault kv) = None"
    and "v_dirty (kv_vault kv) = []" "is_ok (snapshot_conflicts (kv_vault kv))"
    and "\<not> ho_once ho" "\<forall>turn \<in> set turns. \<not> lt_shutdown turn"
  shows "\<exists>kv' sent. run_loop_body ho turns (kv, w) = (Inr StillRunning, (kv', w), sent)
    \<and> map_option as_vdk (v_active (kv_vault kv')) = Some (as_vdk a) \<and> v_session_state (kv_vault kv') = v_session_state (kv_vault kv)"
proof -
  obtain sn where sn: "snapshot_conflicts (kv_vault kv) = Inr sn" using assms(5) by (auto elim: is_ok_E)
  have "idle_vault (as_vdk a) (v_session_state (kv_vault kv)) kv" using assms(1-5) by (simp add: idle_vault_def)
  with idle_loop[of "as_vdk a" "v_session_state (kv_vault kv)" "((kv, w), initial_loop sn)" ho turns] assms(6,7)
  obtain kv' ls' where "host_loop ho turns ((kv, w), initial_loop sn) = (Inr StillRunning, ((kv', w), ls'))"
      "idle_vault (as_vdk a) (v_session_state (kv_vault kv)) kv'" by auto
  with sn show ?thesis by (auto simp: run_loop_body_def idle_vault_def)
qed

section \<open>What the status says\<close>

definition in_conflict :: "Vault \<Rightarrow> AccountId set" where
  "in_conflict v = {a. \<exists>frozen. list_frozen_accounts v = Inr frozen \<and> a \<in> set frozen}
     \<union> {a. \<exists>forked. all_forked_accounts v = Inr forked \<and> a \<in> set forked}"

definition status_ok :: "SyncStatus \<Rightarrow> Vault \<Rightarrow> bool" where
  "status_ok status v \<longleftrightarrow> (case status of
      Synced \<Rightarrow> in_conflict v = {}
    | Syncing _ \<Rightarrow> in_conflict v = {}
    | Offline n \<Rightarrow> 3 \<le> n
    | ConflictsPending n \<Rightarrow> in_conflict v \<noteq> {} \<and> n = count_u32 (card (in_conflict v))
    | _ \<Rightarrow> True)"

lemma computed_status_ok:
  assumes "sync_status_inputs prior a b n bal ms v = Inr inputs"
  shows "status_ok (compute_next_status prev inputs) v"
proof -
  obtain frozen forked where l: "list_frozen_accounts v = Inr frozen" "all_forked_accounts v = Inr forked"
    and i: "in_conflicts_count inputs = count_u32 (card (set frozen \<union> set forked))"
    using assms by (auto simp: sync_status_inputs_def and_then_Inr)
  have c: "in_conflict v = set frozen \<union> set forked" by (simp add: in_conflict_def l)
  have "in_conflicts_count inputs = 0 \<longleftrightarrow> in_conflict v = {}" unfolding i c count_u32_0 by (simp add: card_eq_0_iff)
  then show ?thesis
    by (auto simp: compute_next_status_def status_ok_def i c OFFLINE_THRESHOLD_FAILURES_def word_gt_0
        split: option.splits LastFlushOutcome.splits BatchFlushErrorKind.splits LastPullOutcome.splits SyncMode.splits)
qed

definition last_status_ok :: "(KeyVault \<times> 'w) \<times> LoopState \<Rightarrow> bool" where
  "last_status_ok s \<longleftrightarrow> ls_sent (snd s) \<noteq> [] \<longrightarrow> status_ok (last (ls_sent (snd s))) (kv_vault (fst (fst s)))"

lemma send_status_ok: "send_status turn s = (Inr u, s') \<Longrightarrow> last_status_ok s'"
  by (auto simp: send_status_def op_bind_Inr op_seq_Inr op_try_Inr Let_def last_status_ok_def dest: computed_status_ok split: prod.splits)

lemma host_loop_status:
  "host_loop ho turns s = (Inr exit, s') \<Longrightarrow> last_status_ok s \<Longrightarrow> exit \<noteq> SessionExpiredBreak \<Longrightarrow> last_status_ok s'"
proof (induction turns arbitrary: s)
  case (Cons turn turns)
  obtain b s1 where t: "host_tick ho (lt_tick turn) s = (b, s1)" by (cases "host_tick ho (lt_tick turn) s")
  obtain r s2 where n: "send_status turn s1 = (r, s2)" by (cases "send_status turn s1")
  show ?case
  proof (cases "lt_shutdown turn \<or> b")
    case True
    with Cons(2-4) t show ?thesis by (auto split: if_splits)
  next
    case False
    with Cons(2) t n obtain u where r: "r = Inr u" by (cases r) auto
    with n have ok: "last_status_ok s2" by (auto intro: send_status_ok)
    show ?thesis
    proof (cases "ho_once ho")
      case True
      with Cons(2) False t n r ok show ?thesis by simp
    next
      case once: False
      with Cons(2) False t n r have "host_loop ho turns s2 = (Inr exit, s')" by simp
      from Cons(1)[OF this ok Cons(4)] show ?thesis .
    qed
  qed
qed auto

text \<open>
  C30. The last status a run of the loop sends describes the vault it leaves: a vault reported as synced or
  syncing has no frozen and no forked account, a report of pending conflicts counts exactly the
  accounts that are frozen or forked, and the offline report comes after at least three failures. Only a
  session that ended during the last tick is not reported.
\<close>

theorem loop_status_matches_vault:
  assumes "run_loop_body ho turns (kv, w) = (Inr exit, (kv', w'), sent)" "sent \<noteq> []" "exit \<noteq> SessionExpiredBreak"
  shows "case last sent of
      Synced \<Rightarrow> in_conflict (kv_vault kv') = {}
    | Syncing _ \<Rightarrow> in_conflict (kv_vault kv') = {}
    | Offline n \<Rightarrow> 3 \<le> n
    | ConflictsPending n \<Rightarrow> in_conflict (kv_vault kv') \<noteq> {} \<and> n = count_u32 (card (in_conflict (kv_vault kv')))
    | _ \<Rightarrow> True"
proof -
  obtain sn ls' where "host_loop ho turns ((kv, w), initial_loop sn) = (Inr exit, ((kv', w'), ls'))" "sent = ls_sent ls'"
    using assms(1) by (auto simp: run_loop_body_def split: sum.splits prod.splits)
  moreover have "last_status_ok ((kv, w), initial_loop sn)" by (simp add: last_status_ok_def initial_loop_def)
  ultimately have "status_ok (last sent) (kv_vault kv')"
    using host_loop_status[of ho turns "((kv, w), initial_loop sn)" exit "((kv', w'), ls')"] assms(2,3)
    by (simp add: last_status_ok_def)
  then show ?thesis by (simp add: status_ok_def)
qed

lemma lock_with_drain_locks:
  "v_active (kv_vault (fst s)) \<noteq> None \<Longrightarrow> lock_with_drain keccak display adapter device am s = (r, s') \<Longrightarrow>
     v_active (kv_vault (fst s')) = None \<and> v_session_state (kv_vault (fst s')) = Locked"
  by (auto simp: lock_with_drain_def lock_def split: prod.splits)

section \<open>Examples\<close>

lemma example_removed_pulls:
  "case sync_from_chain_with_ws_url example_sync_env example_world [] None (replicate 32 7)
       (SyncOptions_default \<lparr> so_until_block := Some 0 \<rparr>) example_removed of
     (Inl e, _) \<Rightarrow> False
   | (Inr rep, kv') \<Rightarrow> is_ok (fst (pull_once example_sync_env example_world [] (replicate 32 7) 70 kv'))"
  by code_simp

theorem second_version_pull_never_syncs_witness:
  "\<exists>rep kv' report kv''. sync_from_chain_with_ws_url example_sync_env example_world [] None (replicate 32 7)
       (SyncOptions_default \<lparr> so_until_block := Some 0 \<rparr>) example_removed = (Inr rep, kv')
     \<and> select_sync_mode kv' = Inr OfferFast
     \<and> pull_once example_sync_env example_world [] (replicate 32 7) 70 kv' = (Inr report, kv'') \<and> pr_sync_report report = None"
proof -
  let ?run = "sync_from_chain_with_ws_url example_sync_env example_world [] None (replicate 32 7)
       (SyncOptions_default \<lparr> so_until_block := Some 0 \<rparr>) example_removed"
  obtain res kv' where res: "?run = (res, kv')" by (cases ?run)
  then obtain rep where run: "?run = (Inr rep, kv')" using example_removed_pulls by (cases res) auto
  then obtain report kv'' where pull: "pull_once example_sync_env example_world [] (replicate 32 7) 70 kv' = (Inr report, kv'')"
    using example_removed_pulls by simp (metis is_ok_E prod.collapse)
  have "revisionlog_version (kv_keys example_removed) = Inr V2" "kt_sync_mode_preference (kv_keys example_removed) = None"
      "v_sync_v1 (kv_vault example_removed) = None"
    by code_simp+
  from second_version_pull_never_syncs[OF run this] run pull show ?thesis by blast
qed

definition example_host :: "MockChainAdapter HostEnv" where
  "example_host = \<lparr> ho_sync = example_sync_env, ho_keccak256 = env_keccak256 example_env, ho_display = (\<lambda>_. ''error''),
     ho_adapter = example_chain, ho_device = example_key, ho_rpc_url = [], ho_vault_id = replicate 32 7, ho_once = False \<rparr>"

definition example_turn :: "HostTick \<Rightarrow> LoopTurn" where
  "example_turn tick = \<lparr> lt_shutdown = False, lt_tick = tick, lt_balance = UnknownBalance ''polling'', lt_now_ms = 70 \<rparr>"

definition example_turns :: "LoopTurn list" where
  "example_turns = [example_turn (PullTick example_world 70), example_turn (FlushTick (\<lambda>_ _. example_ambient)),
     example_turn (PullTick example_world 80)]"

definition example_idle :: KeyVault where
  "example_idle = \<lparr> kv_vault = example_session, kv_keys = example_tables V2, kv_chain = None \<rparr>"

lemma freshness_session: "v_session_state v = v_session_state v' \<Longrightarrow> fst (check_session_freshness now v) = fst (check_session_freshness now v')"
  by (simp add: check_session_freshness_def split: SessionState.splits)

theorem sync_loop_outlives_session_witness:
  "\<exists>kv' sent. run_loop_body example_host example_turns (example_idle, mock_new) = (Inr StillRunning, (kv', mock_new), sent)
     \<and> v_active (kv_vault kv') \<noteq> None \<and> fst (check_session_freshness (10 ^ 14) (kv_vault kv')) = Inl SessionExpired"
proof -
  have "v_active (kv_vault example_idle) \<noteq> None" "kt_sync_mode_preference (kv_keys example_idle) = None"
      "v_sync_v1 (kv_vault example_idle) = None" "v_dirty (kv_vault example_idle) = []"
      "is_ok (snapshot_conflicts (kv_vault example_idle))" "fst (check_session_freshness (10 ^ 14) (kv_vault example_idle)) = Inl SessionExpired"
    by code_simp+
  note kv = this
  from kv(1) obtain a where a: "v_active (kv_vault example_idle) = Some a" by auto
  have run: "\<not> ho_once example_host" "\<forall>turn \<in> set example_turns. \<not> lt_shutdown turn"
    by (simp_all add: example_host_def example_turns_def example_turn_def)
  obtain kv' sent where loop: "run_loop_body example_host example_turns (example_idle, mock_new) = (Inr StillRunning, (kv', mock_new), sent)"
      "map_option as_vdk (v_active (kv_vault kv')) = Some (as_vdk a)" "v_session_state (kv_vault kv') = v_session_state (kv_vault example_idle)"
    using sync_loop_outlives_session[OF a kv(2-5) run, of mock_new] by blast
  with kv(6) freshness_session[OF loop(3)] show ?thesis by auto
qed

text \<open>A vault whose account another device has edited.\<close>

definition example_frozen :: KeyVault where
  "example_frozen = \<lparr> kv_vault = snd (ingest_chain_revision example_env example_ambient example_event example_open),
     kv_keys = example_tables V2, kv_chain = None \<rparr>"

lemma example_frozen_loop:
  "case run_loop_body example_host [example_turn (PullTick example_world 70)] (example_frozen, mock_new) of
     (Inr StillRunning, _, sent) \<Rightarrow> sent = [ConflictsPending 1] | _ \<Rightarrow> False"
  by code_simp

theorem loop_status_matches_vault_witness:
  "\<exists>kv' w'. run_loop_body example_host [example_turn (PullTick example_world 70)] (example_frozen, mock_new)
       = (Inr StillRunning, (kv', w'), [ConflictsPending 1]) \<and> in_conflict (kv_vault kv') \<noteq> {}"
proof -
  obtain kv' w' where run: "run_loop_body example_host [example_turn (PullTick example_world 70)] (example_frozen, mock_new)
       = (Inr StillRunning, (kv', w'), [ConflictsPending 1])"
    using example_frozen_loop by (auto split: prod.splits sum.splits LoopExit.splits)
  from loop_status_matches_vault[OF this] run show ?thesis by simp
qed

end
