(* ===== verification/Rate_Limit.thy ===== *)
theory Rate_Limit
  imports Pangolin_Prelude "HOL-Library.AList"
begin

text \<open>
  The layered rate limiter of the funder service (\<open>services/funder/src/rate_limit.rs\<close>): a token
  bucket per address and an hourly cap over all addresses. An \<open>Instant\<close> and a \<open>Duration\<close> are
  nanoseconds, a natural number; \<open>duration_since\<close> saturates at zero, as subtraction on \<open>nat\<close> does.
  The hash map is an association list, whose length is the size of the map. Each of the three
  private methods runs under its own lock; the interleavings of concurrent requests are the
  sequences of these atomic sections. The lemmas show the bounds that hold over every such
  sequence and the outcome of one check.
\<close>

section \<open>State\<close>

definition PER_ADDRESS_BUCKET_SIZE :: u32 where "PER_ADDRESS_BUCKET_SIZE = 10"

definition PER_ADDRESS_REPLENISH_INTERVAL_SECS :: u64 where "PER_ADDRESS_REPLENISH_INTERVAL_SECS = 600"

definition GLOBAL_CAP_PER_HOUR :: u32 where "GLOBAL_CAP_PER_HOUR = 200"

definition BUCKET_TTL_SECS :: nat where "BUCKET_TTL_SECS = 3600"

definition dur_secs :: "nat \<Rightarrow> nat" where "dur_secs s = s * 1000000000"

definition as_whole_secs :: "nat \<Rightarrow> nat" where "as_whole_secs d = d div 1000000000"

record TokenBucketState =
  tb_tokens :: u32
  tb_last_replenish :: nat
  tb_last_seen :: nat

record GlobalCounterState =
  gc_count :: u32
  gc_window_start :: nat

record RateLimitConfig =
  rc_per_address_bucket_size :: u32
  rc_per_address_replenish_interval_secs :: u64
  rc_global_cap_per_hour :: u32

definition RateLimitConfig_default :: RateLimitConfig where
  "RateLimitConfig_default = \<lparr> rc_per_address_bucket_size = PER_ADDRESS_BUCKET_SIZE,
     rc_per_address_replenish_interval_secs = PER_ADDRESS_REPLENISH_INTERVAL_SECS,
     rc_global_cap_per_hour = GLOBAL_CAP_PER_HOUR \<rparr>"

datatype RateLimitOutcome = Allowed | Denied nat

record RateLimiter =
  rl_per_address :: "(bytes \<times> TokenBucketState) list"
  rl_global :: GlobalCounterState
  rl_config :: RateLimitConfig

definition RateLimiter_new :: "RateLimitConfig \<Rightarrow> nat \<Rightarrow> RateLimiter" where
  "RateLimiter_new config now = \<lparr> rl_per_address = [],
     rl_global = \<lparr> gc_count = 0, gc_window_start = now \<rparr>, rl_config = config \<rparr>"

section \<open>Operations\<close>

text \<open>Lazy replenishment of a bucket.\<close>

definition replenish :: "RateLimitConfig \<Rightarrow> nat \<Rightarrow> TokenBucketState \<Rightarrow> TokenBucketState" where
  "replenish config now entry =
     (let elapsed = now - tb_last_replenish entry;
          interval_secs = unat (rc_per_address_replenish_interval_secs config);
          interval = dur_secs interval_secs
      in if 0 < interval_secs \<and> interval \<le> elapsed
         then let intervals_elapsed = as_whole_secs elapsed div interval_secs;
                  cap = unat (rc_per_address_bucket_size config);
                  new_tokens = min (unat (tb_tokens entry) + intervals_elapsed) (2 ^ 64 - 1)
              in entry \<lparr> tb_tokens := of_nat (min new_tokens cap),
                         tb_last_replenish := tb_last_replenish entry + interval * min intervals_elapsed (2 ^ 32 - 1) \<rparr>
         else entry)"

definition check_per_address :: "bytes \<Rightarrow> nat \<Rightarrow> RateLimiter \<Rightarrow> RateLimitOutcome \<times> RateLimiter" where
  "check_per_address addr now rl =
     (let m = (if 64 < length (rl_per_address rl)
               then filter (\<lambda>(_, b). now - tb_last_seen b < dur_secs BUCKET_TTL_SECS) (rl_per_address rl)
               else rl_per_address rl);
          entry = (case map_of m addr of
              Some b \<Rightarrow> b
            | None \<Rightarrow> \<lparr> tb_tokens = rc_per_address_bucket_size (rl_config rl),
                        tb_last_replenish = now, tb_last_seen = now \<rparr>);
          entry = (replenish (rl_config rl) now entry) \<lparr> tb_last_seen := now \<rparr>
      in if tb_tokens entry = 0
         then let elapsed_in_interval = now - tb_last_replenish entry;
                  interval = dur_secs (unat (rc_per_address_replenish_interval_secs (rl_config rl)));
                  remaining = as_whole_secs (interval - elapsed_in_interval)
              in (Denied (max remaining 1), rl \<lparr> rl_per_address := AList.update addr entry m \<rparr>)
         else (Allowed, rl \<lparr> rl_per_address :=
                 AList.update addr (entry \<lparr> tb_tokens := tb_tokens entry - 1 \<rparr>) m \<rparr>))"

definition check_global :: "nat \<Rightarrow> RateLimiter \<Rightarrow> RateLimitOutcome \<times> RateLimiter" where
  "check_global now rl =
     (let window = dur_secs 3600;
          state = (if window \<le> now - gc_window_start (rl_global rl)
                   then \<lparr> gc_count = 0, gc_window_start = now \<rparr> else rl_global rl)
      in if rc_global_cap_per_hour (rl_config rl) \<le> gc_count state
         then let remaining = as_whole_secs (window - (now - gc_window_start state))
              in (Denied (max remaining 1), rl \<lparr> rl_global := state \<rparr>)
         else (Allowed, rl \<lparr> rl_global := state \<lparr> gc_count := gc_count state + 1 \<rparr> \<rparr>))"

definition refund_per_address :: "bytes \<Rightarrow> RateLimiter \<Rightarrow> RateLimiter" where
  "refund_per_address addr rl =
     (case map_of (rl_per_address rl) addr of
        None \<Rightarrow> rl
      | Some entry \<Rightarrow> rl \<lparr> rl_per_address := AList.update addr
          (entry \<lparr> tb_tokens := min (sat_add (tb_tokens entry) 1) (rc_per_address_bucket_size (rl_config rl)) \<rparr>)
          (rl_per_address rl) \<rparr>)"

definition rate_limit_check :: "bytes \<Rightarrow> nat \<Rightarrow> RateLimiter \<Rightarrow> RateLimitOutcome \<times> RateLimiter" where
  "rate_limit_check addr now rl =
     (case check_per_address addr now rl of
        (Denied n, rl') \<Rightarrow> (Denied n, rl')
      | (Allowed, rl') \<Rightarrow>
          (case check_global now rl' of
             (Denied n, rl'') \<Rightarrow> (Denied n, refund_per_address addr rl'')
           | (Allowed, rl'') \<Rightarrow> (Allowed, rl'')))"

section \<open>Interleavings\<close>

text \<open>
  The atomic sections that concurrent requests interleave. The run collects, for every global
  check, the window it was counted in and its outcome.
\<close>

datatype limiter_section = PerAddress bytes | Global | Refund bytes

fun limiter_run :: "RateLimiter \<Rightarrow> (nat \<times> limiter_section) list \<Rightarrow> RateLimiter \<times> (nat \<times> RateLimitOutcome) list" where
  "limiter_run rl [] = (rl, [])"
| "limiter_run rl ((now, PerAddress addr) # ops) = limiter_run (snd (check_per_address addr now rl)) ops"
| "limiter_run rl ((now, Global) # ops) =
     (let (outcome, rl') = check_global now rl; (rl'', events) = limiter_run rl' ops
      in (rl'', (gc_window_start (rl_global rl'), outcome) # events))"
| "limiter_run rl ((now, Refund addr) # ops) = limiter_run (refund_per_address addr rl) ops"

definition tokens_inv :: "RateLimiter \<Rightarrow> bool" where
  "tokens_inv rl \<longleftrightarrow> list_all (\<lambda>(_, b). tb_tokens b \<le> rc_per_address_bucket_size (rl_config rl)) (rl_per_address rl)
     \<and> gc_count (rl_global rl) \<le> rc_global_cap_per_hour (rl_config rl)"

definition admitted_in :: "nat \<Rightarrow> (nat \<times> RateLimitOutcome) list \<Rightarrow> nat" where
  "admitted_in w events = length (filter (\<lambda>e. e = (w, Allowed)) events)"

lemma unat_u32_bound: "unat (w :: u32) < 2 ^ 32"
proof -
  have "unat w < 2 ^ LENGTH(32)" by (rule unsigned_less)
  then show ?thesis by simp
qed

lemma word_pred_le: "(w :: u32) \<noteq> 0 \<Longrightarrow> w - 1 \<le> w"
  by (simp add: word_le_nat_alt unat_minus_one)

lemma replenish_bound:
  "tb_tokens b \<le> rc_per_address_bucket_size config \<Longrightarrow>
     tb_tokens (replenish config now b) \<le> rc_per_address_bucket_size config"
proof -
  have "of_nat (min n (unat cap)) \<le> cap" for n and cap :: u32
  proof -
    have "min n (unat cap) < 2 ^ 32" using unat_u32_bound[of cap] by simp
    then show ?thesis by (simp add: word_le_nat_alt unsigned_of_nat take_bit_nat_eq_self)
  qed
  then show "tb_tokens b \<le> rc_per_address_bucket_size config \<Longrightarrow> ?thesis"
    by (auto simp: replenish_def Let_def)
qed

lemma update_list_all:
  "list_all (\<lambda>(_, b). P b) m \<Longrightarrow> P v \<Longrightarrow> list_all (\<lambda>(_, b). P b) (AList.update k v m)"
  by (induction m) auto

lemma map_of_list_all: "list_all (\<lambda>(_, b). P b) m \<Longrightarrow> map_of m k = Some v \<Longrightarrow> P v"
  by (auto simp: list_all_iff dest: map_of_SomeD)

lemma check_per_address_frame:
  "rl_config (snd (check_per_address addr now rl)) = rl_config rl"
  "rl_global (snd (check_per_address addr now rl)) = rl_global rl"
  by (simp_all add: check_per_address_def Let_def)

lemma refund_per_address_frame:
  "rl_config (refund_per_address addr rl) = rl_config rl"
  "rl_global (refund_per_address addr rl) = rl_global rl"
  by (simp_all add: refund_per_address_def split: option.splits)

lemma check_global_frame:
  "rl_config (snd (check_global now rl)) = rl_config rl"
  "rl_per_address (snd (check_global now rl)) = rl_per_address rl"
  by (simp_all add: check_global_def Let_def)

lemma check_per_address_tokens:
  assumes "tokens_inv rl"
  shows "tokens_inv (snd (check_per_address addr now rl))"
proof -
  let ?P = "\<lambda>b. tb_tokens b \<le> rc_per_address_bucket_size (rl_config rl)"
  define m where "m = (if 64 < length (rl_per_address rl)
    then filter (\<lambda>(_, b). now - tb_last_seen b < dur_secs BUCKET_TTL_SECS) (rl_per_address rl)
    else rl_per_address rl)"
  define entry where "entry = (replenish (rl_config rl) now (case map_of m addr of Some b \<Rightarrow> b
     | None \<Rightarrow> \<lparr> tb_tokens = rc_per_address_bucket_size (rl_config rl), tb_last_replenish = now, tb_last_seen = now \<rparr>))
       \<lparr> tb_last_seen := now \<rparr>"
  have m: "list_all (\<lambda>(_, b). ?P b) m" using assms by (auto simp: m_def tokens_inv_def list_all_iff)
  have e: "?P entry" unfolding entry_def
    using map_of_list_all[OF m] by (auto intro!: replenish_bound split: option.splits)
  have "tb_tokens entry \<noteq> 0 \<Longrightarrow> tb_tokens entry - 1 \<le> tb_tokens entry" by (rule word_pred_le)
  then have e': "tb_tokens entry \<noteq> 0 \<Longrightarrow> ?P (entry \<lparr> tb_tokens := tb_tokens entry - 1 \<rparr>)" using e by simp
  have "snd (check_per_address addr now rl) = rl \<lparr> rl_per_address := AList.update addr
      (if tb_tokens entry = 0 then entry else entry \<lparr> tb_tokens := tb_tokens entry - 1 \<rparr>) m \<rparr>"
    by (simp add: check_per_address_def Let_def m_def entry_def)
  then show ?thesis using update_list_all[OF m, of entry addr]
      update_list_all[OF m, of "entry \<lparr> tb_tokens := tb_tokens entry - 1 \<rparr>" addr] e e' assms
    by (simp add: tokens_inv_def)
qed

lemma refund_per_address_tokens: "tokens_inv rl \<Longrightarrow> tokens_inv (refund_per_address addr rl)"
  by (auto simp: tokens_inv_def refund_per_address_def intro!: update_list_all split: option.splits)

lemma check_global_count:
  assumes "tokens_inv rl" "check_global now rl = (outcome, rl')"
  defines "s \<equiv> gc_window_start (rl_global rl)" and "s' \<equiv> gc_window_start (rl_global rl')"
  shows "tokens_inv rl'"
    and "s' = s \<or> s + dur_secs 3600 \<le> s'"
    and "unat (gc_count (rl_global rl')) =
          (if s' = s then unat (gc_count (rl_global rl)) else 0) + (if outcome = Allowed then 1 else 0)"
proof -
  let ?cap = "rc_global_cap_per_hour (rl_config rl)"
  define state where "state = (if dur_secs 3600 \<le> now - s then \<lparr> gc_count = 0, gc_window_start = now \<rparr> else rl_global rl)"
  have start: "gc_window_start state = s \<or> s + dur_secs 3600 \<le> gc_window_start state"
    and count: "gc_count state = (if gc_window_start state = s then gc_count (rl_global rl) else 0)"
    by (auto simp: state_def s_def dur_secs_def)
  have le: "gc_count (rl_global rl) \<le> ?cap" using assms(1) by (simp add: tokens_inv_def)
  show "tokens_inv rl'" "s' = s \<or> s + dur_secs 3600 \<le> s'"
    "unat (gc_count (rl_global rl')) =
      (if s' = s then unat (gc_count (rl_global rl)) else 0) + (if outcome = Allowed then 1 else 0)"
  proof (atomize(full), cases "?cap \<le> gc_count state")
    case True
    then have "rl' = rl \<lparr> rl_global := state \<rparr>" "outcome \<noteq> Allowed"
      using assms(2) by (auto simp: check_global_def Let_def state_def s_def)
    then show "tokens_inv rl' \<and> (s' = s \<or> s + dur_secs 3600 \<le> s') \<and> unat (gc_count (rl_global rl')) =
      (if s' = s then unat (gc_count (rl_global rl)) else 0) + (if outcome = Allowed then 1 else 0)"
      using start count le assms(1) by (auto simp: tokens_inv_def s'_def)
  next
    case False
    then have rl': "rl' = rl \<lparr> rl_global := state \<lparr> gc_count := gc_count state + 1 \<rparr> \<rparr>" "outcome = Allowed"
      using assms(2) by (auto simp: check_global_def Let_def state_def s_def)
    have lt: "unat (gc_count state) < unat ?cap" using False by (simp add: word_le_nat_alt)
    then have "unat (gc_count state + 1) = unat (gc_count state) + 1"
      using unat_u32_bound[of ?cap] by (simp add: unat_word_ariths)
    then show "tokens_inv rl' \<and> (s' = s \<or> s + dur_secs 3600 \<le> s') \<and> unat (gc_count (rl_global rl')) =
      (if s' = s then unat (gc_count (rl_global rl)) else 0) + (if outcome = Allowed then 1 else 0)"
      using start count lt assms(1) rl' by (auto simp: tokens_inv_def s'_def word_le_nat_alt)
  qed
qed

lemma limiter_run_bounds:
  assumes "limiter_run rl ops = (rl', events)" "tokens_inv rl"
  shows "tokens_inv rl' \<and> rl_config rl' = rl_config rl
    \<and> (\<forall>(w, _) \<in> set events. w = gc_window_start (rl_global rl) \<or> gc_window_start (rl_global rl) + dur_secs 3600 \<le> w)
    \<and> (\<forall>w. admitted_in w events + (if w = gc_window_start (rl_global rl) then unat (gc_count (rl_global rl)) else 0)
          \<le> unat (rc_global_cap_per_hour (rl_config rl)))
    \<and> (\<forall>(w, _) \<in> set events. \<forall>(w', _) \<in> set events. w < w' \<longrightarrow> w + dur_secs 3600 \<le> w')"
  using assms
proof (induction rl ops arbitrary: rl' events rule: limiter_run.induct)
  case (1 rl)
  then show ?case by (auto simp: tokens_inv_def admitted_in_def word_le_nat_alt)
next
  case (2 rl now addr ops)
  have "limiter_run (snd (check_per_address addr now rl)) ops = (rl', events)" using 2(2) by simp
  from 2(1)[OF this check_per_address_tokens[OF 2(3)]] show ?case unfolding check_per_address_frame .
next
  case (3 rl now ops)
  obtain out rl1 where g: "check_global now rl = (out, rl1)" by fastforce
  obtain rl2 evs where r: "limiter_run rl1 ops = (rl2, evs)" by fastforce
  have e: "rl' = rl2" "events = (gc_window_start (rl_global rl1), out) # evs" using 3(2) g r by simp_all
  let ?s = "gc_window_start (rl_global rl)" and ?s1 = "gc_window_start (rl_global rl1)"
  let ?cap = "unat (rc_global_cap_per_hour (rl_config rl))"
  have conf: "rl_config rl1 = rl_config rl" using check_global_frame(1)[of now rl] g by simp
  note step = check_global_count[OF 3(3) g]
  note IH = 3(1)[OF g[symmetric] refl r step(1)]
  have later: "w = ?s1 \<or> ?s1 + dur_secs 3600 \<le> w" if "(w, x) \<in> set evs" for w x using IH that by blast
  have adm: "admitted_in w events + (if w = ?s then unat (gc_count (rl_global rl)) else 0) \<le> ?cap" for w
  proof -
    have dur: "0 < dur_secs 3600" by (simp add: dur_secs_def)
    have a: "admitted_in w events = (if w = ?s1 \<and> out = Allowed then 1 else 0) + admitted_in w evs"
      by (auto simp: e(2) admitted_in_def)
    have b: "admitted_in w evs + (if w = ?s1 then unat (gc_count (rl_global rl1)) else 0) \<le> ?cap"
      using IH conf by simp
    show ?thesis
    proof (cases "?s1 = ?s")
      case True
      then show ?thesis using a b step(3) by (auto split: if_splits)
    next
      case False
      then have gap: "?s + dur_secs 3600 \<le> ?s1" using step(2) by blast
      have "admitted_in ?s evs = 0" using later gap dur by (fastforce simp: admitted_in_def filter_empty_conv)
      moreover have "unat (gc_count (rl_global rl)) \<le> ?cap" using 3(3) by (simp add: tokens_inv_def word_le_nat_alt)
      ultimately show ?thesis using a b step(3) False by (auto split: if_splits)
    qed
  qed
  have "?s1 = ?s \<or> ?s + dur_secs 3600 \<le> ?s1" using step(2) .
  then have "w = ?s \<or> ?s + dur_secs 3600 \<le> w" if "(w, x) \<in> set events" for w x
    using later[of w x] that e(2) by (auto simp: dur_secs_def)
  moreover have "w < w' \<longrightarrow> w + dur_secs 3600 \<le> w'" if "(w, x) \<in> set events" "(w', x') \<in> set events" for w x w' x'
    using IH later that e(2) by (auto simp: dur_secs_def; fastforce)
  ultimately show ?case using IH conf e(1) adm by auto
next
  case (4 rl now addr ops)
  have "limiter_run (refund_per_address addr rl) ops = (rl', events)" using 4(2) by simp
  from 4(1)[OF this refund_per_address_tokens[OF 4(3)]] show ?case unfolding refund_per_address_frame .
qed

text \<open>A denial by the global layer costs no token: the bucket keeps what replenishment left in it.\<close>

lemma global_denial_refunds:
  assumes "tokens_inv rl" "check_per_address addr now rl = (Allowed, rl1)" "check_global now rl1 = (Denied n, rl2)"
  obtains b b' where "map_of (rl_per_address rl1) addr = Some b"
    and "map_of (rl_per_address (snd (rate_limit_check addr now rl))) addr = Some b'"
    and "tb_tokens b' = tb_tokens b + 1" "tb_tokens b' \<le> rc_per_address_bucket_size (rl_config rl)"
proof -
  let ?size = "rc_per_address_bucket_size (rl_config rl)"
  define m where "m = (if 64 < length (rl_per_address rl)
    then filter (\<lambda>(_, b). now - tb_last_seen b < dur_secs BUCKET_TTL_SECS) (rl_per_address rl)
    else rl_per_address rl)"
  define entry where "entry = (replenish (rl_config rl) now (case map_of m addr of Some b \<Rightarrow> b
     | None \<Rightarrow> \<lparr> tb_tokens = ?size, tb_last_replenish = now, tb_last_seen = now \<rparr>)) \<lparr> tb_last_seen := now \<rparr>"
  let ?b = "entry \<lparr> tb_tokens := tb_tokens entry - 1 \<rparr>"
  have nz: "tb_tokens entry \<noteq> 0" and rl1: "rl1 = rl \<lparr> rl_per_address := AList.update addr ?b m \<rparr>"
    using assms(2) by (auto simp: check_per_address_def Let_def m_def entry_def split: if_splits)
  have "list_all (\<lambda>(_, b). tb_tokens b \<le> ?size) m" using assms(1) by (auto simp: m_def tokens_inv_def list_all_iff)
  from map_of_list_all[OF this] have le: "tb_tokens entry \<le> ?size"
    unfolding entry_def by (auto intro!: replenish_bound split: option.splits)
  have add: "sat_add (tb_tokens entry - 1) 1 = tb_tokens entry"
    using nz unat_u32_bound[of "tb_tokens entry"] by (simp add: sat_add_def unat_minus_one unat_gt_0)
  have one: "map_of (rl_per_address rl1) addr = Some ?b" by (simp add: rl1 update_conv')
  have "rl_per_address rl2 = rl_per_address rl1" "rl_config rl2 = rl_config rl"
    using check_global_frame[of now rl1] check_per_address_frame(1)[of addr now rl] assms(2,3) by simp_all
  then have "map_of (rl_per_address (snd (rate_limit_check addr now rl))) addr = Some (?b \<lparr> tb_tokens := tb_tokens entry \<rparr>)"
    using assms(2,3) one add le by (simp add: rate_limit_check_def refund_per_address_def update_conv' min_absorb1)
  from that[OF one this] show ?thesis using le by simp
qed

text \<open>
  C18. The limits hold under every interleaving: from a fresh limiter, over any sequence of the
  atomic sections of concurrent requests at any times, no bucket ever holds more than its size,
  every window admits at most the configured number of requests, and two windows start at least
  an hour apart.
\<close>

theorem rate_limits_hold:
  "let (rl, events) = limiter_run (RateLimiter_new config t0) ops
   in list_all (\<lambda>(_, b). tb_tokens b \<le> rc_per_address_bucket_size config) (rl_per_address rl)
    \<and> (\<forall>w. admitted_in w events \<le> unat (rc_global_cap_per_hour config))
    \<and> (\<forall>(w, _) \<in> set events. \<forall>(w', _) \<in> set events. w < w' \<longrightarrow> w + dur_secs 3600 \<le> w')"
proof -
  obtain rl events where r: "limiter_run (RateLimiter_new config t0) ops = (rl, events)" by fastforce
  have "tokens_inv (RateLimiter_new config t0)" by (simp add: tokens_inv_def RateLimiter_new_def)
  note bounds = limiter_run_bounds[OF r this]
  have new: "rl_config (RateLimiter_new config t0) = config" "gc_count (rl_global (RateLimiter_new config t0)) = 0"
    by (simp_all add: RateLimiter_new_def)
  have "list_all (\<lambda>(_, b). tb_tokens b \<le> rc_per_address_bucket_size config) (rl_per_address rl)"
  proof -
    have "tokens_inv rl" "rl_config rl = config" using bounds new(1) by simp_all
    then show ?thesis unfolding tokens_inv_def by metis
  qed
  moreover have "admitted_in w events \<le> unat (rc_global_cap_per_hour config)" for w
    using bounds unfolding new by (meson add_leD1)
  ultimately show ?thesis using bounds by (simp only: r Let_def prod.case) blast
qed

text \<open>A limiter with one global admission per hour: the second request is refused, the third admitted.\<close>

definition example_limiter_run :: "RateLimiter \<times> (nat \<times> RateLimitOutcome) list" where
  "example_limiter_run = limiter_run (RateLimiter_new (RateLimitConfig_default \<lparr> rc_global_cap_per_hour := 1 \<rparr>) 0)
     [(1, PerAddress [7]), (1, Global), (2, PerAddress [7]), (2, Global), (2, Refund [7]), (dur_secs 3600, Global)]"

theorem rate_limits_hold_witness:
  "snd example_limiter_run = [(0, Allowed), (0, Denied 3599), (dur_secs 3600, Allowed)]
   \<and> admitted_in 0 (snd example_limiter_run) = 1 \<and> admitted_in 0 (snd example_limiter_run) \<le> 1"
proof -
  have "snd example_limiter_run = [(0, Allowed), (0, Denied 3599), (dur_secs 3600, Allowed)]"
    by (simp add: example_limiter_run_def check_global_def RateLimiter_new_def check_per_address_frame
        refund_per_address_frame RateLimitConfig_default_def dur_secs_def as_whole_secs_def Let_def)
  moreover have "admitted_in 0 (snd example_limiter_run) \<le> unat (1 :: u32)"
    using rate_limits_hold[of "RateLimitConfig_default \<lparr> rc_global_cap_per_hour := 1 \<rparr>" 0
        "[(1, PerAddress [7]), (1, Global), (2, PerAddress [7]), (2, Global), (2, Refund [7]), (dur_secs 3600, Global)]"]
    unfolding example_limiter_run_def[symmetric] by (auto simp: case_prod_beta)
  ultimately show ?thesis by (simp add: admitted_in_def dur_secs_def)
qed

end
