(* ===== verification/Funder.thy ===== *)
theory Funder
  imports Chain_Adapter Rate_Limit
begin

text \<open>
  The funder service (\<open>services/funder/src/ledger.rs\<close>, \<open>http/top_up.rs\<close>, \<open>resume.rs\<close>, \<open>error.rs\<close> and the
  request types of \<open>crates/pangolin-funder-client/src/lib.rs\<close>): the payment ledger, the top-up handler
  and the resumption of payments after a restart. The state holds the rate limiter, the ledger
  table and the outside world; what the service reaches through external crates and the network
  (hashing, signature recovery, text parsing, the two transaction submissions) is the record
  \<open>FunderEnv\<close>. The handler is cut where its ledger writes and submissions are, so that a crash is a
  prefix of its stages. A ledger write always succeeds: the error returns for a failing database, in
  the bookkeeping of \<open>top_up.rs\<close> and in \<open>drive_eth_transfer\<close>, are not modelled. The lemmas show that an attestation reaches the chain through the handler
  at most once, and what resumption does to a payment whose last stage is missing.
\<close>

section \<open>Ledger (ledger.rs)\<close>

datatype PaymentState =
    PreRedeem | RedeemSubmitted | RedeemMined | EthTransferSubmitted | EthTransferMined | EthTransferFailedState

definition as_db_str :: "PaymentState \<Rightarrow> string" where
  "as_db_str s = (case s of
      PreRedeem \<Rightarrow> ''pre_redeem''
    | RedeemSubmitted \<Rightarrow> ''redeem_submitted''
    | RedeemMined \<Rightarrow> ''redeem_mined''
    | EthTransferSubmitted \<Rightarrow> ''eth_transfer_submitted''
    | EthTransferMined \<Rightarrow> ''eth_transfer_mined''
    | EthTransferFailedState \<Rightarrow> ''eth_transfer_failed'')"

definition parse_db_str :: "string \<Rightarrow> PaymentState option" where
  "parse_db_str s =
     (if s = ''pre_redeem'' then Some PreRedeem
      else if s = ''redeem_submitted'' then Some RedeemSubmitted
      else if s = ''redeem_mined'' then Some RedeemMined
      else if s = ''eth_transfer_submitted'' then Some EthTransferSubmitted
      else if s = ''eth_transfer_mined'' then Some EthTransferMined
      else if s = ''eth_transfer_failed'' then Some EthTransferFailedState
      else None)"

interpretation payment_state_codec: strict_codec as_db_str parse_db_str
  by unfold_locales (auto simp: as_db_str_def parse_db_str_def split: PaymentState.splits if_splits)

record PaymentRow =
  pr_attestation_hash :: bytes
  pr_user_id :: bytes
  pr_device_address :: bytes
  pr_credit_amount :: u256
  pr_redemption_tx_hash :: "bytes option"
  pr_state :: PaymentState
  pr_eth_transfer_tx_hash :: "bytes option"
  pr_eth_transfer_block :: "u64 option"
  pr_eth_transferred_wei :: "u256 option"
  pr_created_at :: u64

type_synonym PaymentLedger = "PaymentRow list"

text \<open>The \<open>UNIQUE\<close> constraint on the attestation hash turns a second insertion into \<open>Ok(false)\<close>.\<close>

definition try_insert :: "bytes \<Rightarrow> bytes \<Rightarrow> bytes \<Rightarrow> u256 \<Rightarrow> u64 \<Rightarrow> PaymentLedger \<Rightarrow> bool \<times> PaymentLedger" where
  "try_insert attestation_hash user_id device_address credit_amount now ledger =
     (if attestation_hash \<in> pr_attestation_hash ` set ledger then (False, ledger)
      else (True, ledger @ [\<lparr> pr_attestation_hash = attestation_hash, pr_user_id = user_id,
              pr_device_address = device_address, pr_credit_amount = credit_amount,
              pr_redemption_tx_hash = None, pr_state = PreRedeem, pr_eth_transfer_tx_hash = None,
              pr_eth_transfer_block = None, pr_eth_transferred_wei = None, pr_created_at = now \<rparr>]))"

text \<open>
  \<open>UPDATE payments SET ... WHERE attestation_hash = ?\<close>: the rows of that hash change; the result says
  whether there was one. Rows are kept decoded: the table holds what these operations wrote.
\<close>

definition update_where :: "bytes \<Rightarrow> (PaymentRow \<Rightarrow> PaymentRow) \<Rightarrow> PaymentLedger \<Rightarrow> bool \<times> PaymentLedger" where
  "update_where h f ledger = (h \<in> pr_attestation_hash ` set ledger,
     map (\<lambda>r. if pr_attestation_hash r = h then f r else r) ledger)"

definition update_redemption_tx_hash :: "bytes \<Rightarrow> bytes \<Rightarrow> PaymentLedger \<Rightarrow> bool \<times> PaymentLedger" where
  "update_redemption_tx_hash h tx =
     update_where h (\<lambda>r. r \<lparr> pr_redemption_tx_hash := Some tx, pr_state := RedeemSubmitted \<rparr>)"

definition transition_state :: "bytes \<Rightarrow> PaymentState \<Rightarrow> PaymentLedger \<Rightarrow> bool \<times> PaymentLedger" where
  "transition_state h new_state = update_where h (\<lambda>r. r \<lparr> pr_state := new_state \<rparr>)"

definition mark_eth_transfer_submitted :: "bytes \<Rightarrow> bytes \<Rightarrow> u256 \<Rightarrow> PaymentLedger \<Rightarrow> bool \<times> PaymentLedger" where
  "mark_eth_transfer_submitted h tx wei = update_where h (\<lambda>r. r \<lparr> pr_state := EthTransferSubmitted,
     pr_eth_transfer_tx_hash := Some tx, pr_eth_transferred_wei := Some wei \<rparr>)"

text \<open>The block number is stored as an \<open>i64\<close>, saturated at its largest value.\<close>

definition mark_eth_transfer_mined :: "bytes \<Rightarrow> u64 \<Rightarrow> PaymentLedger \<Rightarrow> bool \<times> PaymentLedger" where
  "mark_eth_transfer_mined h block = update_where h (\<lambda>r. r \<lparr> pr_state := EthTransferMined,
     pr_eth_transfer_block := Some (if uint block \<le> i64_max then block else word_of_int i64_max) \<rparr>)"

definition find_resumable_entries :: "PaymentLedger \<Rightarrow> PaymentRow list" where
  "find_resumable_entries ledger =
     filter (\<lambda>r. pr_state r \<in> {RedeemSubmitted, RedeemMined, EthTransferSubmitted}) ledger"

definition get_by_attestation_hash :: "bytes \<Rightarrow> PaymentLedger \<Rightarrow> PaymentRow option" where
  "get_by_attestation_hash h ledger = find (\<lambda>r. pr_attestation_hash r = h) ledger"

section \<open>Requests (funder-client)\<close>

definition MAX_KNOWN_SCHEMA_VERSION :: "16 word" where "MAX_KNOWN_SCHEMA_VERSION = 1"

record Credit =
  cd_user_id :: bytes
  cd_amount :: u256
  cd_nonce :: u64
  cd_schema_version :: "16 word"
  cd_expires_at :: u64
  cd_signature :: bytes

record TopUpRequest =
  tu_credit :: Credit
  tu_device_binding_sig :: bytes
  tu_device_address :: bytes

record WireCredit =
  wr_user_id :: bytes
  wr_amount :: bytes
  wr_nonce :: u64
  wr_schema_version :: "16 word"
  wr_expires_at :: u64
  wr_signature :: bytes

record WireTopUpRequest =
  wt_credit :: WireCredit
  wt_device_binding_sig :: bytes
  wt_device_address :: bytes

record WireTopUpResponse =
  ws_redeem_tx_hash :: bytes
  ws_eth_transfer_tx_hash :: "bytes option"
  ws_eth_transferred_wei :: u256

text \<open>The \<open>n\<close> big-endian bytes of a word.\<close>

definition be_bytes :: "nat \<Rightarrow> 'a::len word \<Rightarrow> bytes" where
  "be_bytes n w = map (\<lambda>k. ucast (drop_bit (8 * k) w)) (rev [0..<n])"

record RedemptionFieldsV1 =
  rf_user_id :: bytes
  rf_amount :: u256
  rf_nonce :: u64
  rf_schema_version :: "16 word"
  rf_expires_at :: u64

datatype FunderError =
    RateLimited nat
  | BadRequest
  | CreditSigInvalid
  | CreditExpired
  | CreditSchemaUnsupported
  | DeviceBindingInvalid
  | AlreadyRedeemed
  | ChainSubmit string
  | EthTransferCapExceeded u256 u128
  | EthTransferFailed bytes string
  | LedgerFailed
  | KeystoreFailed string
  | Configuration string
  | InternalError

text \<open>
  The outside: hashing and recovery, the EIP-712 domain separator, hexadecimal and decimal
  parsing, the signer, and the two submissions, which act on the world of type \<open>'w\<close> and
  return a transaction hash and a block number.
\<close>

record 'w FunderEnv =
  fe_keccak256 :: "bytes \<Rightarrow> bytes"
  fe_recover :: "bytes \<Rightarrow> bytes \<Rightarrow> bool \<Rightarrow> bytes \<Rightarrow> bytes option"
  fe_domain_separator :: "bytes \<Rightarrow> bytes \<Rightarrow> u64 \<Rightarrow> bytes \<Rightarrow> bytes"
  fe_hex_decode :: "bytes \<Rightarrow> bytes option"
  fe_parse_address :: "bytes \<Rightarrow> bytes option"
  fe_from_str_radix :: "bytes \<Rightarrow> nat \<Rightarrow> u256 option"
  fe_payment_authority :: bytes
  fe_chain_env :: ChainEnv
  fe_cap_wei :: u128
  fe_local_signer :: bool
  fe_sign_redemption :: "RedemptionFieldsV1 \<Rightarrow> FunderError + bytes"
  fe_submit_redemption :: "bytes \<Rightarrow> RedemptionFieldsV1 \<Rightarrow> 'w \<Rightarrow> (ChainError + bytes \<times> u64) \<times> 'w"
  fe_submit_eth_transfer :: "bytes \<Rightarrow> u256 \<Rightarrow> 'w \<Rightarrow> (ChainError + bytes \<times> u64) \<times> 'w"

record 'w FunderState =
  fs_limiter :: RateLimiter
  fs_ledger :: PaymentLedger
  fs_world :: 'w

definition attestation_hash :: "'w FunderEnv \<Rightarrow> Credit \<Rightarrow> bytes" where
  "attestation_hash env c = fe_keccak256 env (cd_user_id c @ be_bytes 32 (cd_amount c) @ be_bytes 8 (cd_nonce c)
     @ be_bytes 2 (cd_schema_version c) @ be_bytes 8 (cd_expires_at c) @ cd_signature c)"

definition FUNDER_DEVICE_BINDING_DOMAIN_V1 :: bytes where
  "FUNDER_DEVICE_BINDING_DOMAIN_V1 = ascii ''PangolinFunderDeviceBinding'' @ [1] @ ascii ''v1'' @ [1]"

definition device_binding_digest :: "'w FunderEnv \<Rightarrow> bytes \<Rightarrow> bytes \<Rightarrow> bytes" where
  "device_binding_digest env h device_address =
     fe_keccak256 env (FUNDER_DEVICE_BINDING_DOMAIN_V1 @ h @ device_address)"

definition verify_device_binding :: "'w FunderEnv \<Rightarrow> bytes \<Rightarrow> bytes \<Rightarrow> bytes \<Rightarrow> bool" where
  "verify_device_binding env sig h device_address =
     (let digest = device_binding_digest env h device_address; v_byte = sig ! 64
      in if v_byte \<noteq> 27 \<and> v_byte \<noteq> 28 then False
         else fe_recover env (take 32 sig) (take 32 (drop 32 sig)) (v_byte = 28) digest = Some device_address)"

section \<open>The top-up handler (http/top\_up.rs)\<close>

definition decode_hex_fixed :: "'w FunderEnv \<Rightarrow> nat \<Rightarrow> bytes \<Rightarrow> bytes option" where
  "decode_hex_fixed env n s =
     (let trimmed = trim_start_with [ascii ''0x''] s
      in if length trimmed \<noteq> n * 2 then None else fe_hex_decode env trimmed)"

definition decode_u256_hex_or_dec :: "'w FunderEnv \<Rightarrow> bytes \<Rightarrow> u256 option" where
  "decode_u256_hex_or_dec env s =
     (case strip_prefix (ascii ''0x'') s of
        Some hex_body \<Rightarrow> fe_from_str_radix env hex_body 16
      | None \<Rightarrow> fe_from_str_radix env s 10)"

definition WireCredit_parse :: "'w FunderEnv \<Rightarrow> WireCredit \<Rightarrow> FunderError + Credit" where
  "WireCredit_parse env w =
     and_then (ok_or (decode_hex_fixed env 32 (wr_user_id w)) BadRequest) (\<lambda>user_id.
     and_then (ok_or (decode_u256_hex_or_dec env (wr_amount w)) BadRequest) (\<lambda>amount.
     and_then (ok_or (decode_hex_fixed env 65 (wr_signature w)) BadRequest) (\<lambda>signature.
     Inr \<lparr> cd_user_id = user_id, cd_amount = amount, cd_nonce = wr_nonce w,
           cd_schema_version = wr_schema_version w, cd_expires_at = wr_expires_at w, cd_signature = signature \<rparr>)))"

definition WireTopUpRequest_parse :: "'w FunderEnv \<Rightarrow> WireTopUpRequest \<Rightarrow> FunderError + TopUpRequest" where
  "WireTopUpRequest_parse env w =
     and_then (WireCredit_parse env (wt_credit w)) (\<lambda>credit.
     and_then (ok_or (decode_hex_fixed env 65 (wt_device_binding_sig w)) BadRequest) (\<lambda>sig.
     and_then (ok_or (fe_parse_address env (wt_device_address w)) BadRequest) (\<lambda>device_address.
     Inr \<lparr> tu_credit = credit, tu_device_binding_sig = sig, tu_device_address = device_address \<rparr>)))"

definition hex_nibble :: "char \<Rightarrow> u8" where
  "hex_nibble ch = (let c = (of_char ch :: u8) in if c \<le> 57 then c - 48 else c - 87)"

fun hex_literal :: "string \<Rightarrow> bytes" where
  "hex_literal (a # b # rest) = (hex_nibble a * 16 + hex_nibble b) # hex_literal rest"
| "hex_literal _ = []"

definition SECP256K1_HALF_N :: bytes where
  "SECP256K1_HALF_N = hex_literal ''7fffffffffffffffffffffffffffffff5d576e7357a4501ddfe92f46681b20a0''"

fun canonical_loop :: "bytes \<Rightarrow> bytes \<Rightarrow> bool" where
  "canonical_loop (a # as) (b # bs) = (if a < b then True else if b < a then False else canonical_loop as bs)"
| "canonical_loop _ _ = True"

definition is_canonical_s :: "bytes \<Rightarrow> bool" where
  "is_canonical_s s_be = canonical_loop s_be SECP256K1_HALF_N"

definition CREDIT_TYPEHASH_V1 :: bytes where
  "CREDIT_TYPEHASH_V1 = hex_literal ''ca59260047837893befb7ee9800fca1d13197892f987afca3a253303e077dd77''"

definition ENTITLEMENT_DOMAIN_SEPARATOR_BASE_SEPOLIA_V1 :: bytes where
  "ENTITLEMENT_DOMAIN_SEPARATOR_BASE_SEPOLIA_V1 =
     hex_literal ''b33d25188e5fc32cf5021ce63f28ee4ffb13d1d9a4ca720c46272f4c87c42fd0''"

definition EXPECTED_ENTITLEMENT_REGISTRY_ADDRESS_BASE_SEPOLIA :: bytes where
  "EXPECTED_ENTITLEMENT_REGISTRY_ADDRESS_BASE_SEPOLIA = hex_literal ''dda04e427e95e50cfd22703a76cae2e1da4f5fcd''"

definition verify_credit_signature :: "'w FunderEnv \<Rightarrow> Credit \<Rightarrow> bool" where
  "verify_credit_signature env c =
     (if fe_chain_env env \<noteq> BaseSepolia then False
      else let domain_sep = fe_domain_separator env (ascii ''Pangolin EntitlementRegistry'') (ascii ''1'') 84532
                 EXPECTED_ENTITLEMENT_REGISTRY_ADDRESS_BASE_SEPOLIA
      in if domain_sep \<noteq> ENTITLEMENT_DOMAIN_SEPARATOR_BASE_SEPOLIA_V1 then False
      else let struct_hash = fe_keccak256 env (CREDIT_TYPEHASH_V1 @ cd_user_id c @ be_bytes 32 (cd_amount c)
                 @ replicate 24 0 @ be_bytes 8 (cd_nonce c) @ replicate 30 0 @ be_bytes 2 (cd_schema_version c)
                 @ replicate 24 0 @ be_bytes 8 (cd_expires_at c));
               digest = fe_keccak256 env ([0x19, 0x01] @ domain_sep @ struct_hash);
               s_bytes = take 32 (drop 32 (cd_signature c)); v_byte = cd_signature c ! 64
      in if \<not> is_canonical_s s_bytes then False
         else if v_byte \<noteq> 27 \<and> v_byte \<noteq> 28 then False
         else fe_recover env (take 32 (cd_signature c)) s_bytes (v_byte = 28) digest = Some (fe_payment_authority env))"

definition clamp_eth_transfer_amount :: "u256 \<Rightarrow> u128 \<Rightarrow> u256 option" where
  "clamp_eth_transfer_amount credit_amount cap_wei =
     (let cap = ucast cap_wei in if cap < credit_amount then None else Some credit_amount)"

definition chain_error_class :: "ChainError \<Rightarrow> string" where
  "chain_error_class e = (case e of
      WrongChain _ _ \<Rightarrow> ''chain_id_mismatch'' | ChainIdMismatch _ _ \<Rightarrow> ''chain_id_mismatch''
    | Deployment _ \<Rightarrow> ''deployment_misconfigured'' | DeploymentNotFound _ _ \<Rightarrow> ''deployment_misconfigured''
    | DeploymentParseError _ _ \<Rightarrow> ''deployment_misconfigured''
    | DeploymentAddressMismatch _ _ _ \<Rightarrow> ''deployment_misconfigured''
    | DeploymentMismatch _ _ \<Rightarrow> ''deployment_misconfigured''
    | Rpc _ \<Rightarrow> ''rpc_transient'' | RpcTransient _ _ \<Rightarrow> ''rpc_transient''
    | Decode _ \<Rightarrow> ''decode_error''
    | Reverted _ \<Rightarrow> ''contract_reverted'' | RevertedOnChain _ _ \<Rightarrow> ''contract_reverted''
    | RevertedPreBroadcast _ \<Rightarrow> ''contract_reverted''
    | MissingEvent _ \<Rightarrow> ''missing_event''
    | Wallet _ \<Rightarrow> ''wallet_error''
    | Keystore _ \<Rightarrow> ''keystore_error''
    | ChainIo _ \<Rightarrow> ''io_error''
    | SignatureInvalid \<Rightarrow> ''signature_invalid''
    | InsufficientFunds _ _ \<Rightarrow> ''insufficient_funds''
    | GasCapExceeded _ _ \<Rightarrow> ''gas_cap_exceeded''
    | NonceUnresolvable _ \<Rightarrow> ''nonce_unresolvable''
    | ReceiptMismatch _ _ \<Rightarrow> ''receipt_mismatch''
    | _ \<Rightarrow> ''chain_error_other'')"

definition eth_transfer_class :: "ChainError \<Rightarrow> string" where
  "eth_transfer_class e = (case e of
      InsufficientFunds _ _ \<Rightarrow> ''insufficient_funds''
    | GasCapExceeded _ _ \<Rightarrow> ''gas_cap_exceeded''
    | Rpc _ \<Rightarrow> ''rpc_transient'' | RpcTransient _ _ \<Rightarrow> ''rpc_transient''
    | Reverted _ \<Rightarrow> ''contract_reverted'' | RevertedOnChain _ _ \<Rightarrow> ''contract_reverted''
    | RevertedPreBroadcast _ \<Rightarrow> ''contract_reverted''
    | ChainIdMismatch _ _ \<Rightarrow> ''chain_id_mismatch''
    | ReceiptMismatch _ _ \<Rightarrow> ''receipt_mismatch''
    | _ \<Rightarrow> ''eth_transfer_other'')"

text \<open>The stages of the handler: admission up to the ledger row, redemption, transfer, bookkeeping.\<close>

type_synonym ('w, 'a) handler = "('w FunderState, FunderError, 'a) op"

definition limiter_gate :: "bytes \<Rightarrow> nat \<Rightarrow> ('w, unit) handler" where
  "limiter_gate addr now s =
     (case rate_limit_check addr now (fs_limiter s) of
        (Allowed, l) \<Rightarrow> (Inr (), s \<lparr> fs_limiter := l \<rparr>)
      | (Denied n, l) \<Rightarrow> (Inl (RateLimited n), s \<lparr> fs_limiter := l \<rparr>))"

definition ledger_gate :: "bytes \<Rightarrow> TopUpRequest \<Rightarrow> u64 \<Rightarrow> ('w, unit) handler" where
  "ledger_gate h req now_unix s =
     (case try_insert h (cd_user_id (tu_credit req)) (tu_device_address req) (cd_amount (tu_credit req)) now_unix
             (fs_ledger s) of
        (True, l) \<Rightarrow> (Inr (), s \<lparr> fs_ledger := l \<rparr>)
      | (False, l) \<Rightarrow> (Inl AlreadyRedeemed, s \<lparr> fs_ledger := l \<rparr>))"

definition top_up_admit :: "'w FunderEnv \<Rightarrow> nat \<Rightarrow> u64 \<Rightarrow> WireTopUpRequest \<Rightarrow> ('w, TopUpRequest \<times> bytes \<times> u256) handler" where
  "top_up_admit env now now_unix wire =
     op_bind (op_try (\<lambda>_. WireTopUpRequest_parse env wire)) (\<lambda>req.
     op_seq (limiter_gate (tu_device_address req) now)
    (op_seq (op_guard (\<not> MAX_KNOWN_SCHEMA_VERSION < cd_schema_version (tu_credit req)) CreditSchemaUnsupported)
    (op_seq (op_guard (\<not> cd_expires_at (tu_credit req) < now_unix) CreditExpired)
    (op_seq (op_guard (verify_credit_signature env (tu_credit req)) CreditSigInvalid)
    (let h = attestation_hash env (tu_credit req)
     in op_seq (op_guard (verify_device_binding env (tu_device_binding_sig req) h (tu_device_address req)) DeviceBindingInvalid)
    (op_bind (op_try (\<lambda>_. ok_or (clamp_eth_transfer_amount (cd_amount (tu_credit req)) (fe_cap_wei env))
                (EthTransferCapExceeded (cd_amount (tu_credit req)) (fe_cap_wei env)))) (\<lambda>eth_amount.
     op_seq (ledger_gate h req now_unix)
       (op_ret (req, h, eth_amount)))))))))"

definition credit_redemption :: "Credit \<Rightarrow> RedemptionFieldsV1" where
  "credit_redemption c = \<lparr> rf_user_id = cd_user_id c, rf_amount = cd_amount c, rf_nonce = cd_nonce c,
     rf_schema_version = cd_schema_version c, rf_expires_at = cd_expires_at c \<rparr>"

definition submit_world :: "('w \<Rightarrow> (ChainError + 'a) \<times> 'w) \<Rightarrow> 'w FunderState \<Rightarrow> (ChainError + 'a) \<times> 'w FunderState" where
  "submit_world f s = (let (r, w) = f (fs_world s) in (r, s \<lparr> fs_world := w \<rparr>))"

definition with_ledger :: "(PaymentLedger \<Rightarrow> bool \<times> PaymentLedger) \<Rightarrow> 'w FunderState \<Rightarrow> 'w FunderState" where
  "with_ledger f s = s \<lparr> fs_ledger := snd (f (fs_ledger s)) \<rparr>"

definition top_up_redeem :: "'w FunderEnv \<Rightarrow> TopUpRequest \<Rightarrow> bytes \<Rightarrow> ('w, bytes) handler" where
  "top_up_redeem env req h =
     op_bind (op_try (\<lambda>_. fe_sign_redemption env (credit_redemption (tu_credit req)))) (\<lambda>sr.
     op_seq (op_guard (fe_local_signer env)
        (Configuration ''this signer impl does not expose a local PrivateKeySigner; HSM path not wired in 3.4''))
    (op_bind (\<lambda>s. case submit_world (fe_submit_redemption env sr (credit_redemption (tu_credit req))) s of
        (Inl e, s') \<Rightarrow> (Inl (ChainSubmit (chain_error_class e)), s')
      | (Inr anchor, s') \<Rightarrow> (Inr anchor, s')) (\<lambda>(tx, block).
     op_seq (op_modify (with_ledger (update_redemption_tx_hash h tx)))
    (op_seq (op_modify (with_ledger (transition_state h RedeemMined)))
       (op_ret tx)))))"

definition top_up_transfer :: "'w FunderEnv \<Rightarrow> TopUpRequest \<Rightarrow> bytes \<Rightarrow> u256 \<Rightarrow> bytes \<Rightarrow> ('w, bytes \<times> u64) handler" where
  "top_up_transfer env req h eth_amount redeem_tx s =
     (case submit_world (fe_submit_eth_transfer env (tu_device_address req) eth_amount) s of
        (Inr anchor, s') \<Rightarrow> (Inr anchor, s')
      | (Inl e, s') \<Rightarrow> (Inl (EthTransferFailed redeem_tx (eth_transfer_class e)),
                        with_ledger (transition_state h EthTransferFailedState) s'))"

definition top_up_record :: "bytes \<Rightarrow> u256 \<Rightarrow> bytes \<times> u64 \<Rightarrow> ('w, unit) handler" where
  "top_up_record h eth_amount = (\<lambda>(tx, block).
     op_seq (op_modify (with_ledger (mark_eth_transfer_submitted h tx eth_amount)))
            (op_modify (with_ledger (mark_eth_transfer_mined h block))))"

definition top_up_handle :: "'w FunderEnv \<Rightarrow> nat \<Rightarrow> u64 \<Rightarrow> WireTopUpRequest \<Rightarrow> ('w, WireTopUpResponse) handler" where
  "top_up_handle env now now_unix wire =
     op_bind (top_up_admit env now now_unix wire) (\<lambda>(req, h, eth_amount).
     op_bind (top_up_redeem env req h) (\<lambda>redeem_tx.
     op_bind (top_up_transfer env req h eth_amount redeem_tx) (\<lambda>anchor.
     op_seq (top_up_record h eth_amount anchor)
       (op_ret \<lparr> ws_redeem_tx_hash = redeem_tx, ws_eth_transfer_tx_hash = Some (fst anchor),
                 ws_eth_transferred_wei = eth_amount \<rparr>))))"

section \<open>Resumption (resume.rs)\<close>

definition redemption_fields_from_row :: "PaymentRow \<Rightarrow> RedemptionFieldsV1" where
  "redemption_fields_from_row row = \<lparr> rf_user_id = pr_user_id row, rf_amount = pr_credit_amount row, rf_nonce = 0,
     rf_schema_version = 1, rf_expires_at = - 1 \<rparr>"

definition drive_eth_transfer :: "'w FunderEnv \<Rightarrow> PaymentRow \<Rightarrow> ('w FunderState, string, unit) op" where
  "drive_eth_transfer env row =
     op_seq (op_guard (fe_local_signer env) ''local_signer_unavailable_on_hsm_signer'')
    (op_bind (op_try (\<lambda>_. ok_or (clamp_eth_transfer_amount (pr_credit_amount row) (fe_cap_wei env))
                ''eth_transfer_cap_exceeded_in_resume'')) (\<lambda>eth_amount.
     op_bind (\<lambda>s. case submit_world (fe_submit_eth_transfer env (pr_device_address row) eth_amount) s of
        (Inl e, s') \<Rightarrow> (Inl ''resume_eth_transfer_submit_failed'', s')
      | (Inr anchor, s') \<Rightarrow> (Inr anchor, s')) (\<lambda>(tx, block).
     op_seq (op_modify (with_ledger (mark_eth_transfer_submitted (pr_attestation_hash row) tx eth_amount)))
            (op_modify (with_ledger (mark_eth_transfer_mined (pr_attestation_hash row) block))))))"

definition resume_redeem :: "'w FunderEnv \<Rightarrow> PaymentRow \<Rightarrow> ('w FunderState, string, unit) op" where
  "resume_redeem env row =
     op_bind (op_try (\<lambda>_. case fe_sign_redemption env (redemption_fields_from_row row) of
        Inl e \<Rightarrow> Inl ''resume_sign_redemption_failed'' | Inr sr \<Rightarrow> Inr sr)) (\<lambda>sr s.
     case submit_world (fe_submit_redemption env sr (redemption_fields_from_row row)) s of
        (Inr _, s') \<Rightarrow> (Inr (), with_ledger (transition_state (pr_attestation_hash row) RedeemMined) s')
      | (Inl (RevertedOnChain _ _), s') \<Rightarrow> (Inr (), with_ledger (transition_state (pr_attestation_hash row) RedeemMined) s')
      | (Inl (RevertedPreBroadcast _), s') \<Rightarrow> (Inr (), with_ledger (transition_state (pr_attestation_hash row) RedeemMined) s')
      | (Inl _, s') \<Rightarrow> (Inl ''resume_redeem_submit_failed'', s'))"

definition drive_to_completion :: "'w FunderEnv \<Rightarrow> PaymentRow \<Rightarrow> ('w FunderState, string, unit) op" where
  "drive_to_completion env row =
     op_seq (op_guard (fe_local_signer env) ''local_signer_unavailable_on_hsm_signer'')
     (case pr_state row of
        RedeemSubmitted \<Rightarrow> op_seq (resume_redeem env row) (drive_eth_transfer env row)
      | RedeemMined \<Rightarrow> drive_eth_transfer env row
      | EthTransferSubmitted \<Rightarrow> op_modify (with_ledger (transition_state (pr_attestation_hash row) EthTransferMined))
      | _ \<Rightarrow> op_ret ())"

text \<open>One resumption task, and all tasks of a restart in one order of completion.\<close>

definition resume_row :: "'w FunderEnv \<Rightarrow> PaymentRow \<Rightarrow> 'w FunderState \<Rightarrow> 'w FunderState" where
  "resume_row env row s =
     (case drive_to_completion env row s of
        (Inr _, s') \<Rightarrow> s'
      | (Inl class, s') \<Rightarrow> with_ledger (transition_state (pr_attestation_hash row) EthTransferFailedState) s')"

definition resume_in_flight :: "'w FunderEnv \<Rightarrow> 'w FunderState \<Rightarrow> nat \<times> 'w FunderState" where
  "resume_in_flight env s =
     (let resumable = find_resumable_entries (fs_ledger s)
      in (length resumable, fold (resume_row env) resumable s))"

section \<open>Every attestation is paid at most once by the handler\<close>

lemma op_bind_step:
  "m s = (Inr a, s1) \<Longrightarrow> op_bind m f s = f a s1" "m s = (Inl e, s1) \<Longrightarrow> op_bind m f s = (Inl e, s1)"
  by (simp_all add: op_bind_def)

definition recorded :: "bytes \<Rightarrow> 'w FunderState \<Rightarrow> bool" where
  "recorded h s \<longleftrightarrow> h \<in> pr_attestation_hash ` set (fs_ledger s)"

lemma update_where_hashes:
  "(\<And>r. pr_attestation_hash (f r) = pr_attestation_hash r) \<Longrightarrow>
     pr_attestation_hash ` set (snd (update_where h f l)) = pr_attestation_hash ` set l"
  unfolding update_where_def snd_conv set_map image_image by (intro image_cong) simp_all

lemma ledger_updates_recorded [simp]:
  "recorded h (with_ledger (update_redemption_tx_hash k tx) s) = recorded h s"
  "recorded h (with_ledger (transition_state k st) s) = recorded h s"
  "recorded h (with_ledger (mark_eth_transfer_submitted k tx wei) s) = recorded h s"
  "recorded h (with_ledger (mark_eth_transfer_mined k block) s) = recorded h s"
  by (simp_all add: recorded_def with_ledger_def update_redemption_tx_hash_def transition_state_def
      mark_eth_transfer_submitted_def mark_eth_transfer_mined_def update_where_hashes)

lemma ledger_updates_world [simp]: "fs_world (with_ledger f s) = fs_world s"
  by (simp add: with_ledger_def)

lemma submit_world_recorded: "submit_world f s = (r, s') \<Longrightarrow> recorded h s' = recorded h s"
  by (auto simp: submit_world_def recorded_def split: prod.splits)

lemma limiter_gate_frame:
  "recorded h (snd (limiter_gate addr now s)) = recorded h s" "fs_world (snd (limiter_gate addr now s)) = fs_world s"
  by (auto simp: limiter_gate_def recorded_def split: prod.splits RateLimitOutcome.splits)

lemma ledger_gate_run:
  "ledger_gate h req t s = (Inr (), s') \<longleftrightarrow> \<not> recorded h s \<and>
     s' = s \<lparr> fs_ledger := snd (try_insert h (cd_user_id (tu_credit req)) (tu_device_address req)
       (cd_amount (tu_credit req)) t (fs_ledger s)) \<rparr>"
  "ledger_gate h req t s = (Inl e, s') \<longleftrightarrow> recorded h s \<and> e = AlreadyRedeemed \<and> s' = s"
  by (auto simp: ledger_gate_def try_insert_def recorded_def)

lemma ledger_gate_records: "recorded h (snd (ledger_gate h req t s))"
  by (auto simp: ledger_gate_def try_insert_def recorded_def split: prod.splits bool.splits)

lemma ledger_gate_keeps: "recorded k s \<Longrightarrow> recorded k (snd (ledger_gate h req t s))"
  by (auto simp: ledger_gate_def try_insert_def recorded_def split: prod.splits bool.splits)

lemma gates_keep_world [op_keeps]:
  "keeps (\<lambda>s. fs_world s = w) (limiter_gate addr now)" "keeps (\<lambda>s. fs_world s = w) (ledger_gate h req t)"
  by (auto simp: keeps_def limiter_gate_frame ledger_gate_def try_insert_def)

lemma gates_keep_recorded [op_keeps]:
  "keeps (recorded k) (limiter_gate addr now)" "keeps (recorded k) (ledger_gate h req t)"
  by (auto simp: keeps_def limiter_gate_frame ledger_gate_keeps)

lemma admit_keeps [op_keeps]:
  "keeps (\<lambda>s. fs_world s = w) (top_up_admit env now t wire)" "keeps (recorded k) (top_up_admit env now t wire)"
  unfolding top_up_admit_def Let_def by (intro op_keeps)+

text \<open>Admission never touches the chain, and admits an attestation only if it is not on record.\<close>

lemma top_up_admit_cases:
  assumes "top_up_admit env now t wire s = (res, s')"
  shows "fs_world s' = fs_world s"
    and "recorded k s \<Longrightarrow> recorded k s'"
    and "res = Inr (req, h, amount) \<Longrightarrow> WireTopUpRequest_parse env wire = Inr req
      \<and> h = attestation_hash env (tu_credit req) \<and> \<not> recorded h s \<and> recorded h s'
      \<and> verify_credit_signature env (tu_credit req)
      \<and> verify_device_binding env (tu_device_binding_sig req) h (tu_device_address req)
      \<and> amount = cd_amount (tu_credit req) \<and> amount \<le> ucast (fe_cap_wei env)"
proof -
  show "fs_world s' = fs_world s" by (rule keepsD[OF admit_keeps(1) refl assms])
  show "recorded k s \<Longrightarrow> recorded k s'" by (rule keepsD[OF admit_keeps(2) _ assms])
  show "WireTopUpRequest_parse env wire = Inr req
      \<and> h = attestation_hash env (tu_credit req) \<and> \<not> recorded h s \<and> recorded h s'
      \<and> verify_credit_signature env (tu_credit req)
      \<and> verify_device_binding env (tu_device_binding_sig req) h (tu_device_address req)
      \<and> amount = cd_amount (tu_credit req) \<and> amount \<le> ucast (fe_cap_wei env)" if ok: "res = Inr (req, h, amount)"
  proof -
    obtain s1 where "limiter_gate (tu_device_address req) now s = (Inr (), s1)"
      "ledger_gate h req t s1 = (Inr (), s')" "WireTopUpRequest_parse env wire = Inr req"
      "h = attestation_hash env (tu_credit req)" "verify_credit_signature env (tu_credit req)"
      "verify_device_binding env (tu_device_binding_sig req) h (tu_device_address req)"
      "clamp_eth_transfer_amount (cd_amount (tu_credit req)) (fe_cap_wei env) = Some amount"
      using assms ok by (auto simp: top_up_admit_def Let_def op_run)
    then show ?thesis
      using limiter_gate_frame(1)[of h "tu_device_address req" now s] ledger_gate_records[of h req t s1]
      by (auto simp: ledger_gate_run clamp_eth_transfer_amount_def Let_def not_less recorded_def try_insert_def
          split: if_splits)
  qed
qed

lemma redeem_keeps [op_keeps]: "keeps (recorded k) (top_up_redeem env req h)"
  unfolding top_up_redeem_def
proof (intro op_keeps)
  fix sr
  show "keeps (recorded k) (\<lambda>s. case submit_world (fe_submit_redemption env sr (credit_redemption (tu_credit req))) s of
      (Inl e, s') \<Rightarrow> (Inl (ChainSubmit (chain_error_class e)), s') | (Inr anchor, s') \<Rightarrow> (Inr anchor, s'))"
    by (auto simp: keeps_def dest: submit_world_recorded split: prod.splits sum.splits)
  show "keeps (recorded k) (case a of (tx, block) \<Rightarrow> op_seq (op_modify (with_ledger (update_redemption_tx_hash h tx)))
      (op_seq (op_modify (with_ledger (transition_state h RedeemMined))) (op_ret tx)))" for a
    by (cases a) (auto intro!: op_keeps)
qed

lemma transfer_keeps [op_keeps]: "keeps (recorded k) (top_up_transfer env req h amount tx)"
  by (auto simp: keeps_def top_up_transfer_def dest: submit_world_recorded split: prod.splits sum.splits)

lemma record_keeps [op_keeps]: "keeps (recorded k) (top_up_record h amount anchor)"
  by (cases anchor) (auto simp: top_up_record_def intro!: op_keeps)

lemma handle_keeps: "keeps (recorded k) (top_up_handle env now t wire)"
  unfolding top_up_handle_def by (intro op_keeps) (auto intro!: op_keeps split: prod.splits)

text \<open>A request that is refused at admission: no redemption, no transfer.\<close>

lemma handle_chain_untouched:
  assumes "top_up_handle env now t wire s = (res, s')" "WireTopUpRequest_parse env wire = Inr req"
    and "recorded (attestation_hash env (tu_credit req)) s"
  shows "fs_world s' = fs_world s \<and> (\<exists>e. res = Inl e)"
proof -
  obtain r s1 where a: "top_up_admit env now t wire s = (r, s1)" by fastforce
  note adm = top_up_admit_cases[OF a]
  have "\<exists>e. r = Inl e" using adm(3) assms(2,3) by (cases r) fastforce+
  then obtain e where "r = Inl e" by blast
  then have "res = Inl e" "s' = s1" using assms(1) a by (auto simp: top_up_handle_def op_bind_step)
  then show ?thesis using adm(1) by simp
qed

lemma handle_chain_touched:
  assumes "top_up_handle env now t wire s = (res, s')" "fs_world s' \<noteq> fs_world s"
  shows "\<exists>req. WireTopUpRequest_parse env wire = Inr req \<and> recorded (attestation_hash env (tu_credit req)) s'"
proof -
  obtain r s1 where a: "top_up_admit env now t wire s = (r, s1)" by fastforce
  note adm = top_up_admit_cases[OF a]
  obtain req h amount where r: "r = Inr (req, h, amount)"
    using assms a adm(1) by (cases r) (auto simp: top_up_handle_def op_bind_step)
  note ok = adm(3)[OF r]
  have "keeps (recorded h) (op_bind (top_up_redeem env req h) (\<lambda>redeem_tx.
     op_bind (top_up_transfer env req h amount redeem_tx) (\<lambda>anchor.
     op_seq (top_up_record h amount anchor)
       (op_ret \<lparr> ws_redeem_tx_hash = redeem_tx, ws_eth_transfer_tx_hash = Some (fst anchor),
                 ws_eth_transferred_wei = amount \<rparr>))))" by (intro op_keeps)
  from keepsD[OF this] have "recorded h s'"
    using assms(1) ok a r unfolding top_up_handle_def
    by (subst (asm) op_bind_step(1)[of "top_up_admit env now t wire" s "(req, h, amount)" s1]) auto
  then show ?thesis using ok by blast
qed

lemma resume_keeps:
  "recorded k s \<Longrightarrow> recorded k (resume_row env row s)"
proof -
  have sub: "keeps (recorded k) (\<lambda>s. case submit_world f s of (Inl e, s') \<Rightarrow> (Inl x, s') | (Inr anchor, s') \<Rightarrow> (Inr anchor, s'))"
    for f :: "'a \<Rightarrow> (ChainError + bytes \<times> u64) \<times> 'a" and x :: string
    by (auto simp: keeps_def dest: submit_world_recorded split: prod.splits sum.splits)
  have marks: "keeps (recorded k) (case a of (tx, block) \<Rightarrow>
      op_seq (op_modify (with_ledger (mark_eth_transfer_submitted (pr_attestation_hash row) tx amount)))
        (op_modify (with_ledger (mark_eth_transfer_mined (pr_attestation_hash row) block))))" for a amount
    by (cases a) (auto intro!: op_keeps)
  have redeem: "keeps (recorded k) (resume_redeem env row)" unfolding resume_redeem_def
    by (intro op_keeps) (auto simp: keeps_def dest: submit_world_recorded split: prod.splits sum.splits ChainError.splits)
  have "keeps (recorded k) (drive_eth_transfer env row)"
    unfolding drive_eth_transfer_def by (intro op_keeps sub marks)
  then have "keeps (recorded k) (drive_to_completion env row)" unfolding drive_to_completion_def
    using redeem by (auto intro!: op_keeps split: PaymentState.splits)
  then show "recorded k s \<Longrightarrow> recorded k (resume_row env row s)"
    unfolding keeps_def resume_row_def by (force split: prod.splits sum.splits)
qed

text \<open>The service between two requests: it serves other requests and resumes payments.\<close>

inductive serves :: "'w FunderEnv \<Rightarrow> 'w FunderState \<Rightarrow> 'w FunderState \<Rightarrow> bool" for env where
  request: "top_up_handle env now t wire s = (res, s') \<Longrightarrow> serves env s s'"
| resumption: "serves env s (resume_row env row s)"

inductive_cases servesE: "serves env s s'"

lemma serves_keeps: "(serves env)\<^sup>*\<^sup>* s s' \<Longrightarrow> recorded k s \<Longrightarrow> recorded k s'"
proof (induction rule: rtranclp_induct)
  case (step y z)
  have y: "recorded k y" by (rule step.IH[OF step.prems])
  from step(2) show ?case
    by (rule servesE) (use y in \<open>auto intro: keepsD[OF handle_keeps] resume_keeps\<close>)
qed

lemma attestation_paid:
  assumes "top_up_handle env now t wire s = (res, s1)" "fs_world s1 \<noteq> fs_world s"
    and "(serves env)\<^sup>*\<^sup>* s1 s2"
    and "top_up_handle env now' t' wire' s2 = (res', s3)"
    and "WireTopUpRequest_parse env wire = Inr req" "WireTopUpRequest_parse env wire' = Inr req'"
    and "attestation_hash env (tu_credit req') = attestation_hash env (tu_credit req)"
  shows "fs_world s3 = fs_world s2 \<and> (\<exists>e. res' = Inl e)"
    and "verify_credit_signature env (tu_credit req)"
    and "verify_device_binding env (tu_device_binding_sig req) (attestation_hash env (tu_credit req)) (tu_device_address req)"
    and "cd_amount (tu_credit req) \<le> ucast (fe_cap_wei env)"
proof -
  have rec: "recorded (attestation_hash env (tu_credit req)) s1"
    using handle_chain_touched[OF assms(1,2)] assms(5) by simp
  from handle_chain_untouched[OF assms(4,6)] show "fs_world s3 = fs_world s2 \<and> (\<exists>e. res' = Inl e)"
    using serves_keeps[OF assms(3) rec] assms(7) by simp
  obtain r sa where a: "top_up_admit env now t wire s = (r, sa)" by fastforce
  obtain rq h amount where r: "r = Inr (rq, h, amount)"
    using assms(1,2) a top_up_admit_cases(1)[OF a] by (cases r) (auto simp: top_up_handle_def op_bind_step)
  note ok = top_up_admit_cases(3)[OF a r]
  show "verify_credit_signature env (tu_credit req)"
    "verify_device_binding env (tu_device_binding_sig req) (attestation_hash env (tu_credit req)) (tu_device_address req)"
    "cd_amount (tu_credit req) \<le> ucast (fe_cap_wei env)" using ok assms(5) by auto
qed

text \<open>
  C17. An attestation is paid out at most once by the handler: once a request has reached the
  chain, and whatever the service does afterwards, every later request with the same attestation
  fails and leaves the chain alone. A request reaches the chain only with a credit signed by the
  payment authority, bound to the paid device, and within the transfer cap.
\<close>

theorem attestation_paid_at_most_once:
  assumes "top_up_handle env now t wire s = (res, s1)" "fs_world s1 \<noteq> fs_world s"
    and "(serves env)\<^sup>*\<^sup>* s1 s2"
    and "top_up_handle env now' t' wire' s2 = (res', s3)"
    and "WireTopUpRequest_parse env wire = Inr req" "WireTopUpRequest_parse env wire' = Inr req'"
    and "attestation_hash env (tu_credit req') = attestation_hash env (tu_credit req)"
  shows "fs_world s3 = fs_world s2 \<and> (\<exists>e. res' = Inl e)
    \<and> verify_credit_signature env (tu_credit req)
    \<and> verify_device_binding env (tu_device_binding_sig req) (attestation_hash env (tu_credit req)) (tu_device_address req)
    \<and> cd_amount (tu_credit req) \<le> ucast (fe_cap_wei env)"
  using attestation_paid[OF assms] by blast

section \<open>A crash between transfer and bookkeeping\<close>

lemma top_up_admit_row:
  assumes "top_up_admit env now t wire s = (Inr (req, h, amount), s1)"
  shows "\<exists>l row. fs_ledger s1 = l @ [row] \<and> h \<notin> pr_attestation_hash ` set l \<and> pr_attestation_hash row = h
    \<and> pr_device_address row = tu_device_address req \<and> pr_credit_amount row = amount"
proof -
  obtain s0 where g: "ledger_gate h req t s0 = (Inr (), s1)"
    using assms by (auto simp: top_up_admit_def Let_def op_run)
  then show ?thesis using top_up_admit_cases(3)[OF assms refl]
    by (auto simp: ledger_gate_run recorded_def try_insert_def)
qed

lemma update_where_last:
  assumes "h \<notin> pr_attestation_hash ` set l" "pr_attestation_hash row = h"
  shows "snd (update_where h f (l @ [row])) = l @ [f row]"
proof -
  have "map (\<lambda>r. if pr_attestation_hash r = h then f r else r) l = map (\<lambda>r. r) l"
    using assms(1) by (intro map_cong) auto
  then show ?thesis using assms(2) by (simp add: update_where_def)
qed

lemma top_up_redeem_ledger:
  assumes "top_up_redeem env req h s1 = (Inr tx, s2)"
  shows "fs_ledger s2 = snd (transition_state h RedeemMined (snd (update_redemption_tx_hash h tx (fs_ledger s1))))"
    and "fe_local_signer env"
proof -
  obtain sr w block where run: "fe_local_signer env"
    "fe_submit_redemption env sr (credit_redemption (tu_credit req)) (fs_world s1) = (Inr (tx, block), w)"
    "s2 = with_ledger (transition_state h RedeemMined) (with_ledger (update_redemption_tx_hash h tx) (s1 \<lparr> fs_world := w \<rparr>))"
    using assms by (auto simp: top_up_redeem_def op_run submit_world_def split: prod.splits sum.splits)
  then show "fs_ledger s2 = snd (transition_state h RedeemMined (snd (update_redemption_tx_hash h tx (fs_ledger s1))))"
    "fe_local_signer env" by (simp_all add: with_ledger_def)
qed

lemma crash_after_transfer:
  assumes "top_up_admit env now t wire s = (Inr (req, h, amount), s1)"
    and "top_up_redeem env req h s1 = (Inr redeem_tx, s2)"
    and "top_up_transfer env req h amount redeem_tx s2 = (Inr anchor, s3)"
  shows "fs_world s3 = snd (fe_submit_eth_transfer env (tu_device_address req) amount (fs_world s2))"
    and "\<exists>row \<in> set (find_resumable_entries (fs_ledger s3)). pr_attestation_hash row = h \<and> pr_state row = RedeemMined
      \<and> fs_world (resume_row env row s3) = snd (fe_submit_eth_transfer env (tu_device_address req) amount (fs_world s3))"
proof -
  show "fs_world s3 = snd (fe_submit_eth_transfer env (tu_device_address req) amount (fs_world s2))"
    using assms(3) by (auto simp: top_up_transfer_def submit_world_def split: prod.splits sum.splits)
  obtain l row where row: "fs_ledger s1 = l @ [row]" "h \<notin> pr_attestation_hash ` set l" "pr_attestation_hash row = h"
    "pr_device_address row = tu_device_address req" "pr_credit_amount row = amount"
    using top_up_admit_row[OF assms(1)] by blast
  define row' where "row' = row \<lparr> pr_redemption_tx_hash := Some redeem_tx, pr_state := RedeemMined \<rparr>"
  have "fs_ledger s3 = fs_ledger s2"
    using assms(3) by (auto simp: top_up_transfer_def submit_world_def split: prod.splits sum.splits)
  also have "\<dots> = l @ [row']"
    using top_up_redeem_ledger(1)[OF assms(2)] row(2,3)
    by (simp add: row(1) update_redemption_tx_hash_def transition_state_def update_where_last row'_def)
  finally have "row' \<in> set (find_resumable_entries (fs_ledger s3))"
    by (simp add: find_resumable_entries_def row'_def)
  moreover have "clamp_eth_transfer_amount amount (fe_cap_wei env) = Some amount"
    using top_up_admit_cases(3)[OF assms(1) refl] by (auto simp: clamp_eth_transfer_amount_def Let_def)
  then have "fs_world (resume_row env row' s3) =
      snd (fe_submit_eth_transfer env (tu_device_address req) amount (fs_world s3))"
    using top_up_redeem_ledger(2)[OF assms(2)] row(4,5)
    by (simp add: resume_row_def drive_to_completion_def drive_eth_transfer_def row'_def op_seq_def op_bind_def
        op_guard_def op_try_def submit_world_def case_prod_beta split: sum.split)
  ultimately show "\<exists>row \<in> set (find_resumable_entries (fs_ledger s3)). pr_attestation_hash row = h \<and> pr_state row = RedeemMined
      \<and> fs_world (resume_row env row s3) = snd (fe_submit_eth_transfer env (tu_device_address req) amount (fs_world s3))"
    using row(3) by (intro bexI[of _ row']) (simp_all add: row'_def)
qed

text \<open>
  C36. A crash between the transfer and its bookkeeping pays twice: when the process stops after
  the transfer has been delivered and before the ledger records it, the payment is still in the
  state of a mined redemption, the restart scan picks it up, and resumption submits the same
  transfer, to the same device and for the same amount, a second time.
\<close>

theorem crash_after_transfer_pays_again:
  assumes "top_up_admit env now t wire s = (Inr (req, h, amount), s1)"
    and "top_up_redeem env req h s1 = (Inr redeem_tx, s2)"
    and "top_up_transfer env req h amount redeem_tx s2 = (Inr anchor, s3)"
  shows "fs_world s3 = snd (fe_submit_eth_transfer env (tu_device_address req) amount (fs_world s2))
    \<and> (\<exists>row \<in> set (find_resumable_entries (fs_ledger s3)). pr_attestation_hash row = h \<and> pr_state row = RedeemMined
      \<and> fs_world (resume_row env row s3) = snd (fe_submit_eth_transfer env (tu_device_address req) amount (fs_world s3)))"
  using crash_after_transfer[OF assms] by blast

section \<open>Examples\<close>

text \<open>
  A stand-in for the outside: a signature names its signer in its first bytes, text fields hold
  the bytes they decode to, and the world is the list of delivered transfers.
\<close>

definition example_funder :: "(bytes \<times> u256) list FunderEnv" where
  "example_funder = \<lparr>
     fe_keccak256 = (\<lambda>b. take 32 b),
     fe_recover = (\<lambda>r s parity digest. Some (take 20 r)),
     fe_domain_separator = (\<lambda>_ _ _ _. ENTITLEMENT_DOMAIN_SEPARATOR_BASE_SEPOLIA_V1),
     fe_hex_decode = (\<lambda>s. Some (take (length s div 2) s)),
     fe_parse_address = (\<lambda>s. Some s),
     fe_from_str_radix = (\<lambda>s radix. Some 5),
     fe_payment_authority = replicate 20 3,
     fe_chain_env = BaseSepolia,
     fe_cap_wei = 1000,
     fe_local_signer = True,
     fe_sign_redemption = (\<lambda>_. Inr []),
     fe_submit_redemption = (\<lambda>_ _ w. (Inr (replicate 32 8, 6), w)),
     fe_submit_eth_transfer = (\<lambda>addr amount w. (Inr (replicate 32 9, 7), w @ [(addr, amount)])) \<rparr>"

definition example_credit_wire :: WireCredit where
  "example_credit_wire = \<lparr> wr_user_id = replicate 64 1, wr_amount = [], wr_nonce = 0, wr_schema_version = 1,
     wr_expires_at = 100, wr_signature = replicate 20 3 @ replicate 44 0 @ [27] @ replicate 65 0 \<rparr>"

definition example_wire :: WireTopUpRequest where
  "example_wire = \<lparr> wt_credit = example_credit_wire,
     wt_device_binding_sig = replicate 20 4 @ replicate 44 0 @ [28] @ replicate 65 0,
     wt_device_address = replicate 20 4 \<rparr>"

definition example_funder_state :: "(bytes \<times> u256) list FunderState" where
  "example_funder_state = \<lparr> fs_limiter = RateLimiter_new RateLimitConfig_default 0, fs_ledger = [], fs_world = [] \<rparr>"

definition example_request :: TopUpRequest where
  "example_request = \<lparr> tu_credit = \<lparr> cd_user_id = replicate 32 1, cd_amount = 5, cd_nonce = 0, cd_schema_version = 1,
       cd_expires_at = 100, cd_signature = replicate 20 3 @ replicate 44 0 @ [27] \<rparr>,
     tu_device_binding_sig = replicate 20 4 @ replicate 44 0 @ [28], tu_device_address = replicate 20 4 \<rparr>"

lemma example_parse: "WireTopUpRequest_parse example_funder example_wire = Inr example_request"
  by code_simp

lemma example_limiter: "\<exists>l. rate_limit_check addr 1 (RateLimiter_new RateLimitConfig_default 0) = (Allowed, l)"
  by (simp add: rate_limit_check_def check_per_address_def check_global_def RateLimiter_new_def RateLimitConfig_default_def
      replenish_def dur_secs_def PER_ADDRESS_BUCKET_SIZE_def PER_ADDRESS_REPLENISH_INTERVAL_SECS_def
      GLOBAL_CAP_PER_HOUR_def Let_def)

lemma example_checks:
  "verify_credit_signature example_funder (tu_credit example_request)"
  "attestation_hash example_funder (tu_credit example_request) = replicate 32 1"
  "verify_device_binding example_funder (tu_device_binding_sig example_request) (replicate 32 1) (tu_device_address example_request)"
  by code_simp+

lemma example_admitted:
  "\<exists>s1. top_up_admit example_funder 1 50 example_wire example_funder_state = (Inr (example_request, replicate 32 1, 5), s1)"
proof -
  obtain l where l: "rate_limit_check (tu_device_address example_request) 1 (RateLimiter_new RateLimitConfig_default 0) = (Allowed, l)"
    using example_limiter by blast
  have "clamp_eth_transfer_amount 5 (fe_cap_wei example_funder) = Some 5"
    by (simp add: clamp_eth_transfer_amount_def example_funder_def)
  moreover have "cd_schema_version (tu_credit example_request) = 1" "cd_expires_at (tu_credit example_request) = 100"
    "cd_amount (tu_credit example_request) = 5" by (simp_all add: example_request_def)
  ultimately show ?thesis using l example_checks
    by (simp add: top_up_admit_def example_parse op_run limiter_gate_def ledger_gate_run recorded_def example_funder_state_def
        MAX_KNOWN_SCHEMA_VERSION_def Let_def)
qed

lemma example_redeemed:
  "\<exists>s2. top_up_redeem example_funder req h s = (Inr (replicate 32 8), s2) \<and> fs_world s2 = fs_world s"
  by (simp add: top_up_redeem_def op_bind_def op_seq_def op_try_def op_guard_def example_funder_def submit_world_def)

lemma example_transferred:
  "\<exists>s3. top_up_transfer example_funder example_request h 5 tx s = (Inr (replicate 32 9, 7), s3)
     \<and> fs_world s3 = fs_world s @ [(replicate 20 4, 5)]"
  by (simp add: top_up_transfer_def example_funder_def submit_world_def example_request_def)

theorem attestation_paid_at_most_once_witness:
  "fs_world (snd (top_up_handle example_funder 1 50 example_wire example_funder_state)) = [(replicate 20 4, 5)]
   \<and> fs_world (snd (top_up_handle example_funder 2 51 example_wire
        (snd (top_up_handle example_funder 1 50 example_wire example_funder_state)))) = [(replicate 20 4, 5)]"
proof -
  obtain res s1 where one: "top_up_handle example_funder 1 50 example_wire example_funder_state = (res, s1)" by fastforce
  obtain res' s3 where two: "top_up_handle example_funder 2 51 example_wire s1 = (res', s3)" by fastforce
  have paid: "fs_world s1 = [(replicate 20 4, 5)]"
  proof -
    obtain a where a: "top_up_admit example_funder 1 50 example_wire example_funder_state
        = (Inr (example_request, replicate 32 1, 5), a)" using example_admitted by blast
    have "fs_world a = []" using top_up_admit_cases(1)[OF a] by (simp add: example_funder_state_def)
    moreover obtain b where b: "top_up_redeem example_funder example_request (replicate 32 1) a = (Inr (replicate 32 8), b)"
      "fs_world b = fs_world a" using example_redeemed by blast
    moreover obtain c where c: "top_up_transfer example_funder example_request (replicate 32 1) 5 (replicate 32 8) b
        = (Inr (replicate 32 9, 7), c)" "fs_world c = fs_world b @ [(replicate 20 4, 5)]"
      using example_transferred by blast
    ultimately show ?thesis using one
      by (auto simp: top_up_handle_def op_bind_step a op_seq_def top_up_record_def op_bind_def simp del: One_nat_def)
  qed
  have touched: "fs_world s1 \<noteq> fs_world example_funder_state" using paid by (simp add: example_funder_state_def)
  have "fs_world s3 = fs_world s1"
    using attestation_paid_at_most_once[OF one touched rtranclp.rtrancl_refl two example_parse example_parse refl] by blast
  then show ?thesis using paid one two by simp
qed

theorem crash_after_transfer_pays_again_witness:
  "\<exists>s1 s2 s3 row. top_up_admit example_funder 1 50 example_wire example_funder_state
        = (Inr (example_request, replicate 32 1, 5), s1)
     \<and> top_up_redeem example_funder example_request (replicate 32 1) s1 = (Inr (replicate 32 8), s2)
     \<and> top_up_transfer example_funder example_request (replicate 32 1) 5 (replicate 32 8) s2 = (Inr (replicate 32 9, 7), s3)
     \<and> row \<in> set (find_resumable_entries (fs_ledger s3))
     \<and> fs_world (resume_row example_funder row s3) = [(replicate 20 4, 5), (replicate 20 4, 5)]"
proof -
  obtain s1 where a: "top_up_admit example_funder 1 50 example_wire example_funder_state
      = (Inr (example_request, replicate 32 1, 5), s1)" using example_admitted by blast
  have w1: "fs_world s1 = []" using top_up_admit_cases(1)[OF a] by (simp add: example_funder_state_def)
  obtain s2 where b: "top_up_redeem example_funder example_request (replicate 32 1) s1 = (Inr (replicate 32 8), s2)"
    "fs_world s2 = fs_world s1" using example_redeemed by blast
  obtain s3 where c: "top_up_transfer example_funder example_request (replicate 32 1) 5 (replicate 32 8) s2
      = (Inr (replicate 32 9, 7), s3)" "fs_world s3 = fs_world s2 @ [(replicate 20 4, 5)]"
    using example_transferred by blast
  have again: "snd (fe_submit_eth_transfer example_funder (tu_device_address example_request) 5 w) = w @ [(replicate 20 4, 5)]"
    for w by (simp add: example_funder_def example_request_def)
  obtain row where "row \<in> set (find_resumable_entries (fs_ledger s3))"
    "fs_world (resume_row example_funder row s3) = fs_world s3 @ [(replicate 20 4, 5)]"
    using crash_after_transfer_pays_again[OF a b(1) c(1)] unfolding again by blast
  then show ?thesis using a b c w1 by auto
qed

end
