(* ===== verification/Seed_Phrase.thy ===== *)
theory Seed_Phrase
  imports Bip39_Wordlist Bit_Strings Totp
begin

text \<open>
  The seed phrase of a recovery backup (\<open>crates/pangolin-store/src/recovery_backup.rs\<close>): the words
  of 32 bytes of entropy and their checksum byte, the search in the word list, and the bytes a
  phrase feeds to the password derivation. A Rust \<open>String\<close> is the list of its bytes as characters.
  The binary search is the one of the standard library's slices; SHA-256 is a parameter. The lemmas
  show that the search finds exactly the words of the list, that entropy always gives 24 words
  which the unlock path accepts, and that phrases and derivation inputs determine each other.
\<close>

unbundle bit_operations_syntax

section \<open>Errors\<close>

text \<open>
  A formatted message is its template and the numbers filled in; the names filled in are spelled out.
\<close>

datatype BackupError =
    BackupValidation (be_kind: string) (be_message: string) (be_args: "nat list")
  | IntegrityFailed
  | BackupAuthenticationFailed
  | UnknownSchemaVersion u8 u8
  | KdfParamOutOfRange string u64
  | TextChecksumMismatch
  | TextInvalidEncoding
  | SeedPhraseMalformed string

section \<open>Searching the list\<close>

function binary_search_loop :: "'a::linorder list \<Rightarrow> 'a \<Rightarrow> nat \<Rightarrow> nat \<Rightarrow> nat" where
  "binary_search_loop xs x base size' =
     (if 1 < size'
      then let half = size' div 2; mid = base + half
           in binary_search_loop xs x (if x < xs ! mid then base else mid) (size' - half)
      else base)"
  by pat_completeness auto
termination by (relation "measure (\<lambda>(xs, x, base, size'). size')") auto

declare binary_search_loop.simps [simp del]

definition binary_search :: "'a::linorder list \<Rightarrow> 'a \<Rightarrow> nat + nat" where
  "binary_search xs x =
     (if xs = [] then Inl 0
      else let base = binary_search_loop xs x 0 (length xs)
           in if xs ! base = x then Inr base
              else Inl (if xs ! base < x then base + 1 else base))"

definition is_bip39_english_word :: "string \<Rightarrow> bool" where
  "is_bip39_english_word word = is_ok (binary_search BIP39_ENGLISH_WORDLIST word)"

section \<open>From entropy to words\<close>

definition SEED_PHRASE_WORD_COUNT :: nat where "SEED_PHRASE_WORD_COUNT = 24"

definition BIP39_ENTROPY_BYTES :: nat where "BIP39_ENTROPY_BYTES = 32"

text \<open>The inner loop \<open>while bits >= 11\<close> and the loop over the bytes.\<close>

fun bip39_emit :: "u32 \<Rightarrow> nat \<Rightarrow> string list \<Rightarrow> nat \<times> string list" where
  "bip39_emit buf bits words =
     (if 11 \<le> bits
      then bip39_emit buf (bits - 11) (words @ [BIP39_ENGLISH_WORDLIST ! unat (drop_bit (bits - 11) buf AND 0x07FF)])
      else (bits, words))"

declare bip39_emit.simps [simp del]

fun bip39_words_loop :: "u32 \<Rightarrow> nat \<Rightarrow> string list \<Rightarrow> bytes \<Rightarrow> u32 \<times> nat \<times> string list" where
  "bip39_words_loop buf bits words [] = (buf, bits, words)"
| "bip39_words_loop buf bits words (b # bs) =
     (let buf' = push_bit 8 buf OR ucast b; (bits', words') = bip39_emit buf' (bits + 8) words
      in bip39_words_loop buf' bits' words' bs)"

definition bip39_words_from_entropy :: "(bytes \<Rightarrow> bytes) \<Rightarrow> bytes \<Rightarrow> BackupError + string list" where
  "bip39_words_from_entropy sha256 entropy =
     (if length entropy \<noteq> BIP39_ENTROPY_BYTES
      then Inl (BackupValidation ''argument'' ''BIP-39 entropy must be 32 bytes (got {})'' [length entropy])
      else let checksum_byte = sha256 entropy ! 0;
               (buf, bits, words) = bip39_words_loop 0 0 [] (entropy @ [checksum_byte])
           in Inr words)"

text \<open>\<open>generate_seed_phrase\<close>: the entropy that \<open>fill_random\<close> produced is passed in.\<close>

definition generate_seed_phrase :: "(bytes \<Rightarrow> bytes) \<Rightarrow> bytes \<Rightarrow> BackupError + string list" where
  "generate_seed_phrase sha256 entropy = bip39_words_from_entropy sha256 entropy"

section \<open>From words to the derivation input\<close>

fun join_words :: "nat \<Rightarrow> bytes \<Rightarrow> string list \<Rightarrow> bytes" where
  "join_words i joined [] = joined"
| "join_words i joined (w # ws) =
     join_words (i + 1) ((if 0 < i then joined @ [32] else joined) @ ascii w) ws"

definition seed_phrase_to_kdf_input :: "string list \<Rightarrow> BackupError + bytes" where
  "seed_phrase_to_kdf_input seed_phrase =
     (if length seed_phrase \<noteq> SEED_PHRASE_WORD_COUNT
      then Inl (SeedPhraseMalformed ''seed phrase must be exactly 24 words'')
      else if \<not> list_all is_bip39_english_word seed_phrase
      then Inl (SeedPhraseMalformed ''seed phrase contains a word not in the BIP-39 English wordlist'')
      else Inr (join_words 0 [] seed_phrase))"

section \<open>The search finds the words of the list\<close>

lemma binary_search_loop_range:
  "0 < n \<Longrightarrow> base \<le> binary_search_loop xs x base n \<and> binary_search_loop xs x base n < base + n"
proof (induction xs x base n rule: binary_search_loop.induct)
  case (1 xs x base n)
  show ?case
  proof (cases "1 < n")
    case True
    let ?b = "if x < xs ! (base + n div 2) then base else base + n div 2"
    have "?b \<le> binary_search_loop xs x ?b (n - n div 2) \<and> binary_search_loop xs x ?b (n - n div 2) < ?b + (n - n div 2)"
      using True by (intro 1(1)[OF True refl refl]) simp
    moreover have "binary_search_loop xs x base n = binary_search_loop xs x ?b (n - n div 2)"
      using True by (simp add: binary_search_loop.simps[of xs x base n] Let_def)
    moreover have "base \<le> ?b" "?b + (n - n div 2) \<le> base + n" using True by (auto split: if_splits)
    ultimately show ?thesis by linarith
  next
    case False
    then show ?thesis using 1(2) by (simp add: binary_search_loop.simps[of xs x base n])
  qed
qed

lemma binary_search_loop_finds:
  assumes "sorted_wrt (<) xs" "base \<le> i" "i < base + n" "base + n \<le> length xs"
  shows "binary_search_loop xs (xs ! i) base n = i"
  using assms(2-)
proof (induction n arbitrary: base rule: less_induct)
  case (less n)
  have order: "xs ! j < xs ! k \<longleftrightarrow> j < k" if "j < length xs" "k < length xs" for j k
    using assms(1) that by (metis sorted_wrt_nth_less less_imp_not_less linorder_neqE_nat less_irrefl)
  show ?case
  proof (cases "1 < n")
    case True
    let ?b = "if xs ! i < xs ! (base + n div 2) then base else base + n div 2"
    have "?b \<le> i \<and> i < ?b + (n - n div 2) \<and> ?b + (n - n div 2) \<le> length xs"
      using less.prems True by (simp add: order) linarith
    then have "binary_search_loop xs (xs ! i) ?b (n - n div 2) = i" using True by (intro less.IH) simp_all
    then show ?thesis using True by (simp add: binary_search_loop.simps[of xs "xs ! i" base n] Let_def)
  next
    case False
    then show ?thesis using less.prems by (simp add: binary_search_loop.simps[of xs "xs ! i" base n])
  qed
qed

lemma binary_search_ok:
  assumes "sorted_wrt (<) xs"
  shows "is_ok (binary_search xs x) \<longleftrightarrow> x \<in> set xs"
proof
  assume "x \<in> set xs"
  then obtain i where i: "i < length xs" "xs ! i = x" by (auto simp: in_set_conv_nth)
  then have "binary_search_loop xs x 0 (length xs) = i"
    using binary_search_loop_finds[OF assms, of 0 i "length xs"] by simp
  then show "is_ok (binary_search xs x)" using i by (auto simp: binary_search_def Let_def)
next
  assume ok: "is_ok (binary_search xs x)"
  then have ne: "xs \<noteq> []" by (auto simp: binary_search_def)
  then have "xs ! binary_search_loop xs x 0 (length xs) = x"
    using ok by (auto simp: binary_search_def Let_def split: if_splits)
  then show "x \<in> set xs" using binary_search_loop_range[of "length xs" 0 xs x] ne by (metis add_0 length_greater_0_conv nth_mem)
qed

lemma is_bip39_english_word_iff: "is_bip39_english_word w \<longleftrightarrow> w \<in> set BIP39_ENGLISH_WORDLIST"
  by (simp add: is_bip39_english_word_def binary_search_ok wordlist_sorted)

section \<open>Entropy and words determine each other\<close>

definition words_at :: "u32 list \<Rightarrow> string list" where
  "words_at is = map (\<lambda>i. BIP39_ENGLISH_WORDLIST ! unat i) is"

lemma words_at_simps [simp]:
  "words_at [] = []" "words_at (i # is) = BIP39_ENGLISH_WORDLIST ! unat i # words_at is"
  "words_at (is @ js) = words_at is @ words_at js" "length (words_at is) = length is"
  by (simp_all add: words_at_def)

lemma bip39_emit_bits:
  "bip39_emit buf n words = (n', words') \<Longrightarrow>
     \<exists>is. words' = words @ words_at is \<and> (\<forall>i \<in> set is. i < 2 ^ 11) \<and> n' < 11
       \<and> low_bits n buf = group_bits 11 is @ low_bits n' buf"
proof (induction buf n words rule: bip39_emit.induct)
  case (1 buf n words)
  show ?case
  proof (cases "11 \<le> n")
    case True
    let ?i = "drop_bit (n - 11) buf AND 0x07FF"
    have mask: "?i = drop_bit (n - 11) buf AND mask 11" by (simp add: mask_eq_exp_minus_1)
    have "?i < 2 ^ 11" unfolding mask by (rule and_mask_less_size) (simp add: word_size)
    moreover have "low_bits n buf = low_bits 11 ?i @ low_bits (n - 11) buf"
      using low_bits_append[of "n - 11" 11 buf] True unfolding mask by (simp add: low_bits_mask)
    moreover have "bip39_emit buf (n - 11) (words @ [BIP39_ENGLISH_WORDLIST ! unat ?i]) = (n', words')"
      using 1(2) True by (simp add: bip39_emit.simps[of buf n])
    with 1(1)[OF True] obtain "is" where
      "words' = (words @ [BIP39_ENGLISH_WORDLIST ! unat ?i]) @ words_at is" "\<forall>i \<in> set is. i < 2 ^ 11" "n' < 11"
      "low_bits (n - 11) buf = group_bits 11 is @ low_bits n' buf" by blast
    ultimately show ?thesis by (intro exI[of _ "?i # is"]) auto
  next
    case False
    then show ?thesis using 1(2) by (intro exI[of _ "[]"]) (auto simp: bip39_emit.simps[of buf n])
  qed
qed

lemma bip39_words_loop_bits:
  "bip39_words_loop buf n words bs = (buf', n', words') \<Longrightarrow> n < 11 \<Longrightarrow>
     \<exists>is. words' = words @ words_at is \<and> (\<forall>i \<in> set is. i < 2 ^ 11) \<and> n' < 11
       \<and> low_bits n buf @ group_bits 8 bs = group_bits 11 is @ low_bits n' buf'"
proof (induction buf n words bs rule: bip39_words_loop.induct)
  case (1 buf n words)
  then show ?case by (intro exI[of _ "[]"]) auto
next
  case (2 buf n words b bs)
  let ?b = "push_bit 8 buf OR ucast b"
  obtain n1 words1 where e: "bip39_emit ?b (n + 8) words = (n1, words1)" by fastforce
  have "(ucast b :: u32) < 2 ^ 8"
    using unsigned_less[of b] by (simp add: word_less_nat_alt unat_ucast_widen)
  then have "low_bits (n + 8) ?b = low_bits n buf @ low_bits 8 (ucast b :: u32)"
    using 2(3) by (intro low_bits_push) simp_all
  then have push: "low_bits (n + 8) ?b = low_bits n buf @ low_bits 8 b" by (simp add: low_bits_ucast)
  from bip39_emit_bits[OF e] obtain "is" where "is": "words1 = words @ words_at is" "\<forall>i \<in> set is. i < 2 ^ 11" "n1 < 11"
    "low_bits (n + 8) ?b = group_bits 11 is @ low_bits n1 ?b" by blast
  moreover have "bip39_words_loop ?b n1 words1 bs = (buf', n', words')" using 2(2) e by (simp add: Let_def)
  with 2(1)[OF refl e[symmetric] refl _ "is"(3)] obtain js where js: "words' = words1 @ words_at js" "\<forall>i \<in> set js. i < 2 ^ 11" "n' < 11"
    "low_bits n1 ?b @ group_bits 8 bs = group_bits 11 js @ low_bits n' buf'" by blast
  ultimately have "low_bits n buf @ group_bits 8 (b # bs) = group_bits 11 (is @ js) @ low_bits n' buf'"
    using push by simp (metis append.assoc)
  with "is"(1,2) js(1-3) show ?case by (intro exI[of _ "is @ js"]) auto
qed

lemma words_from_entropy_bits:
  assumes "length entropy = 32"
  obtains "is" where "bip39_words_from_entropy sha256 entropy = Inr (words_at is)" "length is = 24" "\<forall>i \<in> set is. i < 2 ^ 11"
    "group_bits 8 (entropy @ [sha256 entropy ! 0]) = group_bits 11 is"
proof -
  let ?bs = "entropy @ [sha256 entropy ! 0]"
  obtain buf n words where l: "bip39_words_loop 0 0 [] ?bs = (buf, n, words)" by (metis surj_pair)
  from bip39_words_loop_bits[OF l] obtain "is" where "is": "words = words_at is" "\<forall>i \<in> set is. i < 2 ^ 11" "n < 11"
    "group_bits 8 ?bs = group_bits 11 is @ low_bits n buf" by auto
  have "8 * 33 = 11 * length is + n" using arg_cong[OF "is"(4), of length] assms by simp
  then have "length is = 24 \<and> n = 0" using "is"(3) by presburger
  with "is" l assms show ?thesis by (intro that[of "is"]) (simp_all add: bip39_words_from_entropy_def BIP39_ENTROPY_BYTES_def)
qed

lemma words_at_inj:
  assumes "words_at is = words_at js" "\<forall>i \<in> set is. i < 2 ^ 11" "\<forall>i \<in> set js. i < 2 ^ 11"
  shows "is = js"
proof -
  have "inj_on (\<lambda>i :: u32. BIP39_ENGLISH_WORDLIST ! unat i) {i. i < 2 ^ 11}"
    by (intro inj_onI) (auto simp: nth_eq_iff_index_eq wordlist_distinct wordlist_length word_less_nat_alt intro: unsigned_word_eqI)
  then have "inj_on (\<lambda>i :: u32. BIP39_ENGLISH_WORDLIST ! unat i) (set is \<union> set js)"
    by (rule inj_on_subset) (use assms(2,3) in auto)
  then show ?thesis using assms(1) inj_on_map_eq_map unfolding words_at_def by blast
qed

lemma words_at_in_list: "\<forall>i \<in> set is. i < 2 ^ 11 \<Longrightarrow> set (words_at is) \<subseteq> set BIP39_ENGLISH_WORDLIST"
  by (auto simp: words_at_def wordlist_length word_less_nat_alt)

section \<open>Phrases and derivation inputs determine each other\<close>

lemma join_words_spaced:
  "0 < i \<Longrightarrow> join_words i joined ws = joined @ concat (map (\<lambda>w. 32 # ascii w) ws)"
  by (induction ws arbitrary: i joined) simp_all

lemma join_words_first: "join_words 0 [] (w # ws) = ascii w @ concat (map (\<lambda>w. 32 # ascii w) ws)"
  by (simp add: join_words_spaced)

lemma of_char_byte_eq: "(of_char c :: u8) = of_char d \<longleftrightarrow> c = d"
proof
  assume eq: "(of_char c :: u8) = of_char d"
  have "unat (of_char e :: u8) = of_char e" for e
    using of_nat_of_char[of e, where 'a = u8, symmetric] nat_of_char_less_256[of e] by (simp only: unat_of_nat) simp
  then have "(of_char c :: nat) = of_char d" using eq by metis
  then show "c = d" by simp
qed simp

lemma ascii_inj: "ascii v = ascii w \<longleftrightarrow> v = w"
  by (simp add: ascii_def inj_map_eq_map inj_def of_char_byte_eq)

lemma lowercase_no_space:
  assumes "lowercase_word w"
  shows "32 \<notin> set (ascii w)"
proof
  assume "32 \<in> set (ascii w)"
  then obtain c where c: "c \<in> set w" "(of_char c :: u8) = 32" by (auto simp: ascii_def)
  then have "(of_char c :: u8) = of_char (CHR '' '')" by simp
  then have "c = CHR '' ''" by (simp only: of_char_byte_eq)
  then show False using c(1) assms by (auto simp: lowercase_word_def list_all_iff)
qed

lemma until_space_inj:
  assumes "32 \<notin> set a" "32 \<notin> set b" "a @ concat (map (\<lambda>w. 32 # f w) vs) = b @ concat (map (\<lambda>w. 32 # f w) ws)"
  shows "a = b \<and> concat (map (\<lambda>w. 32 # f w) vs) = concat (map (\<lambda>w. 32 # f w) ws)"
proof -
  have "takeWhile (\<lambda>c. c \<noteq> 32) (x @ concat (map (\<lambda>w. 32 # f w) us)) = x" if "32 \<notin> set x" for x us
    using that by (cases us) (auto simp: takeWhile_append takeWhile_eq_all_conv)
  then have "a = b" using assms by metis
  then show ?thesis using assms(3) by simp
qed

lemma spaced_words_inj:
  "list_all lowercase_word vs \<Longrightarrow> list_all lowercase_word ws \<Longrightarrow>
     concat (map (\<lambda>w. 32 # ascii w) vs) = concat (map (\<lambda>w. 32 # ascii w) ws) \<Longrightarrow> vs = ws"
proof (induction vs arbitrary: ws)
  case Nil
  then show ?case by (cases ws) simp_all
next
  case (Cons v vs)
  then obtain w ws' where "ws": "ws = w # ws'" by (cases ws) simp_all
  have "ascii v = ascii w \<and> concat (map (\<lambda>w. 32 # ascii w) vs) = concat (map (\<lambda>w. 32 # ascii w) ws')"
    using Cons.prems by (intro until_space_inj) (simp_all add: "ws" lowercase_no_space)
  then show ?case using Cons.IH[of ws'] Cons.prems(1,2) by (simp add: "ws" ascii_inj)
qed

lemma join_words_inj:
  assumes "list_all lowercase_word vs" "list_all lowercase_word ws" "length vs = length ws" "join_words 0 [] vs = join_words 0 [] ws"
  shows "vs = ws"
proof (cases vs)
  case Nil
  then show ?thesis using assms(3) by simp
next
  case (Cons v vs')
  then obtain w ws' where "ws": "ws = w # ws'" using assms(3) by (cases ws) simp_all
  have "ascii v = ascii w \<and> concat (map (\<lambda>w. 32 # ascii w) vs') = concat (map (\<lambda>w. 32 # ascii w) ws')"
    using assms by (intro until_space_inj) (simp_all add: Cons "ws" join_words_first lowercase_no_space del: join_words.simps)
  then show ?thesis using spaced_words_inj[of vs' ws'] assms(1,2) by (simp add: Cons "ws" ascii_inj)
qed

lemma kdf_input_ok:
  "seed_phrase_to_kdf_input ws = Inr k \<longleftrightarrow>
     length ws = 24 \<and> set ws \<subseteq> set BIP39_ENGLISH_WORDLIST \<and> k = join_words 0 [] ws"
  by (auto simp: seed_phrase_to_kdf_input_def SEED_PHRASE_WORD_COUNT_def list_all_iff is_bip39_english_word_iff)

lemma kdf_input_inj:
  assumes "seed_phrase_to_kdf_input vs = Inr k" "seed_phrase_to_kdf_input ws = Inr k"
  shows "vs = ws"
  using assms by (intro join_words_inj) (auto simp: kdf_input_ok list_all_iff wordlist_words)

text \<open>
  C35. Every 32 bytes of entropy give a phrase of 24 words which the unlock path accepts, and two
  entropies give the same derivation input only if they are equal: no entropy is lost between the
  random generator and the password derivation.
\<close>

theorem seed_phrase_keeps_entropy:
  assumes "length entropy = 32" "length entropy' = 32"
  shows "\<exists>ws k ws' k'. generate_seed_phrase sha256 entropy = Inr ws \<and> length ws = 24 \<and> seed_phrase_to_kdf_input ws = Inr k
    \<and> generate_seed_phrase sha256 entropy' = Inr ws' \<and> seed_phrase_to_kdf_input ws' = Inr k'
    \<and> (k = k' \<longleftrightarrow> entropy = entropy')"
proof -
  obtain "is" where "is": "bip39_words_from_entropy sha256 entropy = Inr (words_at is)" "length is = 24" "\<forall>i \<in> set is. i < 2 ^ 11"
    "group_bits 8 (entropy @ [sha256 entropy ! 0]) = group_bits 11 is" using words_from_entropy_bits[OF assms(1)] .
  obtain js where js: "bip39_words_from_entropy sha256 entropy' = Inr (words_at js)" "length js = 24" "\<forall>i \<in> set js. i < 2 ^ 11"
    "group_bits 8 (entropy' @ [sha256 entropy' ! 0]) = group_bits 11 js" using words_from_entropy_bits[OF assms(2)] .
  have k: "seed_phrase_to_kdf_input (words_at is) = Inr (join_words 0 [] (words_at is))"
    "seed_phrase_to_kdf_input (words_at js) = Inr (join_words 0 [] (words_at js))"
    using words_at_in_list "is"(2,3) js(2,3) by (simp_all add: kdf_input_ok)
  have "entropy = entropy'" if "join_words 0 [] (words_at is) = join_words 0 [] (words_at js)"
  proof -
    have "is = js" using kdf_input_inj k that words_at_inj "is"(3) js(3) by metis
    then have "group_bits 8 (entropy @ [sha256 entropy ! 0]) @ [] = group_bits 8 (entropy' @ [sha256 entropy' ! 0]) @ []"
      using "is"(4) js(4) by simp
    then show ?thesis using bits_decomposition[of "entropy @ [sha256 entropy ! 0]" "[]" "entropy' @ [sha256 entropy' ! 0]" "[]"] by simp
  qed
  then show ?thesis using "is"(1,2) js(1) k by (auto simp: generate_seed_phrase_def)
qed

theorem seed_phrase_keeps_entropy_witness:
  "\<exists>ws k ws' k'. generate_seed_phrase (\<lambda>_. replicate 32 0) (replicate 32 0) = Inr ws \<and> length ws = 24
    \<and> seed_phrase_to_kdf_input ws = Inr k
    \<and> generate_seed_phrase (\<lambda>_. replicate 32 0) (replicate 32 1) = Inr ws' \<and> seed_phrase_to_kdf_input ws' = Inr k' \<and> k \<noteq> k'"
proof -
  have "replicate 32 (0 :: u8) \<noteq> replicate 32 1" by (simp add: replicate_eq_replicate)
  then show ?thesis
    using seed_phrase_keeps_entropy[of "replicate 32 0" "replicate 32 1" "\<lambda>_. replicate 32 0"] by auto
qed

end
