(* ===== verification/Backup_Envelope.thy ===== *)
theory Backup_Envelope
  imports Seed_Phrase Key_Lifecycle
begin

text \<open>
  The encrypted recovery backup (\<open>crates/pangolin-store/src/recovery_backup.rs\<close> and
  \<open>Vault::create_recovery_backup\<close>): the outer header and its six gates, the CBOR body and its limits,
  sealing and opening under the seed phrase, the text form. SHA-256 and the AEAD are fields of
  \<open>crypto\<close>, Argon2id is the parameter \<open>argon2\<close>, and the header codec of the \<open>ciborium_ll\<close> crate is the
  record \<open>cbor\<close>; salts and nonces are passed in. A length is a \<open>nat\<close>. The lemmas show which blobs the
  header parser accepts, that a sealed backup opens exactly when its contents respect the limits
  of the decoder, in both forms, and that a backup created from a vault opens.
\<close>

unbundle bit_operations_syntax

section \<open>Layout\<close>

definition BACKUP_SCHEMA_VERSION :: u8 where "BACKUP_SCHEMA_VERSION = 3"

definition BACKUP_DOMAIN :: bytes where "BACKUP_DOMAIN = ascii ''pangolin-recovery-backup-v0'' @ [0]"

definition KDF_ALGO_ARGON2ID :: u8 where "KDF_ALGO_ARGON2ID = 1"

definition INTEGRITY_HASH_LEN :: nat where "INTEGRITY_HASH_LEN = 4"

definition MAX_KDF_MEMORY_KIB :: u32 where "MAX_KDF_MEMORY_KIB = 1024 * 1024"

definition MAX_KDF_TIME_COST :: u32 where "MAX_KDF_TIME_COST = 8"

definition MAX_KDF_PARALLELISM :: u32 where "MAX_KDF_PARALLELISM = 8"

definition MAX_KDF_MEMORY_KIB_TIME_COST_PRODUCT :: u64 where
  "MAX_KDF_MEMORY_KIB_TIME_COST_PRODUCT = 3 * 1024 * 1024"

definition MAX_CIPHERTEXT_LEN :: u64 where "MAX_CIPHERTEXT_LEN = 16 * 1024 * 1024"

definition OUTER_HEADER_LEN :: nat where
  "OUTER_HEADER_LEN = length BACKUP_DOMAIN + 1 + 1 + 4 + 4 + 4 + SALT_LEN + NONCE_LEN + 8"

definition BACKUP_OFFSET_SCHEMA_VERSION :: nat where "BACKUP_OFFSET_SCHEMA_VERSION = length BACKUP_DOMAIN"

definition BACKUP_OFFSET_KDF_ALGO :: nat where "BACKUP_OFFSET_KDF_ALGO = BACKUP_OFFSET_SCHEMA_VERSION + 1"

definition BACKUP_OFFSET_KDF_MEMORY :: nat where "BACKUP_OFFSET_KDF_MEMORY = BACKUP_OFFSET_KDF_ALGO + 1"

definition BACKUP_OFFSET_KDF_TIME :: nat where "BACKUP_OFFSET_KDF_TIME = BACKUP_OFFSET_KDF_MEMORY + 4"

definition BACKUP_OFFSET_KDF_PAR :: nat where "BACKUP_OFFSET_KDF_PAR = BACKUP_OFFSET_KDF_TIME + 4"

definition BACKUP_OFFSET_KDF_SALT :: nat where "BACKUP_OFFSET_KDF_SALT = BACKUP_OFFSET_KDF_PAR + 4"

definition BACKUP_OFFSET_NONCE :: nat where "BACKUP_OFFSET_NONCE = BACKUP_OFFSET_KDF_SALT + SALT_LEN"

definition BACKUP_OFFSET_CT_LEN :: nat where "BACKUP_OFFSET_CT_LEN = BACKUP_OFFSET_NONCE + NONCE_LEN"

section \<open>The outer header\<close>

definition integrity_hash :: "(bytes \<Rightarrow> bytes) \<Rightarrow> bytes \<Rightarrow> bytes" where
  "integrity_hash sha256 bs = take INTEGRITY_HASH_LEN (sha256 bs)"

definition write_outer_header :: "KdfParams \<Rightarrow> bytes \<Rightarrow> bytes \<Rightarrow> u64 \<Rightarrow> bytes" where
  "write_outer_header kdf_params salt nonce ct_len =
     BACKUP_DOMAIN @ [BACKUP_SCHEMA_VERSION] @ [KDF_ALGO_ARGON2ID]
     @ u32_to_be_bytes (kp_memory_kib kdf_params) @ u32_to_be_bytes (kp_time_cost kdf_params)
     @ u32_to_be_bytes (kp_parallelism kdf_params) @ salt @ nonce @ u64_to_be_bytes ct_len"

record OuterHeader =
  oh_schema_version :: u8
  oh_kdf_algo_id :: u8
  oh_kdf_params :: KdfParams
  oh_salt :: bytes
  oh_nonce :: bytes
  oh_ct_len :: u64

text \<open>\<open>u64::saturating_mul\<close>.\<close>

definition sat_mul :: "u64 \<Rightarrow> u64 \<Rightarrow> u64" where
  "sat_mul a b = (if unat a * unat b < 2 ^ 64 then a * b else - 1)"

text \<open>
  The conversion of \<open>ct_len\<close> to \<open>usize\<close> and the two checked additions come after the test against
  \<open>MAX_CIPHERTEXT_LEN\<close>, which makes their error branches unreachable.
\<close>

definition parse_outer_header :: "(bytes \<Rightarrow> bytes) \<Rightarrow> bytes \<Rightarrow> BackupError + OuterHeader \<times> bytes" where
  "parse_outer_header sha256 bs =
     (if length bs < OUTER_HEADER_LEN + INTEGRITY_HASH_LEN
      then Inl (BackupValidation ''argument'' ''backup too short: need at least {} bytes (got {})''
        [OUTER_HEADER_LEN + INTEGRITY_HASH_LEN, length bs])
      else if take (length BACKUP_DOMAIN) bs \<noteq> BACKUP_DOMAIN
      then Inl (BackupValidation ''argument'' ''backup domain prefix mismatch'' [])
      else let schema_version = bs ! BACKUP_OFFSET_SCHEMA_VERSION
      in if schema_version \<noteq> BACKUP_SCHEMA_VERSION
      then Inl (UnknownSchemaVersion schema_version BACKUP_SCHEMA_VERSION)
      else let kdf_algo_id = bs ! BACKUP_OFFSET_KDF_ALGO
      in if kdf_algo_id \<noteq> KDF_ALGO_ARGON2ID
      then Inl (BackupValidation ''argument'' ''unsupported backup KDF algorithm: {}'' [unat kdf_algo_id])
      else let memory_kib = u32_from_be_bytes (slice BACKUP_OFFSET_KDF_MEMORY 4 bs);
               time_cost = u32_from_be_bytes (slice BACKUP_OFFSET_KDF_TIME 4 bs);
               parallelism = u32_from_be_bytes (slice BACKUP_OFFSET_KDF_PAR 4 bs)
      in if MAX_KDF_MEMORY_KIB < memory_kib
      then Inl (KdfParamOutOfRange ''memory_kib'' (ucast memory_kib))
      else if MAX_KDF_TIME_COST < time_cost
      then Inl (KdfParamOutOfRange ''time_cost'' (ucast time_cost))
      else if MAX_KDF_PARALLELISM < parallelism
      then Inl (KdfParamOutOfRange ''parallelism'' (ucast parallelism))
      else let product = sat_mul (ucast memory_kib) (ucast time_cost)
      in if MAX_KDF_MEMORY_KIB_TIME_COST_PRODUCT < product
      then Inl (KdfParamOutOfRange ''memory_time_product'' product)
      else let kdf_params = \<lparr> kp_memory_kib = memory_kib, kp_time_cost = time_cost, kp_parallelism = parallelism \<rparr>;
               salt_arr = slice BACKUP_OFFSET_KDF_SALT SALT_LEN bs;
               nonce_arr = slice BACKUP_OFFSET_NONCE NONCE_LEN bs;
               ct_len = u64_from_be_bytes (slice BACKUP_OFFSET_CT_LEN 8 bs)
      in if MAX_CIPHERTEXT_LEN < ct_len
      then Inl (BackupValidation ''argument'' ''backup ciphertext length exceeds the maximum'' [])
      else let expected_total = OUTER_HEADER_LEN + unat ct_len + INTEGRITY_HASH_LEN
      in if length bs \<noteq> expected_total
      then Inl (BackupValidation ''argument'' ''backup length mismatch: expected {} bytes, got {}'' [expected_total, length bs])
      else let hashed_region = take (length bs - INTEGRITY_HASH_LEN) bs;
               trailing = drop (length bs - INTEGRITY_HASH_LEN) bs
      in if trailing \<noteq> integrity_hash sha256 hashed_region then Inl IntegrityFailed
      else Inr (\<lparr> oh_schema_version = schema_version, oh_kdf_algo_id = kdf_algo_id, oh_kdf_params = kdf_params,
                  oh_salt = salt_arr, oh_nonce = nonce_arr, oh_ct_len = ct_len \<rparr>,
                slice OUTER_HEADER_LEN (unat ct_len) bs))"

section \<open>The CBOR body\<close>

text \<open>
  \<open>ciborium_ll\<close>: the headers of CBOR items; \<open>push\<close> appends a header to the output and \<open>pull\<close> reads one
  off the input. The crate documents that a header pulled back is the one pushed, and a CBOR header
  has at most nine bytes.
\<close>

datatype Header =
    Positive u64
  | Negative u64
  | HeaderFloat u64
  | HeaderSimple u8
  | HeaderTag u64
  | HeaderBreak
  | HeaderBytes "nat option"
  | HeaderText "nat option"
  | HeaderArray "nat option"
  | HeaderMap "nat option"

record cbor =
  cb_push :: "Header \<Rightarrow> bytes"
  cb_pull :: "bytes \<Rightarrow> (Header \<times> bytes) option"

fun definite_header :: "Header \<Rightarrow> bool" where
  "definite_header (Positive v) = True"
| "definite_header (HeaderBytes (Some n)) = (n < 2 ^ 64)"
| "definite_header (HeaderText (Some n)) = (n < 2 ^ 64)"
| "definite_header (HeaderArray (Some n)) = (n < 2 ^ 64)"
| "definite_header _ = False"

definition cbor_ok :: "cbor \<Rightarrow> bool" where
  "cbor_ok cb \<longleftrightarrow> (\<forall>h rest. definite_header h \<longrightarrow>
     cb_pull cb (cb_push cb h @ rest) = Some (h, rest) \<and> length (cb_push cb h) \<le> 9)"

definition put_bytes :: "cbor \<Rightarrow> bytes \<Rightarrow> bytes" where
  "put_bytes cb b = cb_push cb (HeaderBytes (Some (length b))) @ b"

definition put_text :: "cbor \<Rightarrow> bytes \<Rightarrow> bytes" where
  "put_text cb s = cb_push cb (HeaderText (Some (length s))) @ s"

definition cbor_err :: "string \<Rightarrow> BackupError" where
  "cbor_err msg = BackupValidation ''cbor'' msg []"

text \<open>A decoder returns a value and the input that is left.\<close>

type_synonym 'a cbor_dec = "bytes \<Rightarrow> BackupError + 'a \<times> bytes"

definition pull :: "cbor \<Rightarrow> Header cbor_dec" where
  "pull cb dec = ok_or (cb_pull cb dec) (cbor_err ''malformed backup CBOR'')"

definition expect_array :: "cbor \<Rightarrow> nat \<Rightarrow> unit cbor_dec" where
  "expect_array cb want dec =
     and_then (pull cb dec) (\<lambda>(h, dec).
       if h = HeaderArray (Some want) then Inr ((), dec)
       else Inl (cbor_err ''backup CBOR: unexpected array shape''))"

definition pull_uint :: "cbor \<Rightarrow> u64 cbor_dec" where
  "pull_uint cb dec =
     and_then (pull cb dec) (\<lambda>(h, dec). case h of
         Positive v \<Rightarrow> Inr (v, dec)
       | _ \<Rightarrow> Inl (cbor_err ''backup CBOR: expected unsigned integer''))"

definition pull_array_len :: "cbor \<Rightarrow> nat cbor_dec" where
  "pull_array_len cb dec =
     and_then (pull cb dec) (\<lambda>(h, dec). case h of
         HeaderArray (Some n) \<Rightarrow> Inr (n, dec)
       | _ \<Rightarrow> Inl (cbor_err ''backup CBOR: expected definite-length array''))"

definition MAX_WRAPPED_RECOVERY_LEN :: nat where "MAX_WRAPPED_RECOVERY_LEN = 64 * 1024"

definition MAX_SEALED_SHARE_LEN :: nat where "MAX_SEALED_SHARE_LEN = 1024"

definition MAX_DISPLAY_NAME_LEN :: nat where "MAX_DISPLAY_NAME_LEN = 4 * 1024"

definition MAX_GUARDIAN_COUNT_DECODE :: nat where "MAX_GUARDIAN_COUNT_DECODE = 256"

definition read_exact :: "nat \<Rightarrow> bytes \<Rightarrow> (bytes \<times> bytes) option" where
  "read_exact len dec = (if length dec < len then None else Some (take len dec, drop len dec))"

definition pull_bytes_capped :: "cbor \<Rightarrow> nat \<Rightarrow> string \<Rightarrow> bytes cbor_dec" where
  "pull_bytes_capped cb cap what dec =
     and_then (pull cb dec) (\<lambda>(h, dec). case h of
         HeaderBytes (Some len) \<Rightarrow>
           if cap < len then Inl (BackupValidation ''cbor'' (''backup CBOR: '' @ what @ '' too long ({} > {})'') [len, cap])
           else ok_or (read_exact len dec) (cbor_err (''backup CBOR: truncated '' @ what))
       | _ \<Rightarrow> Inl (cbor_err (''backup CBOR: expected byte string ('' @ what @ '')'')))"

definition pull_bytes_exact :: "cbor \<Rightarrow> nat \<Rightarrow> string \<Rightarrow> bytes cbor_dec" where
  "pull_bytes_exact cb n what dec =
     and_then (pull_bytes_capped cb n what dec) (\<lambda>(v, dec).
       if length v \<noteq> n then Inl (cbor_err (''backup CBOR: '' @ what @ '' wrong length'')) else Inr (v, dec))"

text \<open>\<open>String::from_utf8\<close> and \<open>str::from_utf8\<close> accept the well-formed sequences.\<close>

function utf8_valid :: "bytes \<Rightarrow> bool" where
  "utf8_valid [] = True"
| "utf8_valid (b # bs) =
     (if b < 0x80 then utf8_valid bs
      else case utf8_second b of
        None \<Rightarrow> False
      | Some (n, lo, hi) \<Rightarrow>
          (case utf8_tail (n - 1) lo hi bs of
             (Some (t, r), _) \<Rightarrow> utf8_valid r
           | (None, _) \<Rightarrow> False))"
  by pat_completeness auto
termination
  by (relation "measure length") (auto simp: less_Suc_eq_le dest: utf8_tail_ok)

definition pull_text_capped :: "cbor \<Rightarrow> nat \<Rightarrow> string \<Rightarrow> bytes cbor_dec" where
  "pull_text_capped cb cap what dec =
     and_then (pull cb dec) (\<lambda>(h, dec). case h of
         HeaderText (Some len) \<Rightarrow>
           if cap < len then Inl (BackupValidation ''cbor'' (''backup CBOR: '' @ what @ '' too long ({} > {})'') [len, cap])
           else and_then (ok_or (read_exact len dec) (cbor_err (''backup CBOR: truncated '' @ what))) (\<lambda>(buf, dec).
             if utf8_valid buf then Inr (buf, dec) else Inl (cbor_err (''backup CBOR: invalid UTF-8 in '' @ what)))
       | _ \<Rightarrow> Inl (cbor_err (''backup CBOR: expected text string ('' @ what @ '')'')))"

definition encode_body :: "cbor \<Rightarrow> BackupContents \<Rightarrow> bytes" where
  "encode_body cb contents =
     cb_push cb (HeaderArray (Some 11))
     @ put_bytes cb (bc_wrapped_recovery contents)
     @ put_bytes cb (bc_vault_id contents)
     @ cb_push cb (Positive (bc_epoch contents))
     @ cb_push cb (Positive (ucast (bc_threshold contents)))
     @ cb_push cb (Positive (ucast (bc_guardian_count contents)))
     @ cb_push cb (HeaderArray (Some (length (bc_guardian_x25519_pubs contents))))
     @ concat (map (put_bytes cb) (bc_guardian_x25519_pubs contents))
     @ cb_push cb (HeaderArray (Some (length (bc_sealed_shares contents))))
     @ concat (map (put_bytes cb) (bc_sealed_shares contents))
     @ cb_push cb (HeaderArray (Some (length (bc_guardian_evm_addrs contents))))
     @ concat (map (put_bytes cb) (bc_guardian_evm_addrs contents))
     @ put_text cb (bc_vault_display_name contents)
     @ cb_push cb (Positive (bc_created_at_unix contents))
     @ cb_push cb (Positive (ucast BACKUP_SCHEMA_VERSION))"

text \<open>A loop \<open>for _ in 0..n\<close> that pulls one element each time.\<close>

fun pull_many :: "'a cbor_dec \<Rightarrow> nat \<Rightarrow> 'a list cbor_dec" where
  "pull_many f 0 dec = Inr ([], dec)"
| "pull_many f (Suc n) dec =
     and_then (f dec) (\<lambda>(x, dec). and_then (pull_many f n dec) (\<lambda>(xs, dec). Inr (x # xs, dec)))"

definition pull_evm_addr :: "cbor \<Rightarrow> bytes cbor_dec" where
  "pull_evm_addr cb dec =
     and_then (pull_bytes_exact cb 20 ''guardian_evm_addr'' dec) (\<lambda>(addr, dec).
       if list_all (\<lambda>b. b = 0) addr
       then Inl (cbor_err ''backup CBOR: guardian_evm_addrs entry is all-zero (re-create the backup under the current Pangolin version)'')
       else Inr (addr, dec))"

definition decode_body :: "cbor \<Rightarrow> bytes \<Rightarrow> BackupError + BackupContents" where
  "decode_body cb buf =
     and_then (expect_array cb 11 buf) (\<lambda>(_, dec).
     and_then (pull_bytes_capped cb MAX_WRAPPED_RECOVERY_LEN ''wrapped_recovery'' dec) (\<lambda>(wrapped_recovery, dec).
     and_then (pull_bytes_exact cb 32 ''vault_id'' dec) (\<lambda>(vault_id, dec).
     and_then (pull_uint cb dec) (\<lambda>(epoch, dec).
     and_then (pull_uint cb dec) (\<lambda>(threshold_u, dec).
     and_then (ok_or (u8_try_from (uint threshold_u)) (cbor_err ''backup CBOR: threshold out of u8 range'')) (\<lambda>threshold.
     and_then (pull_uint cb dec) (\<lambda>(guardian_count_u, dec).
     and_then (ok_or (u8_try_from (uint guardian_count_u)) (cbor_err ''backup CBOR: guardian_count out of u8 range'')) (\<lambda>guardian_count.
     and_then (pull_array_len cb dec) (\<lambda>(pubs_n, dec).
     if MAX_GUARDIAN_COUNT_DECODE < pubs_n
     then Inl (BackupValidation ''cbor'' ''backup CBOR: too many guardian pubkeys ({} > {})'' [pubs_n, MAX_GUARDIAN_COUNT_DECODE])
     else if pubs_n \<noteq> unat guardian_count
     then Inl (BackupValidation ''cbor'' ''backup CBOR: guardian_count ({}) is not the pubkey array length ({})'' [unat guardian_count, pubs_n])
     else and_then (pull_many (pull_bytes_exact cb 32 ''guardian_x25519_pub'') pubs_n dec) (\<lambda>(guardian_x25519_pubs, dec).
     and_then (pull_array_len cb dec) (\<lambda>(shares_n, dec).
     if shares_n \<noteq> unat guardian_count
     then Inl (BackupValidation ''cbor'' ''backup CBOR: guardian_count ({}) is not the sealed_shares array length ({})'' [unat guardian_count, shares_n])
     else and_then (pull_many (pull_bytes_capped cb MAX_SEALED_SHARE_LEN ''sealed_share'') shares_n dec) (\<lambda>(sealed_shares, dec).
     and_then (pull_array_len cb dec) (\<lambda>(addrs_n, dec).
     if addrs_n \<noteq> unat guardian_count
     then Inl (BackupValidation ''cbor'' ''backup CBOR: guardian_count ({}) is not the guardian_evm_addrs array length ({})'' [unat guardian_count, addrs_n])
     else and_then (pull_many (pull_evm_addr cb) addrs_n dec) (\<lambda>(guardian_evm_addrs, dec).
     and_then (pull_text_capped cb MAX_DISPLAY_NAME_LEN ''vault_display_name'' dec) (\<lambda>(vault_display_name, dec).
     and_then (pull_uint cb dec) (\<lambda>(created_at_unix, dec).
     and_then (pull_uint cb dec) (\<lambda>(inner_schema_u, dec).
     and_then (ok_or (u8_try_from (uint inner_schema_u)) (cbor_err ''backup CBOR: inner schema_version out of u8'')) (\<lambda>inner_schema.
     if inner_schema \<noteq> BACKUP_SCHEMA_VERSION then Inl BackupAuthenticationFailed
     else Inr \<lparr> bc_wrapped_recovery = wrapped_recovery, bc_vault_id = vault_id, bc_epoch = epoch,
       bc_threshold = threshold, bc_guardian_count = guardian_count, bc_guardian_x25519_pubs = guardian_x25519_pubs,
       bc_sealed_shares = sealed_shares, bc_guardian_evm_addrs = guardian_evm_addrs,
       bc_vault_display_name = vault_display_name, bc_created_at_unix = created_at_unix \<rparr>))))))))))))))))))"

section \<open>The text form\<close>

text \<open>
  This module has its own copy of the base32 codec of \<open>pairing_transport.rs\<close>; below the two are shown
  to agree.
\<close>

definition BACKUP_BASE32_ALPHABET :: bytes where
  "BACKUP_BASE32_ALPHABET = ascii ''abcdefghijklmnopqrstuvwxyz234567''"

fun backup_base32_emit :: "u64 \<Rightarrow> nat \<Rightarrow> bytes \<Rightarrow> nat \<times> bytes" where
  "backup_base32_emit buf bits out =
     (if 5 \<le> bits
      then backup_base32_emit buf (bits - 5) (out @ [BACKUP_BASE32_ALPHABET ! unat (drop_bit (bits - 5) buf AND 0x1F)])
      else (bits, out))"

declare backup_base32_emit.simps [simp del]

fun backup_base32_encode_loop :: "u64 \<Rightarrow> nat \<Rightarrow> bytes \<Rightarrow> bytes \<Rightarrow> u64 \<times> nat \<times> bytes" where
  "backup_base32_encode_loop buf bits out [] = (buf, bits, out)"
| "backup_base32_encode_loop buf bits out (b # bs) =
     (let buf' = push_bit 8 buf OR ucast b; (bits', out') = backup_base32_emit buf' (bits + 8) out
      in backup_base32_encode_loop buf' bits' out' bs)"

definition backup_base32_encode :: "bytes \<Rightarrow> bytes" where
  "backup_base32_encode bs =
     (let (buf, bits, out) = backup_base32_encode_loop 0 0 [] bs
      in if 0 < bits then out @ [BACKUP_BASE32_ALPHABET ! unat (push_bit (5 - bits) buf AND 0x1F)] else out)"

definition backup_base32_decode_char :: "u8 \<Rightarrow> BackupError + u8" where
  "backup_base32_decode_char c =
     (if 97 \<le> c \<and> c \<le> 122 then Inr (c - 97)
      else if 50 \<le> c \<and> c \<le> 55 then Inr (c - 50 + 26)
      else Inl TextInvalidEncoding)"

fun backup_base32_decode_loop :: "u64 \<Rightarrow> nat \<Rightarrow> bytes \<Rightarrow> bytes \<Rightarrow> BackupError + u64 \<times> nat \<times> bytes" where
  "backup_base32_decode_loop buf bits out [] = Inr (buf, bits, out)"
| "backup_base32_decode_loop buf bits out (c # cs) =
     and_then (backup_base32_decode_char c) (\<lambda>idx.
       let buf' = push_bit 5 buf OR ucast idx; bits' = bits + 5
       in if 8 \<le> bits'
          then backup_base32_decode_loop buf' (bits' - 8) (out @ [ucast (drop_bit (bits' - 8) buf' AND 0xFF)]) cs
          else backup_base32_decode_loop buf' bits' out cs)"

definition backup_base32_decode :: "bytes \<Rightarrow> BackupError + bytes" where
  "backup_base32_decode cs =
     (if cs = [] then Inl TextInvalidEncoding
      else and_then (backup_base32_decode_loop 0 0 [] cs) (\<lambda>(buf, bits, out).
        if 0 < bits \<and> buf AND (push_bit bits 1 - 1) \<noteq> 0 then Inl TextInvalidEncoding else Inr out))"

definition BACKUP_TEXT_CHECKSUM_LEN :: nat where "BACKUP_TEXT_CHECKSUM_LEN = 4"

definition encode_text :: "(bytes \<Rightarrow> bytes) \<Rightarrow> bytes \<Rightarrow> bytes" where
  "encode_text sha256 bs = backup_base32_encode (bs @ integrity_hash sha256 bs)"

definition decode_text :: "(bytes \<Rightarrow> bytes) \<Rightarrow> bytes \<Rightarrow> BackupError + bytes" where
  "decode_text sha256 s =
     and_then (backup_base32_decode s) (\<lambda>decoded.
       if length decoded < BACKUP_TEXT_CHECKSUM_LEN
       then Inl (BackupValidation ''text'' ''backup text form too short to hold a checksum'' [])
       else let split = length decoded - BACKUP_TEXT_CHECKSUM_LEN; body = take split decoded; checksum = drop split decoded
       in if checksum \<noteq> integrity_hash sha256 body then Inl TextChecksumMismatch else Inr body)"

section \<open>Sealing and opening\<close>

definition derive_key :: "argon2 \<Rightarrow> bytes \<Rightarrow> bytes \<Rightarrow> KdfParams \<Rightarrow> KdfError + bytes" where
  "derive_key argon password salt params =
     and_then (KdfParams_validate params) (\<lambda>_. ok_or (argon password salt params) KdfInternal)"

text \<open>\<open>From<KdfError>\<close> and \<open>From<AeadError>\<close>.\<close>

definition backup_auth_err :: "'e + 'a \<Rightarrow> BackupError + 'a" where
  "backup_auth_err r = map_err (\<lambda>_. BackupAuthenticationFailed) r"

record backup_env =
  be_crypto :: crypto
  be_argon2 :: argon2
  be_cbor :: cbor

definition seal_backup :: "backup_env \<Rightarrow> bytes \<Rightarrow> bytes \<Rightarrow> BackupContents \<Rightarrow> string list \<Rightarrow> BackupError + bytes" where
  "seal_backup be salt nonce contents seed_phrase =
     (if length (bc_guardian_x25519_pubs contents) \<noteq> unat (bc_guardian_count contents)
      then Inl (BackupValidation ''argument'' ''guardian_count ({}) is not the pubkey list length ({})''
        [unat (bc_guardian_count contents), length (bc_guardian_x25519_pubs contents)])
      else and_then (seed_phrase_to_kdf_input seed_phrase) (\<lambda>kdf_input.
      let kdf_params = RECOMMENDED
      in and_then (backup_auth_err (derive_key (be_argon2 be) kdf_input salt kdf_params)) (\<lambda>key.
      let body = encode_body (be_cbor be) contents
      in if 2 ^ 64 \<le> length body + TAG_LEN
      then Inl (BackupValidation ''argument'' ''backup body too large to encode ct_len'' [])
      else let ct_len = of_nat (length body + TAG_LEN);
               aad = write_outer_header kdf_params salt nonce ct_len
      in and_then (backup_auth_err (aead_key_seal (be_crypto be) key nonce body aad)) (\<lambda>ct_bytes.
      let out = aad @ ct_bytes
      in Inr (out @ integrity_hash (cr_sha256 (be_crypto be)) out)))))"

definition decode_outer_into_ct :: "(bytes \<Rightarrow> bytes) \<Rightarrow> bytes \<Rightarrow> BackupError + bytes \<times> bytes \<times> KdfParams \<times> bytes \<times> bytes" where
  "decode_outer_into_ct sha256 bytes_or_text =
     and_then (if starts_with BACKUP_DOMAIN bytes_or_text then Inr bytes_or_text
               else if \<not> utf8_valid bytes_or_text
               then Inl (BackupValidation ''argument'' ''backup input is neither a DOMAIN-prefixed byte form nor valid UTF-8 text'' [])
               else decode_text sha256 bytes_or_text) (\<lambda>bs.
     and_then (parse_outer_header sha256 bs) (\<lambda>(header, ct_region).
     Inr (take OUTER_HEADER_LEN bs, ct_region, oh_kdf_params header, oh_salt header, oh_nonce header)))"

definition decode_backup_from_outer :: "backup_env \<Rightarrow> bytes \<Rightarrow> bytes \<Rightarrow> KdfParams \<Rightarrow> bytes \<times> bytes \<Rightarrow> string list
    \<Rightarrow> BackupError + BackupContents" where
  "decode_backup_from_outer be aad ct kdf_params salt_nonce seed_phrase =
     and_then (seed_phrase_to_kdf_input seed_phrase) (\<lambda>kdf_input.
     and_then (backup_auth_err (derive_key (be_argon2 be) kdf_input (fst salt_nonce) kdf_params)) (\<lambda>key.
     and_then (backup_auth_err (aead_key_open (be_crypto be) key (snd salt_nonce) ct aad)) (\<lambda>plain.
     decode_body (be_cbor be) plain)))"

definition decode_backup :: "backup_env \<Rightarrow> bytes \<Rightarrow> string list \<Rightarrow> BackupError + BackupContents" where
  "decode_backup be bytes_or_text seed_phrase =
     and_then (decode_outer_into_ct (cr_sha256 (be_crypto be)) bytes_or_text) (\<lambda>(aad, ct, kdf_params, salt, nonce).
     decode_backup_from_outer be aad ct kdf_params (salt, nonce) seed_phrase)"

text \<open>\<open>Vault::create_recovery_backup\<close>: the two error types it joins, and the random bytes it draws.\<close>

datatype BackupOpError = StoreFailure StoreError | RecoveryBackup BackupError

record backup_rng =
  br_entropy :: bytes
  br_salt :: bytes
  br_nonce :: bytes

definition create_recovery_backup :: "KeyEnv \<Rightarrow> cbor \<Rightarrow> backup_rng \<Rightarrow> KeyVault \<Rightarrow> BackupOpError + (string list \<times> bytes) option" where
  "create_recovery_backup ke cb rng kv =
     (let be = \<lparr> be_crypto = ke_crypto ke, be_argon2 = ke_argon2 ke, be_cbor = cb \<rparr>
      in and_then (map_err StoreFailure (recovery_backup_contents ke kv)) (\<lambda>r. case r of
        None \<Rightarrow> Inr None
      | Some contents \<Rightarrow>
          and_then (map_err RecoveryBackup (generate_seed_phrase (cr_sha256 (ke_crypto ke)) (br_entropy rng))) (\<lambda>seed_phrase.
          and_then (map_err RecoveryBackup (seal_backup be (br_salt rng) (br_nonce rng) contents seed_phrase)) (\<lambda>bs.
          Inr (Some (seed_phrase, bs))))))"

section \<open>What the header parser accepts\<close>

lemma backup_layout [simp]:
  "length BACKUP_DOMAIN = 28" "OUTER_HEADER_LEN = 90" "INTEGRITY_HASH_LEN = 4" "BACKUP_OFFSET_SCHEMA_VERSION = 28"
  "BACKUP_OFFSET_KDF_ALGO = 29" "BACKUP_OFFSET_KDF_MEMORY = 30" "BACKUP_OFFSET_KDF_TIME = 34" "BACKUP_OFFSET_KDF_PAR = 38"
  "BACKUP_OFFSET_KDF_SALT = 42" "BACKUP_OFFSET_NONCE = 58" "BACKUP_OFFSET_CT_LEN = 82" "SALT_LEN = 16" "NONCE_LEN = 24"
  by (simp_all add: BACKUP_DOMAIN_def ascii_def OUTER_HEADER_LEN_def INTEGRITY_HASH_LEN_def BACKUP_OFFSET_SCHEMA_VERSION_def
      BACKUP_OFFSET_KDF_ALGO_def BACKUP_OFFSET_KDF_MEMORY_def BACKUP_OFFSET_KDF_TIME_def BACKUP_OFFSET_KDF_PAR_def
      BACKUP_OFFSET_KDF_SALT_def BACKUP_OFFSET_NONCE_def BACKUP_OFFSET_CT_LEN_def SALT_LEN_def NONCE_LEN_def)

lemma write_outer_header_length [simp]:
  "length salt = 16 \<Longrightarrow> length nonce = 24 \<Longrightarrow> length (write_outer_header params salt nonce n) = 90"
  by (simp add: write_outer_header_def)

text \<open>The parameters the parser lets through to the derivation.\<close>

definition kdf_in_range :: "KdfParams \<Rightarrow> bool" where
  "kdf_in_range p \<longleftrightarrow> unat (kp_memory_kib p) \<le> 1024 * 1024 \<and> unat (kp_time_cost p) \<le> 8 \<and> unat (kp_parallelism p) \<le> 8
     \<and> unat (kp_memory_kib p) * unat (kp_time_cost p) \<le> 3 * 1024 * 1024"

definition header_of :: "KdfParams \<Rightarrow> bytes \<Rightarrow> bytes \<Rightarrow> u64 \<Rightarrow> OuterHeader" where
  "header_of params salt nonce n = \<lparr> oh_schema_version = BACKUP_SCHEMA_VERSION, oh_kdf_algo_id = KDF_ALGO_ARGON2ID,
     oh_kdf_params = params, oh_salt = salt, oh_nonce = nonce, oh_ct_len = n \<rparr>"

lemma product_in_range:
  fixes m t :: u32
  shows "sat_mul (ucast m) (ucast t) \<le> MAX_KDF_MEMORY_KIB_TIME_COST_PRODUCT \<longleftrightarrow> unat m * unat t \<le> 3 * 1024 * 1024"
proof -
  have u: "unat (ucast m :: u64) = unat m" "unat (ucast t :: u64) = unat t" by (simp_all add: unat_ucast_widen)
  have "unat m < 2 ^ LENGTH(32)" "unat t < 2 ^ LENGTH(32)" by (rule unsigned_less)+
  then have "unat m * unat t \<le> (2 ^ 32 - 1) * (2 ^ 32 - 1)" by (intro mult_mono) simp_all
  then have lt: "unat m * unat t < 2 ^ 64" by simp
  then have "unat (ucast m * ucast t :: u64) = unat m * unat t" by (simp add: unat_word_ariths(2) u)
  then show ?thesis using lt by (simp add: sat_mul_def u word_le_nat_alt MAX_KDF_MEMORY_KIB_TIME_COST_PRODUCT_def)
qed

text \<open>The parser on an input cut at the field boundaries.\<close>

lemma parse_fields:
  assumes "length d = 28" "length m = 4" "length t = 4" "length q = 4" "length s = 16" "length n = 24" "length l = 8" "4 \<le> length rest"
    and bs: "bs = d @ v # a # m @ t @ q @ s @ n @ l @ rest"
  shows "parse_outer_header sha256 bs = Inr (h, ct) \<longleftrightarrow>
    d = BACKUP_DOMAIN \<and> v = BACKUP_SCHEMA_VERSION \<and> a = KDF_ALGO_ARGON2ID
    \<and> kdf_in_range \<lparr> kp_memory_kib = u32_from_be_bytes m, kp_time_cost = u32_from_be_bytes t, kp_parallelism = u32_from_be_bytes q \<rparr>
    \<and> unat (u64_from_be_bytes l) \<le> 16 * 1024 * 1024 \<and> length rest = unat (u64_from_be_bytes l) + 4
    \<and> drop (length rest - 4) rest = integrity_hash sha256 (d @ v # a # m @ t @ q @ s @ n @ l @ take (length rest - 4) rest)
    \<and> h = header_of \<lparr> kp_memory_kib = u32_from_be_bytes m, kp_time_cost = u32_from_be_bytes t, kp_parallelism = u32_from_be_bytes q \<rparr>
        s n (u64_from_be_bytes l) \<and> ct = take (unat (u64_from_be_bytes l)) rest"
proof -
  have len: "length bs = 90 + length rest" using assms by simp
  have parts: "take 28 bs = d" "bs ! 28 = v" "bs ! 29 = a" "slice 30 4 bs = m" "slice 34 4 bs = t" "slice 38 4 bs = q"
    "slice 42 16 bs = s" "slice 58 24 bs = n" "slice 82 8 bs = l" "slice 90 k bs = take k rest" for k
    using assms by (simp_all add: slice_def nth_append)
  have cut: "take (length bs - 4) bs = d @ v # a # m @ t @ q @ s @ n @ l @ take (length rest - 4) rest"
    "drop (length bs - 4) bs = drop (length rest - 4) rest"
  proof -
    let ?p = "d @ v # a # m @ t @ q @ s @ n @ l"
    have p: "length ?p = 90" "bs = ?p @ rest" "length bs - 4 = 90 + (length rest - 4)" using assms by simp_all
    show "take (length bs - 4) bs = d @ v # a # m @ t @ q @ s @ n @ l @ take (length rest - 4) rest"
      unfolding p(3) unfolding p(2) using p(1) by (simp only: take_append) simp
    show "drop (length bs - 4) bs = drop (length rest - 4) rest"
      unfolding p(3) unfolding p(2) using p(1) by (simp only: drop_append) simp
  qed
  have rng: "kdf_in_range \<lparr> kp_memory_kib = x, kp_time_cost = y, kp_parallelism = z \<rparr> \<longleftrightarrow> \<not> MAX_KDF_MEMORY_KIB < x
      \<and> \<not> MAX_KDF_TIME_COST < y \<and> \<not> MAX_KDF_PARALLELISM < z
      \<and> \<not> MAX_KDF_MEMORY_KIB_TIME_COST_PRODUCT < sat_mul (ucast x) (ucast y)" for x y z
    using product_in_range[of x y]
    by (simp add: kdf_in_range_def not_less word_le_nat_alt MAX_KDF_MEMORY_KIB_def MAX_KDF_TIME_COST_def MAX_KDF_PARALLELISM_def)
  have ctl: "MAX_CIPHERTEXT_LEN < x \<longleftrightarrow> \<not> unat x \<le> 16 * 1024 * 1024" for x
    by (simp add: word_less_nat_alt MAX_CIPHERTEXT_LEN_def not_le)
  show ?thesis
    unfolding parse_outer_header_def backup_layout Let_def parts cut rng ctl unfolding len
    using assms(8) by (auto simp: header_of_def)
qed

text \<open>The parser on what \<open>seal_backup\<close> lays out.\<close>

lemma parse_written:
  assumes "length salt = 16" "length nonce = 24" "length hash = 4" "length ct < 2 ^ 64"
  shows "parse_outer_header sha256 (write_outer_header params salt nonce (of_nat (length ct)) @ ct @ hash) = Inr (h, ct') \<longleftrightarrow>
    kdf_in_range params \<and> length ct \<le> 16 * 1024 * 1024
    \<and> hash = integrity_hash sha256 (write_outer_header params salt nonce (of_nat (length ct)) @ ct)
    \<and> h = header_of params salt nonce (of_nat (length ct)) \<and> ct' = ct"
proof -
  let ?l = "of_nat (length ct) :: u64"
  have l: "unat ?l = length ct" using assms(4) by (simp add: unat_of_nat)
  have eta: "\<lparr> kp_memory_kib = kp_memory_kib params, kp_time_cost = kp_time_cost params, kp_parallelism = kp_parallelism params \<rparr> = params"
    by simp
  show ?thesis
    using assms(1-3) l
    by (subst parse_fields[of BACKUP_DOMAIN "u32_to_be_bytes (kp_memory_kib params)" "u32_to_be_bytes (kp_time_cost params)"
          "u32_to_be_bytes (kp_parallelism params)" salt nonce "u64_to_be_bytes ?l" "ct @ hash"])
      (auto simp: write_outer_header_def u32_be_bytes_roundtrip u64_be_bytes_roundtrip eta)
qed

section \<open>What the body decoder accepts\<close>

text \<open>
  Contents as the Rust types hold them: fixed-size arrays, a \<open>String\<close>, lengths in a \<open>usize\<close>; and the
  limits of the decoder beyond the one that \<open>seal_backup\<close> checks.
\<close>

definition contents_typed :: "BackupContents \<Rightarrow> bool" where
  "contents_typed c \<longleftrightarrow> length (bc_vault_id c) = 32 \<and> list_all (\<lambda>p. length p = 32) (bc_guardian_x25519_pubs c)
     \<and> list_all (\<lambda>a. length a = 20) (bc_guardian_evm_addrs c) \<and> utf8_valid (bc_vault_display_name c)
     \<and> length (bc_wrapped_recovery c) < 2 ^ 64 \<and> list_all (\<lambda>s. length s < 2 ^ 64) (bc_sealed_shares c)
     \<and> length (bc_sealed_shares c) < 2 ^ 64 \<and> length (bc_guardian_evm_addrs c) < 2 ^ 64 \<and> length (bc_vault_display_name c) < 2 ^ 64"

definition backup_fits :: "BackupContents \<Rightarrow> bool" where
  "backup_fits c \<longleftrightarrow> length (bc_wrapped_recovery c) \<le> 65536 \<and> length (bc_vault_display_name c) \<le> 4096
     \<and> length (bc_sealed_shares c) = unat (bc_guardian_count c) \<and> list_all (\<lambda>s. length s \<le> 1024) (bc_sealed_shares c)
     \<and> length (bc_guardian_evm_addrs c) = unat (bc_guardian_count c)
     \<and> list_all (\<lambda>a. \<not> list_all (\<lambda>b. b = 0) a) (bc_guardian_evm_addrs c)"

named_theorems cbor_pulls \<open>reading back what was pushed\<close>

lemma pull_push [cbor_pulls]: "cbor_ok cb \<Longrightarrow> definite_header h \<Longrightarrow> pull cb (cb_push cb h @ rest) = Inr (h, rest)"
  by (simp add: pull_def cbor_ok_def)

lemma pull_headers [cbor_pulls]:
  assumes "cbor_ok cb"
  shows "pull_uint cb (cb_push cb (Positive v) @ rest) = Inr (v, rest)" "pull_uint cb (cb_push cb (Positive v)) = Inr (v, [])"
    and "n < 2 ^ 64 \<Longrightarrow> pull_array_len cb (cb_push cb (HeaderArray (Some n)) @ rest) = Inr (n, rest)"
    and "n < 2 ^ 64 \<Longrightarrow> expect_array cb n (cb_push cb (HeaderArray (Some n)) @ rest) = Inr ((), rest)"
  using assms pull_push[of cb "Positive v" "[]"] by (simp_all add: pull_uint_def pull_array_len_def expect_array_def cbor_pulls)

lemma pull_put_bytes [cbor_pulls]:
  assumes "cbor_ok cb" "length b < 2 ^ 64"
  shows "pull_bytes_capped cb cap what (put_bytes cb b @ rest) =
      (if length b \<le> cap then Inr (b, rest)
       else Inl (BackupValidation ''cbor'' (''backup CBOR: '' @ what @ '' too long ({} > {})'') [length b, cap]))"
    and "length b = n \<Longrightarrow> pull_bytes_exact cb n what (put_bytes cb b @ rest) = Inr (b, rest)"
  using assms by (simp_all add: pull_bytes_exact_def pull_bytes_capped_def put_bytes_def read_exact_def cbor_pulls)

lemma pull_put_text [cbor_pulls]:
  assumes "cbor_ok cb" "length b < 2 ^ 64" "utf8_valid b"
  shows "pull_text_capped cb cap what (put_text cb b @ rest) =
      (if length b \<le> cap then Inr (b, rest)
       else Inl (BackupValidation ''cbor'' (''backup CBOR: '' @ what @ '' too long ({} > {})'') [length b, cap]))"
  using assms by (simp add: pull_text_capped_def put_text_def read_exact_def cbor_pulls)

lemma pull_put_addr [cbor_pulls]:
  assumes "cbor_ok cb" "length a = 20"
  shows "pull_evm_addr cb (put_bytes cb a @ rest) =
      (if \<not> list_all (\<lambda>b. b = 0) a then Inr (a, rest)
       else Inl (cbor_err ''backup CBOR: guardian_evm_addrs entry is all-zero (re-create the backup under the current Pangolin version)''))"
  using assms by (simp add: pull_evm_addr_def cbor_pulls)

lemma pull_many_put:
  assumes "list_all (\<lambda>x. \<forall>rest. f (g x @ rest) = (if P x then Inr (x, rest) else Inl (e x))) xs"
  shows "pull_many f (length xs) (concat (map g xs) @ rest) =
    (if list_all P xs then Inr (xs, rest) else Inl (e (hd (dropWhile P xs))))"
  using assms by (induction xs arbitrary: rest) simp_all

lemma decode_encode_body:
  assumes "cbor_ok cb" "contents_typed c" "length (bc_guardian_x25519_pubs c) = unat (bc_guardian_count c)"
  shows "if backup_fits c then decode_body cb (encode_body cb c) = Inr c else \<exists>e. decode_body cb (encode_body cb c) = Inl e"
proof -
  have "unat (bc_guardian_count c) < 2 ^ LENGTH(8)" by (rule unsigned_less)
  then have g: "unat (bc_guardian_count c) \<le> 255" "unat (bc_guardian_count c) < 2 ^ 64" by simp_all
  have u8: "u8_try_from (uint (ucast b :: u64)) = Some b" for b :: u8
  proof -
    have "uint (ucast b :: u64) = uint b" by (simp add: unsigned_ucast_eq take_bit_int_eq_self_iff order_less_trans[OF unsigned_less[of b]])
    then show ?thesis by simp
  qed
  note t = assms(2)[unfolded contents_typed_def]
  have pubs: "pull_many (pull_bytes_exact cb 32 what) (unat (bc_guardian_count c)) (concat (map (put_bytes cb) (bc_guardian_x25519_pubs c)) @ rest) =
      Inr (bc_guardian_x25519_pubs c, rest)" for what rest
    using pull_many_put[of "pull_bytes_exact cb 32 what" "put_bytes cb" "\<lambda>_. True" undefined "bc_guardian_x25519_pubs c" rest] t assms(1,3)
    by (simp add: list_all_iff cbor_pulls)
  have shares: "length (bc_sealed_shares c) = n \<Longrightarrow> pull_many (pull_bytes_capped cb 1024 what) n (concat (map (put_bytes cb) (bc_sealed_shares c)) @ rest) =
      (if list_all (\<lambda>s. length s \<le> 1024) (bc_sealed_shares c) then Inr (bc_sealed_shares c, rest)
       else Inl (BackupValidation ''cbor'' (''backup CBOR: '' @ what @ '' too long ({} > {})'')
         [length (hd (dropWhile (\<lambda>s. length s \<le> 1024) (bc_sealed_shares c))), 1024]))" for what rest n
    using t assms(1) by (hypsubst, intro pull_many_put[where e = "\<lambda>b. BackupValidation ''cbor'' (''backup CBOR: '' @ what @ '' too long ({} > {})'') [length b, 1024]"])
      (simp add: list_all_iff cbor_pulls)
  have addrs: "length (bc_guardian_evm_addrs c) = n \<Longrightarrow> pull_many (pull_evm_addr cb) n (concat (map (put_bytes cb) (bc_guardian_evm_addrs c)) @ rest) =
      (if list_all (\<lambda>a. \<not> list_all (\<lambda>b. b = 0) a) (bc_guardian_evm_addrs c) then Inr (bc_guardian_evm_addrs c, rest)
       else Inl (cbor_err ''backup CBOR: guardian_evm_addrs entry is all-zero (re-create the backup under the current Pangolin version)''))" for rest n
    using t assms(1) by (hypsubst, intro pull_many_put[where e = "\<lambda>_. _"]) (simp add: list_all_iff cbor_pulls)
  show ?thesis
    using t assms(1,3) g
    by (simp add: decode_body_def encode_body_def backup_fits_def cbor_pulls u8 pubs shares addrs
        MAX_WRAPPED_RECOVERY_LEN_def MAX_SEALED_SHARE_LEN_def MAX_DISPLAY_NAME_LEN_def MAX_GUARDIAN_COUNT_DECODE_def)
qed

section \<open>The text form reads back\<close>

lemma backup_base32_same:
  "BACKUP_BASE32_ALPHABET = BASE32_ALPHABET" "backup_base32_emit buf n out = base32_emit buf n out"
  "backup_base32_encode_loop buf n out bs = base32_encode_loop buf n out bs" "backup_base32_encode bs = base32_encode bs"
proof -
  show a: "BACKUP_BASE32_ALPHABET = BASE32_ALPHABET" by (simp add: BACKUP_BASE32_ALPHABET_def BASE32_ALPHABET_def ascii_def)
  have e: "backup_base32_emit buf n out = base32_emit buf n out" for buf n out
    by (induction buf n out rule: base32_emit.induct) (simp add: a backup_base32_emit.simps base32_emit.simps)
  then show "backup_base32_emit buf n out = base32_emit buf n out" .
  have l: "backup_base32_encode_loop buf n out bs = base32_encode_loop buf n out bs" for buf n out bs
    by (induction bs arbitrary: buf n out) (simp_all add: e Let_def split: prod.splits)
  then show "backup_base32_encode_loop buf n out bs = base32_encode_loop buf n out bs" .
  show "backup_base32_encode bs = base32_encode bs" unfolding backup_base32_encode_def base32_encode_def l a ..
qed

lemma backup_base32_decode_same: "backup_base32_decode cs = Inr out \<longleftrightarrow> base32_decode cs = Inr out"
proof -
  have c: "backup_base32_decode_char c = Inr v \<longleftrightarrow> base32_decode_char c = Inr v" for c v
    by (simp add: backup_base32_decode_char_def base32_decode_char_def)
  have l: "backup_base32_decode_loop buf n out cs = Inr r \<longleftrightarrow> base32_decode_loop buf n out cs = Inr r" for buf n out r
    by (induction cs arbitrary: buf n out) (simp_all add: and_then_Inr c Let_def)
  show ?thesis by (auto simp: backup_base32_decode_def base32_decode_def and_then_Inr l)
qed

lemma decode_encode_text:
  assumes "length (sha256 bs) = 32"
  shows "decode_text sha256 (encode_text sha256 bs) = Inr bs"
proof -
  let ?d = "bs @ integrity_hash sha256 bs"
  have h: "length (integrity_hash sha256 bs) = 4" using assms by (simp add: integrity_hash_def)
  then have "?d \<noteq> []" by auto
  then have "base32_encode ?d \<noteq> []"
    using base32_encode_bits(2)[of ?d] h by (auto dest: arg_cong[where f = length])
  then have "backup_base32_decode (backup_base32_encode ?d) = Inr ?d"
    unfolding backup_base32_decode_same backup_base32_same base32_decode_exact_texts by simp
  then show ?thesis using h by (simp add: decode_text_def encode_text_def BACKUP_TEXT_CHECKSUM_LEN_def Let_def)
qed

lemma utf8_ascii: "\<forall>b \<in> set bs. b < 0x80 \<Longrightarrow> utf8_valid bs"
  by (induction bs) simp_all

lemma base32_text_chars:
  assumes "text_valid cs" shows "utf8_valid cs" "\<not> starts_with BACKUP_DOMAIN cs"
proof -
  have c: "c < 0x80 \<and> c \<noteq> 45" if "is_ok (base32_decode_char c)" for c
    using that by (auto simp: base32_decode_char_def word_le_nat_alt word_less_nat_alt split: if_splits)
  then have all: "\<forall>b \<in> set cs. b < 0x80 \<and> b \<noteq> 45" using assms by (auto simp: text_valid_def list_all_iff)
  then show "utf8_valid cs" by (intro utf8_ascii) simp
  have "45 \<in> set BACKUP_DOMAIN" by (simp add: BACKUP_DOMAIN_def ascii_def)
  then show "\<not> starts_with BACKUP_DOMAIN cs" using all by (auto simp: starts_with_def strip_prefix_append)
qed

section \<open>A sealed backup opens\<close>

lemma sealed_parts:
  assumes "crypto_ok (be_crypto be)" "seal_backup be salt nonce c phrase = Inr blob"
  obtains kdf_input key ct where "length (bc_guardian_x25519_pubs c) = unat (bc_guardian_count c)"
    "seed_phrase_to_kdf_input phrase = Inr kdf_input" "derive_key (be_argon2 be) kdf_input salt RECOMMENDED = Inr key"
    "length ct = length (encode_body (be_cbor be) c) + 16" "length ct < 2 ^ 64"
    "aead_key_open (be_crypto be) key nonce ct (write_outer_header RECOMMENDED salt nonce (of_nat (length ct)))
       = Inr (encode_body (be_cbor be) c)"
    "blob = write_outer_header RECOMMENDED salt nonce (of_nat (length ct)) @ ct
       @ integrity_hash (cr_sha256 (be_crypto be)) (write_outer_header RECOMMENDED salt nonce (of_nat (length ct)) @ ct)"
proof -
  let ?b = "encode_body (be_cbor be) c"
  let ?h = "write_outer_header RECOMMENDED salt nonce (of_nat (length ?b + 16))"
  obtain kdf_input key ct where p: "length (bc_guardian_x25519_pubs c) = unat (bc_guardian_count c)"
      "seed_phrase_to_kdf_input phrase = Inr kdf_input" "derive_key (be_argon2 be) kdf_input salt RECOMMENDED = Inr key"
      "length ?b + 16 < 2 ^ 64" "aead_key_seal (be_crypto be) key nonce ?b ?h = Inr ct"
      "blob = ?h @ ct @ integrity_hash (cr_sha256 (be_crypto be)) (?h @ ct)"
    using assms(2) by (auto simp: seal_backup_def and_then_Inr Let_def backup_auth_err_def map_err_def TAG_LEN_def split: if_splits sum.splits)
  have l: "length ct = length ?b + 16"
    using p(5) crypto_okD(2)[OF assms(1)] by (auto simp: aead_key_seal_def split: if_splits)
  show ?thesis
    using that[OF p(1-3) l] p(4,6) aead_seal_open[OF assms(1) p(5)] by (simp add: l)
qed

text \<open>Both forms of a sealed backup decode as their body does, unless the ciphertext is over the limit.\<close>

lemma decode_sealed:
  assumes "crypto_ok (be_crypto be)" "length salt = 16" "length nonce = 24" "seal_backup be salt nonce c phrase = Inr blob"
    and form: "form = blob \<or> form = encode_text (cr_sha256 (be_crypto be)) blob"
  shows "if length (encode_body (be_cbor be) c) + 16 \<le> 16 * 1024 * 1024
    then decode_backup be form phrase = decode_body (be_cbor be) (encode_body (be_cbor be) c)
    else \<exists>e. decode_backup be form phrase = Inl e"
proof -
  obtain kdf_input key ct where p: "seed_phrase_to_kdf_input phrase = Inr kdf_input"
      "derive_key (be_argon2 be) kdf_input salt RECOMMENDED = Inr key"
      "length ct = length (encode_body (be_cbor be) c) + 16" "length ct < 2 ^ 64"
      "aead_key_open (be_crypto be) key nonce ct (write_outer_header RECOMMENDED salt nonce (of_nat (length ct)))
         = Inr (encode_body (be_cbor be) c)"
      "blob = write_outer_header RECOMMENDED salt nonce (of_nat (length ct)) @ ct
         @ integrity_hash (cr_sha256 (be_crypto be)) (write_outer_header RECOMMENDED salt nonce (of_nat (length ct)) @ ct)"
    using sealed_parts[OF assms(1,4)] by metis
  let ?sha = "cr_sha256 (be_crypto be)" and ?h = "write_outer_header RECOMMENDED salt nonce (of_nat (length ct))"
  have sha: "length (?sha x) = 32" for x using assms(1) by (simp add: crypto_ok_def)
  have hash: "length (integrity_hash ?sha x) = 4" for x using sha by (simp add: integrity_hash_def)
  have kdf: "kdf_in_range RECOMMENDED" by (simp add: kdf_in_range_def RECOMMENDED_def)
  have parse: "parse_outer_header ?sha blob = Inr (h, ct') \<longleftrightarrow>
      length ct \<le> 16 * 1024 * 1024 \<and> h = header_of RECOMMENDED salt nonce (of_nat (length ct)) \<and> ct' = ct" for h ct'
    unfolding p(6) parse_written[OF assms(2,3) hash p(4)] using kdf by auto
  have "starts_with BACKUP_DOMAIN blob"
    by (simp add: starts_with_def strip_prefix_def p(6) write_outer_header_def)
  moreover have "\<not> starts_with BACKUP_DOMAIN (encode_text ?sha blob)" "utf8_valid (encode_text ?sha blob)"
    using base32_text_chars base32_encode_bits(1) by (simp_all add: encode_text_def backup_base32_same)
  ultimately have outer: "decode_outer_into_ct ?sha form = and_then (parse_outer_header ?sha blob) (\<lambda>(header, ct_region).
      Inr (take OUTER_HEADER_LEN blob, ct_region, oh_kdf_params header, oh_salt header, oh_nonce header))"
    using form decode_encode_text[of ?sha blob] sha by (auto simp: decode_outer_into_ct_def)
  have aad: "take 90 blob = ?h" using assms(2,3) by (simp add: p(6))
  show ?thesis
  proof (cases "length ct \<le> 16 * 1024 * 1024")
    case True
    then have "parse_outer_header ?sha blob = Inr (header_of RECOMMENDED salt nonce (of_nat (length ct)), ct)" using parse by blast
    then show ?thesis
      using True p(1-3,5) aad by (simp add: decode_backup_def outer header_of_def decode_backup_from_outer_def backup_auth_err_def map_err_def)
  next
    case False
    then obtain e where "parse_outer_header ?sha blob = Inl e"
      using parse by (cases "parse_outer_header ?sha blob") auto
    then show ?thesis using False p(3) by (simp add: decode_backup_def outer)
  qed
qed

lemma put_many_length:
  assumes "cbor_ok cb" "list_all (\<lambda>x. length x \<le> k) xs" "k < 2 ^ 64"
  shows "length (concat (map (put_bytes cb) xs)) \<le> length xs * (k + 9)"
  using assms(2)
proof (induction xs)
  case (Cons x xs)
  have "length (cb_push cb (HeaderBytes (Some (length x)))) \<le> 9" using assms(1,3) Cons.prems by (simp add: cbor_ok_def)
  then show ?case using Cons by (simp add: put_bytes_def)
qed simp

lemma fitting_body_length:
  assumes "cbor_ok cb" "contents_typed c" "length (bc_guardian_x25519_pubs c) = unat (bc_guardian_count c)" "backup_fits c"
  shows "length (encode_body cb c) + 16 \<le> 16 * 1024 * 1024"
proof -
  note t = assms(2)[unfolded contents_typed_def] and f = assms(4)[unfolded backup_fits_def]
  have "unat (bc_guardian_count c) < 2 ^ LENGTH(8)" by (rule unsigned_less)
  then have g: "unat (bc_guardian_count c) \<le> 255" by simp
  have h: "definite_header h \<Longrightarrow> length (cb_push cb h) \<le> 9" for h using assms(1) by (simp add: cbor_ok_def)
  have m: "length (concat (map (put_bytes cb) xs)) \<le> 255 * (k + 9)"
    if "list_all (\<lambda>x. length x \<le> k) xs" "length xs = unat (bc_guardian_count c)" "k < 2 ^ 64" for xs k
    using order_trans[OF put_many_length[OF assms(1) that(1,3)] mult_le_mono1[of "length xs" 255 "k + 9"]] that(2) g by simp
  have "length (concat (map (put_bytes cb) (bc_guardian_x25519_pubs c))) \<le> 255 * (32 + 9)"
    "length (concat (map (put_bytes cb) (bc_sealed_shares c))) \<le> 255 * (1024 + 9)"
    "length (concat (map (put_bytes cb) (bc_guardian_evm_addrs c))) \<le> 255 * (20 + 9)"
    using t f assms(3) by (intro m; auto simp: list_all_iff)+
  moreover have "length (put_bytes cb (bc_wrapped_recovery c)) \<le> 65545" "length (put_bytes cb (bc_vault_id c)) \<le> 41"
    "length (put_text cb (bc_vault_display_name c)) \<le> 4105"
    using t f h[of "HeaderBytes (Some (length (bc_wrapped_recovery c)))"] h[of "HeaderBytes (Some 32)"]
      h[of "HeaderText (Some (length (bc_vault_display_name c)))"] by (simp_all add: put_bytes_def put_text_def)
  moreover have "length (cb_push cb (HeaderArray (Some 11))) \<le> 9" "length (cb_push cb (HeaderArray (Some (unat (bc_guardian_count c))))) \<le> 9"
    using h g by simp_all
  moreover have "length (cb_push cb (Positive (bc_epoch c))) \<le> 9" "length (cb_push cb (Positive (ucast (bc_threshold c)))) \<le> 9"
    "length (cb_push cb (Positive (ucast (bc_guardian_count c)))) \<le> 9" "length (cb_push cb (Positive (bc_created_at_unix c))) \<le> 9"
    "length (cb_push cb (Positive (ucast BACKUP_SCHEMA_VERSION))) \<le> 9"
    using h by simp_all
  moreover have "length (bc_sealed_shares c) = unat (bc_guardian_count c)" "length (bc_guardian_evm_addrs c) = unat (bc_guardian_count c)"
    using f by simp_all
  ultimately show ?thesis
    using assms(3) by (simp add: encode_body_def)
qed

lemma sealed_forms:
  assumes "crypto_ok (be_crypto be)" "cbor_ok (be_cbor be)" "contents_typed c" "length salt = 16" "length nonce = 24"
    and "seal_backup be salt nonce c phrase = Inr blob"
  shows "if backup_fits c
    then decode_backup be blob phrase = Inr c \<and> decode_backup be (encode_text (cr_sha256 (be_crypto be)) blob) phrase = Inr c
    else (\<exists>e. decode_backup be blob phrase = Inl e) \<and> (\<exists>e. decode_backup be (encode_text (cr_sha256 (be_crypto be)) blob) phrase = Inl e)"
proof -
  have n: "length (bc_guardian_x25519_pubs c) = unat (bc_guardian_count c)"
    using sealed_parts[OF assms(1,6)] by metis
  note d = decode_encode_body[OF assms(2,3) n] fitting_body_length[OF assms(2,3) n]
    decode_sealed[OF assms(1,4-6), of blob] decode_sealed[OF assms(1,4-6), of "encode_text (cr_sha256 (be_crypto be)) blob"]
  show ?thesis using d by (auto split: if_splits)
qed

text \<open>
  C4. A backup sealed under a phrase decodes with that phrase to the contents it was sealed from, from
  its bytes and from its text form, exactly when the contents respect the limits of the decoder
  (as many shares and addresses as guardians, no all-zero address, and the length limits of the
  wrapped secret, the shares and the display name); other contents are sealed all the same and
  neither form ever opens.
\<close>

theorem sealed_backup_opens_iff:
  assumes "crypto_ok (be_crypto be)" "cbor_ok (be_cbor be)" "contents_typed c" "length salt = 16" "length nonce = 24"
    and "seal_backup be salt nonce c phrase = Inr blob"
  shows "if backup_fits c
    then decode_backup be blob phrase = Inr c \<and> decode_backup be (encode_text (cr_sha256 (be_crypto be)) blob) phrase = Inr c
    else (\<exists>e. decode_backup be blob phrase = Inl e) \<and> (\<exists>e. decode_backup be (encode_text (cr_sha256 (be_crypto be)) blob) phrase = Inl e)"
  by (rule sealed_forms[OF assms])

text \<open>A codec that writes every argument in eight bytes, and a backup with one guardian.\<close>

fun example_push :: "Header \<Rightarrow> bytes" where
  "example_push (Positive v) = 0x1B # u64_to_be_bytes v"
| "example_push (HeaderBytes (Some n)) = 0x5B # u64_to_be_bytes (of_nat n)"
| "example_push (HeaderText (Some n)) = 0x7B # u64_to_be_bytes (of_nat n)"
| "example_push (HeaderArray (Some n)) = 0x9B # u64_to_be_bytes (of_nat n)"
| "example_push _ = []"

definition example_pull :: "bytes \<Rightarrow> (Header \<times> bytes) option" where
  "example_pull bs = (if length bs < 9 then None else
     let v = u64_from_be_bytes (take 8 (drop 1 bs)); rest = drop 9 bs
     in if hd bs = 0x1B then Some (Positive v, rest) else if hd bs = 0x5B then Some (HeaderBytes (Some (unat v)), rest)
     else if hd bs = 0x7B then Some (HeaderText (Some (unat v)), rest)
     else if hd bs = 0x9B then Some (HeaderArray (Some (unat v)), rest) else None)"

definition example_be :: backup_env where
  "example_be = \<lparr> be_crypto = keyed_crypto, be_argon2 = \<lambda>_ _ _. Some (replicate 32 5),
     be_cbor = \<lparr> cb_push = example_push, cb_pull = example_pull \<rparr> \<rparr>"

definition example_backup :: "bytes \<Rightarrow> BackupContents" where
  "example_backup addr = \<lparr> bc_wrapped_recovery = replicate 48 1, bc_vault_id = replicate 32 2, bc_epoch = 3, bc_threshold = 1,
     bc_guardian_count = 1, bc_guardian_x25519_pubs = [replicate 32 4], bc_sealed_shares = [replicate 81 5],
     bc_guardian_evm_addrs = [addr], bc_vault_display_name = ascii ''home'', bc_created_at_unix = 1700000000 \<rparr>"

lemma example_cbor_ok: "cbor_ok (be_cbor example_be)"
proof -
  have "example_pull (example_push h @ rest) = Some (h, rest) \<and> length (example_push h) \<le> 9" if "definite_header h" for h rest
    using that by (cases h rule: definite_header.cases)
      (simp_all add: example_pull_def u64_be_bytes_roundtrip unat_of_nat Let_def)
  then show ?thesis by (simp add: cbor_ok_def example_be_def)
qed

lemma example_backup_sealed:
  assumes "length addr = 20"
  obtains blob where "seal_backup example_be (replicate 16 6) (replicate 24 7) (example_backup addr) (replicate 24 ''abandon'') = Inr blob"
proof -
  have w: "''abandon'' \<in> set BIP39_ENGLISH_WORDLIST" by (simp add: BIP39_ENGLISH_WORDLIST_def bip39_words_0_def)
  have kdf: "seed_phrase_to_kdf_input (replicate 24 ''abandon'') = Inr (join_words 0 [] (replicate 24 ''abandon''))"
    using w by (subst kdf_input_ok) auto
  have body: "length (encode_body (be_cbor example_be) (example_backup addr)) = 352"
    using assms by (simp add: encode_body_def example_be_def example_backup_def put_bytes_def put_text_def ascii_def)
  have "is_ok (seal_backup example_be (replicate 16 6) (replicate 24 7) (example_backup addr) (replicate 24 ''abandon''))"
    using body by (simp add: seal_backup_def kdf derive_key_def KdfParams_validate_def RECOMMENDED_def backup_auth_err_def map_err_def
        aead_key_seal_def KEY_LEN_def TAG_LEN_def Let_def) (simp add: example_be_def example_backup_def keyed_crypto_def KEY_LEN_def MIN_MEMORY_KIB_def MIN_TIME_COST_def MIN_PARALLELISM_def)
  then show ?thesis using that by (auto simp: is_ok_def split: sum.splits)
qed

lemma example_backup_typed: "length addr = 20 \<Longrightarrow> contents_typed (example_backup addr)"
  by (simp add: contents_typed_def example_backup_def ascii_def)

theorem sealed_backup_opens_iff_witness:
  "(\<exists>blob. seal_backup example_be (replicate 16 6) (replicate 24 7) (example_backup (replicate 20 8)) (replicate 24 ''abandon'') = Inr blob
      \<and> decode_backup example_be blob (replicate 24 ''abandon'') = Inr (example_backup (replicate 20 8))
      \<and> decode_backup example_be (encode_text (cr_sha256 keyed_crypto) blob) (replicate 24 ''abandon'') = Inr (example_backup (replicate 20 8)))
   \<and> (\<exists>blob e. seal_backup example_be (replicate 16 6) (replicate 24 7) (example_backup (replicate 20 0)) (replicate 24 ''abandon'') = Inr blob
      \<and> decode_backup example_be blob (replicate 24 ''abandon'') = Inl e)"
proof -
  have c: "crypto_ok (be_crypto example_be)" "be_crypto example_be = keyed_crypto"
    using keyed_crypto_ok by (simp_all add: example_be_def)
  have fits: "backup_fits (example_backup (replicate 20 8))" "\<not> backup_fits (example_backup (replicate 20 0))"
    by (simp_all add: backup_fits_def example_backup_def ascii_def list_all_iff)
  obtain b b' where b: "seal_backup example_be (replicate 16 6) (replicate 24 7) (example_backup (replicate 20 8)) (replicate 24 ''abandon'') = Inr b"
    "seal_backup example_be (replicate 16 6) (replicate 24 7) (example_backup (replicate 20 0)) (replicate 24 ''abandon'') = Inr b'"
    using example_backup_sealed[of "replicate 20 8"] example_backup_sealed[of "replicate 20 0"] length_replicate by metis
  have l: "length (replicate 20 (8 :: u8)) = 20" "length (replicate 20 (0 :: u8)) = 20" "length (replicate 16 (6 :: u8)) = 16"
    "length (replicate 24 (7 :: u8)) = 24" by simp_all
  note opens = sealed_backup_opens_iff[OF c(1) example_cbor_ok example_backup_typed[OF l(1)] l(3,4) b(1), unfolded if_P[OF fits(1)] c(2)]
    and refused = sealed_backup_opens_iff[OF c(1) example_cbor_ok example_backup_typed[OF l(2)] l(3,4) b(2), unfolded if_not_P[OF fits(2)]]
  show ?thesis using opens refused b by blast
qed

text \<open>
  A backup that a vault creates opens with the phrase returned beside it, from its bytes and from its
  text form, as long as the stored escrow respects the two length limits; the other limits hold of
  every escrow that could be read.
\<close>

lemma read_guardians_valid:
  assumes "read_recovery_escrow c vault_id vdk t = Inr (Some e)"
  shows "list_all (\<lambda>g. length (gd_guardian_x25519_pub g) = 32 \<and> length (gd_signer g) = 20 \<and> \<not> zero_signer (gd_signer g)) (sr_guardians e)"
proof -
  have "\<exists>epoch. collect_results (decode_guardian_row c vault_id epoch vdk) (sort_key gr_guardian_index (kt_guardians t))
      = Inr (sr_guardians e)"
    using assms by (cases "read_escrow_meta_row t") (auto simp: read_recovery_escrow_def and_then_Inr split: option.splits if_splits)
  then obtain epoch where "list_all2 (\<lambda>r g. decode_guardian_row c vault_id epoch vdk r = Inr g)
      (sort_key gr_guardian_index (kt_guardians t)) (sr_guardians e)" by (auto simp only: collect_results_ok)
  then show ?thesis
    by (induction rule: list_all2_induct)
      (auto simp: decode_guardian_row_def and_then_Inr GUARDIAN_SIGNER_LEN_def split: if_splits)
qed

lemma created_contents_typed:
  assumes "recovery_backup_contents ke kv = Inr (Some c)" "length (vm_vault_id (kt_meta (kv_keys kv))) = 32"
    and "length (bc_guardian_x25519_pubs c) = unat (bc_guardian_count c)"
    and "length (bc_wrapped_recovery c) \<le> 65536" "list_all (\<lambda>s. length s \<le> 1024) (bc_sealed_shares c)"
  shows "contents_typed c \<and> backup_fits c"
proof -
  obtain vdk e where e: "read_recovery_escrow (ke_crypto ke) (vm_vault_id (kt_meta (kv_keys kv))) vdk (kv_keys kv) = Inr (Some e)"
      "bc_vault_id c = vm_vault_id (kt_meta (kv_keys kv))" "bc_guardian_x25519_pubs c = map gd_guardian_x25519_pub (sr_guardians e)"
      "bc_sealed_shares c = map gd_sealed_share (sr_guardians e)" "bc_guardian_evm_addrs c = map gd_signer (sr_guardians e)"
      "bc_vault_display_name c = []"
    using assms(1) by (auto simp: recovery_backup_contents_def and_then_Inr Let_def split: option.splits)
  have "unat (bc_guardian_count c) < 2 ^ LENGTH(8)" by (rule unsigned_less)
  then have "unat (bc_guardian_count c) < 2 ^ 64" by simp
  then show ?thesis
    using read_guardians_valid[OF e(1)] e(2-6) assms(2-5)
    by (auto simp: contents_typed_def backup_fits_def list_all_iff)
qed

theorem created_backup_opens:
  assumes "crypto_ok (ke_crypto ke)" "cbor_ok cb" "length (vm_vault_id (kt_meta (kv_keys kv))) = 32"
    and "length (br_salt rng) = 16" "length (br_nonce rng) = 24"
    and create: "create_recovery_backup ke cb rng kv = Inr (Some (phrase, bs))"
  shows "\<exists>c. recovery_backup_contents ke kv = Inr (Some c)
    \<and> (length (bc_wrapped_recovery c) \<le> 65536 \<and> list_all (\<lambda>s. length s \<le> 1024) (bc_sealed_shares c) \<longrightarrow>
         (let be = \<lparr> be_crypto = ke_crypto ke, be_argon2 = ke_argon2 ke, be_cbor = cb \<rparr>
          in decode_backup be bs phrase = Inr c \<and> decode_backup be (encode_text (cr_sha256 (ke_crypto ke)) bs) phrase = Inr c))"
proof -
  let ?be = "\<lparr> be_crypto = ke_crypto ke, be_argon2 = ke_argon2 ke, be_cbor = cb \<rparr>"
  obtain c where c: "recovery_backup_contents ke kv = Inr (Some c)" "seal_backup ?be (br_salt rng) (br_nonce rng) c phrase = Inr bs"
  proof (cases "recovery_backup_contents ke kv")
    case (Inr r)
    then obtain c where "r = Some c" using create by (cases r) (auto simp: create_recovery_backup_def Let_def map_err_def)
    then show thesis
      using that create Inr by (auto simp: create_recovery_backup_def and_then_Inr Let_def map_err_def split: sum.splits)
  qed (use create in \<open>simp add: create_recovery_backup_def map_err_def Let_def\<close>)
  have ok: "crypto_ok (be_crypto ?be)" "cbor_ok (be_cbor ?be)" using assms(1,2) by simp_all
  have n: "length (bc_guardian_x25519_pubs c) = unat (bc_guardian_count c)" using sealed_parts[OF ok(1) c(2)] by metis
  have "decode_backup ?be bs phrase = Inr c \<and> decode_backup ?be (encode_text (cr_sha256 (ke_crypto ke)) bs) phrase = Inr c"
    if "length (bc_wrapped_recovery c) \<le> 65536" "list_all (\<lambda>s. length s \<le> 1024) (bc_sealed_shares c)"
  proof -
    note t = created_contents_typed[OF c(1) assms(3) n that]
    show ?thesis using sealed_forms[OF ok _ assms(4,5) c(2)] t by simp
  qed
  then show ?thesis using c(1) by (auto simp: Let_def)
qed

end
