(* ===== verification/Spec2Isabelle.thy ===== *)
theory Spec2Isabelle
  imports Vault_Machine Key_Machine Sync_Status Funder Backup_Envelope
begin

text \<open>
  A model of Pangolin, a password manager whose vault is a local database of encrypted revisions that
  devices exchange through an append-only log on a chain.

  \<^bold>\<open>The program.\<close> \<open>crates/pangolin-store\<close> holds the vault: a SQLite file with accounts, revisions,
  unpublished changes, sync positions and key material, and the operations of an open session.
  \<open>crates/pangolin-crypto\<close> wraps the keys, \<open>crates/pangolin-core\<close> composes guardian recovery, device
  pairing and key rotation, \<open>crates/pangolin-chain\<close> is the contract of the log, \<open>crates/pangolin-totp\<close>
  makes one-time codes, and \<open>services/funder\<close> pays the gas of new devices. A session unlocks the data
  key with a password; edits append revisions and leave a marker; a publish run signs the marked
  revisions and appends them to the log; a pull ingests the revisions of other devices, which may fork
  an account, and a resolution merges the fork. Rotation and recovery replace the data key.

  \<^bold>\<open>The theories.\<close>

  \<^item> \<open>Pangolin_Prelude\<close>: types, integer conversions, results, and the operations over a state that
    every component uses (\<open>op_bind\<close>, \<open>op_try\<close>, \<open>op_update\<close>), with the rules that carry an invariant
    through them. \<open>Bit_Strings\<close>: bit and byte conversions.
  \<^item> \<open>Revision_Graph\<close> (\<open>revision.rs\<close>): building the graph of an account, heads, canonical head,
    ancestors. The graph builds exactly on acyclic rows, in an order that ignores the input order.
  \<^item> \<open>Session_Policy\<close> (\<open>session.rs\<close>), \<open>Vault_State\<close> (\<open>vault.rs\<close>, session operations): deadlines,
    presence and identity proofs, unlock, lock, idle choice. A session never outlives its ceiling.
  \<^item> \<open>Search_Index\<close> (\<open>search.rs\<close>), \<open>Totp\<close> (\<open>pangolin-totp\<close>): the account index as a finite map, and
    one-time codes with the parsing of their secrets.
  \<^item> \<open>Vault_Accounts\<close>, \<open>Vault_Forks\<close> (\<open>vault.rs\<close>, \<open>blob.rs\<close>, \<open>conflict.rs\<close>): account operations,
    head queries, fork detection and resolution, conflict reports.
  \<^item> \<open>Chain_Ingest\<close> (\<open>vault.rs\<close>), \<open>Chain_Adapter\<close> (\<open>adapter.rs\<close>, \<open>mock.rs\<close>), \<open>Publish_Queue\<close>
    (\<open>publish.rs\<close>, \<open>dirty.rs\<close>): ingestion, rollback and promotion, the contract of the log as a
    locale with the in-memory chain as an instance, and the publish run.
  \<^item> \<open>Vault_Machine\<close>: the step relation of the session, account, fork, ingestion, reorganisation,
    checkpoint and publication operations and the invariant of every vault they reach; the key operations
    are the steps of \<open>Key_Machine\<close>.
  \<^item> \<open>Pairing_Transport\<close>, \<open>Key_Escrow\<close>, \<open>Recovery_Rotation\<close> (\<open>pangolin-core\<close>, \<open>pangolin-crypto\<close>):
    the pairing text, key wrapping, guardian shares, recovery and rotation artefacts.
  \<^item> \<open>Key_Tables\<close> (\<open>kdf.rs\<close>, \<open>meta.rs\<close>, \<open>vdk_chain.rs\<close>, \<open>recovery_escrow.rs\<close>, \<open>device.rs\<close>,
    \<open>multi_device.rs\<close>, \<open>evm.rs\<close>): the tables that hold key material, and what is read back from them.
  \<^item> \<open>Vault_Rekey\<close> (\<open>vault.rs\<close>, \<open>composition.rs\<close>): create, open, the key steps of unlock, recovery,
    rotation, onboarding, pairing, and their composition. Unlocking implements the unlock of
    \<open>Vault_State\<close>.
  \<^item> \<open>Key_Lifecycle\<close>, \<open>Key_Machine\<close>: what sequences of those operations do to a vault, and the type
    invariant of the key tables over all of them.
  \<^item> \<open>Bip39_Wordlist\<close>, \<open>Seed_Phrase\<close>, \<open>Backup_Envelope\<close> (\<open>recovery_backup.rs\<close>): the seed phrase over
    the embedded word list, and the sealed backup in its byte and text form. No entropy is lost on the way
    to the derivation, and a sealed backup opens exactly when its contents respect the decoder's limits.
  \<^item> \<open>Device_Registry\<close> (\<open>device.rs\<close>): labels, the listing of devices, and the rows that a sync adds for the
    signers it meets. A discovery leaves the local device in place exactly when the local row sorts before
    the new one, by registration time and then by identifier.
  \<^item> \<open>Chain_Reader\<close> (\<open>chain_sync.rs\<close>, \<open>chain_sync/\<close>, \<open>revisionlog_v2_client.rs\<close>): verification of
    logs, the chunked fetch, the reorganization detector and the authorized-device set.
  \<^item> \<open>Chain_Sync\<close>, \<open>Sync_Safety\<close> (\<open>vault.rs\<close>): the sync drivers of both contract versions. What the
    ingestion of an event, the checkpoint, the rollback and the promotion keep, a whole sync keeps; this is
    the locale \<open>sync_steps\<close>, with \<open>sync_stages\<close> for predicates of the tables alone. Its instances give that
    a sync stores every logged revision of its range and revokes the revisions of removed devices.
    \<open>Sync_Checkpoints\<close>: what a sync does not see, a reorganization between two calls, and that a sync from
    genesis stops at its first checkpoint.
  \<^item> \<open>Sync_Status\<close> (\<open>vault.rs\<close>, \<open>pull.rs\<close>, \<open>sync_status.rs\<close>, \<open>apps/cli/src/commands/sync_loop.rs\<close>): the
    choice of the sync mode, the pull cycle, the status of the host, the drain before a lock and the
    scheduler. The status describes the vault; the loop does not look at the session's deadline.
  \<^item> \<open>Rate_Limit\<close>, \<open>Funder\<close> (\<open>services/funder\<close>): the rate limiter under every interleaving, and the
    payment ledger with its resumption after a crash.

  \<^bold>\<open>How state and effects are modelled.\<close> A table is a list of rows in insertion order, a query is a
  filter or a stable sort of it, and a transaction is one function from state to state or an error. An
  operation takes a state to a result (\<open>Inl\<close> an error, \<open>Inr\<close> a value) and a state, so what a failing
  operation leaves behind is part of the model. Clock readings, random values and identifiers are
  arguments. Identifiers and keys are byte lists of stated length; integers have the width of the source
  where it matters (\<open>u8\<close>, \<open>u64\<close>), and an SQL integer is an \<open>int\<close> with the range checks of the source.
  A panic of the source is an error value.

  \<^bold>\<open>Parameters.\<close> Code outside the repository is an argument: the AEAD, HKDF, signatures, boxes and secret
  sharing (record \<open>crypto\<close>, documented behaviour \<open>crypto_ok\<close>), Argon2id and secp256k1 (record
  \<open>KeyEnv\<close>, \<open>key_env_ok\<close>), the payload codec and Keccak (record \<open>VaultEnv\<close>, \<open>keccak_ok\<close>), a chain
  adapter (\<open>adapter_ok\<close>), the connections to a node (record \<open>RpcView\<close>, answering as \<open>honest_logs\<close> says) with the
  generated event decoders, the contracts the funder calls (record \<open>FunderEnv\<close>), and the header codec of
  the CBOR crate (record \<open>cbor\<close>, \<open>cbor_ok\<close>). \<open>crypto_total\<close> adds that the primitives accept the inputs their
  crates document as valid (keys and nonces of their length, bounded messages, a threshold between two and
  the number of shares, the recommended Argon2id parameters with a sixteen-byte salt); it is used only for
  the theorems that an operation succeeds.
  Every theorem with such a hypothesis has a witness on concrete functions.

  \<^bold>\<open>Termination and bounds.\<close> The loops of the source are structural recursions or \<open>function\<close>s with a
  measure; the walks over the revision graph are partial functions with the value \<open>None\<close> for a walk that
  does not end, and the theorems show that they end on every graph that was built. The wallet derivation tries the 256 counters of the source. No theorem assumes
  that a loop ends.

  \<^bold>\<open>Not modelled.\<close> The Solidity contracts; the JSON-RPC transport and the transaction submission behind the
  adapter; the timing of subscriptions (their outcomes are arguments); the full-text query of the search index; SQL migrations; file handling, with the
  lock, journal and integrity checks of \<open>Vault::open\<close>; failing writes of the funder's ledger; the KDBX import; the indexer process; the bindings, the command line, the desktop
  application and the browser extension. They are input and output, third-party code, or glue over the
  operations above.
\<close>

end
